(* ===== verification/Prelude.thy ===== *)
theory Prelude
  imports "HOL-Library.Word" "HOL-Library.Signed_Division" "HOL-Library.Monad_Syntax"
begin

text \<open>
  Shared vocabulary of the development: the machine types of the Go sources, Go's 64-bit
  \<open>int\<close> arithmetic with its wrap-around written out, and generic lemmas on words, lists and sums
  that the component theories use.

  Conventions.  \<open>uint64\<close>, \<open>uint32\<close> and \<open>uint8\<close> are words.  Go's \<open>int\<close> is a
  HOL \<open>int\<close> in the range of a signed 64-bit integer; every addition or subtraction on it goes
  through \<open>goint\<close>, which wraps.  A function that can panic (nil dereference, index out of
  range, division by zero) or fail to return has an \<open>option\<close> result, \<open>None\<close> being the
  panic or the missing return.
\<close>

section \<open>Machine types\<close>

type_synonym u8 = "8 word"
type_synonym u32 = "32 word"
type_synonym u64 = "64 word"
type_synonym byte = "8 word"

named_theorems go_arith \<open>definitions of Go integer arithmetic\<close>
named_theorems go_bounds \<open>range facts that remove the wrap-around\<close>

section \<open>Go's 64-bit int\<close>

definition goint :: "int \<Rightarrow> int" where
  "goint x = signed_take_bit 63 x"

definition iadd :: "int \<Rightarrow> int \<Rightarrow> int" where
  "iadd a b = goint (a + b)"

definition isub :: "int \<Rightarrow> int \<Rightarrow> int" where
  "isub a b = goint (a - b)"

text \<open>Integer division truncates towards zero and panics on a zero divisor.\<close>

definition idiv :: "int \<Rightarrow> int \<Rightarrow> int option" where
  "idiv a b = (if b = 0 then None else Some (goint (a sdiv b)))"

text \<open>The conversions \<open>int(x)\<close> of a \<open>uint64\<close> and \<open>uint64(x)\<close> of an \<open>int\<close>.\<close>

definition u2i :: "u64 \<Rightarrow> int" where
  "u2i w = sint w"

definition i2u :: "int \<Rightarrow> u64" where
  "i2u x = word_of_int x"

definition in_int64 :: "int \<Rightarrow> bool" where
  "in_int64 x \<longleftrightarrow> - (2 ^ 63) \<le> x \<and> x < 2 ^ 63"

declare iadd_def [go_arith] isub_def [go_arith] idiv_def [go_arith]

lemma goint_id [go_bounds]: "in_int64 x \<Longrightarrow> goint x = x"
  by (simp add: goint_def in_int64_def signed_take_bit_int_eq_self_iff)

lemma goint_range: "in_int64 (goint x)"
  using signed_take_bit_int_greater_eq_minus_exp [of 63 x] signed_take_bit_int_less_exp [of 63 x]
  by (simp add: goint_def in_int64_def)

lemma u2i_range: "in_int64 (u2i w)"
proof -
  have "- (2 ^ (LENGTH(64) - 1)) \<le> sint w" "sint w < 2 ^ (LENGTH(64) - 1)"
    by (rule sint_ge, rule sint_lt)
  then show ?thesis by (simp add: u2i_def in_int64_def)
qed

lemma i2u_u2i [simp]: "i2u (u2i w) = w"
  by (simp add: i2u_def u2i_def)

lemma i2u_goint [simp]: "i2u (goint x) = i2u x"
proof -
  have "take_bit 64 (signed_take_bit 63 x) = take_bit 64 x"
    by (simp add: take_bit_signed_take_bit)
  then show ?thesis
    by (simp add: i2u_def goint_def word_of_int_eq_iff)
qed

lemma i2u_add: "i2u (a + b) = i2u a + i2u b"
  by (simp add: i2u_def)

lemma i2u_diff: "i2u (a - b) = i2u a - i2u b"
  by (simp add: i2u_def)

lemma i2u_0 [simp]: "i2u 0 = 0"
  by (simp add: i2u_def)

lemma i2u_1 [simp]: "i2u 1 = 1"
  by (simp add: i2u_def)

lemma u2i_i2u: "in_int64 x \<Longrightarrow> u2i (i2u x) = x"
  using goint_id [of x] by (simp add: u2i_def i2u_def goint_def sint_sbintrunc')

lemma u2i_small: "uint w < 2 ^ 63 \<Longrightarrow> u2i w = uint w"
  by (simp add: u2i_def sint_uint signed_take_bit_int_eq_self_iff order_trans [OF _ uint_ge_0])

section \<open>Generic lemmas\<close>

lemma unat_bound: "unat (w :: 'a::len word) < 2 ^ LENGTH('a)"
  by (rule unsigned_less)

lemma uint_ge_neg [simp]: "- numeral n \<le> uint w"
  by (rule order_trans [OF _ uint_ge_0]) simp

lemma unat_of_nat_64: "n < 2 ^ 64 \<Longrightarrow> unat (of_nat n :: u64) = n"
  by (simp add: unat_of_nat take_bit_nat_eq_self)

lemma unat_inc: "a < b \<Longrightarrow> unat (a + 1) = Suc (unat (a :: 'a::len word))"
proof -
  assume "a < b"
  then have "unat a < unat b" by (simp add: word_less_nat_alt)
  then have "unat a + 1 < 2 ^ LENGTH('a)" using unat_bound [of b] by linarith
  then show ?thesis by (simp add: unat_word_ariths(1))
qed

lemma sum_fun_upd_int:
  fixes f :: "'a \<Rightarrow> int"
  assumes "finite A" "x \<in> A"
  shows "(\<Sum>i\<in>A. (f(x := v)) i) = (\<Sum>i\<in>A. f i) - f x + v"
proof -
  have "(\<Sum>i\<in>A. (f(x := v)) i) = v + (\<Sum>i\<in>A - {x}. f i)"
    using assms by (simp add: sum.remove)
  moreover have "(\<Sum>i\<in>A. f i) = f x + (\<Sum>i\<in>A - {x}. f i)"
    using assms by (simp add: sum.remove)
  ultimately show ?thesis by simp
qed

lemma list_update_nth_eq: "i < length xs \<Longrightarrow> (xs[i := v]) ! j = (if i = j then v else xs ! j)"
  by simp

section \<open>Slices and counting loops\<close>

text \<open>Reading and writing a slice panic out of range.\<close>

definition list_get :: "'a list \<Rightarrow> nat \<Rightarrow> 'a option" where
  "list_get xs i = (if i < length xs then Some (xs ! i) else None)"

definition list_put :: "'a list \<Rightarrow> nat \<Rightarrow> 'a \<Rightarrow> 'a list option" where
  "list_put xs i v = (if i < length xs then Some (xs[i := v]) else None)"

text \<open>A loop over a range: the body gets the index and the loop's state, and may panic.\<close>

primrec for_each :: "('i \<Rightarrow> 's \<Rightarrow> 's option) \<Rightarrow> 'i list \<Rightarrow> 's \<Rightarrow> 's option" where
  "for_each f [] s = Some s"
| "for_each f (i # is) s = do { s' \<leftarrow> f i s; for_each f is s' }"

lemma for_each_invariant:
  assumes "\<And>i s. i \<in> set is \<Longrightarrow> P s \<Longrightarrow> \<exists>s'. f i s = Some s' \<and> P s'" "P s"
  shows "\<exists>s'. for_each f is s = Some s' \<and> P s'"
  using assms by (induction "is" arbitrary: s) fastforce+

end
