(* ===== verification/LinkedList.thy ===== *)
theory LinkedList
  imports Prelude
begin

text \<open>
  The embedded doubly linked list of \<open>src/utils/list.go\<close>, on an explicit store: a heap gives
  the \<open>Next\<close>, \<open>Prev\<close> and \<open>Value\<close> fields of every node address, and the operations
  are the assignments of the source in their order, so aliasing (a node that is its own neighbour, a
  node inserted twice) behaves as in Go.  A nil dereference is \<open>None\<close>.

  The abstraction is a family of lists on one heap: several heads, each with its own sequence of
  nodes, as the per-processor drained lists and the waiter queue have.  The locale
  \<open>intrusive_lists\<close> is the interface the clients rely on; its interpretation discharges the laws
  for the pointer operations.
\<close>

section \<open>Nodes and heaps\<close>

record ('a, 'v) heap =
  Next :: "'a \<Rightarrow> 'a option"
  Prev :: "'a \<Rightarrow> 'a option"
  Value :: "'a \<Rightarrow> 'v option"

definition set_Next :: "'a \<Rightarrow> 'a option \<Rightarrow> ('a, 'v) heap \<Rightarrow> ('a, 'v) heap" where
  "set_Next n v h = h\<lparr>Next := (Next h)(n := v)\<rparr>"

definition set_Prev :: "'a \<Rightarrow> 'a option \<Rightarrow> ('a, 'v) heap \<Rightarrow> ('a, 'v) heap" where
  "set_Prev n v h = h\<lparr>Prev := (Prev h)(n := v)\<rparr>"

definition set_Value :: "'a \<Rightarrow> 'v option \<Rightarrow> ('a, 'v) heap \<Rightarrow> ('a, 'v) heap" where
  "set_Value n v h = h\<lparr>Value := (Value h)(n := v)\<rparr>"

lemma heap_field_simps [simp]:
  "Next (set_Next n v h) = (Next h)(n := v)" "Prev (set_Next n v h) = Prev h"
  "Value (set_Next n v h) = Value h"
  "Next (set_Prev n v h) = Next h" "Prev (set_Prev n v h) = (Prev h)(n := v)"
  "Value (set_Prev n v h) = Value h"
  "Next (set_Value n u h) = Next h" "Prev (set_Value n u h) = Prev h"
  "Value (set_Value n u h) = (Value h)(n := u)"
  by (simp_all add: set_Next_def set_Prev_def set_Value_def)

section \<open>Operations of list.go\<close>

definition ListNode_Init :: "'a \<Rightarrow> 'v \<Rightarrow> ('a, 'v) heap \<Rightarrow> ('a, 'v) heap" where
  "ListNode_Init ln v h = set_Value ln (Some v) (set_Prev ln None (set_Next ln None h))"

definition ListNode_Del :: "'a \<Rightarrow> ('a, 'v) heap \<Rightarrow> ('a, 'v) heap option" where
  "ListNode_Del ln h = do {
     nx \<leftarrow> Next h ln;
     let h1 = set_Prev nx (Prev h ln) h;
     pv \<leftarrow> Prev h1 ln;
     let h2 = set_Next pv (Next h1 ln) h1;
     Some (set_Prev ln None (set_Next ln None h2))
   }"

definition ListHead_Init :: "'a \<Rightarrow> ('a, 'v) heap \<Rightarrow> ('a, 'v) heap" where
  "ListHead_Init lh h = set_Value lh None (set_Prev lh (Some lh) (set_Next lh (Some lh) h))"

definition ListHead_Empty :: "'a \<Rightarrow> ('a, 'v) heap \<Rightarrow> bool" where
  "ListHead_Empty lh h \<longleftrightarrow> Next h lh = Some lh"

definition ListHead_Add :: "'a \<Rightarrow> 'a \<Rightarrow> ('a, 'v) heap \<Rightarrow> ('a, 'v) heap option" where
  "ListHead_Add lh ln h = (
     let h1 = set_Next ln (Next h lh) h;
         h2 = set_Prev ln (Some lh) h1
     in do {
       nx \<leftarrow> Next h2 lh;
       let h3 = set_Prev nx (Some ln) h2;
       Some (set_Next lh (Some ln) h3)
     })"

definition ListHead_AddTail :: "'a \<Rightarrow> 'a \<Rightarrow> ('a, 'v) heap \<Rightarrow> ('a, 'v) heap option" where
  "ListHead_AddTail lh ln h = (
     let h1 = set_Next ln (Some lh) h;
         h2 = set_Prev ln (Prev h1 lh) h1
     in do {
       pv \<leftarrow> Prev h2 lh;
       let h3 = set_Next pv (Some ln) h2;
       Some (set_Prev lh (Some ln) h3)
     })"

definition ListHead_Del :: "'a \<Rightarrow> 'a \<Rightarrow> ('a, 'v) heap \<Rightarrow> ('a, 'v) heap option" where
  "ListHead_Del lh ln h = ListNode_Del ln h"

text \<open>\<open>Top\<close>, \<open>Tail\<close> and \<open>Pop\<close> return a pointer to the owner, nil on an empty list.\<close>

definition ListHead_Top :: "'a \<Rightarrow> ('a, 'v) heap \<Rightarrow> 'v option option" where
  "ListHead_Top lh h =
     (if ListHead_Empty lh h then Some None else do { n \<leftarrow> Next h lh; Some (Value h n) })"

definition ListHead_Tail :: "'a \<Rightarrow> ('a, 'v) heap \<Rightarrow> 'v option option" where
  "ListHead_Tail lh h =
     (if ListHead_Empty lh h then Some None else do { n \<leftarrow> Prev h lh; Some (Value h n) })"

definition ListHead_Pop :: "'a \<Rightarrow> ('a, 'v) heap \<Rightarrow> ('v option \<times> ('a, 'v) heap) option" where
  "ListHead_Pop lh h =
     (if ListHead_Empty lh h then Some (None, h)
      else do {
        ln \<leftarrow> Next h lh;
        h' \<leftarrow> ListHead_Del lh ln h;
        Some (Value h' ln, h')
      })"

text \<open>
  \<open>ForEach\<close> follows \<open>Next\<close> until it is back at the head; on a corrupt list it need not stop,
  so the loop is a partial function.
\<close>

partial_function (option) ForEach_loop ::
  "'a \<Rightarrow> (int \<Rightarrow> 'v option \<Rightarrow> 's \<Rightarrow> 's) \<Rightarrow> ('a, 'v) heap \<Rightarrow> int \<Rightarrow> 'a \<Rightarrow> 's \<Rightarrow> 's option" where
  "ForEach_loop lh fn h i node s =
     (if node = lh then Some s
      else (case Next h node of
              None \<Rightarrow> None
            | Some n \<Rightarrow> ForEach_loop lh fn h (i + 1) n (fn i (Value h node) s)))"

definition ListHead_ForEach ::
  "'a \<Rightarrow> (int \<Rightarrow> 'v option \<Rightarrow> 's \<Rightarrow> 's) \<Rightarrow> ('a, 'v) heap \<Rightarrow> 's \<Rightarrow> 's option" where
  "ListHead_ForEach lh fn h s =
     (if ListHead_Empty lh h then Some s
      else do { n \<leftarrow> Next h lh; ForEach_loop lh fn h 0 n s })"

section \<open>Linked segments\<close>

text \<open>
  \<open>dseg h a xs b\<close>: from \<open>a\<close> one reaches \<open>b\<close> through exactly the nodes \<open>xs\<close>, with
  both link fields consistent along the way.
\<close>

primrec dseg :: "('a, 'v) heap \<Rightarrow> 'a \<Rightarrow> 'a list \<Rightarrow> 'a \<Rightarrow> bool" where
  "dseg h a [] b \<longleftrightarrow> Next h a = Some b \<and> Prev h b = Some a"
| "dseg h a (x # xs) b \<longleftrightarrow> Next h a = Some x \<and> Prev h x = Some a \<and> dseg h x xs b"

lemma dseg_append: "dseg h a (xs @ x # ys) b \<longleftrightarrow> dseg h a xs x \<and> dseg h x ys b"
  by (induction xs arbitrary: a) auto

lemma dseg_Next: "dseg h a xs b \<Longrightarrow> Next h a = Some (hd (xs @ [b]))"
  by (cases xs) auto

lemma dseg_Prev: "dseg h a xs b \<Longrightarrow> Prev h b = Some (last (a # xs))"
  by (induction xs arbitrary: a) auto

lemma dseg_cong:
  "\<lbrakk>\<And>n. n \<in> set (a # xs) \<Longrightarrow> Next h' n = Next h n;
    \<And>n. n \<in> set (xs @ [b]) \<Longrightarrow> Prev h' n = Prev h n\<rbrakk>
   \<Longrightarrow> dseg h' a xs b \<longleftrightarrow> dseg h a xs b"
  by (induction xs arbitrary: a) auto

text \<open>Unlinking the first node, and linking a fresh node in front or at the end.\<close>

lemma dseg_snoc_link:
  assumes "dseg h a xs b" "n \<notin> set (a # xs)" "n \<noteq> b" "distinct (a # xs)" "b \<notin> set xs"
  shows "dseg (set_Prev b (Some n) (set_Next (last (a # xs)) (Some n)
            (set_Prev n (Some (last (a # xs))) (set_Next n (Some b) h)))) a (xs @ [n]) b"
  using assms
proof (induction xs arbitrary: a)
  case Nil
  then show ?case by simp
next
  case (Cons x xs)
  let ?l = "last (x # xs)"
  have "dseg (set_Prev b (Some n) (set_Next ?l (Some n)
            (set_Prev n (Some ?l) (set_Next n (Some b) h)))) x (xs @ [n]) b"
    using Cons.prems by (intro Cons.IH) auto
  moreover have "?l \<noteq> a"
    using Cons.prems(4) last_in_set [of "x # xs"] by (metis distinct.simps(2) list.discI)
  ultimately show ?case using Cons.prems by auto
qed

lemma dseg_cons_link:
  assumes "dseg h a xs b" "n \<notin> set (a # xs)" "n \<noteq> b" "distinct (a # xs)" "b \<notin> set xs"
  shows "dseg (set_Next a (Some n) (set_Prev (hd (xs @ [b])) (Some n)
            (set_Prev n (Some a) (set_Next n (Some (hd (xs @ [b]))) h)))) a (n # xs) b"
proof (cases xs)
  case Nil
  then show ?thesis using assms by simp
next
  case (Cons x ys)
  have "dseg (set_Next a (Some n) (set_Prev x (Some n) (set_Prev n (Some a) (set_Next n (Some x) h)))) x ys b
      \<longleftrightarrow> dseg h x ys b"
    using assms Cons by (intro dseg_cong) auto
  then show ?thesis using assms Cons by auto
qed

lemma dseg_unlink:
  assumes "dseg h a (ys @ n # zs) b" "n \<noteq> a" "n \<noteq> b" "distinct (a # ys @ n # zs)"
    "b \<notin> set (ys @ n # zs)"
  shows "dseg (set_Next (last (a # ys)) (Some (hd (zs @ [b])))
                (set_Prev (hd (zs @ [b])) (Some (last (a # ys))) h)) a (ys @ zs) b"
  using assms
proof (induction ys arbitrary: a)
  case Nil
  then have n: "Next h a = Some n" "Prev h n = Some a" and zs: "dseg h n zs b" by auto
  show ?case
  proof (cases zs)
    case Nil
    then show ?thesis by simp
  next
    case (Cons z zs')
    have "dseg (set_Next a (Some z) (set_Prev z (Some a) h)) z zs' b \<longleftrightarrow> dseg h z zs' b"
      using Nil.prems Cons by (intro dseg_cong) auto
    then show ?thesis using zs Cons by simp
  qed
next
  case (Cons y ys)
  let ?l = "last (y # ys)" and ?f = "hd (zs @ [b])"
  have ih: "dseg (set_Next ?l (Some ?f) (set_Prev ?f (Some ?l) h)) y (ys @ zs) b"
    using Cons.prems by (intro Cons.IH) auto
  have "?l \<in> set (y # ys)" by (rule last_in_set) simp
  then have "?l \<noteq> a" using Cons.prems(4) by auto
  moreover have "?f \<noteq> y"
    using Cons.prems by (cases zs) auto
  ultimately show ?case using ih Cons.prems(1) by simp
qed

section \<open>A family of lists on one heap\<close>

definition dlists :: "'a set \<Rightarrow> ('a, 'v) heap \<Rightarrow> ('a \<Rightarrow> 'a list) \<Rightarrow> bool" where
  "dlists H h L \<longleftrightarrow>
     (\<forall>a\<in>H. dseg h a (L a) a \<and> distinct (L a) \<and> set (L a) \<inter> H = {}) \<and>
     (\<forall>a\<in>H. \<forall>b\<in>H. a \<noteq> b \<longrightarrow> set (L a) \<inter> set (L b) = {})"

definition unlinked :: "'a set \<Rightarrow> ('a \<Rightarrow> 'a list) \<Rightarrow> 'a \<Rightarrow> bool" where
  "unlinked H L n \<longleftrightarrow> n \<notin> H \<and> (\<forall>a\<in>H. n \<notin> set (L a))"

lemma dlistsD:
  assumes "dlists H h L" "a \<in> H"
  shows "dseg h a (L a) a" "distinct (L a)" "set (L a) \<inter> H = {}" "a \<notin> set (L a)"
  using assms unfolding dlists_def by blast+

lemma dlists_disjoint: "dlists H h L \<Longrightarrow> a \<in> H \<Longrightarrow> b \<in> H \<Longrightarrow> a \<noteq> b \<Longrightarrow> set (L a) \<inter> set (L b) = {}"
  unfolding dlists_def by blast

text \<open>
  Changing the links inside one list, possibly together with a node of no list, leaves the other
  lists as they are.
\<close>

lemma dlists_update:
  assumes dl: "dlists H h L" and a: "a \<in> H"
    and seg: "dseg h' a xs a" and dist: "distinct xs" and nH: "set xs \<inter> H = {}"
    and fresh: "\<And>b. b \<in> H \<Longrightarrow> b \<noteq> a \<Longrightarrow> set xs \<inter> set (L b) = {}"
    and fr: "\<And>m. m \<notin> M \<Longrightarrow> Next h' m = Next h m \<and> Prev h' m = Prev h m"
    and M: "\<And>b. b \<in> H \<Longrightarrow> b \<noteq> a \<Longrightarrow> M \<inter> insert b (set (L b)) = {}"
  shows "dlists H h' (L(a := xs))"
proof -
  have "dseg h' b (L b) b" if "b \<in> H" "b \<noteq> a" for b
  proof -
    have "dseg h' b (L b) b \<longleftrightarrow> dseg h b (L b) b"
      using M [OF that] fr by (intro dseg_cong) auto
    then show ?thesis using dlistsD(1) [OF dl that(1)] by simp
  qed
  then show ?thesis
    using seg dist nH fresh dl a unfolding dlists_def by (auto simp: Int_commute)
qed

lemma dlists_Empty: "dlists H h L \<Longrightarrow> a \<in> H \<Longrightarrow> ListHead_Empty a h \<longleftrightarrow> L a = []"
  using dlistsD(1,4) [of H h L a] dseg_Next [of h a "L a" a]
  by (cases "L a") (auto simp: ListHead_Empty_def)

lemma dlists_hd_last:
  assumes "dlists H h L" "a \<in> H" "L a \<noteq> []"
  shows "Next h a = Some (hd (L a))" "Prev h a = Some (last (L a))"
  using dseg_Next [OF dlistsD(1) [OF assms(1,2)]] dseg_Prev [OF dlistsD(1) [OF assms(1,2)]] assms(3)
  by simp_all

lemma dlists_AddTail:
  assumes dl: "dlists H h L" and a: "a \<in> H" and n: "unlinked H L n"
  shows "\<exists>h'. ListHead_AddTail a n h = Some h' \<and> dlists H h' (L(a := L a @ [n])) \<and> Value h' = Value h"
proof -
  let ?l = "last (a # L a)"
  let ?h = "set_Prev a (Some n) (set_Next ?l (Some n) (set_Prev n (Some ?l) (set_Next n (Some a) h)))"
  note d = dlistsD [OF dl a]
  have na: "n \<noteq> a" "n \<notin> set (L a)" "n \<notin> H" using n a by (auto simp: unlinked_def)
  have pv: "Prev h a = Some ?l" by (rule dseg_Prev [OF d(1)])
  have r: "ListHead_AddTail a n h = Some ?h"
    using pv na by (simp add: ListHead_AddTail_def Let_def)
  have seg: "dseg ?h a (L a @ [n]) a"
    using d na by (intro dseg_snoc_link) auto
  have lin: "?l \<in> insert a (set (L a))" by auto
  have "dlists H ?h (L(a := L a @ [n]))"
  proof (rule dlists_update [OF dl a seg, where M = "{a, n, ?l}"])
    show "distinct (L a @ [n])" using d na by simp
    show "set (L a @ [n]) \<inter> H = {}" using d na by auto
    show "set (L a @ [n]) \<inter> set (L b) = {}" if "b \<in> H" "b \<noteq> a" for b
      using dlists_disjoint [OF dl a that(1)] that n by (auto simp: unlinked_def)
    show "Next ?h m = Next h m \<and> Prev ?h m = Prev h m" if "m \<notin> {a, n, ?l}" for m
      using that by simp
    show "{a, n, ?l} \<inter> insert b (set (L b)) = {}" if "b \<in> H" "b \<noteq> a" for b
      using lin dlists_disjoint [OF dl a that(1)] that n dlistsD(3) [OF dl that(1)] d(3) a
      by (auto simp: unlinked_def)
  qed
  then show ?thesis using r by simp
qed

lemma dlists_Add:
  assumes dl: "dlists H h L" and a: "a \<in> H" and n: "unlinked H L n"
  shows "\<exists>h'. ListHead_Add a n h = Some h' \<and> dlists H h' (L(a := n # L a)) \<and> Value h' = Value h"
proof -
  let ?f = "hd (L a @ [a])"
  let ?h = "set_Next a (Some n) (set_Prev ?f (Some n) (set_Prev n (Some a) (set_Next n (Some ?f) h)))"
  note d = dlistsD [OF dl a]
  have na: "n \<noteq> a" "n \<notin> set (L a)" "n \<notin> H" using n a by (auto simp: unlinked_def)
  have nx: "Next h a = Some ?f" by (rule dseg_Next [OF d(1)])
  have r: "ListHead_Add a n h = Some ?h"
    using nx na by (simp add: ListHead_Add_def Let_def)
  have seg: "dseg ?h a (n # L a) a"
    using d na by (intro dseg_cons_link) auto
  have fin: "?f \<in> insert a (set (L a))" by (cases "L a") auto
  have "dlists H ?h (L(a := n # L a))"
  proof (rule dlists_update [OF dl a seg, where M = "{a, n, ?f}"])
    show "distinct (n # L a)" using d na by simp
    show "set (n # L a) \<inter> H = {}" using d na by auto
    show "set (n # L a) \<inter> set (L b) = {}" if "b \<in> H" "b \<noteq> a" for b
      using dlists_disjoint [OF dl a that(1)] that n by (auto simp: unlinked_def)
    show "Next ?h m = Next h m \<and> Prev ?h m = Prev h m" if "m \<notin> {a, n, ?f}" for m
      using that by simp
    show "{a, n, ?f} \<inter> insert b (set (L b)) = {}" if "b \<in> H" "b \<noteq> a" for b
      using fin dlists_disjoint [OF dl a that(1)] that n dlistsD(3) [OF dl that(1)] d(3) a
      by (auto simp: unlinked_def)
  qed
  then show ?thesis using r by simp
qed

lemma dlists_Del:
  assumes dl: "dlists H h L" and a: "a \<in> H" and n: "n \<in> set (L a)"
  shows "\<exists>h'. ListNode_Del n h = Some h' \<and> dlists H h' (L(a := remove1 n (L a))) \<and> Value h' = Value h"
proof -
  note d = dlistsD [OF dl a]
  obtain ys zs where L: "L a = ys @ n # zs" and nys: "n \<notin> set ys"
    using split_list_first [OF n] by blast
  let ?l = "last (a # ys)" and ?f = "hd (zs @ [a])"
  have na: "n \<noteq> a" using n d(4) by auto
  have seg2: "dseg h a ys n" "dseg h n zs a" using d(1) unfolding L dseg_append by simp_all
  have pv: "Prev h n = Some ?l" by (rule dseg_Prev [OF seg2(1)])
  have nx: "Next h n = Some ?f" by (rule dseg_Next [OF seg2(2)])
  have fn: "?f \<noteq> n" using d(2) na unfolding L by (cases zs) auto
  have ln: "?l \<noteq> n" using d(2) na nys unfolding L by auto
  let ?g = "set_Next ?l (Some ?f) (set_Prev ?f (Some ?l) h)"
  let ?h = "set_Prev n None (set_Next n None ?g)"
  have r: "ListNode_Del n h = Some ?h"
    using pv nx fn by (simp add: ListNode_Del_def Let_def)
  have "dseg ?g a (ys @ zs) a"
    using d na unfolding L by (intro dseg_unlink) auto
  moreover have "dseg ?h a (ys @ zs) a \<longleftrightarrow> dseg ?g a (ys @ zs) a"
    using d(2,4) na nys unfolding L by (intro dseg_cong) auto
  ultimately have seg: "dseg ?h a (remove1 n (L a)) a"
    using nys by (simp add: L remove1_append)
  have lin: "?l \<in> insert a (set (L a))" and fin: "?f \<in> insert a (set (L a))"
    unfolding L by (cases zs; auto)+
  have sub: "set (remove1 n (L a)) \<subseteq> set (L a)" by (rule set_remove1_subset)
  have "dlists H ?h (L(a := remove1 n (L a)))"
  proof (rule dlists_update [OF dl a seg, where M = "{n, ?l, ?f}"])
    show "distinct (remove1 n (L a))" using d(2) by simp
    show "set (remove1 n (L a)) \<inter> H = {}" using sub d(3) by blast
    show "set (remove1 n (L a)) \<inter> set (L b) = {}" if "b \<in> H" "b \<noteq> a" for b
      using sub dlists_disjoint [OF dl a that(1)] that by blast
    show "Next ?h m = Next h m \<and> Prev ?h m = Prev h m" if "m \<notin> {n, ?l, ?f}" for m
      using that by simp
    show "{n, ?l, ?f} \<inter> insert b (set (L b)) = {}" if "b \<in> H" "b \<noteq> a" for b
    proof -
      have "insert a (set (L a)) \<inter> insert b (set (L b)) = {}"
        using dlists_disjoint [OF dl a that(1)] that dlistsD(3) [OF dl that(1)] d(3) a by auto
      moreover have "{n, ?l, ?f} \<subseteq> insert a (set (L a))" using lin fin n by simp
      ultimately show ?thesis by blast
    qed
  qed
  then show ?thesis using r by simp
qed

lemma dlists_Tail:
  assumes "dlists H h L" "a \<in> H"
  shows "ListHead_Tail a h = Some (if L a = [] then None else Value h (last (L a)))"
  using dlists_Empty [OF assms] dlists_hd_last [OF assms] by (simp add: ListHead_Tail_def)

lemma dlists_Top:
  assumes "dlists H h L" "a \<in> H"
  shows "ListHead_Top a h = Some (if L a = [] then None else Value h (hd (L a)))"
  using dlists_Empty [OF assms] dlists_hd_last [OF assms] by (simp add: ListHead_Top_def)

lemma dlists_Pop_empty:
  assumes "dlists H h L" "a \<in> H" "L a = []"
  shows "ListHead_Pop a h = Some (None, h)"
  using dlists_Empty [OF assms(1,2)] assms(3) by (simp add: ListHead_Pop_def)

lemma dlists_Pop:
  assumes "dlists H h L" "a \<in> H" "L a = n # xs"
  shows "\<exists>h'. ListHead_Pop a h = Some (Value h n, h') \<and> dlists H h' (L(a := xs)) \<and> Value h' = Value h"
proof -
  from assms have "n \<in> set (L a)" by simp
  from dlists_Del [OF assms(1,2) this] obtain h' where
    h': "ListNode_Del n h = Some h'" "dlists H h' (L(a := xs))" "Value h' = Value h"
    using assms(3) by auto
  moreover have "\<not> ListHead_Empty a h" "Next h a = Some n"
    using dlists_Empty [OF assms(1,2)] dlists_hd_last(1) [OF assms(1,2)] assms(3) by auto
  then have "ListHead_Pop a h = Some (Value h n, h')"
    using h'(1,3) by (simp add: ListHead_Pop_def ListHead_Del_def)
  ultimately show ?thesis by blast
qed

lemma dlists_NodeInit:
  assumes "dlists H h L" "unlinked H L n"
  shows "dlists H (ListNode_Init n v h) L"
proof -
  have "dseg (ListNode_Init n v h) b (L b) b \<longleftrightarrow> dseg h b (L b) b" if "b \<in> H" for b
    using assms that by (intro dseg_cong) (auto simp: ListNode_Init_def unlinked_def)
  then show ?thesis using assms by (auto simp: dlists_def)
qed

lemma dlists_Init:
  assumes "dlists H h L" "unlinked H L a"
  shows "dlists (insert a H) (ListHead_Init a h) (L(a := []))"
proof -
  have "dseg (ListHead_Init a h) b (L b) b \<longleftrightarrow> dseg h b (L b) b" if "b \<in> H" for b
    using assms that by (intro dseg_cong) (auto simp: ListHead_Init_def unlinked_def)
  then show ?thesis
    using assms by (auto simp: dlists_def unlinked_def ListHead_Init_def)
qed

section \<open>Traversal\<close>

lemma ForEach_loop_seg:
  assumes "dseg h node xs lh" "lh \<notin> set (node # xs)"
  shows "ForEach_loop lh fn h i node s =
    Some (fold (\<lambda>(k, n). fn k (Value h n)) (zip (map (\<lambda>k. i + int k) [0..<length (node # xs)]) (node # xs)) s)"
  using assms
proof (induction xs arbitrary: node i s)
  case Nil
  then show ?case by (simp add: ForEach_loop.simps)
next
  case (Cons x xs)
  have "ForEach_loop lh fn h i node s = ForEach_loop lh fn h (i + 1) x (fn i (Value h node) s)"
    using Cons.prems by (subst ForEach_loop.simps) auto
  also have "\<dots> = Some (fold (\<lambda>(k, n). fn k (Value h n))
      (zip (map (\<lambda>k. i + 1 + int k) [0..<length (x # xs)]) (x # xs)) (fn i (Value h node) s))"
    using Cons.prems by (intro Cons.IH) auto
  also have "map (\<lambda>k. i + 1 + int k) [0..<length (x # xs)] = map (\<lambda>k. i + int k) [1..<length (node # x # xs)]"
    by (rule nth_equalityI) (auto simp del: upt_Suc)
  finally show ?case
    by (simp add: upt_conv_Cons del: upt_Suc)
qed

lemma ForEach_self_loop:
  fixes h :: "('a, 'v) heap" and fn :: "int \<Rightarrow> 'v option \<Rightarrow> 's \<Rightarrow> 's"
  assumes ret: "ForEach_loop lh fn h i n s = Some r"
    and "n \<noteq> lh" "Next h n = Some n"
  shows False
proof -
  have "n \<noteq> lh \<longrightarrow> Next h n = Some n \<longrightarrow> False"
  proof (rule ForEach_loop.raw_induct [where P = "\<lambda>lh fn h i n s r. n \<noteq> lh \<longrightarrow> Next h n = Some n \<longrightarrow> False", OF _ ret])
    fix f :: "'a \<Rightarrow> (int \<Rightarrow> 'v option \<Rightarrow> 's \<Rightarrow> 's) \<Rightarrow> ('a, 'v) heap \<Rightarrow> int \<Rightarrow> 'a \<Rightarrow> 's \<Rightarrow> 's option"
      and lh :: 'a and fn :: "int \<Rightarrow> 'v option \<Rightarrow> 's \<Rightarrow> 's" and h :: "('a, 'v) heap" and i n s r
    assume IH: "\<And>lh fn h i n s r. f lh fn h i n s = Some r \<Longrightarrow> n \<noteq> lh \<longrightarrow> Next h n = Some n \<longrightarrow> False"
      and eq: "(if n = lh then Some s else case Next h n of None \<Rightarrow> None
          | Some n' \<Rightarrow> f lh fn h (i + 1) n' (fn i (Value h n) s)) = Some r"
    show "n \<noteq> lh \<longrightarrow> Next h n = Some n \<longrightarrow> False"
    proof (intro impI)
      assume n: "n \<noteq> lh" "Next h n = Some n"
      then have "f lh fn h (i + 1) n (fn i (Value h n) s) = Some r" using eq by simp
      from IH [OF this] n show False by simp
    qed
  qed
  with assms show False by simp
qed

section \<open>The interface of the list family\<close>

text \<open>
  What a client of the embedded lists relies on: which node sequences the heads have after each
  operation, and that no operation panics on nodes that are linked as the operation expects.
\<close>

locale intrusive_lists =
  fixes inv :: "'h \<Rightarrow> ('a \<Rightarrow> 'a list) \<Rightarrow> bool" and heads :: "'a set"
    and val :: "'h \<Rightarrow> 'a \<Rightarrow> 'v option"
    and is_empty :: "'a \<Rightarrow> 'h \<Rightarrow> bool" and tail :: "'a \<Rightarrow> 'h \<Rightarrow> 'v option option"
    and add :: "'a \<Rightarrow> 'a \<Rightarrow> 'h \<Rightarrow> 'h option" and addTail :: "'a \<Rightarrow> 'a \<Rightarrow> 'h \<Rightarrow> 'h option"
    and del :: "'a \<Rightarrow> 'h \<Rightarrow> 'h option" and pop :: "'a \<Rightarrow> 'h \<Rightarrow> ('v option \<times> 'h) option"
  assumes disjoint: "inv h L \<Longrightarrow> a \<in> heads \<Longrightarrow> b \<in> heads \<Longrightarrow> a \<noteq> b \<Longrightarrow> set (L a) \<inter> set (L b) = {}"
    and distinct_list: "inv h L \<Longrightarrow> a \<in> heads \<Longrightarrow> distinct (L a)"
    and no_head: "inv h L \<Longrightarrow> a \<in> heads \<Longrightarrow> set (L a) \<inter> heads = {}"
    and is_empty: "inv h L \<Longrightarrow> a \<in> heads \<Longrightarrow> is_empty a h \<longleftrightarrow> L a = []"
    and tail: "inv h L \<Longrightarrow> a \<in> heads \<Longrightarrow> tail a h = Some (if L a = [] then None else val h (last (L a)))"
    and add: "inv h L \<Longrightarrow> a \<in> heads \<Longrightarrow> unlinked heads L n \<Longrightarrow>
      \<exists>h'. add a n h = Some h' \<and> inv h' (L(a := n # L a)) \<and> val h' = val h"
    and addTail: "inv h L \<Longrightarrow> a \<in> heads \<Longrightarrow> unlinked heads L n \<Longrightarrow>
      \<exists>h'. addTail a n h = Some h' \<and> inv h' (L(a := L a @ [n])) \<and> val h' = val h"
    and del: "inv h L \<Longrightarrow> a \<in> heads \<Longrightarrow> n \<in> set (L a) \<Longrightarrow>
      \<exists>h'. del n h = Some h' \<and> inv h' (L(a := remove1 n (L a))) \<and> val h' = val h"
    and pop_empty: "inv h L \<Longrightarrow> a \<in> heads \<Longrightarrow> L a = [] \<Longrightarrow> pop a h = Some (None, h)"
    and pop: "inv h L \<Longrightarrow> a \<in> heads \<Longrightarrow> L a = n # xs \<Longrightarrow>
      \<exists>h'. pop a h = Some (val h n, h') \<and> inv h' (L(a := xs)) \<and> val h' = val h"
begin

lemma unlinked_after_del:
  assumes "inv h L" "a \<in> heads" "n \<in> set (L a)"
  shows "unlinked heads (L(a := remove1 n (L a))) n"
proof -
  have "n \<notin> heads" using no_head [OF assms(1,2)] assms(3) by blast
  moreover have "n \<notin> set (L b)" if "b \<in> heads" "b \<noteq> a" for b
    using disjoint [OF assms(1,2) that(1)] that(2) assms(3) by blast
  moreover have "n \<notin> set (remove1 n (L a))"
    using distinct_list [OF assms(1,2)] by simp
  ultimately show ?thesis unfolding unlinked_def by simp
qed

text \<open>Moving a node from one list to the end of another: the two calls of the demotion loop.\<close>

lemma move_to_tail:
  assumes "inv h L" "a \<in> heads" "b \<in> heads" "a \<noteq> b" "n \<in> set (L a)"
  shows "\<exists>h1 h2. del n h = Some h1 \<and> addTail b n h1 = Some h2 \<and>
           inv h2 (L(a := remove1 n (L a), b := L b @ [n])) \<and> val h2 = val h"
proof -
  from del [OF assms(1,2,5)] obtain h1 where
    h1: "del n h = Some h1" "inv h1 (L(a := remove1 n (L a)))" "val h1 = val h" by blast
  from addTail [OF h1(2) assms(3) unlinked_after_del [OF assms(1,2,5)]] obtain h2 where
    "addTail b n h1 = Some h2" "inv h2 (L(a := remove1 n (L a), b := L b @ [n]))" "val h2 = val h1"
    using assms(4) by auto
  with h1 show ?thesis by auto
qed

text \<open>First in, first out: a node appended to a non-empty list leaves the front as it is.\<close>

lemma pop_after_addTail:
  assumes "inv h L" "a \<in> heads" "unlinked heads L n"
  shows "\<exists>h1 h2. addTail a n h = Some h1 \<and> pop a h1 = Some (val h (hd (L a @ [n])), h2) \<and>
           inv h2 (L(a := tl (L a @ [n])))"
proof -
  from addTail [OF assms] obtain h1 where
    h1: "addTail a n h = Some h1" "inv h1 (L(a := L a @ [n]))" "val h1 = val h" by blast
  have "(L(a := L a @ [n])) a = hd (L a @ [n]) # tl (L a @ [n])" by simp
  from pop [OF h1(2) assms(2) this] obtain h2 where
    "pop a h1 = Some (val h1 (hd (L a @ [n])), h2)" "inv h2 (L(a := tl (L a @ [n])))"
    unfolding fun_upd_upd by blast
  with h1 show ?thesis by simp
qed

end

interpretation dl: intrusive_lists "dlists H" H Value ListHead_Empty ListHead_Tail
  ListHead_Add ListHead_AddTail ListNode_Del ListHead_Pop
  for H :: "'a set"
  by unfold_locales
    (simp_all add: dlists_disjoint dlistsD dlists_Empty dlists_Tail dlists_Add dlists_AddTail
      dlists_Del dlists_Pop_empty dlists_Pop)

end
