(* ===== verification/Utils.thy ===== *)
theory Utils
  imports Prelude
begin

text \<open>
  The helpers of \<open>src/utils\<close>: minimum, maximum and absolute value, the atomic counters, the
  slice filters (with the sharing of the backing array that the in-place ones rely on), reading and
  writing a whole buffer on a connection, and the spin lock.
\<close>

section \<open>math.go\<close>

definition Max_go :: "'a::linorder \<Rightarrow> 'a \<Rightarrow> 'a" where
  "Max_go v1 v2 = (if v1 > v2 then v1 else v2)"

definition Min_go :: "'a::linorder \<Rightarrow> 'a \<Rightarrow> 'a" where
  "Min_go v1 v2 = (if v1 < v2 then v1 else v2)"

definition Abs_go :: "int \<Rightarrow> int" where
  "Abs_go v = (if v < 0 then goint (- v) else v)"

lemma Max_max [simp]: "Max_go a b = max a b"
  by (auto simp: Max_go_def max_def)

lemma Min_min [simp]: "Min_go a b = min a b"
  by (auto simp: Min_go_def min_def)

section \<open>atomic.go\<close>

text \<open>Each function returns the new value of the cell and its result.\<close>

definition AtomicAddUint64 :: "u64 \<Rightarrow> u64 \<Rightarrow> u64" where
  "AtomicAddUint64 val n = val + n"

definition AtomicSubUint64 :: "u64 \<Rightarrow> u64 \<Rightarrow> u64" where
  "AtomicSubUint64 val n = val + not (n - 1)"

definition AtomicSetUint64 :: "u64 \<Rightarrow> u64 \<Rightarrow> u64" where
  "AtomicSetUint64 val newVal = newVal"

definition AtomicGetUint64 :: "u64 \<Rightarrow> u64" where
  "AtomicGetUint64 val = val"

lemma AtomicAdd_plus [simp]: "AtomicAddUint64 a n = a + n"
  by (simp add: AtomicAddUint64_def)

lemma AtomicSub_minus [simp]: "AtomicSubUint64 a n = a - n"
  by (simp add: AtomicSubUint64_def not_eq_complement)

lemma AtomicSet_val [simp]: "AtomicSetUint64 a n = n"
  by (simp add: AtomicSetUint64_def)

lemma AtomicGet_val [simp]: "AtomicGetUint64 a = a"
  by (simp add: AtomicGetUint64_def)

section \<open>slice.go\<close>

fun CountIf_loop :: "('a \<Rightarrow> bool) \<Rightarrow> 'a list \<Rightarrow> u64 \<Rightarrow> u64" where
  "CountIf_loop pred [] count = count"
| "CountIf_loop pred (x # xs) count = CountIf_loop pred xs (if pred x then count + 1 else count)"

definition CountIf :: "'a list \<Rightarrow> ('a \<Rightarrow> bool) \<Rightarrow> u64" where
  "CountIf s pred = CountIf_loop pred s 0"

text \<open>
  \<open>RemoveIf\<close> and \<open>SelectIf\<close> build the result in the slice's own backing array:
  \<open>n := (*s)[:0]\<close> shares it and \<open>append\<close> overwrites position \<open>len(n)\<close> while the loop
  still reads position \<open>i\<close>.  The loop state is the array, the length of \<open>n\<close>, the counter and
  the position.
\<close>

function RemoveIf_loop :: "('a \<Rightarrow> bool) \<Rightarrow> 'a list \<Rightarrow> nat \<Rightarrow> u64 \<Rightarrow> nat \<Rightarrow> 'a list \<times> u64" where
  "RemoveIf_loop pred arr n count i =
     (if i < length arr then
        (if \<not> pred (arr ! i) then RemoveIf_loop pred (arr[n := arr ! i]) (Suc n) count (Suc i)
         else RemoveIf_loop pred arr n (count + 1) (Suc i))
      else (take n arr, count))"
  by pat_completeness auto
termination
  by (relation "measure (\<lambda>(pred, arr, n, count, i). length arr - i)") auto

definition RemoveIf :: "'a list \<Rightarrow> ('a \<Rightarrow> bool) \<Rightarrow> 'a list \<times> u64" where
  "RemoveIf s pred = RemoveIf_loop pred s 0 0 0"

function SelectIf_loop :: "('a \<Rightarrow> bool) \<Rightarrow> 'a list \<Rightarrow> nat \<Rightarrow> u64 \<Rightarrow> nat \<Rightarrow> 'a list \<times> u64" where
  "SelectIf_loop pred arr n count i =
     (if i < length arr then
        (if pred (arr ! i) then SelectIf_loop pred (arr[n := arr ! i]) (Suc n) (count + 1) (Suc i)
         else SelectIf_loop pred arr n count (Suc i))
      else (take n arr, count))"
  by pat_completeness auto
termination
  by (relation "measure (\<lambda>(pred, arr, n, count, i). length arr - i)") auto

definition SelectIf :: "'a list \<Rightarrow> ('a \<Rightarrow> bool) \<Rightarrow> 'a list \<times> u64" where
  "SelectIf s pred = SelectIf_loop pred s 0 0 0"

fun CopyIf_loop :: "('a \<Rightarrow> bool) \<Rightarrow> 'a list \<Rightarrow> 'a list \<Rightarrow> u64 \<Rightarrow> 'a list \<times> u64" where
  "CopyIf_loop pred dst [] count = (dst, count)"
| "CopyIf_loop pred dst (x # xs) count =
     (if pred x then CopyIf_loop pred (dst @ [x]) xs (count + 1) else CopyIf_loop pred dst xs count)"

definition CopyIf :: "'a list \<Rightarrow> 'a list \<Rightarrow> ('a \<Rightarrow> bool) \<Rightarrow> 'a list \<times> u64" where
  "CopyIf dst src pred = CopyIf_loop pred dst src 0"

fun Accumulate :: "'a list \<Rightarrow> 'u \<Rightarrow> ('u \<Rightarrow> 'a \<Rightarrow> 'u) \<Rightarrow> 'u" where
  "Accumulate [] acc fn = acc"
| "Accumulate (x # xs) acc fn = Accumulate xs (fn acc x) fn"

declare RemoveIf_loop.simps [simp del] SelectIf_loop.simps [simp del]

text \<open>
  The two in-place loops keep the elements already kept in front of the array, and the part not yet
  read unchanged, because the write position never overtakes the read position.
\<close>

lemma SelectIf_loop_filter:
  assumes "n \<le> i" "i \<le> length arr"
  shows "SelectIf_loop pred arr n count i =
    (take n arr @ filter pred (drop i arr), count + of_nat (length (filter pred (drop i arr))))"
  using assms
proof (induction pred arr n count i rule: SelectIf_loop.induct)
  case (1 pred arr n count i)
  show ?case
  proof (cases "i < length arr")
    case False
    with "1.prems" show ?thesis by (subst SelectIf_loop.simps) simp
  next
    case True
    have dr: "drop i arr = arr ! i # drop (Suc i) arr" using True by (rule Cons_nth_drop_Suc [symmetric])
    show ?thesis
    proof (cases "pred (arr ! i)")
      case p: True
      have n: "n < length arr" using "1.prems" True by simp
      have "take (Suc n) (arr[n := arr ! i]) = take n arr @ [arr ! i]"
        using n by (simp add: take_Suc_conv_app_nth)
      moreover have "drop (Suc i) (arr[n := arr ! i]) = drop (Suc i) arr"
        using "1.prems" by simp
      ultimately show ?thesis
        using "1.IH"(1) [OF True p] "1.prems" True p
        by (subst SelectIf_loop.simps) (simp add: dr)
    next
      case False
      then show ?thesis
        using "1.IH"(2) [OF True False] "1.prems" True
        by (subst SelectIf_loop.simps) (simp add: dr)
    qed
  qed
qed

lemma RemoveIf_loop_SelectIf:
  assumes "n \<le> i" "i \<le> length arr"
  shows "RemoveIf_loop pred arr n count i =
    (fst (SelectIf_loop (\<lambda>x. \<not> pred x) arr n c i), count + of_nat (length (filter pred (drop i arr))))"
  using assms
proof (induction pred arr n count i arbitrary: c rule: RemoveIf_loop.induct)
  case (1 pred arr n count i)
  show ?case
  proof (cases "i < length arr")
    case False
    with "1.prems" show ?thesis
      by (subst RemoveIf_loop.simps, subst SelectIf_loop.simps) simp
  next
    case True
    have dr: "drop i arr = arr ! i # drop (Suc i) arr" using True by (rule Cons_nth_drop_Suc [symmetric])
    show ?thesis
    proof (cases "pred (arr ! i)")
      case p: True
      show ?thesis
        using "1.IH"(2) [of c] "1.prems" True p
        by (subst RemoveIf_loop.simps, subst SelectIf_loop.simps) (simp add: dr)
    next
      case p: False
      show ?thesis
        using "1.IH"(1) [OF True p, of "c + 1"] "1.prems" True p
        by (subst RemoveIf_loop.simps, subst SelectIf_loop.simps) (simp add: dr)
    qed
  qed
qed

lemma CountIf_loop_filter: "CountIf_loop pred s c = c + of_nat (length (filter pred s))"
  by (induction s arbitrary: c) auto

lemma CopyIf_loop_filter:
  "CopyIf_loop pred dst src c = (dst @ filter pred src, c + of_nat (length (filter pred src)))"
  by (induction src arbitrary: dst c) auto

lemma Accumulate_foldl: "Accumulate s acc fn = foldl fn acc s"
  by (induction s arbitrary: acc) auto

section \<open>io.go\<close>

text \<open>
  A connection is a parameter: \<open>rd k c\<close> is one call \<open>conn.Read\<close> on a buffer of \<open>k\<close>
  bytes (the bytes placed in the buffer, the error, the connection afterwards) and \<open>wr bs c\<close> one
  call \<open>conn.Write(bs)\<close>.  The loops of \<open>ReadFull\<close> and \<open>WriteFull\<close> call them until
  the buffer is done, so they are partial functions: a connection that keeps answering (0, nil) is
  read forever.
\<close>

datatype ioerr = EOF | ErrUnexpectedEOF | OtherErr nat

type_synonym 'c reader = "nat \<Rightarrow> 'c \<Rightarrow> byte list \<times> ioerr option \<times> 'c"
type_synonym 'c writer = "byte list \<Rightarrow> 'c \<Rightarrow> nat \<times> ioerr option \<times> 'c"

definition put_at :: "nat \<Rightarrow> byte list \<Rightarrow> byte list \<Rightarrow> byte list" where
  "put_at i bs buf = take i buf @ bs @ drop (i + length bs) buf"

partial_function (option) ReadFull_loop ::
  "'c reader \<Rightarrow> byte list \<Rightarrow> nat \<Rightarrow> 'c \<Rightarrow> (nat \<times> ioerr option \<times> byte list \<times> 'c) option" where
  "ReadFull_loop rd buf tot c =
     (if tot < length buf then
        (case rd (length buf - tot) c of (bs, err, c') \<Rightarrow>
           (case err of
              Some e \<Rightarrow> Some (tot, Some (if e = EOF then ErrUnexpectedEOF else e), put_at tot bs buf, c')
            | None \<Rightarrow> ReadFull_loop rd (put_at tot bs buf) (tot + length bs) c'))
      else Some (tot, None, buf, c))"

definition ReadFull ::
  "'c reader \<Rightarrow> byte list \<Rightarrow> 'c \<Rightarrow> (nat \<times> ioerr option \<times> byte list \<times> 'c) option" where
  "ReadFull rd buf c = ReadFull_loop rd buf 0 c"

partial_function (option) WriteFull_loop ::
  "'c writer \<Rightarrow> byte list \<Rightarrow> nat \<Rightarrow> 'c \<Rightarrow> (nat \<times> ioerr option \<times> 'c) option" where
  "WriteFull_loop wr buf tot c =
     (if tot < length buf then
        (case wr (drop tot buf) c of (n, err, c') \<Rightarrow>
           (case err of
              Some e \<Rightarrow> Some (tot, Some e, c')
            | None \<Rightarrow> WriteFull_loop wr buf (tot + n) c'))
      else Some (tot, None, c))"

definition WriteFull :: "'c writer \<Rightarrow> byte list \<Rightarrow> 'c \<Rightarrow> (nat \<times> ioerr option \<times> 'c) option" where
  "WriteFull wr buf c = WriteFull_loop wr buf 0 c"

text \<open>
  The contracts of \<open>io.Reader\<close> and \<open>io.Writer\<close>, relative to the stream of bytes still to
  come from the peer and the bytes already sent to it.
\<close>

locale byte_stream =
  fixes rd :: "'c reader" and pending :: "'c \<Rightarrow> byte list"
  assumes rd_data: "rd k c = (bs, None, c') \<Longrightarrow>
      length bs \<le> k \<and> pending c = bs @ pending c'"
    and rd_progress: "rd k c = (bs, None, c') \<Longrightarrow> 0 < k \<Longrightarrow> bs \<noteq> []"
    and rd_ready: "0 < k \<Longrightarrow> pending c \<noteq> [] \<Longrightarrow> fst (snd (rd k c)) = None"
    and rd_len: "length (fst (rd k c)) \<le> k"
begin

text \<open>Every read makes progress or fails, so the loop ends, and the buffer keeps its length.\<close>

lemma ReadFull_loop_total:
  assumes "tot \<le> length buf"
  shows "\<exists>n err buf' c'. ReadFull_loop rd buf tot c = Some (n, err, buf', c') \<and> length buf' = length buf"
  using assms
proof (induction "length buf - tot" arbitrary: buf tot c rule: less_induct)
  case less
  show ?case
  proof (cases "tot < length buf")
    case False
    then show ?thesis by (subst ReadFull_loop.simps) simp
  next
    case True
    obtain bs err c1 where r: "rd (length buf - tot) c = (bs, err, c1)" by (cases "rd (length buf - tot) c")
    have bl: "length bs \<le> length buf - tot" using rd_len [of "length buf - tot" c] r by simp
    have len: "length (put_at tot bs buf) = length buf" using bl True by (simp add: put_at_def)
    show ?thesis
    proof (cases err)
      case (Some e)
      then show ?thesis using True r len by (subst ReadFull_loop.simps) simp
    next
      case None
      have "bs \<noteq> []" using rd_progress [of "length buf - tot" c bs c1] r None True by simp
      then have "0 < length bs" by simp
      then have "length (put_at tot bs buf) - (tot + length bs) < length buf - tot"
        "tot + length bs \<le> length (put_at tot bs buf)" using bl True unfolding len by arith+
      from less.hyps [OF this, of c1] obtain n err' buf' c' where
        "ReadFull_loop rd (put_at tot bs buf) (tot + length bs) c1 = Some (n, err', buf', c')"
        "length buf' = length buf" unfolding len by blast
      then show ?thesis using True r None by (subst ReadFull_loop.simps) simp
    qed
  qed
qed

lemma ReadFull_total:
  "\<exists>n err buf' c'. ReadFull rd buf c = Some (n, err, buf', c') \<and> length buf' = length buf"
  using ReadFull_loop_total [of 0 buf c] by (simp add: ReadFull_def)

lemma ReadFull_loop_stream:
  assumes "tot \<le> length buf" "length buf - tot \<le> length (pending c)"
  shows "\<exists>c'. ReadFull_loop rd buf tot c =
      Some (length buf, None, take tot buf @ take (length buf - tot) (pending c), c') \<and>
      pending c' = drop (length buf - tot) (pending c)"
  using assms
proof (induction "length buf - tot" arbitrary: buf tot c rule: less_induct)
  case less
  show ?case
  proof (cases "tot < length buf")
    case False
    then show ?thesis using less.prems by (subst ReadFull_loop.simps) simp
  next
    case True
    obtain bs err c1 where r: "rd (length buf - tot) c = (bs, err, c1)" by (cases "rd (length buf - tot) c")
    have "pending c \<noteq> []" using True less.prems by auto
    then have err: "err = None" using rd_ready [of "length buf - tot" c] True r by simp
    have bs: "length bs \<le> length buf - tot" "pending c = bs @ pending c1" "bs \<noteq> []"
      using rd_data rd_progress r err True by auto
    let ?buf = "put_at tot bs buf"
    have len: "length ?buf = length buf" using bs(1) True by (simp add: put_at_def)
    have tk: "take (tot + length bs) ?buf = take tot buf @ bs"
      using True by (simp add: put_at_def)
    have pos: "0 < length bs" using bs(3) by simp
    have "length ?buf - (tot + length bs) < length buf - tot"
      unfolding len using pos bs(1) True by arith
    moreover have "tot + length bs \<le> length ?buf" "length ?buf - (tot + length bs) \<le> length (pending c1)"
      using len bs(1,2) less.prems True by auto
    ultimately obtain c' where
      "ReadFull_loop rd ?buf (tot + length bs) c1 = Some (length buf, None,
         take (tot + length bs) ?buf @ take (length buf - (tot + length bs)) (pending c1), c')"
      "pending c' = drop (length buf - (tot + length bs)) (pending c1)"
      using less.hyps [of ?buf "tot + length bs" c1] unfolding len by blast
    then show ?thesis
      using True r err bs tk by (subst ReadFull_loop.simps) simp
  qed
qed

lemma ReadFull_stream:
  assumes "length buf \<le> length (pending c)"
  shows "\<exists>c'. ReadFull rd buf c = Some (length buf, None, take (length buf) (pending c), c') \<and>
      pending c' = drop (length buf) (pending c)"
  using ReadFull_loop_stream [of 0 buf c] assms by (simp add: ReadFull_def)

end

locale byte_sink =
  fixes wr :: "'c writer" and sent :: "'c \<Rightarrow> byte list"
  assumes wr_all: "wr bs c = (n, None, c') \<Longrightarrow> n = length bs \<and> sent c' = sent c @ bs"
begin

lemma WriteFull_sink:
  "\<exists>n err c'. WriteFull wr buf c = Some (n, err, c') \<and>
     (err = None \<longrightarrow> n = length buf \<and> sent c' = sent c @ buf)"
proof (cases "buf = []")
  case True
  then show ?thesis by (simp add: WriteFull_def WriteFull_loop.simps)
next
  case False
  obtain n err c' where r: "wr buf c = (n, err, c')" by (cases "wr buf c")
  show ?thesis
  proof (cases err)
    case None
    then have "n = length buf" "sent c' = sent c @ buf" using wr_all r by auto
    then show ?thesis using False r None
      by (simp add: WriteFull_def WriteFull_loop.simps)
  next
    case (Some e)
    then show ?thesis using False r by (simp add: WriteFull_def WriteFull_loop.simps)
  qed
qed

end

text \<open>
  The in-memory connection: the peer's bytes arrive in segments, each \<open>Read\<close> returns at most one
  segment, and every \<open>Write\<close> succeeds and is logged.
\<close>

record mem_conn =
  segments :: "byte list list"
  written :: "byte list"

definition mem_read :: "mem_conn reader" where
  "mem_read k c =
     (case filter (\<lambda>s. s \<noteq> []) (segments c) of
        [] \<Rightarrow> ([], Some EOF, c)
      | s # rest \<Rightarrow> (take k s, None, c\<lparr>segments := drop k s # rest\<rparr>))"

definition mem_write :: "mem_conn writer" where
  "mem_write bs c = (length bs, None, c\<lparr>written := written c @ bs\<rparr>)"

lemma concat_nonempty: "concat (filter (\<lambda>s. s \<noteq> []) ss) = concat ss"
  by (induction ss) auto

interpretation memr: byte_stream mem_read "\<lambda>c. concat (segments c)"
proof unfold_locales
  fix k c bs c'
  assume r: "mem_read k c = (bs, None, c')"
  then obtain s rest where f: "filter (\<lambda>s. s \<noteq> []) (segments c) = s # rest"
    and bs: "bs = take k s" and c': "c' = c\<lparr>segments := drop k s # rest\<rparr>"
    by (auto simp: mem_read_def split: list.splits)
  have "concat (segments c) = s @ concat rest"
    using concat_nonempty [of "segments c"] f by simp
  then show "length bs \<le> k \<and> concat (segments c) = bs @ concat (segments c')"
    by (simp add: bs c')
  show "0 < k \<Longrightarrow> bs \<noteq> []"
    using f bs filter_eq_ConsD [OF f] by auto
next
  fix k :: nat and c :: mem_conn
  assume "concat (segments c) \<noteq> []"
  then have "filter (\<lambda>s. s \<noteq> []) (segments c) \<noteq> []"
    using concat_nonempty [of "segments c"] by force
  then show "fst (snd (mem_read k c)) = None"
    by (auto simp: mem_read_def split: list.splits)
qed (simp add: mem_read_def split: list.splits)

interpretation memw: byte_sink mem_write written
  by unfold_locales (auto simp: mem_write_def)

section \<open>spinlock.go\<close>

text \<open>
  \<open>CompareAndSwapUint32\<close> is one atomic step; \<open>Lock\<close> repeats it.  The step relation
  interleaves any number of goroutines that lock, work and unlock.
\<close>

definition CompareAndSwapUint32 :: "u32 \<Rightarrow> u32 \<Rightarrow> u32 \<Rightarrow> bool \<times> u32" where
  "CompareAndSwapUint32 cell old new = (if cell = old then (True, new) else (False, cell))"

definition SpinLock_TryLock :: "u32 \<Rightarrow> bool \<times> u32" where
  "SpinLock_TryLock state = CompareAndSwapUint32 state 0 1"

definition SpinLock_Unlock :: "u32 \<Rightarrow> u32" where
  "SpinLock_Unlock state = 0"

datatype lock_pc = Outside | Spinning | Inside

record spin_sys =
  lstate :: u32
  pcs :: "nat \<Rightarrow> lock_pc"

inductive spin_step :: "spin_sys \<Rightarrow> spin_sys \<Rightarrow> bool" where
  call_lock: "pcs s t = Outside \<Longrightarrow> spin_step s (s\<lparr>pcs := (pcs s)(t := Spinning)\<rparr>)"
| try_lock: "pcs s t = Spinning \<Longrightarrow> SpinLock_TryLock (lstate s) = (ok, l) \<Longrightarrow>
     spin_step s (s\<lparr>lstate := l, pcs := (pcs s)(t := if ok then Inside else Spinning)\<rparr>)"
| unlock: "pcs s t = Inside \<Longrightarrow>
     spin_step s (s\<lparr>lstate := SpinLock_Unlock (lstate s), pcs := (pcs s)(t := Outside)\<rparr>)"

inductive spin_reachable :: "spin_sys \<Rightarrow> bool" where
  spin_init: "spin_reachable \<lparr>lstate = 0, pcs = (\<lambda>_. Outside)\<rparr>"
| spin_next: "spin_reachable s \<Longrightarrow> spin_step s s' \<Longrightarrow> spin_reachable s'"

definition spin_inv :: "spin_sys \<Rightarrow> bool" where
  "spin_inv s \<longleftrightarrow> (lstate s = 0 \<longrightarrow> (\<forall>t. pcs s t \<noteq> Inside)) \<and>
     (\<forall>t u. pcs s t = Inside \<longrightarrow> pcs s u = Inside \<longrightarrow> t = u)"

lemma spin_step_inv: "spin_step s s' \<Longrightarrow> spin_inv s \<Longrightarrow> spin_inv s'"
  by (induction rule: spin_step.induct)
    (auto simp: spin_inv_def SpinLock_TryLock_def SpinLock_Unlock_def CompareAndSwapUint32_def
      split: if_splits)

lemma spin_reachable_inv: "spin_reachable s \<Longrightarrow> spin_inv s"
proof (induction rule: spin_reachable.induct)
  case spin_init
  show ?case by (simp add: spin_inv_def)
next
  case (spin_next s s')
  then show ?case by (blast intro: spin_step_inv)
qed

end
