(* ===== verification/Float64.thy ===== *)
theory Float64
  imports Complex_Main "HOL-Library.Log_Nat" Prelude
begin

text \<open>
  Go's \<open>float64\<close>: IEEE-754 binary64 with round-to-nearest-even.  A finite non-zero value is the
  rational it stands for; rounding a rational to the nearest representable value is computed with
  integer arithmetic.  Infinities, NaN and the two zeros are kept apart, since the code divides by
  counters that may be zero and compares the quotients.
\<close>

datatype float64 = FNaN | FInf bool | FNegZero | FFin rat

section \<open>Rounding\<close>

text \<open>Rounding a rational to an integer, ties to the even neighbour.\<close>

definition rne :: "rat \<Rightarrow> int" where
  "rne x = (let f = \<lfloor>x\<rfloor>; d = x - of_int f in
     if d < 1/2 then f else if d > 1/2 then f + 1 else if even f then f else f + 1)"

text \<open>\<open>ilog2 x\<close> is the integer logarithm of a positive rational.\<close>

definition ilog2 :: "rat \<Rightarrow> int" where
  "ilog2 x = (let (p, q) = quotient_of x; k = bitlen p - bitlen q in
     if 2 powi k \<le> x then k else k - 1)"

text \<open>The exponent of the last place of the binary64 numbers around \<open>x\<close>.\<close>

definition ulp_exp :: "rat \<Rightarrow> int" where
  "ulp_exp x = max (ilog2 x - 52) (- 1074)"

definition round_pos :: "rat \<Rightarrow> float64" where
  "round_pos x = (let e = ulp_exp x; v = of_int (rne (x / 2 powi e)) * 2 powi e in
     if v \<ge> 2 powi 1024 then FInf False else FFin v)"

definition f_neg :: "float64 \<Rightarrow> float64" where
  "f_neg a = (case a of FNaN \<Rightarrow> FNaN | FInf s \<Rightarrow> FInf (\<not> s) | FNegZero \<Rightarrow> FFin 0
     | FFin r \<Rightarrow> if r = 0 then FNegZero else FFin (- r))"

definition f64_round :: "rat \<Rightarrow> float64" where
  "f64_round x = (if x = 0 then FFin 0 else if x > 0 then round_pos x else f_neg (round_pos (- x)))"

section \<open>Operations\<close>

definition f_val :: "float64 \<Rightarrow> rat" where
  "f_val a = (case a of FFin r \<Rightarrow> r | _ \<Rightarrow> 0)"

definition f_sign :: "float64 \<Rightarrow> bool" where
  "f_sign a = (case a of FNaN \<Rightarrow> False | FInf s \<Rightarrow> s | FNegZero \<Rightarrow> True | FFin r \<Rightarrow> r < 0)"

definition f_zero :: "float64 \<Rightarrow> bool" where
  "f_zero a \<longleftrightarrow> a = FNegZero \<or> a = FFin 0"

definition signed_zero :: "bool \<Rightarrow> float64" where
  "signed_zero s = (if s then FNegZero else FFin 0)"

definition f_add :: "float64 \<Rightarrow> float64 \<Rightarrow> float64" where
  "f_add a b =
     (if a = FNaN \<or> b = FNaN then FNaN
      else case a of
        FInf s \<Rightarrow> if b = FInf (\<not> s) then FNaN else a
      | _ \<Rightarrow> (case b of
                FInf s \<Rightarrow> b
              | _ \<Rightarrow> if a = FNegZero \<and> b = FNegZero then FNegZero else f64_round (f_val a + f_val b)))"

definition f_sub :: "float64 \<Rightarrow> float64 \<Rightarrow> float64" where
  "f_sub a b = f_add a (f_neg b)"

definition f_inf :: "float64 \<Rightarrow> bool" where
  "f_inf a = (case a of FInf _ \<Rightarrow> True | _ \<Rightarrow> False)"

definition f_mul :: "float64 \<Rightarrow> float64 \<Rightarrow> float64" where
  "f_mul a b = (let s = (f_sign a \<noteq> f_sign b) in
     if a = FNaN \<or> b = FNaN \<or> (f_inf a \<and> f_zero b) \<or> (f_zero a \<and> f_inf b) then FNaN
     else if f_inf a \<or> f_inf b then FInf s
     else if f_zero a \<or> f_zero b then signed_zero s
     else f64_round (f_val a * f_val b))"

definition f_div :: "float64 \<Rightarrow> float64 \<Rightarrow> float64" where
  "f_div a b = (let s = (f_sign a \<noteq> f_sign b) in
     if a = FNaN \<or> b = FNaN \<or> (f_inf a \<and> f_inf b) \<or> (f_zero a \<and> f_zero b) then FNaN
     else if f_inf a \<or> f_zero b then FInf s
     else if f_inf b \<or> f_zero a then signed_zero s
     else f64_round (f_val a / f_val b))"

definition f_abs :: "float64 \<Rightarrow> float64" where
  "f_abs a = (if f_sign a then f_neg a else a)"

text \<open>The ordered comparisons are false when an operand is NaN.\<close>

definition f_less :: "float64 \<Rightarrow> float64 \<Rightarrow> bool" where
  "f_less a b =
     (if a = FNaN \<or> b = FNaN then False
      else case a of
        FInf s \<Rightarrow> s \<and> b \<noteq> FInf True
      | _ \<Rightarrow> (case b of FInf s \<Rightarrow> \<not> s | _ \<Rightarrow> f_val a < f_val b))"

definition f_leq :: "float64 \<Rightarrow> float64 \<Rightarrow> bool" where
  "f_leq a b \<longleftrightarrow> a \<noteq> FNaN \<and> b \<noteq> FNaN \<and> \<not> f_less b a"

definition f_max :: "float64 \<Rightarrow> float64 \<Rightarrow> float64" where
  "f_max v1 v2 = (if f_less v2 v1 then v1 else v2)"

definition f_min :: "float64 \<Rightarrow> float64 \<Rightarrow> float64" where
  "f_min v1 v2 = (if f_less v1 v2 then v1 else v2)"

text \<open>
  Conversions.  \<open>float64(x)\<close> rounds.  \<open>uint64(x)\<close> truncates towards zero; outside the range
  of the target type (and on NaN) the language leaves the result to the implementation, so that value
  is a parameter \<open>oor\<close>.
\<close>

definition f_of_u64 :: "u64 \<Rightarrow> float64" where
  "f_of_u64 w = f64_round (of_int (uint w))"

definition f_of_int :: "int \<Rightarrow> float64" where
  "f_of_int x = f64_round (of_int x)"

definition f_trunc :: "float64 \<Rightarrow> int option" where
  "f_trunc a = (case a of FNaN \<Rightarrow> None | FInf _ \<Rightarrow> None | FNegZero \<Rightarrow> Some 0
     | FFin r \<Rightarrow> Some (if r \<ge> 0 then \<lfloor>r\<rfloor> else - \<lfloor>- r\<rfloor>))"

definition f_to_u64 :: "(float64 \<Rightarrow> u64) \<Rightarrow> float64 \<Rightarrow> u64" where
  "f_to_u64 oor a = (case f_trunc a of
       Some k \<Rightarrow> if 0 \<le> k \<and> k < 2 ^ 64 then word_of_int k else oor a
     | None \<Rightarrow> oor a)"

section \<open>Rounding errors\<close>

lemma rne_bounds: "of_int (rne x) \<le> x + 1/2" "x - 1/2 \<le> of_int (rne x)"
  using of_int_floor_le [of x] floor_less_iff [of x "\<lfloor>x\<rfloor> + 1"] 
  by (auto simp: rne_def Let_def) linarith+

lemma powi_le_rat: "0 < p \<Longrightarrow> 0 < q \<Longrightarrow> 2 powi (bitlen p - bitlen q - 1) \<le> (of_int p / of_int q :: rat)"
proof -
  assume p: "0 < p" and q: "0 < q"
  have bp: "2 ^ nat (bitlen p - 1) \<le> p" using bitlen_bounds [OF p] by simp
  have bq: "q < 2 ^ nat (bitlen q)" using bitlen_bounds [OF q] by simp
  have pos: "0 < bitlen p" "0 < bitlen q" using p q bitlen_nonneg [of p] bitlen_nonneg [of q] bitlen_eq_zero_iff [of p] bitlen_eq_zero_iff [of q] by auto
  have "2 powi (bitlen p - bitlen q - 1) = (2 powi (bitlen p - 1) / 2 powi bitlen q :: rat)"
    using power_int_diff [of "2 :: rat" "bitlen p - 1" "bitlen q"] by (simp add: algebra_simps)
  also have "2 powi (bitlen p - 1) = (2 ^ nat (bitlen p - 1) :: rat)" using pos by (simp add: power_int_def)
  also have "2 powi bitlen q = (2 ^ nat (bitlen q) :: rat)" using pos by (simp add: power_int_def)
  also have "(2 ^ nat (bitlen p - 1) / 2 ^ nat (bitlen q) :: rat) \<le> of_int p / of_int q"
  proof (rule frac_le)
    show "(2 ^ nat (bitlen p - 1) :: rat) \<le> of_int p" using bp by (metis of_int_le_iff of_int_numeral of_int_power)
    show "of_int q \<le> (2 ^ nat (bitlen q) :: rat)" using bq by (metis less_imp_le of_int_le_iff of_int_numeral of_int_power)
  qed (use p q in auto)
  finally show ?thesis .
qed

lemma ilog2_le: "0 < x \<Longrightarrow> 2 powi (ilog2 x) \<le> x"
proof -
  assume x: "0 < x"
  obtain p q where pq: "quotient_of x = (p, q)" by (cases "quotient_of x")
  have q: "0 < q" using quotient_of_denom_pos [OF pq] .
  have xe: "x = of_int p / of_int q" using quotient_of_div [OF pq] .
  have p: "0 < p" using x q unfolding xe by (simp add: zero_less_divide_iff)
  have "ilog2 x = (if 2 powi (bitlen p - bitlen q) \<le> x then bitlen p - bitlen q else bitlen p - bitlen q - 1)"
    by (simp add: ilog2_def pq Let_def)
  then show ?thesis using powi_le_rat [OF p q] xe by simp
qed

lemma ulp_le: "0 < x \<Longrightarrow> 2 powi (ulp_exp x) \<le> x / 2 ^ 52 + 1 / 2 ^ 1074"
proof -
  assume x: "0 < x"
  have "2 powi (ilog2 x - 52) = (2 powi (ilog2 x) / 2 ^ 52 :: rat)" by (simp add: power_int_diff)
  then have "2 powi (ilog2 x - 52) \<le> x / 2 ^ 52" using ilog2_le [OF x] by (simp add: divide_right_mono)
  moreover have "2 powi (- 1074) = (1 / 2 ^ 1074 :: rat)" by (simp add: power_int_minus field_simps)
  ultimately show ?thesis unfolding ulp_exp_def using x by (auto simp: max_def)
qed

text \<open>The relative error of a rounding is at most 2^-53, the absolute one near zero at most 2^-1075.\<close>

lemma round_pos_bounds:
  assumes "0 < x" "x \<le> 2 ^ 1000"
  shows "\<exists>v. round_pos x = FFin v \<and> \<bar>v - x\<bar> \<le> x / 2 ^ 53 + 1 / 2 ^ 1075 \<and> 0 \<le> v"
proof -
  let ?u = "2 powi (ulp_exp x) :: rat" let ?v = "of_int (rne (x / ?u)) * ?u"
  have u: "0 < ?u" by simp
  have "x / ?u - 1/2 \<le> of_int (rne (x / ?u))" "of_int (rne (x / ?u)) \<le> x / ?u + 1/2" using rne_bounds by auto
  then have "(x / ?u - 1/2) * ?u \<le> ?v" "?v \<le> (x / ?u + 1/2) * ?u" using u by (auto intro: mult_right_mono)
  moreover have "(x / ?u - 1/2) * ?u = x - ?u / 2" "(x / ?u + 1/2) * ?u = x + ?u / 2" using u by (simp_all add: algebra_simps)
  ultimately have "\<bar>?v - x\<bar> \<le> ?u / 2" by linarith
  also have "\<dots> \<le> x / 2 ^ 53 + 1 / 2 ^ 1075" using ulp_le [OF assms(1)] by simp
  finally have b: "\<bar>?v - x\<bar> \<le> x / 2 ^ 53 + 1 / 2 ^ 1075" .
  have "x / 2 ^ 53 \<le> 2 ^ 1000" "(1 :: rat) / 2 ^ 1075 \<le> 2 ^ 1000" "(0 :: rat) < 2 ^ 1000"
    using assms by (auto simp: field_simps)
  then have "?v \<le> 3 * 2 ^ 1000" using b assms(2) by linarith
  also have "\<dots> < 2 powi 1024" by simp
  finally have "?v < 2 powi 1024" .
  moreover have "- 1 < rne (x / ?u)"
  proof -
    have "0 < x / ?u" using assms(1) u by (rule divide_pos_pos)
    then have "(of_int (- 1) :: rat) < of_int (rne (x / ?u))" using rne_bounds(2) [of "x / ?u"] by simp
    then show ?thesis by (simp only: of_int_less_iff)
  qed
  then have "0 \<le> ?v" using u by simp
  ultimately show ?thesis using b by (simp add: round_pos_def Let_def not_le)
qed
lemma f64_round_nonneg:
  assumes "0 \<le> x" "x \<le> 2 ^ 1000"
  shows "\<exists>v. f64_round x = FFin v \<and> 0 \<le> v \<and> v \<le> x + x / 2 ^ 53 + 1 / 2 ^ 1075"
proof (cases "x = 0")
  case True
  then show ?thesis by (simp add: f64_round_def)
next
  case False
  then have "0 < x" using assms(1) by simp
  from round_pos_bounds [OF this assms(2)] obtain v where
    "round_pos x = FFin v" "\<bar>v - x\<bar> \<le> x / 2 ^ 53 + 1 / 2 ^ 1075" "0 \<le> v" by blast
  then show ?thesis using \<open>0 < x\<close> by (intro exI [of _ v]) (simp add: f64_round_def abs_le_iff)
qed

lemma f_of_u64_bounds: "\<exists>v. f_of_u64 n = FFin v \<and> 0 \<le> v \<and> v \<le> 2 * of_int (uint n)"
proof -
  let ?x = "of_int (uint n) :: rat"
  have "uint n < 2 ^ 64" using uint_bounded [of n] by simp
  then have "?x < 2 ^ 64" by (metis of_int_less_iff of_int_numeral of_int_power)
  then have "?x \<le> 2 ^ 1000" by (rule order_trans [OF less_imp_le]) simp
  moreover have "0 \<le> ?x" by (simp only: of_int_0_le_iff uint_ge_0)
  ultimately obtain v where
    v: "f64_round ?x = FFin v" "0 \<le> v" "v \<le> ?x + ?x / 2 ^ 53 + 1 / 2 ^ 1075" using f64_round_nonneg by blast
  show ?thesis
  proof (cases "n = 0")
    case True
    then show ?thesis by (simp add: f_of_u64_def f64_round_def)
  next
    case False
    then have "0 < uint n" by (simp add: uint_0_iff less_le)
    then have "1 \<le> ?x" by (metis of_int_1_le_iff int_one_le_iff_zero_less)
    then have "?x + ?x / 2 ^ 53 + 1 / 2 ^ 1075 \<le> 2 * ?x" by (simp add: field_simps)
    then show ?thesis using v by (auto simp: f_of_u64_def)
  qed
qed

text \<open>A product with a factor at most one stays in the range of \<open>uint64\<close>, up to rounding.\<close>

lemma f_mul_trunc_bound:
  assumes "0 \<le> b" "b \<le> 1" "uint n < 2 ^ 60"
  shows "unat (f_to_u64 oor (f_mul (f_of_u64 n) (FFin b))) \<le> 4 * unat n + 1"
proof -
  obtain a where a: "f_of_u64 n = FFin a" "0 \<le> a" "a \<le> 2 * of_int (uint n)" using f_of_u64_bounds by blast
  have n: "of_int (uint n) < (2 ^ 60 :: rat)" using assms(3) by (metis of_int_less_iff of_int_numeral of_int_power)
  have ab: "0 \<le> a * b" "a * b \<le> a" using a(2) assms(1,2) by (auto simp: mult_left_le)
  have "a * b \<le> 2 ^ 61" using ab(2) a(3) n by simp
  then have "a * b \<le> 2 ^ 1000" by (rule order_trans) simp
  from f64_round_nonneg [OF ab(1) this] obtain v where
    v: "f64_round (a * b) = FFin v" "0 \<le> v" "v \<le> a * b + a * b / 2 ^ 53 + 1 / 2 ^ 1075" by blast
  have "\<exists>v. f_mul (f_of_u64 n) (FFin b) = FFin v \<and> 0 \<le> v \<and> v \<le> 4 * of_int (uint n) + 1"
  proof (cases "a = 0 \<or> b = 0")
    case True
    then show ?thesis using a assms(1) by (auto simp: f_mul_def Let_def f_zero_def f_inf_def f_sign_def signed_zero_def)
  next
    case False
    have "v \<le> 2 * (a * b) + 1" using v(3) ab(1) by (simp add: field_simps)
    also have "\<dots> \<le> 4 * of_int (uint n) + 1" using ab(2) a(3) by simp
    finally show ?thesis using False a assms(1) v
      by (auto simp: f_mul_def Let_def f_zero_def f_inf_def f_sign_def f_val_def)
  qed
  then obtain v where m: "f_mul (f_of_u64 n) (FFin b) = FFin v" "0 \<le> v" "v \<le> 4 * of_int (uint n) + 1" by blast
  have fl: "0 \<le> \<lfloor>v\<rfloor>" "\<lfloor>v\<rfloor> \<le> 4 * uint n + 1" using m(2,3) by (simp_all add: floor_le_iff le_floor_iff)
  have "4 * uint n + 1 < 2 ^ 64" using assms(3) by simp
  then have "\<lfloor>v\<rfloor> < 2 ^ 64" using fl(2) by (rule le_less_trans [rotated])
  then have "f_to_u64 oor (f_mul (f_of_u64 n) (FFin b)) = word_of_int \<lfloor>v\<rfloor>"
    using m(1,2) fl(1) by (simp add: f_to_u64_def f_trunc_def)
  moreover have "unat (word_of_int \<lfloor>v\<rfloor> :: u64) = nat \<lfloor>v\<rfloor>"
    using fl(1) \<open>\<lfloor>v\<rfloor> < 2 ^ 64\<close> by (simp add: unat_eq_nat_uint uint_word_of_int_eq take_bit_int_eq_self)
  moreover have "int (unat n) = uint n" by simp
  then have "nat \<lfloor>v\<rfloor> \<le> 4 * unat n + 1" using fl by linarith
  ultimately show ?thesis by simp
qed

end
