(* ===== verification/Env.thy ===== *)
theory Env
  imports Float64
begin

text \<open>
  What the code reads from outside the model.  A \<open>world\<close> supplies the n-th reading of the
  microsecond clock (\<open>utils.MicroTime\<close>), of the cached queueing delay in nanoseconds
  (\<open>perf.GetQueueDelayMax\<close>), of the cached memory and energy counters
  (\<open>perf.MemPmcGetMemAccesses\<close>, \<open>perf.PowPmcGetEnergyConsumed\<close>), of the processor the
  goroutine runs on (\<open>runtime.GetProcId\<close>), of the random bit \<open>rand.Intn(2) == 1\<close>, of the
  random numbers \<open>rand.Float64\<close> and \<open>rand.NormFloat64\<close> and of the outcome of a \<open>TryLock\<close> on a mutex another goroutine may hold.  Every reading advances
  \<open>tick\<close>, so two readings are independent unless a hypothesis relates them.
\<close>

record world =
  clock :: "nat \<Rightarrow> u64"
  qdelay :: "nat \<Rightarrow> u64"
  memacc :: "nat \<Rightarrow> u64"
  energy :: "nat \<Rightarrow> float64"
  procid :: "nat \<Rightarrow> nat"
  coin :: "nat \<Rightarrow> bool"
  trylock :: "nat \<Rightarrow> bool"
  rndf :: "nat \<Rightarrow> float64"
  rndnorm :: "nat \<Rightarrow> float64"
  tick :: nat

definition step_world :: "world \<Rightarrow> world" where
  "step_world w = w\<lparr>tick := Suc (tick w)\<rparr>"

definition MicroTime :: "world \<Rightarrow> u64" where
  "MicroTime w = clock w (tick w)"

definition QueueDelayMax_of :: "world \<Rightarrow> u64" where
  "QueueDelayMax_of w = qdelay w (tick w)"

definition MemAccesses_of :: "world \<Rightarrow> u64" where
  "MemAccesses_of w = memacc w (tick w)"

definition Energy_of :: "world \<Rightarrow> float64" where
  "Energy_of w = energy w (tick w)"

definition ProcId_of :: "world \<Rightarrow> nat" where
  "ProcId_of w = procid w (tick w)"

definition coin_of :: "world \<Rightarrow> bool" where
  "coin_of w = coin w (tick w)"

definition Float64_of :: "world \<Rightarrow> float64" where
  "Float64_of w = rndf w (tick w)"

definition NormFloat64_of :: "world \<Rightarrow> float64" where
  "NormFloat64_of w = rndnorm w (tick w)"

definition trylock_of :: "world \<Rightarrow> bool" where
  "trylock_of w = trylock w (tick w)"

lemma step_world_fields [simp]:
  "clock (step_world w) = clock w" "qdelay (step_world w) = qdelay w"
  "memacc (step_world w) = memacc w" "energy (step_world w) = energy w"
  "procid (step_world w) = procid w" "coin (step_world w) = coin w"
  "trylock (step_world w) = trylock w" "rndf (step_world w) = rndf w" "rndnorm (step_world w) = rndnorm w" "tick (step_world w) = Suc (tick w)"
  by (simp_all add: step_world_def)

text \<open>The processor identifiers the runtime reports are below \<open>GOMAXPROCS\<close>.\<close>

definition procs_ok :: "nat \<Rightarrow> world \<Rightarrow> bool" where
  "procs_ok n w \<longleftrightarrow> (\<forall>i. procid w i < n)"

lemma procs_ok_step [simp]: "procs_ok n (step_world w) = procs_ok n w"
  by (simp add: procs_ok_def)

lemma procs_ok_ProcId: "procs_ok n w \<Longrightarrow> ProcId_of w < n"
  by (simp add: procs_ok_def ProcId_of_def)

end
