(* ===== verification/Bitmap.thy ===== *)
theory Bitmap
  imports Prelude
begin

text \<open>
  The bitmaps of slots come from the package \<open>github.com/kelindar/bitmap\<close>, which is not part of
  the repository: its operations are a parameter of the server models, a record of functions, and the
  locale \<open>bitmap\<close> states the documented behaviour that the servers rely on, relative to the set of
  bits a bitmap holds.  The reference instance is an array of booleans.
\<close>

record 'b bitmap_ops =
  bmZero :: 'b                                \<comment> \<open>\<open>var b bitmap.Bitmap\<close>\<close>
  bmGrow :: "nat \<Rightarrow> 'b \<Rightarrow> 'b"
  bmSet :: "nat \<Rightarrow> 'b \<Rightarrow> 'b"
  bmRemove :: "nat \<Rightarrow> 'b \<Rightarrow> 'b"
  bmMin :: "'b \<Rightarrow> nat \<times> bool"
  bmCount :: "'b \<Rightarrow> nat"
  bmRange :: "'b \<Rightarrow> nat list"                  \<comment> \<open>the indices in the order \<open>Range\<close> visits them\<close>
  bmClone :: "'b \<Rightarrow> 'b"
  bmXor :: "'b \<Rightarrow> 'b \<Rightarrow> 'b"

locale bitmap =
  fixes B :: "'b bitmap_ops" and bits :: "'b \<Rightarrow> nat set"
  assumes bits_zero: "bits (bmZero B) = {}"
    and bits_grow: "bits (bmGrow B n b) = bits b"
    and bits_set: "bits (bmSet B i b) = insert i (bits b)"
    and bits_remove: "bits (bmRemove B i b) = bits b - {i}"
    and bits_min: "bmMin B b = (if bits b = {} then (0, False) else (Min (bits b), True))"
    and bits_count: "bmCount B b = card (bits b)"
    and bits_range: "distinct (bmRange B b)" "set (bmRange B b) = bits b"
    and bits_clone: "bits (bmClone B b) = bits b"
    and bits_xor: "bits (bmXor B a b) = (bits a - bits b) \<union> (bits b - bits a)"
begin

lemma finite_bits [simp]: "finite (bits b)"
  using bits_range(2) [of b] by (metis List.finite_set)

lemma xor_clone: "bits (bmXor B b (bmClone B b)) = {}"
  by (simp add: bits_xor bits_clone)

lemma count_0: "bmCount B b = 0 \<longleftrightarrow> bits b = {}"
  by (simp add: bits_count)

lemma length_range: "length (bmRange B b) = card (bits b)"
  using bits_range [of b] by (metis distinct_card)

lemma min_Some: "bmMin B b = (i, True) \<Longrightarrow> i \<in> bits b"
  by (cases "bits b = {}") (auto simp: bits_min intro: Min_in)

lemmas bits_simps = bits_zero bits_grow bits_set bits_remove bits_clone bits_xor bits_count

end

text \<open>The reference instance.\<close>

definition pad_to :: "nat \<Rightarrow> bool list \<Rightarrow> bool list" where
  "pad_to n b = b @ replicate (n - length b) False"

definition bools :: "bool list \<Rightarrow> nat set" where
  "bools b = {i. i < length b \<and> b ! i}"

definition bool_indices :: "bool list \<Rightarrow> nat list" where
  "bool_indices b = filter (\<lambda>i. b ! i) [0..<length b]"

definition boolmap :: "bool list bitmap_ops" where
  "boolmap = \<lparr>
     bmZero = [],
     bmGrow = pad_to,
     bmSet = (\<lambda>i b. (pad_to (Suc i) b)[i := True]),
     bmRemove = (\<lambda>i b. b[i := False]),
     bmMin = (\<lambda>b. case bool_indices b of [] \<Rightarrow> (0, False) | i # _ \<Rightarrow> (i, True)),
     bmCount = (\<lambda>b. length (bool_indices b)),
     bmRange = bool_indices,
     bmClone = (\<lambda>b. b),
     bmXor = (\<lambda>a b. map (\<lambda>i. (i < length a \<and> a ! i) \<noteq> (i < length b \<and> b ! i))
                 [0..<max (length a) (length b)])\<rparr>"

lemma set_bool_indices [simp]: "set (bool_indices b) = bools b"
  by (auto simp: bool_indices_def bools_def)

lemma distinct_bool_indices [simp]: "distinct (bool_indices b)"
  by (simp add: bool_indices_def)

lemma sorted_bool_indices: "sorted (bool_indices b)"
  by (simp add: bool_indices_def sorted_wrt_filter)

lemma bools_pad [simp]: "bools (pad_to n b) = bools b"
proof -
  have "i < length (pad_to n b) \<and> pad_to n b ! i \<longleftrightarrow> i < length b \<and> b ! i" for i
  proof (cases "i < length b")
    case True
    then show ?thesis by (simp add: pad_to_def nth_append)
  next
    case False
    then have "\<not> pad_to n b ! i" if "i < length b + (n - length b)"
      using that by (simp add: pad_to_def nth_append)
    with False show ?thesis by (simp add: pad_to_def)
  qed
  then show ?thesis by (simp add: bools_def)
qed

lemma bools_set: "bools ((pad_to (Suc i) b)[i := True]) = insert i (bools b)"
proof -
  have "bools ((pad_to (Suc i) b)[i := True]) = insert i (bools (pad_to (Suc i) b))"
    by (auto simp: bools_def pad_to_def nth_list_update)
  then show ?thesis by simp
qed

interpretation bm: bitmap boolmap bools
proof unfold_locales
  show "bmMin boolmap b = (if bools b = {} then (0, False) else (Min (bools b), True))" for b
  proof (cases "bool_indices b")
    case Nil
    then have "bools b = {}" using set_bool_indices [of b] by simp
    then show ?thesis using Nil by (simp add: boolmap_def)
  next
    case (Cons i js)
    then have s: "bools b = insert i (set js)" using set_bool_indices [of b] by simp
    have "\<forall>j\<in>set js. i \<le> j" using sorted_bool_indices [of b] Cons by simp
    then have "Min (bools b) = i" unfolding s by (intro Min_eqI) auto
    then show ?thesis using Cons s by (simp add: boolmap_def)
  qed
  show "bmCount boolmap b = card (bools b)" for b
    using distinct_card [of "bool_indices b"] by (simp add: boolmap_def)
  show "bools (bmRemove boolmap i b) = bools b - {i}" for i b
  proof -
    have "j < length b \<and> b[i := False] ! j \<longleftrightarrow> (j < length b \<and> b ! j) \<and> j \<noteq> i" for j
      by (cases "i = j") (auto simp: nth_list_update)
    then show ?thesis by (auto simp: boolmap_def bools_def)
  qed
  show "bools (bmXor boolmap a b) = (bools a - bools b) \<union> (bools b - bools a)" for a b
    by (auto simp: boolmap_def bools_def)
  show "bools (bmZero boolmap) = {}"
    by (simp add: boolmap_def bools_def)
qed (simp_all add: boolmap_def bools_set)

end
