(* ===== verification/Wire.thy ===== *)
theory Wire
  imports Prelude
begin

text \<open>
  The message headers of the credit-based protocols (\<open>src/ovldctlrpc/pcc/pcc_proto.go\<close>) and their
  byte image.  \<open>utils.ToBytes\<close> hands out the memory of the struct, so the image is the struct
  layout of a little-endian 64-bit machine: fields in order, the last byte field followed by seven
  bytes of padding whose content the language does not fix (a parameter of the encoder).
\<close>

section \<open>Little-endian integers\<close>

primrec le_bytes :: "nat \<Rightarrow> nat \<Rightarrow> byte list" where
  "le_bytes 0 v = []"
| "le_bytes (Suc k) v = of_nat (v mod 256) # le_bytes k (v div 256)"

primrec le_nat :: "byte list \<Rightarrow> nat" where
  "le_nat [] = 0"
| "le_nat (b # bs) = unat b + 256 * le_nat bs"

lemma length_le_bytes [simp]: "length (le_bytes k v) = k"
  by (induction k arbitrary: v) auto

lemma le_nat_le_bytes: "le_nat (le_bytes k v) = v mod 256 ^ k"
proof (induction k arbitrary: v)
  case 0
  then show ?case by simp
next
  case (Suc k)
  have "unat (of_nat (v mod 256) :: byte) = v mod 256"
    by (simp add: unat_of_nat take_bit_eq_mod)
  then show ?case
    using Suc.IH by (simp add: mod_mult2_eq mult.commute add.commute)
qed

lemma le_nat_bound: "le_nat bs < 256 ^ length bs"
proof (induction bs)
  case Nil
  then show ?case by simp
next
  case (Cons b bs)
  have "unat b < 256" using unat_bound [of b] by simp
  with Cons show ?case by simp
qed

lemma le_bytes_le_nat: "le_bytes (length bs) (le_nat bs) = bs"
proof (induction bs)
  case Nil
  then show ?case by simp
next
  case (Cons b bs)
  have "unat b < 256" using unat_bound [of b] by simp
  with Cons show ?case by simp
qed

lemma le_nat_u32: "le_nat (le_bytes 4 (unat (w :: u32))) = unat w"
  using unat_bound [of w] by (simp add: le_nat_le_bytes)

lemma le_nat_u64: "le_nat (le_bytes 8 (unat (w :: u64))) = unat w"
  using unat_bound [of w] by (simp add: le_nat_le_bytes)

section \<open>Protocol constants\<close>

definition PccReqMagic :: u32 where "PccReqMagic = 0x63727063"
definition PccRespMagic :: u32 where "PccRespMagic = 0x73727063"

definition PccOpCall :: u32 where "PccOpCall = 0"
definition PccOpCredit :: u32 where "PccOpCredit = 1"
definition PccOpMax :: u32 where "PccOpMax = 2"

definition PccCFlagDsync :: u8 where "PccCFlagDsync = 1"
definition PccSFlagDrop :: u8 where "PccSFlagDrop = 1"

definition SrpcBufSize :: nat where "SrpcBufSize = 2048"
definition SrpcPort :: nat where "SrpcPort = 8123"

section \<open>Headers\<close>

record cpccHdr =
  cMagic :: u32
  cOp :: u32
  cLen :: u64
  cId :: u64
  cDemand :: u64
  cTsSent :: u64
  cFlags :: u8

record spccHdr =
  sMagic :: u32
  sOp :: u32
  sLen :: u64
  sId :: u64
  sCredit :: u64
  sTsSent :: u64
  sFlags :: u8

definition hdr_size :: nat where "hdr_size = 48"

definition CpccHdr_bytes :: "byte list \<Rightarrow> cpccHdr \<Rightarrow> byte list" where
  "CpccHdr_bytes pad h =
     le_bytes 4 (unat (cMagic h)) @ le_bytes 4 (unat (cOp h)) @ le_bytes 8 (unat (cLen h)) @
     le_bytes 8 (unat (cId h)) @ le_bytes 8 (unat (cDemand h)) @ le_bytes 8 (unat (cTsSent h)) @
     [cFlags h] @ pad"

definition SpccHdr_bytes :: "byte list \<Rightarrow> spccHdr \<Rightarrow> byte list" where
  "SpccHdr_bytes pad h =
     le_bytes 4 (unat (sMagic h)) @ le_bytes 4 (unat (sOp h)) @ le_bytes 8 (unat (sLen h)) @
     le_bytes 8 (unat (sId h)) @ le_bytes 8 (unat (sCredit h)) @ le_bytes 8 (unat (sTsSent h)) @
     [sFlags h] @ pad"

text \<open>Reading into \<open>ToBytes(&hdr)\<close> sets the fields from the bytes at their offsets.\<close>

definition field :: "nat \<Rightarrow> nat \<Rightarrow> byte list \<Rightarrow> nat" where
  "field off k bs = le_nat (take k (drop off bs))"

definition CpccHdr_of_bytes :: "byte list \<Rightarrow> cpccHdr" where
  "CpccHdr_of_bytes bs = \<lparr>
     cMagic = of_nat (field 0 4 bs), cOp = of_nat (field 4 4 bs), cLen = of_nat (field 8 8 bs),
     cId = of_nat (field 16 8 bs), cDemand = of_nat (field 24 8 bs), cTsSent = of_nat (field 32 8 bs),
     cFlags = bs ! 40\<rparr>"

definition SpccHdr_of_bytes :: "byte list \<Rightarrow> spccHdr" where
  "SpccHdr_of_bytes bs = \<lparr>
     sMagic = of_nat (field 0 4 bs), sOp = of_nat (field 4 4 bs), sLen = of_nat (field 8 8 bs),
     sId = of_nat (field 16 8 bs), sCredit = of_nat (field 24 8 bs), sTsSent = of_nat (field 32 8 bs),
     sFlags = bs ! 40\<rparr>"

lemma CpccHdr_bytes_length: "length (CpccHdr_bytes pad h) = 41 + length pad"
  by (simp add: CpccHdr_bytes_def)

lemma SpccHdr_bytes_length: "length (SpccHdr_bytes pad h) = 41 + length pad"
  by (simp add: SpccHdr_bytes_def)

lemma take_drop_field:
  "length a = off \<Longrightarrow> length b = k \<Longrightarrow> take k (drop off (a @ b @ c)) = b"
  by simp

lemma field_append:
  assumes "length a = off" "length b = k"
  shows "field off k (a @ b @ c) = le_nat b"
  using assms by (simp add: field_def)

lemma CpccHdr_roundtrip: "CpccHdr_of_bytes (CpccHdr_bytes pad h) = h"
  by (simp add: CpccHdr_of_bytes_def CpccHdr_bytes_def field_def le_nat_u32 le_nat_u64 nth_append
      del: le_nat.simps le_bytes.simps)

lemma SpccHdr_roundtrip: "SpccHdr_of_bytes (SpccHdr_bytes pad h) = h"
  by (simp add: SpccHdr_of_bytes_def SpccHdr_bytes_def field_def le_nat_u32 le_nat_u64 nth_append
      del: le_nat.simps le_bytes.simps)

end
