(* ===== verification/Credit_Session.thy ===== *)
theory Credit_Session
  imports Utils LinkedList Env Bitmap Wire
begin

text \<open>
  The per-client session of the credit-based servers, as \<open>src/ovldctlrpc/pcc/pcc_server.go\<close> has
  it: the window of 64 request slots, the session's credit, and the operations on one session
  (\<open>spccGetSlot\<close>, \<open>spccPutSlot\<close>, \<open>spccUpdateCredit\<close>,
  \<open>spccSendCompletionVector\<close>, \<open>spccSendECredit\<close>).  The request contexts are the objects of
  \<open>src/ovldctlrpc/common/rpc_int.go\<close>; a pool may hand back a used object, so the object a slot
  receives is an argument.  The mutexes are not fields: each definition is the code between two lock
  operations, and the callers compose them.  \<open>Signalled\<close> records a \<open>SendCondVar.Signal()\<close>
  since the sender last looked at its wait condition.

  The parameter \<open>B\<close> is the bitmap package, \<open>wr\<close> the connection's \<open>Write\<close>,
  \<open>pad\<close> the padding bytes of a header, \<open>procs\<close> the value of
  \<open>runtime.GOMAXPROCS(0)\<close>.
\<close>

section \<open>State\<close>

record srpcCtx =
  Idx :: int
  CtxId :: u64
  ReqLen :: u64
  RespLen :: u64
  ReqBuf :: "byte list"
  RespBuf :: "byte list"
  Drop :: bool
  Track :: bool
  DsCredit :: u64
  ShouldPut :: bool

record credCtx =
  Cmn :: srpcCtx
  TsSent :: u64

record spccCtx = credCtx +
  Opaque :: u64

record ('b, 'c, 'k) credSession =
  Conn :: 'k
  SessId :: int
  NumPending :: int
  Closed :: bool
  AvailSlots :: 'b
  CompletedSlots :: 'b
  Slots :: "'c option list"
  Signalled :: bool
  SendDone :: bool
  DrainedProc :: int
  IsLinked :: bool
  DrainedTs :: u64
  WakeUp :: bool
  Credit :: int
  Advertised :: int
  Demand :: u64
  NeedECredit :: bool
  LastECreditTs :: u64

text \<open>
  The nodes of the drained lists: a head per processor and priority, and the link embedded in every
  session (sessions are named by numbers, the addresses of the session objects).
\<close>

datatype dnode = HeadH nat | HeadL nat | Link nat

record credOps =
  gNumSess :: u64
  gNumDrained :: u64
  gNumActive :: u64
  gCreditPool :: u64
  gCreditUsed :: u64
  gCreditDs :: u64
  gNumPending :: u64
  gCreditCarry :: float64
  StatCUpdateRx :: u64
  StatECreditTx :: u64
  StatCreditTx :: u64
  StatReqRx :: u64
  StatReqDropped :: u64
  StatRespTx :: u64
  Drained :: "(dnode, nat) heap"

definition SpccMaxProcs :: nat where "SpccMaxProcs = 256"
definition SpccMaxWindowExp :: nat where "SpccMaxWindowExp = 6"
definition SpccMaxWindow :: nat where "SpccMaxWindow = 2 ^ SpccMaxWindowExp"

lemma SpccMaxWindow_64 [simp]: "SpccMaxWindow = 64"
  by (simp add: SpccMaxWindow_def SpccMaxWindowExp_def)

section \<open>Slots\<close>

definition spccGetSlot ::
  "'b bitmap_ops \<Rightarrow> 'z credCtx_scheme \<Rightarrow> ('b, 'z credCtx_scheme, 'k) credSession \<Rightarrow>
   (int \<times> ('b, 'z credCtx_scheme, 'k) credSession) option" where
  "spccGetSlot B pooled s = (
     let (slot, ok) = bmMin B (AvailSlots s) in
     if \<not> ok then Some (- 1, s)
     else if length (Slots s) \<le> slot then None
     else let c = pooled\<lparr>Cmn := (Cmn pooled)\<lparr>Idx := int slot, DsCredit := 0, Drop := False\<rparr>\<rparr> in
       Some (int slot, s\<lparr>AvailSlots := bmRemove B slot (AvailSlots s), Slots := (Slots s)[slot := Some c]\<rparr>))"

text \<open>\<open>s.Slots[slot]\<close>, with the index check; the inner option is a nil pointer.\<close>

definition slot_at :: "('b, 'c, 'k) credSession \<Rightarrow> int \<Rightarrow> 'c option option" where
  "slot_at s i = (if 0 \<le> i \<and> nat i < length (Slots s) then Some (Slots s ! nat i) else None)"

definition spccPutSlot ::
  "'b bitmap_ops \<Rightarrow> ('b, 'c, 'k) credSession \<Rightarrow> int \<Rightarrow> ('b, 'c, 'k) credSession option" where
  "spccPutSlot B s slot = do {
     p \<leftarrow> slot_at s slot;
     c \<leftarrow> p;
     Some (s\<lparr>Slots := (Slots s)[nat slot := None], AvailSlots := bmSet B (nat slot) (AvailSlots s)\<rparr>)
   }"

section \<open>Credits\<close>

definition spccUpdateCredit ::
  "int \<Rightarrow> 'o credOps_scheme \<Rightarrow> ('b, 'c, 'k) credSession \<Rightarrow> bool \<Rightarrow>
   ('o credOps_scheme \<times> ('b, 'c, 'k) credSession) option" where
  "spccUpdateCredit procs ops s reqDropped = (
     let creditPool0 = u2i (AtomicGetUint64 (gCreditPool ops));
         creditDs = u2i (AtomicGetUint64 (gCreditDs ops));
         creditUsed = u2i (AtomicGetUint64 (gCreditUsed ops));
         numSess = u2i (AtomicGetUint64 (gNumSess ops));
         oldCredit = Credit s;
         creditPool = (if creditDs > 0 then Min_go creditPool0 creditDs else creditPool0)
     in
     if DrainedProc s \<noteq> - 1 then Some (ops, s)
     else
       let creditUnused = isub creditPool creditUsed in
       case idiv creditUnused numSess of
         None \<Rightarrow> None
       | Some share \<Rightarrow>
         let maxOverprovision = Max_go share 1;
             want = iadd (iadd (NumPending s) (u2i (Demand s))) maxOverprovision;
             c1 = (if creditUsed < creditPool then Min_go want (iadd (Credit s) creditUnused)
                   else if creditUsed > creditPool then isub (Credit s) 1
                   else Credit s);
             c2 = (if WakeUp s \<or> numSess \<le> procs then Max_go c1 maxOverprovision else c1);
             c3 = (if oldCredit > 0 \<and> c2 = 0 \<and> \<not> reqDropped then maxOverprovision else c2);
             c4 = Max_go c3 (NumPending s);
             c5 = Min_go c4 (int SpccMaxWindow - 1);
             c6 = Min_go c5 want;
             creditDiff = isub c6 oldCredit
         in Some (ops\<lparr>gCreditUsed := AtomicAddUint64 (gCreditUsed ops) (i2u creditDiff)\<rparr>, s\<lparr>Credit := c6\<rparr>))"

section \<open>Sending\<close>

text \<open>
  The closure \<open>spccSendCompletionVector\<close> runs for every completed slot: the response (or, for a
  dropped request, the request itself with the drop flag) behind a header that carries the session's
  credit; whether or not the writes succeed, the slot is freed.
\<close>

definition response_of :: "'z credCtx_scheme \<Rightarrow> u64 \<times> byte list \<times> u8" where
  "response_of c =
     (if \<not> Drop (Cmn c) then (RespLen (Cmn c), RespBuf (Cmn c), 0)
      else (ReqLen (Cmn c), ReqBuf (Cmn c), PccSFlagDrop))"

definition response_hdr ::
  "('b, 'z credCtx_scheme, 'k) credSession \<Rightarrow> 'z credCtx_scheme \<Rightarrow> spccHdr" where
  "response_hdr s c = (let (len, buf, flags) = response_of c in
     \<lparr>sMagic = PccRespMagic, sOp = PccOpCall, sLen = len, sId = CtxId (Cmn c),
      sCredit = i2u (Credit s), sTsSent = TsSent c, sFlags = flags\<rparr>)"

definition spccSendOne ::
  "'b bitmap_ops \<Rightarrow> 'k writer \<Rightarrow> byte list \<Rightarrow> nat \<Rightarrow>
   'o credOps_scheme \<times> ('b, 'z credCtx_scheme, 'k) credSession \<Rightarrow>
   ('o credOps_scheme \<times> ('b, 'z credCtx_scheme, 'k) credSession) option" where
  "spccSendOne B wr pad idx os = (case os of (ops, s) \<Rightarrow> do {
     p \<leftarrow> slot_at s (int idx);
     c \<leftarrow> p;
     let (len, buf, flags) = response_of c;
     (n, err, k) \<leftarrow> WriteFull wr (SpccHdr_bytes pad (response_hdr s c)) (Conn s);
     (sent, k) \<leftarrow> (if err \<noteq> None then Some (False, k)
        else if length buf < unat len then None
        else do { (n, err, k) \<leftarrow> WriteFull wr (take (unat len) buf) k; Some (err = None, k) });
     let ops1 = (if sent then ops\<lparr>StatRespTx := AtomicAddUint64 (StatRespTx ops) 1\<rparr> else ops);
     let ops2 = ops1\<lparr>gNumPending := AtomicSubUint64 (gNumPending ops1) 1\<rparr>;
     s' \<leftarrow> spccPutSlot B (s\<lparr>Conn := k\<rparr>) (int idx);
     Some (ops2, s')
   })"

fun spccSendAll ::
  "'b bitmap_ops \<Rightarrow> 'k writer \<Rightarrow> byte list \<Rightarrow> nat list \<Rightarrow>
   'o credOps_scheme \<times> ('b, 'z credCtx_scheme, 'k) credSession \<Rightarrow>
   ('o credOps_scheme \<times> ('b, 'z credCtx_scheme, 'k) credSession) option" where
  "spccSendAll B wr pad [] os = Some os"
| "spccSendAll B wr pad (idx # rest) os =
     do { os' \<leftarrow> spccSendOne B wr pad idx os; spccSendAll B wr pad rest os' }"

definition spccSendCompletionVector ::
  "'b bitmap_ops \<Rightarrow> 'k writer \<Rightarrow> byte list \<Rightarrow> 'o credOps_scheme \<Rightarrow>
   ('b, 'z credCtx_scheme, 'k) credSession \<Rightarrow> 'b \<Rightarrow>
   ('o credOps_scheme \<times> ('b, 'z credCtx_scheme, 'k) credSession) option" where
  "spccSendCompletionVector B wr pad ops s vec = spccSendAll B wr pad (bmRange B vec) (ops, s)"

definition ecredit_hdr :: "('b, 'c, 'k) credSession \<Rightarrow> spccHdr" where
  "ecredit_hdr s = \<lparr>sMagic = PccRespMagic, sOp = PccOpCredit, sLen = 0, sId = 0,
      sCredit = i2u (Credit s), sTsSent = 0, sFlags = 0\<rparr>"

definition spccSendECredit ::
  "'k writer \<Rightarrow> byte list \<Rightarrow> 'o credOps_scheme \<Rightarrow> ('b, 'c, 'k) credSession \<Rightarrow>
   (int \<times> 'o credOps_scheme \<times> ('b, 'c, 'k) credSession) option" where
  "spccSendECredit wr pad ops s = do {
     (n, err, k) \<leftarrow> WriteFull wr (SpccHdr_bytes pad (ecredit_hdr s)) (Conn s);
     Some (if err \<noteq> None then (- 1, ops, s\<lparr>Conn := k\<rparr>)
           else (0, ops\<lparr>StatECreditTx := AtomicAddUint64 (StatECreditTx ops) 1\<rparr>, s\<lparr>Conn := k\<rparr>))
   }"

section \<open>The credit rule\<close>

text \<open>The ranges in which the counters of a running server stay, so that no \<open>int\<close> operation wraps.\<close>

definition counters_ok :: "'o credOps_scheme \<Rightarrow> bool" where
  "counters_ok ops \<longleftrightarrow> uint (gCreditPool ops) < 2 ^ 60 \<and> uint (gCreditUsed ops) < 2 ^ 60 \<and>
     0 < uint (gNumSess ops) \<and> uint (gNumSess ops) < 2 ^ 60"

definition credit_ok :: "('b, 'c, 'k) credSession \<Rightarrow> bool" where
  "credit_ok s \<longleftrightarrow> 0 \<le> NumPending s \<and> NumPending s \<le> 64 \<and> 0 \<le> Credit s \<and> Credit s \<le> 63 \<and>
     uint (Demand s) < 2 ^ 60"

text \<open>The pool a session sees, and its share of the unused credits.\<close>

definition pool_seen :: "'o credOps_scheme \<Rightarrow> int" where
  "pool_seen ops = (if u2i (gCreditDs ops) > 0 then min (uint (gCreditPool ops)) (u2i (gCreditDs ops))
     else uint (gCreditPool ops))"

definition overprovision :: "'o credOps_scheme \<Rightarrow> int" where
  "overprovision ops = max ((pool_seen ops - uint (gCreditUsed ops)) sdiv uint (gNumSess ops)) 1"

definition credit_rule :: "int \<Rightarrow> int \<Rightarrow> int \<Rightarrow> int \<Rightarrow> int \<Rightarrow> int \<Rightarrow> bool \<Rightarrow> bool \<Rightarrow> int" where
  "credit_rule pool used over pending demand credit boost dropped = (
     let want = pending + demand + over;
         c1 = (if used < pool then min want (credit + (pool - used))
               else if used > pool then credit - 1 else credit);
         c2 = (if boost then max c1 over else c1);
         c3 = (if credit > 0 \<and> c2 = 0 \<and> \<not> dropped then over else c2)
     in min (min (max c3 pending) 63) want)"

definition next_credit :: "int \<Rightarrow> 'o credOps_scheme \<Rightarrow> ('b, 'c, 'k) credSession \<Rightarrow> bool \<Rightarrow> int" where
  "next_credit procs ops s dropped =
     credit_rule (pool_seen ops) (uint (gCreditUsed ops)) (overprovision ops) (NumPending s)
       (uint (Demand s)) (Credit s) (WakeUp s \<or> uint (gNumSess ops) \<le> procs) dropped"

lemma credit_rule_bounds:
  assumes "1 \<le> over" "0 \<le> pending" "0 \<le> demand" "0 \<le> credit"
  shows "0 \<le> credit_rule pool used over pending demand credit boost dropped"
    "credit_rule pool used over pending demand credit boost dropped \<le> 63"
    "min pending 63 \<le> credit_rule pool used over pending demand credit boost dropped"
    "credit_rule pool used over pending demand credit boost dropped \<le> pending + demand + over"
  using assms unfolding credit_rule_def Let_def by (auto simp: min_def max_def)

lemma credit_rule_keeps_last:
  assumes "1 \<le> over" "0 \<le> pending" "0 \<le> demand" "0 < credit"
  shows "1 \<le> credit_rule pool used over pending demand credit boost False"
  using assms unfolding credit_rule_def Let_def by (auto simp: min_def max_def)

lemma credit_rule_within_pool:
  assumes "1 \<le> over" "0 \<le> pending" "0 \<le> demand" "pending \<le> credit" "used < pool"
  shows "used + (credit_rule pool used over pending demand credit False dropped - credit) \<le> pool"
  using assms unfolding credit_rule_def Let_def by (auto simp: min_def max_def)

lemma in_int64_diff: "0 \<le> p \<Longrightarrow> p < 2 ^ 60 \<Longrightarrow> 0 \<le> u \<Longrightarrow> u < 2 ^ 60 \<Longrightarrow> in_int64 (p - u)"
  by (simp add: in_int64_def)

lemma in_int64_sum:
  "\<lbrakk>0 \<le> a; a \<le> 64; - (2 ^ 60) \<le> b; b < 2 ^ 60; - (2 ^ 60) \<le> c; c < 2 ^ 60\<rbrakk> \<Longrightarrow> in_int64 (a + b + c)"
  by (simp add: in_int64_def)

lemma u2i_60: "uint w < 2 ^ 60 \<Longrightarrow> u2i w = uint w"
  by (rule u2i_small) simp

lemma pool_seen_bounds: "counters_ok ops \<Longrightarrow> 0 \<le> pool_seen ops \<and> pool_seen ops < 2 ^ 60"
  by (auto simp: pool_seen_def counters_ok_def min_def)

lemma sdiv_bounds:
  fixes a b :: int
  assumes "0 < b" "- k \<le> a" "a \<le> k" "0 \<le> k"
  shows "- k \<le> a sdiv b" "a sdiv b \<le> k"
proof -
  have "\<bar>a\<bar> div b \<le> \<bar>a\<bar>" by (rule zdiv_mono2 [of "\<bar>a\<bar>" 1 b, simplified]) (use assms in auto)
  moreover have "0 \<le> \<bar>a\<bar> div b" using assms by (simp add: pos_imp_zdiv_nonneg_iff)
  moreover have "a sdiv b = sgn a * (\<bar>a\<bar> div b)"
    using assms by (simp add: signed_divide_int_def)
  ultimately show "- k \<le> a sdiv b" "a sdiv b \<le> k"
    using assms by (auto simp: sgn_if)
qed

lemma overprovision_bounds:
  assumes "counters_ok ops"
  shows "1 \<le> overprovision ops" "overprovision ops < 2 ^ 60"
proof -
  show "1 \<le> overprovision ops" by (simp add: overprovision_def)
  have le: "p - u \<le> 2 ^ 60 - 1" "- (2 ^ 60 - 1) \<le> p - u"
    if "0 \<le> p" "p < 2 ^ 60" "0 \<le> u" "u < 2 ^ 60" for p u :: int
    using that by auto
  have "(pool_seen ops - uint (gCreditUsed ops)) sdiv uint (gNumSess ops) \<le> 2 ^ 60 - 1"
    using assms pool_seen_bounds [OF assms] unfolding counters_ok_def
    by (intro sdiv_bounds(2) le) simp_all
  then show "overprovision ops < 2 ^ 60" by (simp add: overprovision_def)
qed

text \<open>On these ranges \<open>spccUpdateCredit\<close> computes \<open>next_credit\<close>: no wrap-around, no panic.\<close>

lemma spccUpdateCredit_eq:
  assumes ops: "counters_ok ops" and s: "credit_ok s" and d: "DrainedProc s = - 1"
  shows "spccUpdateCredit procs ops s dropped =
    Some (ops\<lparr>gCreditUsed := gCreditUsed ops + i2u (next_credit procs ops s dropped - Credit s)\<rparr>,
          s\<lparr>Credit := next_credit procs ops s dropped\<rparr>)"
proof -
  note ob = overprovision_bounds [OF ops] and pb = pool_seen_bounds [OF ops]
  let ?p = "pool_seen ops" and ?u = "uint (gCreditUsed ops)" and ?n = "uint (gNumSess ops)"
    and ?d = "uint (Demand s)"
  have u: "?u < 2 ^ 60" "0 < ?n" "?n < 2 ^ 60" "?d < 2 ^ 60"
    using ops s by (auto simp: counters_ok_def credit_ok_def)
  have c: "0 \<le> NumPending s" "NumPending s \<le> 64" "0 \<le> Credit s" "Credit s \<le> 63"
    using s by (auto simp: credit_ok_def)
  have conv: "u2i (gCreditPool ops) = uint (gCreditPool ops)" "u2i (gCreditUsed ops) = ?u"
    "u2i (gNumSess ops) = ?n" "u2i (Demand s) = ?d"
    using ops u by (simp_all add: u2i_60 counters_ok_def)
  have pu: "in_int64 (?p - ?u)"
    using pb u by (intro in_int64_diff) simp_all
  have sub: "isub ?p ?u = ?p - ?u"
    unfolding isub_def by (rule goint_id [OF pu])
  have dv: "idiv (?p - ?u) ?n = Some ((?p - ?u) sdiv ?n)"
  proof -
    have le: "- (2 ^ 60) \<le> p - u \<and> p - u \<le> 2 ^ 60" if "0 \<le> p" "p < 2 ^ 60" "0 \<le> u" "u < 2 ^ 60" for p u :: int
      using that by auto
    have "- (2 ^ 60) \<le> ?p - ?u" "?p - ?u \<le> 2 ^ 60"
      using le [OF _ _ uint_ge_0 u(1), of ?p] pb by blast+
    from sdiv_bounds [OF u(2) this] have "in_int64 ((?p - ?u) sdiv ?n)"
      by (simp add: in_int64_def)
    then show ?thesis using u by (simp add: idiv_def goint_id)
  qed
  have nd: "iadd (NumPending s) ?d = NumPending s + ?d"
    unfolding iadd_def using in_int64_sum [of "NumPending s" ?d 0] c u by (intro goint_id) simp
  have w: "iadd (NumPending s + ?d) (overprovision ops) = NumPending s + ?d + overprovision ops"
    unfolding iadd_def using c u ob by (intro goint_id in_int64_sum) simp_all
  have ad: "iadd (Credit s) (?p - ?u) = Credit s + (?p - ?u)"
  proof -
    have "- ?u < 2 ^ 60" by (rule le_less_trans [of _ 0]) simp_all
    then have "in_int64 (Credit s + ?p - ?u)"
      using in_int64_sum [of "Credit s" ?p "- ?u"] c pb u by simp
    then show ?thesis unfolding iadd_def by (simp add: goint_id add_diff_eq)
  qed
  have dec: "isub (Credit s) 1 = Credit s - 1"
    unfolding isub_def by (rule goint_id) (use c in \<open>simp add: in_int64_def\<close>)
  have i2: "i2u (isub a b) = i2u (a - b)" for a b by (simp add: isub_def)
  have ps: "(if u2i (gCreditDs ops) > 0 then min (uint (gCreditPool ops)) (u2i (gCreditDs ops))
     else uint (gCreditPool ops)) = ?p"
    by (simp add: pool_seen_def)
  have mw: "int SpccMaxWindow - 1 = 63" by simp
  show ?thesis
    unfolding spccUpdateCredit_def next_credit_def credit_rule_def Let_def AtomicGet_val
      AtomicAdd_plus Max_max Min_min conv ps sub dv option.case i2 overprovision_def [symmetric] nd w ad dec mw d
    by (simp only: simp_thms if_False)
qed

lemma next_credit_bounds:
  assumes ops: "counters_ok ops" and s: "credit_ok s"
  shows "0 \<le> next_credit procs ops s dropped" "next_credit procs ops s dropped \<le> 63"
    "min (NumPending s) 63 \<le> next_credit procs ops s dropped"
    "next_credit procs ops s dropped \<le> NumPending s + uint (Demand s) + overprovision ops"
  unfolding next_credit_def using overprovision_bounds(1) [OF ops] s
  by (intro credit_rule_bounds; simp add: credit_ok_def)+

lemma next_credit_keeps_last:
  assumes "counters_ok ops" "credit_ok s" "0 < Credit s"
  shows "1 \<le> next_credit procs ops s False"
  unfolding next_credit_def using overprovision_bounds(1) [OF assms(1)] assms(2,3)
  by (intro credit_rule_keeps_last) (simp_all add: credit_ok_def)

lemma next_credit_within_pool:
  assumes "counters_ok ops" "credit_ok s" "NumPending s \<le> Credit s"
    and "\<not> WakeUp s" "procs < uint (gNumSess ops)" "uint (gCreditUsed ops) < pool_seen ops"
  shows "uint (gCreditUsed ops) + (next_credit procs ops s dropped - Credit s) \<le> pool_seen ops"
proof -
  have "(WakeUp s \<or> uint (gNumSess ops) \<le> procs) = False" using assms(4,5) by simp
  then show ?thesis
    unfolding next_credit_def using overprovision_bounds(1) [OF assms(1)] assms
    by (simp only:) (intro credit_rule_within_pool; simp add: credit_ok_def)
qed

section \<open>The window of slots\<close>

definition ctx_ok :: "nat \<Rightarrow> 'z credCtx_scheme \<Rightarrow> bool" where
  "ctx_ok i c \<longleftrightarrow> Idx (Cmn c) = int i \<and> length (ReqBuf (Cmn c)) = SrpcBufSize \<and>
     length (RespBuf (Cmn c)) = SrpcBufSize \<and> unat (ReqLen (Cmn c)) \<le> SrpcBufSize \<and>
     unat (RespLen (Cmn c)) \<le> SrpcBufSize"

definition pooled_ok :: "'z credCtx_scheme \<Rightarrow> bool" where
  "pooled_ok c \<longleftrightarrow> length (ReqBuf (Cmn c)) = SrpcBufSize \<and> length (RespBuf (Cmn c)) = SrpcBufSize \<and>
     unat (ReqLen (Cmn c)) \<le> SrpcBufSize \<and> unat (RespLen (Cmn c)) \<le> SrpcBufSize"

definition occupied :: "('b, 'c, 'k) credSession \<Rightarrow> nat set" where
  "occupied s = {i. i < length (Slots s) \<and> Slots s ! i \<noteq> None}"

definition slots_ok :: "('b \<Rightarrow> nat set) \<Rightarrow> ('b, 'z credCtx_scheme, 'k) credSession \<Rightarrow> bool" where
  "slots_ok bits s \<longleftrightarrow> length (Slots s) = SpccMaxWindow \<and>
     bits (AvailSlots s) = {i. i < SpccMaxWindow} - occupied s \<and>
     bits (CompletedSlots s) \<subseteq> occupied s \<and>
     (\<forall>i c. i < SpccMaxWindow \<longrightarrow> Slots s ! i = Some c \<longrightarrow> ctx_ok i c)"

lemma occupied_finite [simp]: "finite (occupied s)"
  by (simp add: occupied_def)

lemma occupied_card: "slots_ok bits s \<Longrightarrow> card (occupied s) \<le> 64"
proof -
  assume "slots_ok bits s"
  then have "occupied s \<subseteq> {i. i < 64}" by (auto simp: slots_ok_def occupied_def)
  then have "card (occupied s) \<le> card {i. i < (64::nat)}" by (intro card_mono) simp_all
  then show ?thesis by simp
qed

lemma occupied_update:
  "i < length (Slots s) \<Longrightarrow> occupied (s\<lparr>Slots := (Slots s)[i := v]\<rparr>) =
     (if v = None then occupied s - {i} else insert i (occupied s))"
  by (auto simp: occupied_def nth_list_update split: if_splits)

text \<open>Only three fields of a session matter for the window.\<close>

lemma occupied_cong: "Slots s' = Slots s \<Longrightarrow> occupied s' = occupied s"
  by (simp add: occupied_def)

lemma slots_ok_cong:
  "\<lbrakk>Slots s' = Slots s; AvailSlots s' = AvailSlots s; CompletedSlots s' = CompletedSlots s\<rbrakk>
   \<Longrightarrow> slots_ok bits s' = slots_ok bits s"
  by (simp add: slots_ok_def occupied_def)

locale credit_server = bitmap B bits + byte_sink wr sent
  for B :: "'b bitmap_ops" and bits :: "'b \<Rightarrow> nat set"
    and wr :: "'k writer" and sent :: "'k \<Rightarrow> byte list"
begin

lemma GetSlot_full:
  assumes "slots_ok bits s" "card (occupied s) = 64"
  shows "spccGetSlot B pooled s = Some (- 1, s)"
proof -
  have "occupied s \<subseteq> {i. i < 64}" using assms(1) by (auto simp: slots_ok_def occupied_def)
  then have "occupied s = {i. i < 64}" using assms(2) by (intro card_subset_eq) simp_all
  then have "bits (AvailSlots s) = {}" using assms(1) by (simp add: slots_ok_def)
  then show ?thesis by (simp add: spccGetSlot_def bits_min)
qed

lemma GetSlot_free:
  assumes ok: "slots_ok bits s" and free: "card (occupied s) < 64" and p: "pooled_ok pooled"
  shows "\<exists>i c s'. spccGetSlot B pooled s = Some (int i, s') \<and> i < 64 \<and> i \<notin> occupied s \<and>
     s' = s\<lparr>AvailSlots := bmRemove B i (AvailSlots s), Slots := (Slots s)[i := Some c]\<rparr> \<and>
     c = pooled\<lparr>Cmn := (Cmn pooled)\<lparr>Idx := int i, DsCredit := 0, Drop := False\<rparr>\<rparr> \<and>
     slots_ok bits s' \<and> occupied s' = insert i (occupied s)"
proof -
  have len: "length (Slots s) = 64" using ok by (simp add: slots_ok_def)
  have av: "bits (AvailSlots s) = {i. i < 64} - occupied s" using ok by (simp add: slots_ok_def)
  have "bits (AvailSlots s) \<noteq> {}"
  proof
    assume "bits (AvailSlots s) = {}"
    then have "{i. i < 64} \<subseteq> occupied s" using av by auto
    then have "card {i. i < (64::nat)} \<le> card (occupied s)" by (intro card_mono) simp_all
    then show False using free by simp
  qed
  then obtain i where m: "bmMin B (AvailSlots s) = (i, True)" and i: "i \<in> bits (AvailSlots s)"
    by (simp add: bits_min)
  let ?c = "pooled\<lparr>Cmn := (Cmn pooled)\<lparr>Idx := int i, DsCredit := 0, Drop := False\<rparr>\<rparr>"
  let ?s = "s\<lparr>AvailSlots := bmRemove B i (AvailSlots s), Slots := (Slots s)[i := Some ?c]\<rparr>"
  have i64: "i < 64" "i \<notin> occupied s" using i av by auto
  have occ: "occupied ?s = insert i (occupied s)"
    using i64 len by (auto simp: occupied_def nth_list_update)
  have "slots_ok bits ?s"
    using ok i64 occ p len
    by (auto simp: slots_ok_def bits_remove ctx_ok_def pooled_ok_def nth_list_update)
  then show ?thesis
    using m i64 len occ by (simp add: spccGetSlot_def)
qed

lemma PutSlot_occupied:
  assumes ok: "slots_ok bits s" and i: "i \<in> occupied s" "i \<notin> bits (CompletedSlots s)"
  shows "\<exists>s'. spccPutSlot B s (int i) = Some s' \<and>
     s' = s\<lparr>Slots := (Slots s)[i := None], AvailSlots := bmSet B i (AvailSlots s)\<rparr> \<and>
     slots_ok bits s' \<and> occupied s' = occupied s - {i}"
proof -
  let ?s = "s\<lparr>Slots := (Slots s)[i := None], AvailSlots := bmSet B i (AvailSlots s)\<rparr>"
  have len: "length (Slots s) = 64" and i64: "i < 64"
    using ok i by (auto simp: slots_ok_def occupied_def)
  obtain c where c: "Slots s ! i = Some c" using i by (auto simp: occupied_def)
  have occ: "occupied ?s = occupied s - {i}"
    using i64 len by (auto simp: occupied_def nth_list_update split: if_splits)
  have "slots_ok bits ?s"
    using ok i i64 occ len
    by (auto simp: slots_ok_def bits_set nth_list_update split: if_splits)
  then show ?thesis
    using c i64 len occ by (simp add: spccPutSlot_def slot_at_def)
qed

text \<open>
  One completed slot: the slot is freed, one pending request is counted off, and at most the response
  counter changes besides the connection.
\<close>

lemma SendOne_ok:
  assumes ok: "slots_ok bits s" and i: "i \<in> occupied s" "i \<notin> bits (CompletedSlots s)"
  shows "\<exists>ops' s' k n. spccSendOne B wr pad i (ops, s) = Some (ops', s') \<and>
     ops' = ops\<lparr>gNumPending := gNumPending ops - 1, StatRespTx := StatRespTx ops + of_nat n\<rparr> \<and> n \<le> 1 \<and>
     s' = s\<lparr>Conn := k, Slots := (Slots s)[i := None], AvailSlots := bmSet B i (AvailSlots s)\<rparr> \<and>
     slots_ok bits s' \<and> occupied s' = occupied s - {i}"
proof -
  have len: "length (Slots s) = 64" and i64: "i < 64"
    using ok i by (auto simp: slots_ok_def occupied_def)
  obtain c where c: "Slots s ! i = Some c" using i by (auto simp: occupied_def)
  have cok: "ctx_ok i c" using ok c i64 by (simp add: slots_ok_def)
  obtain l buf flags where r: "response_of c = (l, buf, flags)" by (cases "response_of c")
  have bl: "\<not> length buf < unat l"
    using r cok by (auto simp: response_of_def ctx_ok_def split: if_splits)
  obtain n err k where w: "WriteFull wr (SpccHdr_bytes pad (response_hdr s c)) (Conn s) = Some (n, err, k)"
    using WriteFull_sink by blast
  obtain n2 err2 k2 where w2: "WriteFull wr (take (unat l) buf) k = Some (n2, err2, k2)"
    using WriteFull_sink by blast
  let ?k = "if err \<noteq> None then k else k2"
  let ?s = "s\<lparr>Conn := ?k\<rparr>"
  have "slots_ok bits ?s" "i \<in> occupied ?s" "i \<notin> bits (CompletedSlots ?s)" "occupied ?s = occupied s"
    using ok i slots_ok_cong [of ?s s bits] occupied_cong [of ?s s] by simp_all
  from PutSlot_occupied [OF this(1-3)] this(4) obtain s' where
    s': "spccPutSlot B ?s (int i) = Some s'"
      "s' = s\<lparr>Conn := ?k, Slots := (Slots s)[i := None], AvailSlots := bmSet B i (AvailSlots s)\<rparr>"
      "slots_ok bits s'" "occupied s' = occupied s - {i}"
    by auto
  have sl: "slot_at s (int i) = Some (Some c)" using i64 len c by (simp add: slot_at_def)
  let ?n = "if err = None \<and> err2 = None then 1 else 0 :: nat"
  have "spccSendOne B wr pad i (ops, s) =
      Some (ops\<lparr>gNumPending := gNumPending ops - 1, StatRespTx := StatRespTx ops + of_nat ?n\<rparr>, s')"
    using s'(1) by (cases err; cases err2) (simp_all add: spccSendOne_def sl r w w2 bl Let_def)
  then show ?thesis using s' by (intro exI [of _ "ops\<lparr>gNumPending := gNumPending ops - 1,
      StatRespTx := StatRespTx ops + of_nat ?n\<rparr>"] exI [of _ s'] exI [of _ ?k] exI [of _ ?n]) simp
qed

lemma SendAll_ok:
  assumes "slots_ok bits s" "distinct is" "set is \<subseteq> occupied s" "set is \<inter> bits (CompletedSlots s) = {}"
  shows "\<exists>ops' s' k n av sl. spccSendAll B wr pad is (ops, s) = Some (ops', s') \<and>
     ops' = ops\<lparr>gNumPending := gNumPending ops - of_nat (length is), StatRespTx := StatRespTx ops + of_nat n\<rparr> \<and>
     n \<le> length is \<and> s' = s\<lparr>Conn := k, Slots := sl, AvailSlots := av\<rparr> \<and>
     slots_ok bits s' \<and> occupied s' = occupied s - set is"
  using assms
proof (induction "is" arbitrary: ops s)
  case Nil
  show ?case
    by (rule exI [of _ ops], rule exI [of _ s], rule exI [of _ "Conn s"], rule exI [of _ 0],
        rule exI [of _ "AvailSlots s"], rule exI [of _ "Slots s"]) (use Nil in simp)
next
  case (Cons i rest)
  from SendOne_ok [of s i pad ops] Cons.prems obtain ops1 s1 k1 n1 where
    1: "spccSendOne B wr pad i (ops, s) = Some (ops1, s1)"
      "ops1 = ops\<lparr>gNumPending := gNumPending ops - 1, StatRespTx := StatRespTx ops + of_nat n1\<rparr>" "n1 \<le> 1"
      "s1 = s\<lparr>Conn := k1, Slots := (Slots s)[i := None], AvailSlots := bmSet B i (AvailSlots s)\<rparr>"
      "slots_ok bits s1" "occupied s1 = occupied s - {i}"
    by auto
  have cs: "CompletedSlots s1 = CompletedSlots s" using 1(4) by simp
  have "distinct rest" "set rest \<subseteq> occupied s1" "set rest \<inter> bits (CompletedSlots s1) = {}"
    using Cons.prems 1(6) cs by auto
  from Cons.IH [OF 1(5) this, of ops1] obtain ops2 s2 k2 n2 av2 sl2 where
    2: "spccSendAll B wr pad rest (ops1, s1) = Some (ops2, s2)"
      "ops2 = ops1\<lparr>gNumPending := gNumPending ops1 - of_nat (length rest), StatRespTx := StatRespTx ops1 + of_nat n2\<rparr>"
      "n2 \<le> length rest" "s2 = s1\<lparr>Conn := k2, Slots := sl2, AvailSlots := av2\<rparr>"
      "slots_ok bits s2" "occupied s2 = occupied s1 - set rest"
    by blast
  have o: "ops2 = ops\<lparr>gNumPending := gNumPending ops - of_nat (length (i # rest)),
      StatRespTx := StatRespTx ops + of_nat (n1 + n2)\<rparr>"
    by (simp add: 2(2) 1(2) algebra_simps)
  have s: "s2 = s\<lparr>Conn := k2, Slots := sl2, AvailSlots := av2\<rparr>"
    by (simp add: 2(4) 1(4))
  have "spccSendAll B wr pad (i # rest) (ops, s) = Some (ops2, s2)" using 1(1) 2(1) by simp
  moreover have "occupied s2 = occupied s - set (i # rest)" using 1(6) 2(6) by auto
  moreover have "n1 + n2 \<le> length (i # rest)" using 1(3) 2(3) by simp
  ultimately show ?case using o s 2(5) by blast
qed

end

interpretation cs: credit_server boolmap bools mem_write written
  by unfold_locales

end
