(* ===== verification/Credit_Drained.thy ===== *)
theory Credit_Drained
  imports Credit_Session
begin

text \<open>
  The drained sessions of the credit-based servers: sessions without credits wait in per-processor
  lists, one of high priority (the client has demand) and one of low priority, until the controller
  finds unused credits and wakes them.  The definitions follow \<open>spccRemoveFromDrainedList\<close>,
  \<open>spccChooseDrainedH\<close>, \<open>spccChooseDrainedL\<close> and \<open>spccWakeUpDrainedSession\<close> of
  \<open>src/ovldctlrpc/pcc/pcc_server.go\<close>, on the pointer lists of theory \<open>LinkedList\<close>.  The
  invariant \<open>drained_ok\<close> ties the lists to the flags of the sessions.
\<close>

section \<open>The server state\<close>

record ('o, 'b, 'c, 'k) credSys =
  ops :: 'o
  sess :: "nat \<rightharpoonup> ('b, 'c, 'k) credSession"

type_synonym ('x, 'b, 'c, 'k) credServer = "('x credOps_scheme, 'b, 'c, 'k) credSys"

definition put_sess :: "nat \<Rightarrow> ('b, 'c, 'k) credSession \<Rightarrow> ('o, 'b, 'c, 'k) credSys \<Rightarrow> ('o, 'b, 'c, 'k) credSys" where
  "put_sess p s S = S\<lparr>sess := (sess S)(p \<mapsto> s)\<rparr>"

definition set_ops :: "'o \<Rightarrow> ('o, 'b, 'c, 'k) credSys \<Rightarrow> ('o, 'b, 'c, 'k) credSys" where
  "set_ops os S = S\<lparr>ops := os\<rparr>"

definition set_drained :: "(dnode, nat) heap \<Rightarrow> ('x, 'b, 'c, 'k) credServer \<Rightarrow> ('x, 'b, 'c, 'k) credServer" where
  "set_drained h S = S\<lparr>ops := (ops S)\<lparr>Drained := h\<rparr>\<rparr>"

lemma sys_simps [simp]:
  "ops (put_sess p s S) = ops S" "sess (put_sess p s S) = (sess S)(p \<mapsto> s)"
  "ops (set_ops os S) = os" "sess (set_ops os S) = sess S"
  "sess (set_drained h T) = sess T" "ops (set_drained h T) = (ops T)\<lparr>Drained := h\<rparr>"
  by (simp_all add: put_sess_def set_ops_def set_drained_def)

section \<open>Operations\<close>

definition spccRemoveFromDrainedList ::
  "nat \<Rightarrow> 'x credOps_scheme \<Rightarrow> ('b, 'c, 'k) credSession \<Rightarrow>
   ('x credOps_scheme \<times> ('b, 'c, 'k) credSession) option" where
  "spccRemoveFromDrainedList p os s =
     (if DrainedProc s = - 1 then Some (os, s)
      else if DrainedProc s < 0 \<or> SpccMaxProcs \<le> nat (DrainedProc s) then None
      else if IsLinked s then do {
        h \<leftarrow> ListNode_Del (Link p) (Drained os);
        Some (os\<lparr>Drained := h, gNumDrained := AtomicSubUint64 (gNumDrained os) 1\<rparr>,
              s\<lparr>IsLinked := False, DrainedProc := - 1\<rparr>)
      }
      else Some (os, s\<lparr>DrainedProc := - 1\<rparr>))"

text \<open>
  Linking a session that ran out of credits: the two insertions of \<open>spccSender\<close> (front of the high
  priority list with demand, end of the low priority list without) and the one of the credit message
  (end of the low priority list).
\<close>

definition spccLinkDrained ::
  "bool \<Rightarrow> nat \<Rightarrow> nat \<Rightarrow> 'x credOps_scheme \<Rightarrow> ('b, 'c, 'k) credSession \<Rightarrow>
   ('x credOps_scheme \<times> ('b, 'c, 'k) credSession) option" where
  "spccLinkDrained high procId p os s =
     (if SpccMaxProcs \<le> procId then None
      else do {
        h \<leftarrow> (if high then ListHead_Add (HeadH procId) (Link p) (Drained os)
              else ListHead_AddTail (HeadL procId) (Link p) (Drained os));
        Some (os\<lparr>Drained := h, gNumDrained := AtomicAddUint64 (gNumDrained os) 1\<rparr>,
              s\<lparr>IsLinked := True, DrainedProc := int procId\<rparr>)
      })"

definition spccDemandTimeout :: "u64 \<Rightarrow> u64 \<Rightarrow> u64" where
  "spccDemandTimeout maxClientDelay rtt = i2u (Max_go (isub (u2i maxClientDelay) (u2i rtt)) 0)"

text \<open>The loop that moves timed-out sessions from the tail of the high to the low priority list.\<close>

partial_function (option) spccDemote ::
  "u64 \<Rightarrow> u64 \<Rightarrow> nat \<Rightarrow> ('x, 'b, 'c, 'k) credServer \<Rightarrow> ('x, 'b, 'c, 'k) credServer option" where
  "spccDemote now timeout procID S =
     (case ListHead_Tail (HeadH procID) (Drained (ops S)) of
        None \<Rightarrow> None
      | Some None \<Rightarrow> Some S
      | Some (Some p) \<Rightarrow>
          (case sess S p of
             None \<Rightarrow> None
           | Some s \<Rightarrow>
               if now > DrainedTs s + timeout then
                 (case ListNode_Del (Link p) (Drained (ops S)) of
                    None \<Rightarrow> None
                  | Some h1 \<Rightarrow>
                      (case ListHead_AddTail (HeadL procID) (Link p) h1 of
                         None \<Rightarrow> None
                       | Some h2 \<Rightarrow> spccDemote now timeout procID (set_drained h2 S)))
               else Some S))"

text \<open>The end of both choose functions: pop a session, unlink it, count it off.\<close>

definition spccPopDrained ::
  "dnode \<Rightarrow> ('x, 'b, 'c, 'k) credServer \<Rightarrow> (nat option \<times> ('x, 'b, 'c, 'k) credServer) option" where
  "spccPopDrained lh S = do {
     (v, h) \<leftarrow> ListHead_Pop lh (Drained (ops S));
     p \<leftarrow> v;
     s \<leftarrow> sess S p;
     let s1 = s\<lparr>IsLinked := False\<rparr>;
     let s2 = s1\<lparr>DrainedProc := - 1\<rparr>;
     Some (Some p, set_ops ((ops S)\<lparr>Drained := h, gNumDrained := AtomicSubUint64 (gNumDrained (ops S)) 1\<rparr>)
                     (put_sess p s2 S))
   }"

definition spccChooseDrainedH ::
  "u64 \<Rightarrow> u64 \<Rightarrow> nat \<Rightarrow> ('x, 'b, 'c, 'k) credServer \<Rightarrow> world \<Rightarrow>
   (nat option \<times> ('x, 'b, 'c, 'k) credServer \<times> world) option" where
  "spccChooseDrainedH maxClientDelay rtt procID S w = (
     let now = MicroTime w; w1 = step_world w; timeout = spccDemandTimeout maxClientDelay rtt in
     if SpccMaxProcs \<le> procID then None
     else if ListHead_Empty (HeadH procID) (Drained (ops S)) then Some (None, S, w1)
     else do {
       S1 \<leftarrow> spccDemote now timeout procID S;
       if ListHead_Empty (HeadH procID) (Drained (ops S1)) then Some (None, S1, w1)
       else do { (r, S2) \<leftarrow> spccPopDrained (HeadH procID) S1; Some (r, S2, w1) }
     })"

definition spccChooseDrainedL ::
  "nat \<Rightarrow> ('x, 'b, 'c, 'k) credServer \<Rightarrow> world \<Rightarrow>
   (nat option \<times> ('x, 'b, 'c, 'k) credServer \<times> world) option" where
  "spccChooseDrainedL procID S w =
     (if SpccMaxProcs \<le> procID then None
      else if ListHead_Empty (HeadL procID) (Drained (ops S)) then Some (None, S, w)
      else do { (r, S1) \<leftarrow> spccPopDrained (HeadL procID) S; Some (r, S1, w) })"

text \<open>
  Probing the remote processors: \<open>for s == nil && i != procID\<close>, the index going around modulo
  \<open>GOMAXPROCS\<close>.
\<close>

partial_function (option) spccProbe ::
  "(nat \<Rightarrow> 's \<Rightarrow> world \<Rightarrow> (nat option \<times> 's \<times> world) option) \<Rightarrow> nat \<Rightarrow> nat \<Rightarrow> nat \<Rightarrow> 's \<Rightarrow> world \<Rightarrow>
   (nat option \<times> 's \<times> world) option" where
  "spccProbe pick procID maxProcs i S w =
     (if i = procID then Some (None, S, w)
      else (case pick i S w of
              None \<Rightarrow> None
            | Some (r, S1, w1) \<Rightarrow>
                (if r \<noteq> None then Some (r, S1, w1)
                 else spccProbe pick procID maxProcs ((i + 1) mod maxProcs) S1 w1)))"

text \<open>Local processor first, then the others.\<close>

definition spccPickFrom ::
  "(nat \<Rightarrow> 's \<Rightarrow> world \<Rightarrow> (nat option \<times> 's \<times> world) option) \<Rightarrow> nat \<Rightarrow> nat \<Rightarrow> 's \<Rightarrow> world \<Rightarrow>
   (nat option \<times> 's \<times> world) option" where
  "spccPickFrom pick procID maxProcs S w = do {
     (r, S1, w1) \<leftarrow> pick procID S w;
     if r \<noteq> None then Some (r, S1, w1)
     else spccProbe pick procID maxProcs ((procID + 1) mod maxProcs) S1 w1
   }"

definition spccWakeOne :: "nat \<Rightarrow> ('x, 'b, 'c, 'k) credServer \<Rightarrow> ('x, 'b, 'c, 'k) credServer option" where
  "spccWakeOne p S = do {
     s \<leftarrow> sess S p;
     let os = ops S;
     Some (set_ops (os\<lparr>gCreditUsed := AtomicAddUint64 (gCreditUsed os) 1\<rparr>)
             (put_sess p (s\<lparr>WakeUp := True, Credit := 1, Signalled := True\<rparr>) S))
   }"

primrec spccWakeLoop ::
  "u64 \<Rightarrow> u64 \<Rightarrow> nat \<Rightarrow> nat \<Rightarrow> nat \<Rightarrow> ('x, 'b, 'c, 'k) credServer \<Rightarrow> world \<Rightarrow>
   (('x, 'b, 'c, 'k) credServer \<times> world) option" where
  "spccWakeLoop maxClientDelay rtt procID maxProcs 0 S w = Some (S, w)"
| "spccWakeLoop maxClientDelay rtt procID maxProcs (Suc n) S w = do {
     (r, S1, w1) \<leftarrow> spccPickFrom (spccChooseDrainedH maxClientDelay rtt) procID maxProcs S w;
     (r, S2, w2) \<leftarrow> (if r \<noteq> None then Some (r, S1, w1)
                    else spccPickFrom spccChooseDrainedL procID maxProcs S1 w1);
     (case r of
        None \<Rightarrow> Some (S2, w2)
      | Some p \<Rightarrow> do { S3 \<leftarrow> spccWakeOne p S2; spccWakeLoop maxClientDelay rtt procID maxProcs n S3 w2 })
   }"

definition spccWakeUpDrainedSession ::
  "u64 \<Rightarrow> u64 \<Rightarrow> nat \<Rightarrow> u64 \<Rightarrow> ('x, 'b, 'c, 'k) credServer \<Rightarrow> world \<Rightarrow>
   (('x, 'b, 'c, 'k) credServer \<times> world) option" where
  "spccWakeUpDrainedSession maxClientDelay rtt maxProcs numSess S w =
     spccWakeLoop maxClientDelay rtt (ProcId_of w) maxProcs (unat numSess) S (step_world w)"

section \<open>The drained invariant\<close>

definition dheads :: "dnode set" where
  "dheads = HeadH ` {..<SpccMaxProcs} \<union> HeadL ` {..<SpccMaxProcs}"

lemma dheads_iff [simp]:
  "HeadH q \<in> dheads \<longleftrightarrow> q < SpccMaxProcs" "HeadL q \<in> dheads \<longleftrightarrow> q < SpccMaxProcs" "Link p \<notin> dheads"
  by (auto simp: dheads_def)

definition linked_sessions :: "('o, 'b, 'c, 'k) credSys \<Rightarrow> nat set" where
  "linked_sessions S = {p. \<exists>s. sess S p = Some s \<and> IsLinked s}"

definition in_lists :: "(dnode \<Rightarrow> dnode list) \<Rightarrow> nat \<Rightarrow> dnode \<Rightarrow> bool" where
  "in_lists L q n \<longleftrightarrow> n \<in> set (L (HeadH q)) \<or> n \<in> set (L (HeadL q))"

definition drained_ok :: "(dnode \<Rightarrow> dnode list) \<Rightarrow> ('x, 'b, 'c, 'k) credServer \<Rightarrow> bool" where
  "drained_ok L S \<longleftrightarrow>
     dlists dheads (Drained (ops S)) L \<and>
     finite (dom (sess S)) \<and>
     (\<forall>p s. sess S p = Some s \<longrightarrow> Value (Drained (ops S)) (Link p) = Some p) \<and>
     (\<forall>p s. sess S p = Some s \<longrightarrow> IsLinked s \<longrightarrow>
        Credit s = 0 \<and> (\<exists>q<SpccMaxProcs. DrainedProc s = int q \<and> in_lists L q (Link p))) \<and>
     (\<forall>p s. sess S p = Some s \<longrightarrow> \<not> IsLinked s \<longrightarrow> DrainedProc s = - 1) \<and>
     (\<forall>a\<in>dheads. \<forall>n\<in>set (L a). \<exists>p s. n = Link p \<and> sess S p = Some s \<and> IsLinked s) \<and>
     gNumDrained (ops S) = of_nat (card (linked_sessions S))"

text \<open>
  The credits handed out: the sum over the open sessions.  A closing session returns its credits
  although its field keeps the value, so a closed session owes nothing.
\<close>

definition owed :: "('b, 'c, 'k) credSession \<Rightarrow> int" where
  "owed s = (if Closed s then 0 else Credit s)"

definition credit_sum :: "('o, 'b, 'c, 'k) credSys \<Rightarrow> int" where
  "credit_sum S = (\<Sum>p\<in>dom (sess S). owed (the (sess S p)))"

definition linked_open :: "('o, 'b, 'c, 'k) credSys \<Rightarrow> bool" where
  "linked_open S \<longleftrightarrow> (\<forall>p s. sess S p = Some s \<longrightarrow> IsLinked s \<longrightarrow> \<not> Closed s)"

definition credits_ok :: "('x, 'b, 'c, 'k) credServer \<Rightarrow> bool" where
  "credits_ok S \<longleftrightarrow> gCreditUsed (ops S) = i2u (credit_sum S)"

lemma linked_finite: "finite (dom (sess S)) \<Longrightarrow> finite (linked_sessions S)"
  by (rule finite_subset [of _ "dom (sess S)"]) (auto simp: linked_sessions_def)

lemma linked_upd:
  "linked_sessions (set_ops os (put_sess p s S)) =
     (if IsLinked s then insert p (linked_sessions S) else linked_sessions S - {p})"
  by (auto simp: linked_sessions_def)

lemma drained_okD:
  assumes "drained_ok L S"
  shows "dlists dheads (Drained (ops S)) L" "finite (dom (sess S))"
    and "\<And>p s. sess S p = Some s \<Longrightarrow> Value (Drained (ops S)) (Link p) = Some p"
    and "\<And>p s. sess S p = Some s \<Longrightarrow> IsLinked s \<Longrightarrow> Credit s = 0"
    and "\<And>p s. sess S p = Some s \<Longrightarrow> IsLinked s \<Longrightarrow>
           \<exists>q<SpccMaxProcs. DrainedProc s = int q \<and> in_lists L q (Link p)"
    and "\<And>p s. sess S p = Some s \<Longrightarrow> \<not> IsLinked s \<Longrightarrow> DrainedProc s = - 1"
    and "\<And>a n. a \<in> dheads \<Longrightarrow> n \<in> set (L a) \<Longrightarrow> \<exists>p s. n = Link p \<and> sess S p = Some s \<and> IsLinked s"
    and "gNumDrained (ops S) = of_nat (card (linked_sessions S))"
  using assms unfolding drained_ok_def by blast+

lemma drained_okI:
  assumes "dlists dheads (Drained (ops S)) L" "finite (dom (sess S))"
    and "\<And>p s. sess S p = Some s \<Longrightarrow> Value (Drained (ops S)) (Link p) = Some p"
    and "\<And>p s. sess S p = Some s \<Longrightarrow> IsLinked s \<Longrightarrow>
           Credit s = 0 \<and> (\<exists>q<SpccMaxProcs. DrainedProc s = int q \<and> in_lists L q (Link p))"
    and "\<And>p s. sess S p = Some s \<Longrightarrow> \<not> IsLinked s \<Longrightarrow> DrainedProc s = - 1"
    and "\<And>a n. a \<in> dheads \<Longrightarrow> n \<in> set (L a) \<Longrightarrow> \<exists>p s. n = Link p \<and> sess S p = Some s \<and> IsLinked s"
    and "gNumDrained (ops S) = of_nat (card (linked_sessions S))"
  shows "drained_ok L S"
  using assms unfolding drained_ok_def by blast

lemma drained_unlinked:
  assumes "drained_ok L S" "sess S p = Some s" "\<not> IsLinked s"
  shows "unlinked dheads L (Link p)"
  using drained_okD(7) [OF assms(1)] assms(2,3) unfolding unlinked_def by fastforce

text \<open>A step that does not touch the links of a session.\<close>

lemma drained_neutral:
  assumes ok: "drained_ok L S" and p: "sess S p = Some s"
    and same: "IsLinked s' = IsLinked s" "DrainedProc s' = DrainedProc s" "IsLinked s \<Longrightarrow> Credit s' = 0"
    and os: "Drained os = Drained (ops S)" "gNumDrained os = gNumDrained (ops S)"
  shows "drained_ok L (set_ops os (put_sess p s' S))"
proof -
  have ls: "linked_sessions (set_ops os (put_sess p s' S)) = linked_sessions S"
    using p same unfolding linked_upd by (auto simp: linked_sessions_def)
  note d = drained_okD [OF ok]
  show ?thesis
  proof (rule drained_okI)
    fix r t assume rt: "sess (set_ops os (put_sess p s' S)) r = Some t"
    show "Value (Drained (ops (set_ops os (put_sess p s' S)))) (Link r) = Some r"
      using rt d(3) p os by (cases "r = p") auto
    show "IsLinked t \<Longrightarrow> Credit t = 0 \<and> (\<exists>q<SpccMaxProcs. DrainedProc t = int q \<and> in_lists L q (Link r))"
      using rt d(4,5) p same by (cases "r = p") auto
    show "\<not> IsLinked t \<Longrightarrow> DrainedProc t = - 1"
      using rt d(6) p same by (cases "r = p") auto
  next
    fix a n assume "a \<in> dheads" "n \<in> set (L a)"
    from d(7) [OF this] show "\<exists>r t. n = Link r \<and> sess (set_ops os (put_sess p s' S)) r = Some t \<and> IsLinked t"
      using p same by auto
  qed (use d os ls in simp_all)
qed

text \<open>A step that takes a session out of its list.\<close>

lemma drained_unlink:
  assumes ok: "drained_ok L S" and p: "sess S p = Some s" "IsLinked s"
    and a: "a \<in> dheads" "Link p \<in> set (L a)"
    and dl: "dlists dheads h (L(a := remove1 (Link p) (L a)))" "Value h = Value (Drained (ops S))"
    and s': "\<not> IsLinked s'" "DrainedProc s' = - 1"
    and os: "Drained os = h" "gNumDrained os = gNumDrained (ops S) - 1"
  shows "drained_ok (L(a := remove1 (Link p) (L a))) (set_ops os (put_sess p s' S))"
proof -
  note d = drained_okD [OF ok]
  let ?L = "L(a := remove1 (Link p) (L a))" and ?S = "set_ops os (put_sess p s' S)"
  have other: "n \<in> set (?L b) \<longleftrightarrow> n \<in> set (L b) \<and> n \<noteq> Link p" if "b \<in> dheads" for b n
  proof (cases "b = a")
    case True
    then show ?thesis using dlistsD(2) [OF d(1) a(1)] by (auto simp: set_remove1_eq)
  next
    case False
    then have "Link p \<notin> set (L b)" using dlists_disjoint [OF d(1) a(1) that] a(2) by auto
    then show ?thesis using False by auto
  qed
  have il: "in_lists ?L q n \<longleftrightarrow> in_lists L q n" if "q < SpccMaxProcs" "n \<noteq> Link p" for q n
    using other [of "HeadH q" n] other [of "HeadL q" n] that unfolding in_lists_def by auto
  have pl: "p \<in> linked_sessions S" using p by (simp add: linked_sessions_def)
  have "card (linked_sessions S) = Suc (card (linked_sessions S - {p}))"
    using pl linked_finite [OF d(2)] by (metis card_Suc_Diff1)
  then have num: "gNumDrained os = of_nat (card (linked_sessions ?S))"
    using d(8) os(2) s'(1) by (simp add: linked_upd)
  have A: "\<forall>r t. sess ?S r = Some t \<longrightarrow> IsLinked t \<longrightarrow>
        Credit t = 0 \<and> (\<exists>q<SpccMaxProcs. DrainedProc t = int q \<and> in_lists ?L q (Link r))"
  proof (intro allI impI)
    fix r t assume "sess ?S r = Some t" "IsLinked t"
    then have r: "r \<noteq> p" "sess S r = Some t" using s'(1) by (auto split: if_splits)
    from d(5) [OF r(2) \<open>IsLinked t\<close>] obtain q where
      "q < SpccMaxProcs" "DrainedProc t = int q" "in_lists L q (Link r)" by blast
    then show "Credit t = 0 \<and> (\<exists>q<SpccMaxProcs. DrainedProc t = int q \<and> in_lists ?L q (Link r))"
      using d(4) [OF r(2) \<open>IsLinked t\<close>] il [of q "Link r"] r(1) by auto
  qed
  have B: "\<forall>b\<in>dheads. \<forall>n\<in>set (?L b). \<exists>r t. n = Link r \<and> sess ?S r = Some t \<and> IsLinked t"
  proof (intro ballI)
    fix b n assume b: "b \<in> dheads" "n \<in> set (?L b)"
    then have "n \<in> set (L b)" "n \<noteq> Link p" using other by blast+
    with d(7) [OF b(1)] obtain r t where "n = Link r" "sess S r = Some t" "IsLinked t" by blast
    then show "\<exists>r t. n = Link r \<and> sess ?S r = Some t \<and> IsLinked t" using \<open>n \<noteq> Link p\<close> by auto
  qed
  show ?thesis
  proof (rule drained_okI)
    fix r t assume rt: "sess ?S r = Some t"
    show "Value (Drained (ops ?S)) (Link r) = Some r"
      using rt d(3) p dl(2) os by (cases "r = p") auto
    show "\<not> IsLinked t \<Longrightarrow> DrainedProc t = - 1"
      using rt d(6) s' by (cases "r = p") auto
  qed (use dl d(2) os num A B in auto)
qed

text \<open>A step that puts a session without credits into one of the lists.\<close>

lemma drained_link:
  assumes ok: "drained_ok L S" and p: "sess S p = Some s" "\<not> IsLinked s"
    and a: "a = HeadH q \<or> a = HeadL q" "q < SpccMaxProcs"
    and dl: "dlists dheads h (L(a := xs))" "set xs = insert (Link p) (set (L a))"
      "Value h = Value (Drained (ops S))"
    and s': "IsLinked s'" "DrainedProc s' = int q" "Credit s' = 0"
    and os: "Drained os = h" "gNumDrained os = gNumDrained (ops S) + 1"
  shows "drained_ok (L(a := xs)) (set_ops os (put_sess p s' S))"
proof -
  note d = drained_okD [OF ok]
  let ?L = "L(a := xs)" and ?S = "set_ops os (put_sess p s' S)"
  have ah: "a \<in> dheads" using a by auto
  have sup: "n \<in> set (L b) \<Longrightarrow> n \<in> set (?L b)" for b n using dl(2) by auto
  have pl: "p \<notin> linked_sessions S" using p by (simp add: linked_sessions_def)
  have num: "gNumDrained os = of_nat (card (linked_sessions ?S))"
    using d(8) os(2) s'(1) pl linked_finite [OF d(2)] by (simp add: linked_upd)
  have A: "\<forall>r t. sess ?S r = Some t \<longrightarrow> IsLinked t \<longrightarrow>
        Credit t = 0 \<and> (\<exists>q<SpccMaxProcs. DrainedProc t = int q \<and> in_lists ?L q (Link r))"
  proof (intro allI impI)
    fix r t assume rt: "sess ?S r = Some t" "IsLinked t"
    show "Credit t = 0 \<and> (\<exists>q<SpccMaxProcs. DrainedProc t = int q \<and> in_lists ?L q (Link r))"
    proof (cases "r = p")
      case True
      then have "t = s'" using rt by simp
      moreover have "in_lists ?L q (Link p)" using a(1) dl(2) by (auto simp: in_lists_def)
      ultimately show ?thesis using s' a(2) True by auto
    next
      case False
      then have r: "sess S r = Some t" using rt by simp
      from d(5) [OF r rt(2)] obtain q' where
        "q' < SpccMaxProcs" "DrainedProc t = int q'" "in_lists L q' (Link r)" by blast
      then show ?thesis using d(4) [OF r rt(2)] sup unfolding in_lists_def by blast
    qed
  qed
  have B: "\<forall>b\<in>dheads. \<forall>n\<in>set (?L b). \<exists>r t. n = Link r \<and> sess ?S r = Some t \<and> IsLinked t"
  proof (intro ballI)
    fix b n assume b: "b \<in> dheads" "n \<in> set (?L b)"
    show "\<exists>r t. n = Link r \<and> sess ?S r = Some t \<and> IsLinked t"
    proof (cases "n = Link p")
      case True
      then show ?thesis using s'(1) by simp
    next
      case False
      then have "n \<in> set (L b)" using b(2) dl(2) by (auto split: if_splits)
      with d(7) [OF b(1)] obtain r t where "n = Link r" "sess S r = Some t" "IsLinked t" by blast
      then show ?thesis using False by auto
    qed
  qed
  show ?thesis
  proof (rule drained_okI)
    fix r t assume rt: "sess ?S r = Some t"
    show "Value (Drained (ops ?S)) (Link r) = Some r"
      using rt d(3) p dl(3) os by (cases "r = p") auto
    show "\<not> IsLinked t \<Longrightarrow> DrainedProc t = - 1"
      using rt d(6) s' by (cases "r = p") auto
  qed (use dl(1) d(2) os num A B in auto)
qed

text \<open>A step that only reorders or moves nodes between the lists of one processor.\<close>

lemma drained_move:
  assumes ok: "drained_ok L S" and dl: "dlists dheads h L'" "Value h = Value (Drained (ops S))"
    and q: "\<And>q n. q < SpccMaxProcs \<Longrightarrow> in_lists L' q n = in_lists L q n"
  shows "drained_ok L' (set_drained h S)"
proof -
  note d = drained_okD [OF ok]
  have B: "\<forall>b\<in>dheads. \<forall>n\<in>set (L' b). \<exists>r t. n = Link r \<and> sess S r = Some t \<and> IsLinked t"
  proof (intro ballI)
    fix b n assume b: "b \<in> dheads" "n \<in> set (L' b)"
    then obtain q0 where q0: "q0 < SpccMaxProcs" "b = HeadH q0 \<or> b = HeadL q0" by (auto simp: dheads_def)
    then have "in_lists L q0 n" using q [of q0 n] b(2) by (auto simp: in_lists_def)
    then show "\<exists>r t. n = Link r \<and> sess S r = Some t \<and> IsLinked t"
      using d(7) [of "HeadH q0" n] d(7) [of "HeadL q0" n] q0(1) by (auto simp: in_lists_def)
  qed
  have ls: "linked_sessions (set_drained h S) = linked_sessions S" by (simp add: linked_sessions_def)
  show ?thesis
  proof (rule drained_okI)
    fix r t assume rt: "sess (set_drained h S) r = Some t"
    show "Value (Drained (ops (set_drained h S))) (Link r) = Some r"
      using rt d(3) dl(2) by simp
    show "IsLinked t \<Longrightarrow> Credit t = 0 \<and> (\<exists>q<SpccMaxProcs. DrainedProc t = int q \<and> in_lists L' q (Link r))"
    proof -
      assume l: "IsLinked t"
      from rt have r: "sess S r = Some t" by simp
      from d(5) [OF r l] obtain q0 where
        "q0 < SpccMaxProcs" "DrainedProc t = int q0" "in_lists L q0 (Link r)" by blast
      then show ?thesis using d(4) [OF r l] q [of q0 "Link r"] by blast
    qed
    show "\<not> IsLinked t \<Longrightarrow> DrainedProc t = - 1"
      using rt d(6) by simp
  qed (use dl d(2,8) ls B in simp_all)
qed

section \<open>The operations keep the invariant\<close>

lemma RemoveFromDrained_ok:
  assumes ok: "drained_ok L S" and p: "sess S p = Some s"
  shows "\<exists>L' h. spccRemoveFromDrainedList p (ops S) s =
      Some ((ops S)\<lparr>Drained := h, gNumDrained := gNumDrained (ops S) - (if IsLinked s then 1 else 0)\<rparr>,
            s\<lparr>IsLinked := False, DrainedProc := - 1\<rparr>) \<and>
      drained_ok L' (set_ops ((ops S)\<lparr>Drained := h,
          gNumDrained := gNumDrained (ops S) - (if IsLinked s then 1 else 0)\<rparr>)
        (put_sess p (s\<lparr>IsLinked := False, DrainedProc := - 1\<rparr>) S))"
proof (cases "IsLinked s")
  case False
  then have dp: "DrainedProc s = - 1" using drained_okD(6) [OF ok p] by simp
  then have s: "s\<lparr>IsLinked := False, DrainedProc := - 1\<rparr> = s" using False by simp
  have "drained_ok L (set_ops (ops S) (put_sess p s S))"
    by (rule drained_neutral [OF ok p]) (use drained_okD(4) [OF ok p] in simp_all)
  then show ?thesis unfolding s using False dp
    by (intro exI [of _ L] exI [of _ "Drained (ops S)"]) (simp add: spccRemoveFromDrainedList_def)
next
  case True
  from drained_okD(5) [OF ok p True] obtain q a where
    q: "q < SpccMaxProcs" "DrainedProc s = int q" and a: "a = HeadH q \<or> a = HeadL q" "Link p \<in> set (L a)"
    unfolding in_lists_def by blast
  have ah: "a \<in> dheads" using a(1) q(1) by auto
  from dl.del [OF drained_okD(1) [OF ok] ah a(2)] obtain h where
    h: "ListNode_Del (Link p) (Drained (ops S)) = Some h"
      "dlists dheads h (L(a := remove1 (Link p) (L a)))" "Value h = Value (Drained (ops S))" by blast
  have "drained_ok (L(a := remove1 (Link p) (L a)))
     (set_ops ((ops S)\<lparr>Drained := h, gNumDrained := gNumDrained (ops S) - 1\<rparr>)
       (put_sess p (s\<lparr>IsLinked := False, DrainedProc := - 1\<rparr>) S))"
    by (rule drained_unlink [OF ok p True ah a(2) h(2,3)]) simp_all
  then show ?thesis using True q h(1)
    by (intro exI [of _ "L(a := remove1 (Link p) (L a))"] exI [of _ h])
      (simp add: spccRemoveFromDrainedList_def)
qed

lemma LinkDrained_lists:
  assumes ok: "drained_ok L S" and p: "sess S p = Some s" "\<not> IsLinked s" "Credit s = 0"
    and q: "q < SpccMaxProcs"
  shows "\<exists>h. spccLinkDrained high q p (ops S) s =
      Some ((ops S)\<lparr>Drained := h, gNumDrained := gNumDrained (ops S) + 1\<rparr>,
            s\<lparr>IsLinked := True, DrainedProc := int q\<rparr>) \<and>
      drained_ok (if high then L(HeadH q := Link p # L (HeadH q)) else L(HeadL q := L (HeadL q) @ [Link p]))
        (set_ops ((ops S)\<lparr>Drained := h, gNumDrained := gNumDrained (ops S) + 1\<rparr>)
        (put_sess p (s\<lparr>IsLinked := True, DrainedProc := int q\<rparr>) S))"
proof -
  let ?a = "if high then HeadH q else HeadL q" and ?xs = "if high then Link p # L (HeadH q) else L (HeadL q) @ [Link p]"
  have ah: "?a \<in> dheads" using q by simp
  note un = drained_unlinked [OF ok p(1,2)]
  have "\<exists>h. (if high then ListHead_Add (HeadH q) (Link p) (Drained (ops S))
         else ListHead_AddTail (HeadL q) (Link p) (Drained (ops S))) = Some h \<and>
      dlists dheads h (L(?a := ?xs)) \<and> Value h = Value (Drained (ops S))"
    using dl.add [OF drained_okD(1) [OF ok] ah un] dl.addTail [OF drained_okD(1) [OF ok] ah un]
    by (cases high) auto
  then obtain h where
    h: "(if high then ListHead_Add (HeadH q) (Link p) (Drained (ops S))
         else ListHead_AddTail (HeadL q) (Link p) (Drained (ops S))) = Some h"
      "dlists dheads h (L(?a := ?xs))" "Value h = Value (Drained (ops S))" by blast
  have xs: "set ?xs = insert (Link p) (set (L ?a))" by simp
  have "drained_ok (L(?a := ?xs)) (set_ops ((ops S)\<lparr>Drained := h, gNumDrained := gNumDrained (ops S) + 1\<rparr>)
        (put_sess p (s\<lparr>IsLinked := True, DrainedProc := int q\<rparr>) S))"
    by (rule drained_link [OF ok p(1,2) _ q h(2) xs h(3)]) (use p(3) in simp_all)
  moreover have "L(?a := ?xs) = (if high then L(HeadH q := Link p # L (HeadH q)) else L(HeadL q := L (HeadL q) @ [Link p]))"
    by simp
  ultimately show ?thesis using h(1) q by (intro exI [of _ h]) (simp add: spccLinkDrained_def)
qed

lemma LinkDrained_ok:
  assumes ok: "drained_ok L S" and p: "sess S p = Some s" "\<not> IsLinked s" "Credit s = 0"
    and q: "q < SpccMaxProcs"
  shows "\<exists>L' h. spccLinkDrained high q p (ops S) s =
      Some ((ops S)\<lparr>Drained := h, gNumDrained := gNumDrained (ops S) + 1\<rparr>,
            s\<lparr>IsLinked := True, DrainedProc := int q\<rparr>) \<and>
      drained_ok L' (set_ops ((ops S)\<lparr>Drained := h, gNumDrained := gNumDrained (ops S) + 1\<rparr>)
        (put_sess p (s\<lparr>IsLinked := True, DrainedProc := int q\<rparr>) S))"
  using LinkDrained_lists [OF assms, of high] by blast

text \<open>The demotion loop moves exactly the timed-out tail of the high priority list, oldest first.\<close>

definition expired :: "u64 \<Rightarrow> u64 \<Rightarrow> ('o, 'b, 'c, 'k) credSys \<Rightarrow> dnode \<Rightarrow> bool" where
  "expired now timeout S n = (case n of
     Link p \<Rightarrow> (case sess S p of None \<Rightarrow> False | Some s \<Rightarrow> now > DrainedTs s + timeout)
   | _ \<Rightarrow> False)"

definition demoted :: "u64 \<Rightarrow> u64 \<Rightarrow> ('o, 'b, 'c, 'k) credSys \<Rightarrow> nat \<Rightarrow> (dnode \<Rightarrow> dnode list) \<Rightarrow> dnode \<Rightarrow> dnode list" where
  "demoted now timeout S q L =
     L(HeadH q := rev (dropWhile (expired now timeout S) (rev (L (HeadH q)))),
       HeadL q := L (HeadL q) @ takeWhile (expired now timeout S) (rev (L (HeadH q))))"

lemma expired_set_drained [simp]: "expired now timeout (set_drained h S) = expired now timeout S"
  by (simp add: expired_def fun_eq_iff split: dnode.split)

lemma set_drained_same [simp]: "set_drained (Drained (ops S)) S = S"
  by (simp add: set_drained_def)

lemma set_drained_twice [simp]: "set_drained h' (set_drained h S) = set_drained h' S"
  by (simp add: set_drained_def)

lemma Demote_ok:
  assumes "drained_ok L S" "q < SpccMaxProcs"
  shows "\<exists>h. spccDemote now timeout q S = Some (set_drained h S) \<and>
     drained_ok (demoted now timeout S q L) (set_drained h S)"
  using assms
proof (induction "L (HeadH q)" arbitrary: L S rule: rev_induct)
  case Nil
  have "spccDemote now timeout q S = Some S"
    using dl.tail [OF drained_okD(1) [OF Nil(2)], of "HeadH q"] Nil(1) assms(2) by (simp add: spccDemote.simps)
  moreover have "demoted now timeout S q L = L" using Nil(1) [symmetric] by (simp add: demoted_def fun_eq_iff)
  ultimately show ?case using Nil(2) by (intro exI [of _ "Drained (ops S)"]) simp
next
  case (snoc n ns)
  note ok = snoc.prems(1) and L = snoc.hyps(2)
  note d = drained_okD [OF ok]
  have hH: "HeadH q \<in> dheads" and hL: "HeadL q \<in> dheads" using assms(2) by simp_all
  have "n \<in> set (L (HeadH q))" using L [symmetric] by simp
  from d(7) [OF hH this] obtain p s where n: "n = Link p" and p: "sess S p = Some s" "IsLinked s" by blast
  have tl: "ListHead_Tail (HeadH q) (Drained (ops S)) = Some (Some p)"
    using dl.tail [OF d(1) hH] d(3) [OF p(1)] L [symmetric] n by simp
  show ?case
  proof (cases "now > DrainedTs s + timeout")
    case False
    then have ex: "\<not> expired now timeout S n" using n p by (simp add: expired_def)
    have "spccDemote now timeout q S = Some S"
      using False tl p by (simp add: spccDemote.simps)
    moreover have "demoted now timeout S q L = L" using ex L [symmetric] by (simp add: demoted_def fun_eq_iff)
    ultimately show ?thesis using ok by (intro exI [of _ "Drained (ops S)"]) simp
  next
    case True
    then have ex: "expired now timeout S n" using n p by (simp add: expired_def)
    have inn: "Link p \<in> set (L (HeadH q))" using n L [symmetric] by simp
    from dl.move_to_tail [OF d(1) hH hL _ inn] obtain h1 h2 where
      h: "ListNode_Del (Link p) (Drained (ops S)) = Some h1" "ListHead_AddTail (HeadL q) (Link p) h1 = Some h2"
        "Value h2 = Value (Drained (ops S))"
        "dlists dheads h2 (L(HeadH q := remove1 (Link p) (L (HeadH q)), HeadL q := L (HeadL q) @ [Link p]))"
      by auto
    let ?L = "L(HeadH q := ns, HeadL q := L (HeadL q) @ [n])"
    have dist: "distinct (ns @ [n])" using dlistsD(2) [OF d(1) hH] L by simp
    then have r1: "remove1 (Link p) (L (HeadH q)) = ns"
      using L [symmetric] n by (simp add: remove1_append)
    have ok2: "drained_ok ?L (set_drained h2 S)"
    proof (rule drained_move [OF ok])
      show "dlists dheads h2 ?L" using h(4) r1 n by simp
      show "Value h2 = Value (Drained (ops S))" by (rule h(3))
      show "in_lists ?L q' m = in_lists L q' m" for q' m
        using L [symmetric] by (auto simp: in_lists_def)
    qed
    have LH: "ns = ?L (HeadH q)" by simp
    from snoc.hyps(1) [OF LH ok2 assms(2)] obtain h' where
      h': "spccDemote now timeout q (set_drained h2 S) = Some (set_drained h' (set_drained h2 S))"
        "drained_ok (demoted now timeout (set_drained h2 S) q ?L) (set_drained h' (set_drained h2 S))" by blast
    have "demoted now timeout (set_drained h2 S) q ?L = demoted now timeout S q L"
      using ex L [symmetric] by (simp add: demoted_def fun_eq_iff)
    moreover have "spccDemote now timeout q S = spccDemote now timeout q (set_drained h2 S)"
      using True tl p h(1,2) by (subst spccDemote.simps) simp
    ultimately show ?thesis using h' by (intro exI [of _ h']) simp
  qed
qed

lemma PopDrained_ok:
  assumes ok: "drained_ok L S" and a: "a \<in> dheads" "L a = n # xs"
  shows "\<exists>p s h. n = Link p \<and> sess S p = Some s \<and> IsLinked s \<and>
     spccPopDrained a S = Some (Some p,
       set_ops ((ops S)\<lparr>Drained := h, gNumDrained := gNumDrained (ops S) - 1\<rparr>)
         (put_sess p (s\<lparr>IsLinked := False, DrainedProc := - 1\<rparr>) S)) \<and>
     drained_ok (L(a := xs)) (set_ops ((ops S)\<lparr>Drained := h, gNumDrained := gNumDrained (ops S) - 1\<rparr>)
         (put_sess p (s\<lparr>IsLinked := False, DrainedProc := - 1\<rparr>) S))"
proof -
  note d = drained_okD [OF ok]
  from d(7) [OF a(1), of n] a(2) obtain p s where n: "n = Link p" and p: "sess S p = Some s" "IsLinked s" by auto
  from dl.pop [OF d(1) a] obtain h where
    h: "ListHead_Pop a (Drained (ops S)) = Some (Value (Drained (ops S)) n, h)"
      "dlists dheads h (L(a := xs))" "Value h = Value (Drained (ops S))" by blast
  have r: "remove1 (Link p) (L a) = xs" using a(2) n by simp
  have "drained_ok (L(a := remove1 (Link p) (L a)))
      (set_ops ((ops S)\<lparr>Drained := h, gNumDrained := gNumDrained (ops S) - 1\<rparr>)
         (put_sess p (s\<lparr>IsLinked := False, DrainedProc := - 1\<rparr>) S))"
    by (rule drained_unlink [OF ok p a(1)]) (use a(2) n h r in auto)
  then show ?thesis
    using n p h(1) d(3) [OF p(1)] r
    by (intro exI [of _ p] exI [of _ s] exI [of _ h]) (simp add: spccPopDrained_def)
qed

section \<open>Choosing and waking\<close>

text \<open>What a choose function may change: at most one session leaves its list.\<close>

definition unlinks :: "nat option \<Rightarrow> ('x, 'b, 'c, 'k) credServer \<Rightarrow> ('x, 'b, 'c, 'k) credServer \<Rightarrow> bool" where
  "unlinks r S S' \<longleftrightarrow> (\<exists>h. (case r of
     None \<Rightarrow> S' = set_drained h S
   | Some p \<Rightarrow> (\<exists>s. sess S p = Some s \<and> IsLinked s \<and>
       S' = set_ops ((ops S)\<lparr>Drained := h, gNumDrained := gNumDrained (ops S) - 1\<rparr>)
              (put_sess p (s\<lparr>IsLinked := False, DrainedProc := - 1\<rparr>) S))))"

lemma unlinks_trans: "unlinks None S S1 \<Longrightarrow> unlinks r S1 S2 \<Longrightarrow> unlinks r S S2"
  by (cases r) (auto simp: unlinks_def set_ops_def put_sess_def set_drained_def)

text \<open>Arithmetic of the probe's ring of processors: a step towards the own processor shortens the
  distance that is left, and a processor that comes before the successor of the current one and differs from it
  comes before the current one.\<close>

lemma ring_succ:
  "(i :: nat) < n \<Longrightarrow> (i + 1) mod n = (if i + 1 = n then 0 else i + 1)"
  by simp

lemma ring_ahead:
  "(x :: nat) < n \<Longrightarrow> p < n \<Longrightarrow> (x + n - p) mod n = (if p \<le> x then x - p else x + n - p)"
  by (simp add: mod_if)

lemma ring_dist:
  fixes i p n :: nat
  assumes "i < n" "p < n" "i \<noteq> p"
  shows "(p + n - (i + 1) mod n) mod n < (p + n - i) mod n"
proof -
  have "(i + 1) mod n < n" using assms(1) by (intro mod_less_divisor) simp
  from ring_ahead [OF assms(2) this] ring_ahead [OF assms(2,1)] show ?thesis
    using assms unfolding ring_succ [OF assms(1)] by (auto split: if_splits)
qed

lemma ring_before:
  fixes i p q n :: nat
  assumes "i < n" "p < n" "i \<noteq> p" "q < n" "q \<noteq> i"
    and "(q + n - p) mod n < ((i + 1) mod n + n - p) mod n \<or> (i + 1) mod n = p"
  shows "(q + n - p) mod n < (i + n - p) mod n"
proof -
  have j: "(i + 1) mod n < n" using assms(1) by (intro mod_less_divisor) simp
  show ?thesis
    using assms ring_succ [OF assms(1)]
    unfolding ring_ahead [OF assms(4,2)] ring_ahead [OF assms(1,2)] ring_ahead [OF j assms(2)]
    by (auto split: if_splits)
qed

text \<open>
  The contract of a choose function on the lists with the given heads: it returns, it keeps the
  invariant, it takes a session if its list has one to take, and it leaves the lists of the other
  processors alone, as well as a given set of further lists.
\<close>

locale drained_picker =
  fixes pick :: "nat \<Rightarrow> ('x, 'b, 'c, 'k) credServer \<Rightarrow> world \<Rightarrow> (nat option \<times> ('x, 'b, 'c, 'k) credServer \<times> world) option"
    and hdr :: "nat \<Rightarrow> dnode" and stable :: "dnode set"
  assumes pick_ok: "drained_ok L S \<Longrightarrow> q < SpccMaxProcs \<Longrightarrow>
     \<exists>r S' w' L'. pick q S w = Some (r, S', w') \<and> drained_ok L' S' \<and> unlinks r S S' \<and>
       (r = None \<longrightarrow> L' (hdr q) = []) \<and> (\<forall>q'. q' \<noteq> q \<longrightarrow> L' (hdr q') = L (hdr q')) \<and>
       (\<forall>a\<in>stable. L' a = L a)"
begin

lemma Probe_ok:
  assumes "drained_ok L S" "i < maxProcs" "procID < maxProcs" "maxProcs \<le> SpccMaxProcs"
    and "\<And>q. q < maxProcs \<Longrightarrow> (q + maxProcs - procID) mod maxProcs < (i + maxProcs - procID) mod maxProcs
       \<or> i = procID \<Longrightarrow> L (hdr q) = []"
  shows "\<exists>r S' w' L'. spccProbe pick procID maxProcs i S w = Some (r, S', w') \<and> drained_ok L' S' \<and>
     unlinks r S S' \<and> (r = None \<longrightarrow> (\<forall>q<maxProcs. L' (hdr q) = [])) \<and> (\<forall>a\<in>stable. L' a = L a)"
  using assms
proof (induction "(procID + maxProcs - i) mod maxProcs" arbitrary: L S i w rule: less_induct)
  case less
  show ?case
  proof (cases "i = procID")
    case True
    then have "spccProbe pick procID maxProcs i S w = Some (None, S, w)" by (simp add: spccProbe.simps)
    moreover have "unlinks None S S" unfolding unlinks_def
      by (intro exI [of _ "Drained (ops S)"]) simp
    ultimately show ?thesis using less.prems(1,5) True by blast
  next
    case False
    have iM: "i < SpccMaxProcs" using less.prems(2,4) by simp
    from pick_ok [OF less.prems(1) iM, of w] obtain r S1 w1 L1 where
      1: "pick i S w = Some (r, S1, w1)" "drained_ok L1 S1" "unlinks r S S1"
        "r = None \<longrightarrow> L1 (hdr i) = []" "\<forall>q'. q' \<noteq> i \<longrightarrow> L1 (hdr q') = L (hdr q')" "\<forall>a\<in>stable. L1 a = L a" by blast
    show ?thesis
    proof (cases "r = None")
      case r: False
      then have "spccProbe pick procID maxProcs i S w = Some (r, S1, w1)"
        using False 1(1) by (subst spccProbe.simps) simp
      then show ?thesis using 1(2,3,6) r by blast
    next
      case r: True
      let ?j = "(i + 1) mod maxProcs"
      have unf: "spccProbe pick procID maxProcs i S w = spccProbe pick procID maxProcs ?j S1 w1"
        using False 1(1) r by (subst spccProbe.simps) simp
      have jm: "?j < maxProcs" using less.prems(2) by (intro mod_less_divisor) simp
      note dist = ring_dist [OF less.prems(2,3) False]
      have pre: "L1 (hdr q) = []" if q: "q < maxProcs"
        and or: "(q + maxProcs - procID) mod maxProcs < (?j + maxProcs - procID) mod maxProcs \<or> ?j = procID" for q
      proof (cases "q = i")
        case True
        then show ?thesis using 1(4) r by simp
      next
        case qi: False
        from ring_before [OF less.prems(2,3) False q qi or]
        have "(q + maxProcs - procID) mod maxProcs < (i + maxProcs - procID) mod maxProcs" .
        then show ?thesis using less.prems(5) [OF q] 1(5) qi by simp
      qed
      from less.hyps [OF dist 1(2) jm less.prems(3,4) pre, of w1] obtain r' S' w' L' where
        "spccProbe pick procID maxProcs ?j S1 w1 = Some (r', S', w')" "drained_ok L' S'"
        "unlinks r' S1 S'" "r' = None \<longrightarrow> (\<forall>q<maxProcs. L' (hdr q) = [])"
        "\<forall>a\<in>stable. L' a = L1 a" by blast
      then show ?thesis using unf unlinks_trans [of S S1 r' S'] 1(3,6) r by auto
    qed
  qed
qed

lemma PickFrom_ok:
  assumes "drained_ok L S" "procID < maxProcs" "maxProcs \<le> SpccMaxProcs"
  shows "\<exists>r S' w' L'. spccPickFrom pick procID maxProcs S w = Some (r, S', w') \<and> drained_ok L' S' \<and>
     unlinks r S S' \<and> (r = None \<longrightarrow> (\<forall>q<maxProcs. L' (hdr q) = [])) \<and> (\<forall>a\<in>stable. L' a = L a)"
proof -
  have pM: "procID < SpccMaxProcs" using assms by simp
  from pick_ok [OF assms(1) pM, of w] obtain r S1 w1 L1 where
    1: "pick procID S w = Some (r, S1, w1)" "drained_ok L1 S1" "unlinks r S S1"
      "r = None \<longrightarrow> L1 (hdr procID) = []" "\<forall>a\<in>stable. L1 a = L a" by blast
  show ?thesis
  proof (cases "r = None")
    case False
    then show ?thesis using 1 by (auto simp: spccPickFrom_def)
  next
    case True
    let ?j = "(procID + 1) mod maxProcs"
    have jm: "?j < maxProcs" using assms(2) by (intro mod_less_divisor) simp
    have pre: "L1 (hdr q) = []" if q: "q < maxProcs"
      and or: "(q + maxProcs - procID) mod maxProcs < (?j + maxProcs - procID) mod maxProcs \<or> ?j = procID" for q
    proof -
      have e: "(x + maxProcs - procID) mod maxProcs = (if procID \<le> x then x - procID else x + maxProcs - procID)"
        if "x < maxProcs" for x
        using that assms(2) by (simp add: mod_if)
      have "?j = (if procID + 1 = maxProcs then 0 else procID + 1)" using assms(2) by simp
      then have "q = procID"
        using or q assms(2) jm unfolding e [OF q] e [OF jm] by (auto split: if_splits)
      then show ?thesis using 1(4) True by simp
    qed
    from Probe_ok [OF 1(2) jm assms(2,3) pre, of w1] obtain r' S' w' L' where
      "spccProbe pick procID maxProcs ?j S1 w1 = Some (r', S', w')" "drained_ok L' S'"
      "unlinks r' S1 S'" "r' = None \<longrightarrow> (\<forall>q<maxProcs. L' (hdr q) = [])" "\<forall>a\<in>stable. L' a = L1 a" by blast
    then show ?thesis using 1 True unlinks_trans [of S S1 r' S'] by (auto simp: spccPickFrom_def)
  qed
qed

end

interpretation pickL: drained_picker spccChooseDrainedL HeadL "range HeadH"
proof
  fix L and S :: "('x, 'b, 'c, 'k) credServer" and q w
  assume ok: "drained_ok L S" and q: "q < SpccMaxProcs"
  have hq: "HeadL q \<in> dheads" using q by simp
  show "\<exists>r S' w' L'. spccChooseDrainedL q S w = Some (r, S', w') \<and> drained_ok L' S' \<and> unlinks r S S' \<and>
      (r = None \<longrightarrow> L' (HeadL q) = []) \<and> (\<forall>q'. q' \<noteq> q \<longrightarrow> L' (HeadL q') = L (HeadL q')) \<and>
      (\<forall>a\<in>range HeadH. L' a = L a)"
  proof (cases "L (HeadL q)")
    case Nil
    have "unlinks None S S" unfolding unlinks_def by (intro exI [of _ "Drained (ops S)"]) simp
    then show ?thesis using Nil ok q dl.is_empty [OF drained_okD(1) [OF ok] hq]
      by (intro exI [of _ None] exI [of _ S] exI [of _ w] exI [of _ L]) (simp add: spccChooseDrainedL_def)
  next
    case (Cons n xs)
    from PopDrained_ok [OF ok hq Cons] obtain p s h where
      P: "sess S p = Some s" "IsLinked s" "spccPopDrained (HeadL q) S = Some (Some p,
         set_ops ((ops S)\<lparr>Drained := h, gNumDrained := gNumDrained (ops S) - 1\<rparr>)
           (put_sess p (s\<lparr>IsLinked := False, DrainedProc := - 1\<rparr>) S))"
        "drained_ok (L(HeadL q := xs)) (set_ops ((ops S)\<lparr>Drained := h, gNumDrained := gNumDrained (ops S) - 1\<rparr>)
           (put_sess p (s\<lparr>IsLinked := False, DrainedProc := - 1\<rparr>) S))" by blast
    let ?S = "set_ops ((ops S)\<lparr>Drained := h, gNumDrained := gNumDrained (ops S) - 1\<rparr>)
           (put_sess p (s\<lparr>IsLinked := False, DrainedProc := - 1\<rparr>) S)"
    have "unlinks (Some p) S ?S" using P(1,2) unfolding unlinks_def by auto
    moreover have "spccChooseDrainedL q S w = Some (Some p, ?S, w)"
      using P(3) Cons q dl.is_empty [OF drained_okD(1) [OF ok] hq] by (simp add: spccChooseDrainedL_def)
    ultimately show ?thesis using P(4)
      by (intro exI [of _ "Some p"] exI [of _ ?S] exI [of _ w] exI [of _ "L(HeadL q := xs)"]) simp
  qed
qed

interpretation pickH: drained_picker "spccChooseDrainedH maxClientDelay rtt" HeadH "{}"
  for maxClientDelay rtt
proof
  fix L and S :: "('x, 'b, 'c, 'k) credServer" and q w
  assume ok: "drained_ok L S" and q: "q < SpccMaxProcs"
  have hq: "HeadH q \<in> dheads" using q by simp
  let ?now = "MicroTime w" and ?t = "spccDemandTimeout maxClientDelay rtt"
  show "\<exists>r S' w' L'. spccChooseDrainedH maxClientDelay rtt q S w = Some (r, S', w') \<and> drained_ok L' S' \<and>
      unlinks r S S' \<and> (r = None \<longrightarrow> L' (HeadH q) = []) \<and> (\<forall>q'. q' \<noteq> q \<longrightarrow> L' (HeadH q') = L (HeadH q')) \<and>
      (\<forall>a\<in>{}. L' a = L a)"
  proof (cases "L (HeadH q) = []")
    case True
    have "unlinks None S S" unfolding unlinks_def by (intro exI [of _ "Drained (ops S)"]) simp
    then show ?thesis using True ok q dl.is_empty [OF drained_okD(1) [OF ok] hq]
      by (intro exI [of _ None] exI [of _ S] exI [of _ "step_world w"] exI [of _ L])
        (simp add: spccChooseDrainedH_def Let_def)
  next
    case ne: False
    from Demote_ok [OF ok q, of ?now ?t] obtain h where
      D: "spccDemote ?now ?t q S = Some (set_drained h S)"
        "drained_ok (demoted ?now ?t S q L) (set_drained h S)" by blast
    let ?L = "demoted ?now ?t S q L" and ?S = "set_drained h S"
    have oth: "?L (HeadH q') = L (HeadH q')" if "q' \<noteq> q" for q' using that by (simp add: demoted_def)
    have u: "unlinks None S ?S" by (auto simp: unlinks_def)
    note em = dl.is_empty [OF drained_okD(1) [OF D(2)] hq]
    have unf: "spccChooseDrainedH maxClientDelay rtt q S w =
       (if ListHead_Empty (HeadH q) (Drained (ops ?S)) then Some (None, ?S, step_world w)
        else do { (r, S2) \<leftarrow> spccPopDrained (HeadH q) ?S; Some (r, S2, step_world w) })"
      using D(1) q ne dl.is_empty [OF drained_okD(1) [OF ok] hq] by (simp add: spccChooseDrainedH_def Let_def)
    show ?thesis
    proof (cases "?L (HeadH q)")
      case Nil
      then show ?thesis using unf em D(2) u oth
        by (intro exI [of _ None] exI [of _ ?S] exI [of _ "step_world w"] exI [of _ ?L]) simp
    next
      case (Cons n xs)
      from PopDrained_ok [OF D(2) hq Cons] obtain p s h' S' where
        P: "sess ?S p = Some s" "IsLinked s" "spccPopDrained (HeadH q) ?S = Some (Some p, S')"
          "S' = set_ops ((ops ?S)\<lparr>Drained := h', gNumDrained := gNumDrained (ops ?S) - 1\<rparr>)
             (put_sess p (s\<lparr>IsLinked := False, DrainedProc := - 1\<rparr>) ?S)"
          "drained_ok (?L(HeadH q := xs)) S'" by blast
      have "unlinks (Some p) ?S S'" using P(1,2,4) unfolding unlinks_def by auto
      with u have "unlinks (Some p) S S'" by (rule unlinks_trans)
      moreover have "spccChooseDrainedH maxClientDelay rtt q S w = Some (Some p, S', step_world w)"
        using unf em Cons P(3) by simp
      ultimately show ?thesis using P(5) oth
        by (intro exI [of _ "Some p"] exI [of _ S'] exI [of _ "step_world w"] exI [of _ "?L(HeadH q := xs)"]) simp
    qed
  qed
qed

definition woken :: "('b, 'c, 'k) credSession \<Rightarrow> ('b, 'c, 'k) credSession" where
  "woken s = s\<lparr>IsLinked := False, DrainedProc := - 1, WakeUp := True, Credit := 1, Signalled := True\<rparr>"

text \<open>The effect of a wake-up round: the sessions \<open>W\<close> leave the lists with one credit each.\<close>

definition wakes :: "nat set \<Rightarrow> ('x, 'b, 'c, 'k) credServer \<Rightarrow> ('x, 'b, 'c, 'k) credServer \<Rightarrow> bool" where
  "wakes W S S' \<longleftrightarrow> W \<subseteq> linked_sessions S \<and>
     sess S' = (\<lambda>p. if p \<in> W then map_option woken (sess S p) else sess S p) \<and>
     (\<exists>h. ops S' = (ops S)\<lparr>Drained := h, gNumDrained := gNumDrained (ops S) - of_nat (card W),
        gCreditUsed := gCreditUsed (ops S) + of_nat (card W)\<rparr>)"

definition procs_below :: "nat \<Rightarrow> ('o, 'b, 'c, 'k) credSys \<Rightarrow> bool" where
  "procs_below n S \<longleftrightarrow> (\<forall>p s. sess S p = Some s \<longrightarrow> IsLinked s \<longrightarrow> DrainedProc s < int n)"

lemma wakes_linked: "wakes W S S' \<Longrightarrow> linked_sessions S' = linked_sessions S - W"
  by (auto simp: wakes_def linked_sessions_def woken_def split: if_splits)

lemma wakes_procs: "wakes W S S' \<Longrightarrow> procs_below n S \<Longrightarrow> procs_below n S'"
  by (auto simp: wakes_def procs_below_def woken_def split: if_splits)

lemma wakes_none: "wakes {} S (set_drained h S)"
  by (auto simp: wakes_def)

lemma wakes_trans:
  assumes "finite (dom (sess S))" "wakes V S S1" "wakes W S1 S2"
  shows "wakes (V \<union> W) S S2"
proof -
  have "V \<subseteq> linked_sessions S" "W \<subseteq> linked_sessions S1"
    using assms(2,3) unfolding wakes_def by blast+
  then have fin: "finite V" "finite W"
    using linked_finite [OF assms(1)] wakes_linked [OF assms(2)] by (simp_all add: finite_subset)
  have "W \<subseteq> linked_sessions S - V"
    using assms(3) unfolding wakes_def wakes_linked [OF assms(2)] by blast
  then have dis: "V \<inter> W = {}" and sub: "W \<subseteq> linked_sessions S" by blast+
  have c: "card (V \<union> W) = card V + card W" using fin dis by (rule card_Un_disjoint)
  from assms(2,3) obtain h h2 where
    o: "ops S1 = (ops S)\<lparr>Drained := h, gNumDrained := gNumDrained (ops S) - of_nat (card V),
        gCreditUsed := gCreditUsed (ops S) + of_nat (card V)\<rparr>"
      "ops S2 = (ops S1)\<lparr>Drained := h2, gNumDrained := gNumDrained (ops S1) - of_nat (card W),
        gCreditUsed := gCreditUsed (ops S1) + of_nat (card W)\<rparr>"
    unfolding wakes_def by blast
  have "ops S2 = (ops S)\<lparr>Drained := h2, gNumDrained := gNumDrained (ops S) - of_nat (card (V \<union> W)),
        gCreditUsed := gCreditUsed (ops S) + of_nat (card (V \<union> W))\<rparr>"
    unfolding o(2) o(1) c by (simp add: algebra_simps)
  moreover have "sess S2 = (\<lambda>p. if p \<in> V \<union> W then map_option woken (sess S p) else sess S p)"
    using assms(2,3) dis unfolding wakes_def by (auto simp: fun_eq_iff)
  ultimately show ?thesis using assms(2) sub unfolding wakes_def by blast
qed

lemma credit_sum_upd:
  assumes "finite (dom (sess S))" "sess S p = Some s"
  shows "credit_sum (set_ops os (put_sess p s' S)) = credit_sum S - owed s + owed s'"
proof -
  have "credit_sum (set_ops os (put_sess p s' S)) =
      (\<Sum>q\<in>dom (sess S). ((\<lambda>q. owed (the (sess S q)))(p := owed s')) q)"
    unfolding credit_sum_def using assms(2) by (intro sum.cong) (auto simp: insert_absorb)
  also have "\<dots> = credit_sum S - owed s + owed s'"
    using assms unfolding credit_sum_def by (subst sum_fun_upd_int) auto
  finally show ?thesis .
qed

text \<open>Each session woken accounts for one more credit in use, so the books stay balanced.\<close>

lemma wakes_credit_sum:
  assumes w: "wakes W S S'" and fin: "finite (dom (sess S))"
    and zero: "\<And>p s. p \<in> W \<Longrightarrow> sess S p = Some s \<Longrightarrow> Credit s = 0 \<and> \<not> Closed s"
  shows "credit_sum S' = credit_sum S + int (card W)"
proof -
  have W: "W \<subseteq> dom (sess S)" using w by (auto simp: wakes_def linked_sessions_def)
  have dom: "dom (sess S') = dom (sess S)" using w by (auto simp: wakes_def dom_def split: if_splits)
  have "credit_sum S' = (\<Sum>p\<in>dom (sess S). owed (the (sess S p)) + (if p \<in> W then 1 else 0))"
    unfolding credit_sum_def dom
  proof (rule sum.cong)
    fix p assume "p \<in> dom (sess S)"
    then obtain s where s: "sess S p = Some s" by blast
    show "owed (the (sess S' p)) = owed (the (sess S p)) + (if p \<in> W then 1 else 0)"
      using w s zero [of p s] by (auto simp: wakes_def woken_def owed_def)
  qed simp
  also have "\<dots> = credit_sum S + int (card W)"
    using W fin by (simp add: credit_sum_def sum.distrib sum.If_cases Int_absorb1 Int_absorb2)
  finally show ?thesis .
qed

lemma wakes_credits_ok:
  assumes ok: "drained_ok L S" and w: "wakes W S S'" and c: "credits_ok S" and o: "linked_open S"
  shows "credits_ok S'"
proof -
  have "Credit s = 0 \<and> \<not> Closed s" if "p \<in> W" "sess S p = Some s" for p s
    using drained_okD(4) [OF ok that(2)] w o that unfolding wakes_def linked_sessions_def linked_open_def
    by fastforce
  from wakes_credit_sum [OF w drained_okD(2) [OF ok] this]
  have "i2u (credit_sum S') = i2u (credit_sum S) + of_nat (card W)" by (simp add: i2u_add i2u_def)
  moreover have "gCreditUsed (ops S') = gCreditUsed (ops S) + of_nat (card W)"
    using w by (auto simp: wakes_def)
  ultimately show ?thesis using c by (simp add: credits_ok_def)
qed

lemma WakeOne_ok:
  assumes ok: "drained_ok L S" and u: "unlinks (Some p) S S1" and ok1: "drained_ok L1 S1"
  shows "\<exists>S2. spccWakeOne p S1 = Some S2 \<and> drained_ok L1 S2 \<and> wakes {p} S S2"
proof -
  from u obtain h s where s: "sess S p = Some s" "IsLinked s"
    and S1: "S1 = set_ops ((ops S)\<lparr>Drained := h, gNumDrained := gNumDrained (ops S) - 1\<rparr>)
              (put_sess p (s\<lparr>IsLinked := False, DrainedProc := - 1\<rparr>) S)"
    by (auto simp: unlinks_def)
  let ?s1 = "s\<lparr>IsLinked := False, DrainedProc := - 1\<rparr>"
  let ?os = "(ops S1)\<lparr>gCreditUsed := gCreditUsed (ops S1) + 1\<rparr>"
  let ?S2 = "set_ops ?os (put_sess p (?s1\<lparr>WakeUp := True, Credit := 1, Signalled := True\<rparr>) S1)"
  have p1: "sess S1 p = Some ?s1" using S1 by simp
  have "spccWakeOne p S1 = Some ?S2" using p1 by (simp add: spccWakeOne_def Let_def)
  moreover have "drained_ok L1 ?S2"
    by (rule drained_neutral [OF ok1 p1]) simp_all
  moreover have "wakes {p} S ?S2"
    using s by (auto simp: wakes_def S1 linked_sessions_def woken_def fun_eq_iff)
  ultimately show ?thesis by blast
qed

lemma empty_lists_none_linked:
  assumes ok: "drained_ok L (set_drained h S)" and pb: "procs_below n S"
    and empty: "\<And>q. q < n \<Longrightarrow> L (HeadH q) = [] \<and> L (HeadL q) = []"
  shows "linked_sessions S = {}"
proof (rule ccontr)
  assume "linked_sessions S \<noteq> {}"
  then obtain p s where p: "sess S p = Some s" "IsLinked s" by (auto simp: linked_sessions_def)
  from p have "sess (set_drained h S) p = Some s" by simp
  from drained_okD(5) [OF ok this p(2)] obtain q where
    q: "DrainedProc s = int q" "in_lists L q (Link p)" by blast
  have "DrainedProc s < int n" using pb p by (simp add: procs_below_def)
  then have "q < n" using q(1) by simp
  then show False using empty q(2) by (simp add: in_lists_def)
qed

lemma wakes_card:
  assumes fin: "finite (linked_sessions S)" and one: "wakes {p} S S1" and W: "wakes W S1 S2"
    and n: "card W = min n (card (linked_sessions S1))"
  shows "card ({p} \<union> W) = min (Suc n) (card (linked_sessions S))"
proof -
  have ls: "linked_sessions S1 = linked_sessions S - {p}" by (rule wakes_linked [OF one])
  have "p \<in> linked_sessions S" using one by (simp add: wakes_def)
  then have "card (linked_sessions S) = Suc (card (linked_sessions S - {p}))"
    using fin by (metis card_Suc_Diff1)
  moreover have "p \<notin> W" "finite W" using W ls fin unfolding wakes_def by (auto intro: finite_subset)
  ultimately show ?thesis using n ls by simp
qed

lemma WakeLoop_ok:
  assumes "drained_ok L S" "procID < maxProcs" "maxProcs \<le> SpccMaxProcs" "procs_below maxProcs S"
  shows "\<exists>S' w' L' W. spccWakeLoop maxClientDelay rtt procID maxProcs n S w = Some (S', w') \<and>
     drained_ok L' S' \<and> wakes W S S' \<and> card W = min n (card (linked_sessions S))"
  using assms
proof (induction n arbitrary: L S w)
  case 0
  then show ?case using wakes_none [of S "Drained (ops S)"] by (auto intro!: exI [of _ "{}"])
next
  case (Suc n)
  note ok = Suc.prems(1) and fin = drained_okD(2) [OF Suc.prems(1)]
  from pickH.PickFrom_ok [OF Suc.prems(1-3), of maxClientDelay rtt w] obtain r1 S1 w1 L1 where
    1: "spccPickFrom (spccChooseDrainedH maxClientDelay rtt) procID maxProcs S w = Some (r1, S1, w1)"
      "drained_ok L1 S1" "unlinks r1 S S1" "r1 = None \<longrightarrow> (\<forall>q<maxProcs. L1 (HeadH q) = [])" by blast
  from pickL.PickFrom_ok [OF 1(2) Suc.prems(2,3), of w1] obtain r2 S2 w2 L2 where
    2: "spccPickFrom spccChooseDrainedL procID maxProcs S1 w1 = Some (r2, S2, w2)"
      "drained_ok L2 S2" "unlinks r2 S1 S2" "r2 = None \<longrightarrow> (\<forall>q<maxProcs. L2 (HeadL q) = [])"
      "\<forall>a\<in>range HeadH. L2 a = L1 a" by blast
  obtain r S3 w3 L3 where
    3: "(if r1 \<noteq> None then Some (r1, S1, w1) else spccPickFrom spccChooseDrainedL procID maxProcs S1 w1)
          = Some (r, S3, w3)" "drained_ok L3 S3" "unlinks r S S3"
      "r = None \<longrightarrow> r1 = None \<and> r2 = None \<and> S3 = S2"
  proof (cases "r1 = None")
    case True
    then show ?thesis using that [of r2 S2 w2 L2] 2 unlinks_trans [of S S1 r2 S2] 1(3) by auto
  next
    case False
    then show ?thesis using that [of r1 S1 w1 L1] 1 by auto
  qed
  have unf: "spccWakeLoop maxClientDelay rtt procID maxProcs (Suc n) S w =
      (case r of None \<Rightarrow> Some (S3, w3)
       | Some p \<Rightarrow> do { S4 \<leftarrow> spccWakeOne p S3; spccWakeLoop maxClientDelay rtt procID maxProcs n S4 w3 })"
    using 1(1) 3(1) by (simp split: if_splits)
  show ?case
  proof (cases r)
    case (Some p)
    from WakeOne_ok [OF ok _ 3(2)] 3(3) Some obtain S4 where
      4: "spccWakeOne p S3 = Some S4" "drained_ok L3 S4" "wakes {p} S S4" by blast
    from Suc.IH [OF 4(2) Suc.prems(2,3) wakes_procs [OF 4(3) Suc.prems(4)], of w3] obtain S' w' L' W where
      5: "spccWakeLoop maxClientDelay rtt procID maxProcs n S4 w3 = Some (S', w')" "drained_ok L' S'"
        "wakes W S4 S'" "card W = min n (card (linked_sessions S4))" by blast
    have "card ({p} \<union> W) = min (Suc n) (card (linked_sessions S))"
      by (rule wakes_card [OF linked_finite [OF fin] 4(3) 5(3,4)])
    then show ?thesis using unf Some 4(1) 5(1,2) wakes_trans [OF fin 4(3) 5(3)] by auto
  next
    case None
    then have S3: "S3 = S2" "r1 = None" "r2 = None" using 3(4) by auto
    have uu: "unlinks None S S3" using 3(3) None by simp
    then obtain h where h: "S3 = set_drained h S" by (auto simp: unlinks_def)
    have "drained_ok L2 (set_drained h S)" using 2(2) h S3(1) by simp
    then have "linked_sessions S = {}"
      by (rule empty_lists_none_linked [OF _ Suc.prems(4)]) (use 1(4) 2(4,5) S3 in simp)
    then show ?thesis using unf None 3(2) h wakes_none [of S h] by (auto intro!: exI [of _ "{}"])
  qed
qed

section \<open>Changing the global counters only\<close>

lemma drained_ok_ops:
  assumes "drained_ok L S" "Drained os = Drained (ops S)" "gNumDrained os = gNumDrained (ops S)"
  shows "drained_ok L (set_ops os S)"
  using assms by (simp add: drained_ok_def linked_sessions_def)

lemma linked_set_ops [simp]: "linked_sessions (set_ops os S) = linked_sessions S"
  by (simp add: linked_sessions_def)

lemma credit_sum_set_ops [simp]: "credit_sum (set_ops os S) = credit_sum S"
  by (simp add: credit_sum_def)

lemma procs_below_set_ops [simp]: "procs_below n (set_ops os S) = procs_below n S"
  by (simp add: procs_below_def)

lemma linked_open_set_ops [simp]: "linked_open (set_ops os S) = linked_open S"
  by (simp add: linked_open_def)

lemma set_ops_self [simp]: "set_ops (ops S) S = S" "set_ops a (set_ops b S) = set_ops a S"
  by (simp_all add: set_ops_def)

text \<open>The controller's budget: the credits of the pool that are not in use, without underflow.\<close>

definition wake_budget :: "u64 \<Rightarrow> u64 \<Rightarrow> nat" where
  "wake_budget pool used = unat pool - unat used"

lemma unused_budget: "unat (if pool > used then pool - used else (0 :: u64)) = wake_budget pool used"
  by (auto simp: wake_budget_def unat_sub word_le_nat_alt word_less_nat_alt not_less)

lemma WakeUpDrained_ok:
  assumes ok: "drained_ok L S" and procs: "procs_ok procs w" "procs \<le> SpccMaxProcs" "procs_below procs S"
  shows "\<exists>T w' L' W. spccWakeUpDrainedSession delay rtt procs n S w = Some (T, w') \<and> drained_ok L' T \<and> wakes W S T \<and>
     card W = min (unat n) (card (linked_sessions S))"
proof -
  have "ProcId_of w < procs" using procs(1) by (rule procs_ok_ProcId)
  from WakeLoop_ok [OF ok this procs(2,3), of delay rtt "unat n" "step_world w"] show ?thesis
    unfolding spccWakeUpDrainedSession_def by blast
qed

end
