(* ===== verification/Pcc_Control.thy ===== *)
theory Pcc_Control
  imports Credit_Drained
begin

text \<open>
  Svalinn's utility-based admission controller, \<open>src/ovldctlrpc/pcc/pcc_server.go\<close>: the credit
  pool is perturbed up and down in two micro-experiments, their utilities are compared, and the pool
  moves by \<open>SpccEpsilon\<close> in the better direction.  \<open>spccUpdateCreditPool\<close> is a four-state
  machine run by whichever goroutine gets the controller lock; every call may also wake drained
  sessions.  The tunable constants and the two utility functions of \<open>pcc_config.go\<close> are fields of
  a configuration record, with the repository's two configurations as its instances.
\<close>

section \<open>State\<close>

datatype spccCtlState = PrepareMicroExp | StartMicroExp | EndMicroExp | MakeDecision

definition SpccMaxNumMicroExps :: nat where "SpccMaxNumMicroExps = 2"

record spccMicroExpStats =
  mDuration :: u64
  mInReqs :: u64
  mOutResps :: u64
  mGoodOutResps :: u64
  mDropReqs :: u64
  mQDelay :: u64
  mMemAccesses :: u64
  mEnergyConsumed :: float64
  mUtility :: float64

definition SpccDirMinus :: int where "SpccDirMinus = - 1"
definition SpccDirStay :: int where "SpccDirStay = 0"
definition SpccDirPlus :: int where "SpccDirPlus = 1"

record spccOps = credOps +
  LastWakeup :: u64
  NextUpdate :: u64
  CtlState :: spccCtlState
  InReqs :: "u64 list"
  OutResps :: "u64 list"
  GoodOutResps :: "u64 list"
  DropReqs :: "u64 list"
  StartTs :: "u64 list"
  EndTs :: "u64 list"
  QDelay :: "u64 list"
  MemAccesses :: "u64 list"
  EnergyConsumed :: "float64 list"
  MicroExpId :: u64
  NumMicroExps :: u64
  MicroExpDirs :: "int list"
  OrigCp :: u64

type_synonym ('b, 'k) spccServer = "(spccOps, 'b, spccCtx, 'k) credSys"

record spccCfg =
  QdelayBudget :: u64
  RttUs :: u64
  PreMonIntUs :: u64
  MonIntUs :: u64
  Epsilon :: u64
  StrictLabelling :: bool
  PerturbCp :: bool
  CalcUtilFn :: "spccMicroExpStats \<Rightarrow> float64"
  CompUtilFn :: "spccMicroExpStats \<Rightarrow> spccMicroExpStats \<Rightarrow> int"
  MaxClientDelayUs :: u64

section \<open>The repository's configurations\<close>

definition SpccCalcUtilFn :: "spccMicroExpStats \<Rightarrow> float64" where
  "SpccCalcUtilFn stats = f_div (f_of_u64 (mOutResps stats)) (f_of_u64 (mDuration stats))"

definition SpccCompUtilFn :: "spccMicroExpStats \<Rightarrow> spccMicroExpStats \<Rightarrow> int" where
  "SpccCompUtilFn minusStats plusStats =
     (if f_less (mUtility minusStats) (mUtility plusStats) then SpccDirPlus else SpccDirMinus)"

text \<open>The evaluation's comparison keeps the pool when the utilities are within one percent.\<close>

definition SpccCompUtilFn_deadband :: "spccMicroExpStats \<Rightarrow> spccMicroExpStats \<Rightarrow> int" where
  "SpccCompUtilFn_deadband minusStats plusStats = (
     let utilDiff = f_abs (f_sub (mUtility plusStats) (mUtility minusStats));
         utilDiffPcnt = f_div utilDiff (mUtility minusStats)
     in if f_less utilDiffPcnt (f64_round (1/100)) then SpccDirStay
        else if f_less (mUtility minusStats) (mUtility plusStats) then SpccDirPlus
        else SpccDirMinus)"

definition pcc_config :: spccCfg where
  "pcc_config = \<lparr>QdelayBudget = 55, RttUs = 10, PreMonIntUs = 10, MonIntUs = 10, Epsilon = 10,
     StrictLabelling = False, PerturbCp = True, CalcUtilFn = SpccCalcUtilFn, CompUtilFn = SpccCompUtilFn,
     MaxClientDelayUs = 10\<rparr>"

definition pcc_eval_config :: spccCfg where
  "pcc_eval_config = \<lparr>QdelayBudget = 1500, RttUs = 10, PreMonIntUs = 500, MonIntUs = 1000, Epsilon = 10,
     StrictLabelling = False, PerturbCp = True, CalcUtilFn = SpccCalcUtilFn,
     CompUtilFn = SpccCompUtilFn_deadband, MaxClientDelayUs = 10\<rparr>"

section \<open>Moving the credit pool\<close>

definition clamp_cp :: "nat \<Rightarrow> 'x credOps_scheme \<Rightarrow> u64 \<Rightarrow> u64" where
  "clamp_cp procs os cp =
     Min_go (Max_go cp (of_nat procs)) (push_bit SpccMaxWindowExp (AtomicGetUint64 (gNumSess os)))"

definition spccDecrCp :: "spccCfg \<Rightarrow> nat \<Rightarrow> 'x credOps_scheme \<Rightarrow> u64" where
  "spccDecrCp cfg procs os = (
     let creditPool = AtomicGetUint64 (gCreditPool os); newCreditPool = creditPool - Epsilon cfg
     in clamp_cp procs os newCreditPool)"

definition spccIncrCp :: "spccCfg \<Rightarrow> nat \<Rightarrow> 'x credOps_scheme \<Rightarrow> u64" where
  "spccIncrCp cfg procs os = (
     let creditPool = AtomicGetUint64 (gCreditPool os); newCreditPool = creditPool + Epsilon cfg
     in clamp_cp procs os newCreditPool)"

definition spccUpdateCp :: "spccCfg \<Rightarrow> nat \<Rightarrow> 'x credOps_scheme \<Rightarrow> int \<Rightarrow> u64" where
  "spccUpdateCp cfg procs os dir = (
     let creditPool = AtomicGetUint64 (gCreditPool os);
         newCreditPool = (if dir = - 1 then creditPool - Epsilon cfg
                          else if dir = 1 then creditPool + Epsilon cfg
                          else creditPool)
     in clamp_cp procs os newCreditPool)"

definition spccGenMicroExpDirs :: "bool \<Rightarrow> spccOps \<Rightarrow> spccOps" where
  "spccGenMicroExpDirs doIncr os = (
     let ds1 = (MicroExpDirs os)[1 := (if doIncr then 1 else - 1)];
         ds2 = ds1[2 := - (ds1 ! 1)]
     in os\<lparr>MicroExpDirs := ds2\<rparr>)"

section \<open>The state machine\<close>

text \<open>Array accesses check the index.\<close>

definition arr_get :: "'a list \<Rightarrow> u64 \<Rightarrow> 'a option" where
  "arr_get xs i = (if unat i < length xs then Some (xs ! unat i) else None)"

definition arr_set :: "'a list \<Rightarrow> u64 \<Rightarrow> 'a \<Rightarrow> 'a list option" where
  "arr_set xs i v = (if unat i < length xs then Some (xs[unat i := v]) else None)"

definition ctlPrepare :: "spccCfg \<Rightarrow> nat \<Rightarrow> spccOps \<Rightarrow> world \<Rightarrow> (spccOps \<times> world \<times> bool) option" where
  "ctlPrepare cfg procs os w = (
     let microExpId = NumMicroExps os + 1 in do {
       (os1, wake) \<leftarrow> (if PerturbCp cfg then do {
            dir \<leftarrow> arr_get (MicroExpDirs os) microExpId;
            let newCp = spccUpdateCp cfg procs os dir;
            Some (os\<lparr>gCreditPool := AtomicSetUint64 (gCreditPool os) newCp\<rparr>, True)
          } else Some (os, False));
       Some (os1\<lparr>CtlState := StartMicroExp, NextUpdate := MicroTime w + PreMonIntUs cfg\<rparr>, step_world w, wake)
     })"

definition ctlStart :: "spccCfg \<Rightarrow> spccOps \<Rightarrow> world \<Rightarrow> (spccOps \<times> world \<times> bool) option" where
  "ctlStart cfg os w = (
     let i = NumMicroExps os + 1 in do {
       inr \<leftarrow> arr_set (InReqs os) i 0;
       outr \<leftarrow> arr_set (OutResps os) i 0;
       good \<leftarrow> arr_set (GoodOutResps os) i 0;
       drp \<leftarrow> arr_set (DropReqs os) i 0;
       qd \<leftarrow> arr_set (QDelay os) i (QueueDelayMax_of w div 1000);
       let w = step_world w;
       mem \<leftarrow> arr_set (MemAccesses os) i (MemAccesses_of w);
       let w = step_world w;
       en \<leftarrow> arr_set (EnergyConsumed os) i (Energy_of w);
       let w = step_world w;
       st \<leftarrow> arr_set (StartTs os) i (MicroTime w);
       let w = step_world w;
       et \<leftarrow> arr_set (EndTs os) i (MicroTime w);
       let w = step_world w;
       Some (os\<lparr>InReqs := inr, OutResps := outr, GoodOutResps := good, DropReqs := drp, QDelay := qd,
               MemAccesses := mem, EnergyConsumed := en, StartTs := st, EndTs := et,
               MicroExpId := i, CtlState := EndMicroExp, NextUpdate := MicroTime w + MonIntUs cfg\<rparr>,
             step_world w, False)
     })"

definition ctlEnd :: "spccCfg \<Rightarrow> spccOps \<Rightarrow> world \<Rightarrow> (spccOps \<times> world \<times> bool) option" where
  "ctlEnd cfg os w = (
     let i = MicroExpId os in do {
       m0 \<leftarrow> arr_get (MemAccesses os) i;
       mem \<leftarrow> arr_set (MemAccesses os) i (MemAccesses_of w - m0);
       let w = step_world w;
       e0 \<leftarrow> arr_get (EnergyConsumed os) i;
       en \<leftarrow> arr_set (EnergyConsumed os) i (f_sub (Energy_of w) e0);
       let w = step_world w;
       let os1 = os\<lparr>MemAccesses := mem, EnergyConsumed := en, MicroExpId := 0,
                    NumMicroExps := NumMicroExps os + 1\<rparr>;
       if NumMicroExps os1 < of_nat SpccMaxNumMicroExps
       then Some (os1\<lparr>CtlState := PrepareMicroExp, NextUpdate := MicroTime w\<rparr>, step_world w, False)
       else
         let os2 = (if PerturbCp cfg then os1\<lparr>gCreditPool := AtomicSetUint64 (gCreditPool os1) (OrigCp os1)\<rparr>
                    else os1)
         in Some (os2\<lparr>CtlState := MakeDecision, NextUpdate := MicroTime w\<rparr>, step_world w, PerturbCp cfg)
     })"

definition zero_stats :: spccMicroExpStats where
  "zero_stats = \<lparr>mDuration = 0, mInReqs = 0, mOutResps = 0, mGoodOutResps = 0, mDropReqs = 0, mQDelay = 0,
     mMemAccesses = 0, mEnergyConsumed = FFin 0, mUtility = FFin 0\<rparr>"

definition micro_stats :: "spccCfg \<Rightarrow> spccOps \<Rightarrow> u64 \<Rightarrow> spccMicroExpStats option" where
  "micro_stats cfg os i = do {
     et \<leftarrow> arr_get (EndTs os) i;
     st \<leftarrow> arr_get (StartTs os) i;
     inr \<leftarrow> arr_get (InReqs os) i;
     outr \<leftarrow> arr_get (OutResps os) i;
     good \<leftarrow> arr_get (GoodOutResps os) i;
     drp \<leftarrow> arr_get (DropReqs os) i;
     qd \<leftarrow> arr_get (QDelay os) i;
     mem \<leftarrow> arr_get (MemAccesses os) i;
     en \<leftarrow> arr_get (EnergyConsumed os) i;
     let st0 = \<lparr>mDuration = et - st, mInReqs = inr, mOutResps = outr, mGoodOutResps = good,
                mDropReqs = drp, mQDelay = qd, mMemAccesses = mem, mEnergyConsumed = en, mUtility = FFin 0\<rparr>;
     Some (st0\<lparr>mUtility := CalcUtilFn cfg st0\<rparr>)
   }"

text \<open>The loop that fills the statistics of the micro-experiments done, from index 1.\<close>

primrec fill_stats ::
  "spccCfg \<Rightarrow> spccOps \<Rightarrow> nat \<Rightarrow> nat \<Rightarrow> spccMicroExpStats list \<Rightarrow> spccMicroExpStats list option" where
  "fill_stats cfg os 0 i stats = Some stats"
| "fill_stats cfg os (Suc n) i stats = do {
     st \<leftarrow> micro_stats cfg os (of_nat i);
     stats' \<leftarrow> arr_set stats (of_nat i) st;
     fill_stats cfg os n (Suc i) stats'
   }"

definition decide_dir :: "spccCfg \<Rightarrow> spccMicroExpStats \<Rightarrow> spccMicroExpStats \<Rightarrow> int" where
  "decide_dir cfg s1 s2 =
     (if mInReqs s1 = 0 \<or> mInReqs s2 = 0 then SpccDirPlus
      else if mInReqs s1 > mInReqs s2 then CompUtilFn cfg s2 s1
      else if mInReqs s2 > mInReqs s1 then CompUtilFn cfg s1 s2
      else SpccDirStay)"

definition decide_cp :: "spccCfg \<Rightarrow> nat \<Rightarrow> spccOps \<Rightarrow> int \<Rightarrow> u64" where
  "decide_cp cfg procs os dir = (
     let newCp = AtomicGetUint64 (gCreditPool os); creditUsed = AtomicGetUint64 (gCreditUsed os) in
     if dir = SpccDirMinus then spccDecrCp cfg procs os
     else if dir = SpccDirStay then (if creditUsed < newCp then spccDecrCp cfg procs os else newCp)
     else if dir = SpccDirPlus then
       (if creditUsed \<ge> newCp then spccIncrCp cfg procs os else spccDecrCp cfg procs os)
     else newCp)"

definition ctlDecide :: "spccCfg \<Rightarrow> nat \<Rightarrow> spccOps \<Rightarrow> world \<Rightarrow> (spccOps \<times> world \<times> bool) option" where
  "ctlDecide cfg procs os w = do {
     stats \<leftarrow> fill_stats cfg os (unat (NumMicroExps os)) 1 (replicate (SpccMaxNumMicroExps + 1) zero_stats);
     d1 \<leftarrow> arr_get (MicroExpDirs os) 1;
     let plusId = (if d1 = 1 then 1 else 2 :: nat);
     let minusId = (if d1 = 1 then 2 else 1 :: nat);
     let skip = (StrictLabelling cfg \<and> mInReqs (stats ! plusId) \<le> mInReqs (stats ! minusId));
     let newCp = (if skip then AtomicGetUint64 (gCreditPool os)
                  else decide_cp cfg procs os (decide_dir cfg (stats ! 1) (stats ! 2)));
     let os1 = (if skip then os else os\<lparr>gCreditPool := AtomicSetUint64 (gCreditPool os) newCp\<rparr>);
     let os2 = spccGenMicroExpDirs (coin_of w) (os1\<lparr>NumMicroExps := 0, MicroExpId := 0\<rparr>);
     let w = step_world w;
     Some (os2\<lparr>OrigCp := newCp, CtlState := PrepareMicroExp, NextUpdate := MicroTime w\<rparr>, step_world w, \<not> skip)
   }"

definition ctlStep :: "spccCfg \<Rightarrow> nat \<Rightarrow> spccOps \<Rightarrow> world \<Rightarrow> (spccOps \<times> world \<times> bool) option" where
  "ctlStep cfg procs os w = (case CtlState os of
     PrepareMicroExp \<Rightarrow> ctlPrepare cfg procs os w
   | StartMicroExp \<Rightarrow> ctlStart cfg os w
   | EndMicroExp \<Rightarrow> ctlEnd cfg os w
   | MakeDecision \<Rightarrow> ctlDecide cfg procs os w)"

definition ctlWake ::
  "spccCfg \<Rightarrow> nat \<Rightarrow> bool \<Rightarrow> ('b, 'k) spccServer \<Rightarrow> world \<Rightarrow> (('b, 'k) spccServer \<times> world) option" where
  "ctlWake cfg procs doWakeUp S w = (
     let now = MicroTime w; w = step_world w in
     if doWakeUp \<or> now - LastWakeup (ops S) > RttUs cfg then
       let newCp = AtomicGetUint64 (gCreditPool (ops S));
           creditUsed = AtomicGetUint64 (gCreditUsed (ops S));
           creditUnused = (if newCp > creditUsed then newCp - creditUsed else 0)
       in do {
         (S1, w1) \<leftarrow> spccWakeUpDrainedSession (MaxClientDelayUs cfg) (RttUs cfg) procs creditUnused S w;
         Some (set_ops ((ops S1)\<lparr>LastWakeup := now\<rparr>) S1, w1)
       }
     else Some (S, w))"

definition spccUpdateCreditPool ::
  "spccCfg \<Rightarrow> nat \<Rightarrow> ('b, 'k) spccServer \<Rightarrow> world \<Rightarrow> (('b, 'k) spccServer \<times> world) option" where
  "spccUpdateCreditPool cfg procs S w =
     (if \<not> trylock_of w then Some (S, step_world w)
      else
        let w = step_world w; now = MicroTime w; w = step_world w in do {
          (os, w, doWakeUp) \<leftarrow> (if now < NextUpdate (ops S) then Some (ops S, w, False)
                                else ctlStep cfg procs (ops S) w);
          ctlWake cfg procs doWakeUp (set_ops os S) w
        })"

definition spccHandleReqDrop ::
  "spccCfg \<Rightarrow> nat \<Rightarrow> u64 \<Rightarrow> ('b, 'k) spccServer \<Rightarrow> world \<Rightarrow> (('b, 'k) spccServer \<times> world) option" where
  "spccHandleReqDrop cfg procs delay S w = spccUpdateCreditPool cfg procs S w"

section \<open>Bounds of the pool\<close>

lemma unat_push6: "unat n < 2 ^ 58 \<Longrightarrow> unat (push_bit SpccMaxWindowExp (n :: u64)) = 64 * unat n"
  by (simp add: SpccMaxWindowExp_def push_bit_eq_mult unat_mult_lem [THEN iffD1] unat_word_ariths)

lemma unat_min: "unat (min a b) = min (unat a) (unat (b :: u64))"
  by (simp add: min_def word_le_nat_alt)

lemma unat_max: "unat (max a b) = max (unat a) (unat (b :: u64))"
  by (simp add: max_def word_le_nat_alt)

lemma unat_clamp_cp:
  assumes "unat (gNumSess os) < 2 ^ 58" "procs < 2 ^ 64"
  shows "unat (clamp_cp procs os cp) = min (max (unat cp) procs) (64 * unat (gNumSess os))"
  using assms by (simp add: clamp_cp_def unat_min unat_max unat_push6 unat_of_nat_64)

lemma unat_sub_eps: "e \<le> c \<Longrightarrow> unat (c - e :: u64) = unat c - unat e"
  by (simp add: unat_sub)

lemma unat_sub_wrap: "c < e \<Longrightarrow> unat (c - e :: u64) = 2 ^ 64 + unat c - unat e"
proof -
  assume "c < e"
  then have "unat c < unat e" by (simp add: word_less_nat_alt)
  then show ?thesis using unat_bound [of e] by (simp add: unat_sub_if')
qed

lemma unat_add_small: "unat c + unat e < 2 ^ 64 \<Longrightarrow> unat (c + e :: u64) = unat c + unat e"
  by (simp add: unat_word_ariths)

section \<open>The controller invariant\<close>

definition arrays_ok :: "spccOps \<Rightarrow> bool" where
  "arrays_ok os \<longleftrightarrow> length (InReqs os) = 3 \<and> length (OutResps os) = 3 \<and> length (GoodOutResps os) = 3 \<and>
     length (DropReqs os) = 3 \<and> length (StartTs os) = 3 \<and> length (EndTs os) = 3 \<and> length (QDelay os) = 3 \<and>
     length (MemAccesses os) = 3 \<and> length (EnergyConsumed os) = 3 \<and> length (MicroExpDirs os) = 3"

definition dirs_ok :: "spccOps \<Rightarrow> bool" where
  "dirs_ok os \<longleftrightarrow> (MicroExpDirs os ! 1 = 1 \<or> MicroExpDirs os ! 1 = - 1) \<and>
     MicroExpDirs os ! 2 = - (MicroExpDirs os ! 1)"

definition phase_ok :: "spccOps \<Rightarrow> bool" where
  "phase_ok os = (case CtlState os of
     PrepareMicroExp \<Rightarrow> NumMicroExps os \<in> {0, 1} \<and> MicroExpId os = 0
   | StartMicroExp \<Rightarrow> NumMicroExps os \<in> {0, 1} \<and> MicroExpId os = 0
   | EndMicroExp \<Rightarrow> NumMicroExps os \<in> {0, 1} \<and> MicroExpId os = NumMicroExps os + 1
   | MakeDecision \<Rightarrow> NumMicroExps os = 2 \<and> MicroExpId os = 0)"

definition ctl_ok :: "spccOps \<Rightarrow> bool" where
  "ctl_ok os \<longleftrightarrow> arrays_ok os \<and> dirs_ok os \<and> phase_ok os"

text \<open>What a controller step leaves alone: everything the sessions and workers own.\<close>

definition same_books :: "spccOps \<Rightarrow> spccOps \<Rightarrow> bool" where
  "same_books os os' \<longleftrightarrow> gNumSess os' = gNumSess os \<and> gNumDrained os' = gNumDrained os \<and>
     gCreditUsed os' = gCreditUsed os \<and> gCreditDs os' = gCreditDs os \<and> gNumPending os' = gNumPending os \<and>
     Drained os' = Drained os"

definition next_state :: "spccOps \<Rightarrow> spccCtlState" where
  "next_state os = (case CtlState os of
     PrepareMicroExp \<Rightarrow> StartMicroExp
   | StartMicroExp \<Rightarrow> EndMicroExp
   | EndMicroExp \<Rightarrow> if NumMicroExps os = 0 then PrepareMicroExp else MakeDecision
   | MakeDecision \<Rightarrow> PrepareMicroExp)"

lemma unat_exp_idx: "n \<in> {0, 1 :: u64} \<Longrightarrow> unat (n + 1) \<in> {1, 2} \<and> unat (n + 1) < 3"
  by auto

lemma arr_get_3: "length xs = 3 \<Longrightarrow> n \<in> {0, 1 :: u64} \<Longrightarrow> arr_get xs (n + 1) = Some (xs ! unat (n + 1))"
  by (auto simp: arr_get_def)

lemma arr_set_3: "length xs = 3 \<Longrightarrow> n \<in> {0, 1 :: u64} \<Longrightarrow> arr_set xs (n + 1) v = Some (xs[unat (n + 1) := v])"
  by (auto simp: arr_set_def)

lemma arr_3 [simp]:
  "length xs = 3 \<Longrightarrow> arr_get xs 1 = Some (xs ! 1)" "length xs = 3 \<Longrightarrow> arr_get xs 2 = Some (xs ! 2)"
  "length xs = 3 \<Longrightarrow> arr_set xs 1 v = Some (xs[1 := v])" "length xs = 3 \<Longrightarrow> arr_set xs 2 v = Some (xs[2 := v])"
  by (simp_all add: arr_get_def arr_set_def)

lemma ctlPrepare_ok:
  assumes ok: "ctl_ok os" and st: "CtlState os = PrepareMicroExp"
  shows "\<exists>os' w' wake. ctlPrepare cfg procs os w = Some (os', w', wake) \<and> ctl_ok os' \<and> same_books os os' \<and>
     CtlState os' = StartMicroExp \<and> NumMicroExps os' = NumMicroExps os \<and> OrigCp os' = OrigCp os \<and>
     MicroExpDirs os' = MicroExpDirs os \<and>
     gCreditPool os' = (if PerturbCp cfg
        then spccUpdateCp cfg procs os (MicroExpDirs os ! unat (NumMicroExps os + 1)) else gCreditPool os)"
proof -
  have n: "NumMicroExps os \<in> {0, 1}" and a: "arrays_ok os"
    using ok st by (auto simp: ctl_ok_def phase_ok_def)
  have g: "arr_get (MicroExpDirs os) (NumMicroExps os + 1) = Some (MicroExpDirs os ! unat (NumMicroExps os + 1))"
    using a by (intro arr_get_3 n) (simp add: arrays_ok_def)
  show ?thesis using ok st n
    by (auto simp: ctlPrepare_def g Let_def ctl_ok_def phase_ok_def arrays_ok_def dirs_ok_def same_books_def)
qed

lemma ctlStart_ok:
  assumes ok: "ctl_ok os" and st: "CtlState os = StartMicroExp"
  shows "\<exists>os' w'. ctlStart cfg os w = Some (os', w', False) \<and> ctl_ok os' \<and> same_books os os' \<and>
     CtlState os' = EndMicroExp \<and> NumMicroExps os' = NumMicroExps os \<and> OrigCp os' = OrigCp os \<and>
     MicroExpDirs os' = MicroExpDirs os \<and> gCreditPool os' = gCreditPool os"
proof -
  have n: "NumMicroExps os \<in> {0, 1}" and a: "arrays_ok os"
    using ok st by (auto simp: ctl_ok_def phase_ok_def)
  note set3 = arr_set_3 [OF _ n]
  show ?thesis using ok st n a
    by (simp add: ctlStart_def Let_def set3 arrays_ok_def ctl_ok_def phase_ok_def dirs_ok_def same_books_def)
qed

lemma ctlEnd_ok:
  assumes ok: "ctl_ok os" and st: "CtlState os = EndMicroExp"
  shows "\<exists>os' w' wake. ctlEnd cfg os w = Some (os', w', wake) \<and> ctl_ok os' \<and> same_books os os' \<and>
     CtlState os' = (if NumMicroExps os = 0 then PrepareMicroExp else MakeDecision) \<and>
     NumMicroExps os' = NumMicroExps os + 1 \<and> OrigCp os' = OrigCp os \<and> MicroExpDirs os' = MicroExpDirs os \<and>
     gCreditPool os' = (if NumMicroExps os \<noteq> 0 \<and> PerturbCp cfg then OrigCp os else gCreditPool os)"
proof -
  have n: "NumMicroExps os \<in> {0, 1}" and a: "arrays_ok os" and i: "MicroExpId os = NumMicroExps os + 1"
    using ok st by (auto simp: ctl_ok_def phase_ok_def)
  from n consider "NumMicroExps os = 0" "MicroExpId os = 1" | "NumMicroExps os = 1" "MicroExpId os = 2"
    using i by auto
  then show ?thesis
    by cases (use ok st a in \<open>auto simp: ctlEnd_def Let_def arrays_ok_def ctl_ok_def phase_ok_def dirs_ok_def
        same_books_def SpccMaxNumMicroExps_def\<close>)
qed

lemma fill_stats_2:
  assumes "arrays_ok os"
  shows "\<exists>s1 s2. fill_stats cfg os 2 1 (replicate 3 zero_stats) = Some [zero_stats, s1, s2] \<and>
     micro_stats cfg os 1 = Some s1 \<and> micro_stats cfg os 2 = Some s2"
proof -
  have "\<exists>s. micro_stats cfg os i = Some s" if "unat i < 3" for i
    using assms that by (simp add: micro_stats_def arr_get_def arrays_ok_def Let_def)
  from this [of 1] this [of 2] obtain s1 s2 where s: "micro_stats cfg os 1 = Some s1" "micro_stats cfg os 2 = Some s2"
    by auto
  have "fill_stats cfg os (Suc (Suc 0)) 1 (replicate 3 zero_stats) = Some [zero_stats, s1, s2]"
    using s by (simp add: arr_set_def numeral_3_eq_3)
  then show ?thesis using s by (simp add: numeral_2_eq_2)
qed

lemma ctlDecide_ok:
  assumes ok: "ctl_ok os" and st: "CtlState os = MakeDecision"
  shows "\<exists>os' w' wake s1 s2. ctlDecide cfg procs os w = Some (os', w', wake) \<and> ctl_ok os' \<and> same_books os os' \<and>
     CtlState os' = PrepareMicroExp \<and> NumMicroExps os' = 0 \<and> OrigCp os' = gCreditPool os' \<and>
     micro_stats cfg os 1 = Some s1 \<and> micro_stats cfg os 2 = Some s2 \<and>
     (\<not> StrictLabelling cfg \<longrightarrow> gCreditPool os' = decide_cp cfg procs os (decide_dir cfg s1 s2)) \<and>
     gCreditPool os' \<in> {gCreditPool os, decide_cp cfg procs os (decide_dir cfg s1 s2)}"
proof -
  have a: "arrays_ok os" and n: "NumMicroExps os = 2"
    using ok st by (auto simp: ctl_ok_def phase_ok_def)
  from fill_stats_2 [OF a] obtain s1 s2 where
    f: "fill_stats cfg os 2 1 (replicate 3 zero_stats) = Some [zero_stats, s1, s2]"
      "micro_stats cfg os 1 = Some s1" "micro_stats cfg os 2 = Some s2" by blast
  have f': "fill_stats cfg os (unat (NumMicroExps os)) 1 (replicate (SpccMaxNumMicroExps + 1) zero_stats)
      = Some [zero_stats, s1, s2]"
    using f(1) by (simp add: n SpccMaxNumMicroExps_def numeral_3_eq_3)
  obtain d0 d1 d2 where d: "MicroExpDirs os = [d0, d1, d2]"
    using a by (auto simp: arrays_ok_def numeral_3_eq_3 length_Suc_conv)
  have g: "arr_get (MicroExpDirs os) 1 = Some d1" by (simp add: d arr_get_def)
  show ?thesis using ok st f(2,3) unfolding ctlDecide_def f' g Let_def
    by (auto simp: spccGenMicroExpDirs_def Let_def d ctl_ok_def phase_ok_def arrays_ok_def dirs_ok_def
        same_books_def)
qed

text \<open>The pool stays in the range in which the credit rule does not wrap.\<close>

definition pool_le :: "spccOps \<Rightarrow> bool" where
  "pool_le os \<longleftrightarrow> unat (gCreditPool os) \<le> 2 ^ 57 \<and> unat (OrigCp os) \<le> 2 ^ 57"

definition keeps_pool_le :: "spccOps \<Rightarrow> spccOps \<Rightarrow> bool" where
  "keeps_pool_le os os' \<longleftrightarrow> (unat (gNumSess os) \<le> 2 ^ 50 \<and> pool_le os \<longrightarrow> pool_le os')"

lemma keeps_pool_le_refl [simp]: "keeps_pool_le os os"
  by (simp add: keeps_pool_le_def)

lemma clamp_cp_le:
  assumes "unat (gNumSess os) \<le> 2 ^ 50"
  shows "unat (clamp_cp procs os cp) \<le> 2 ^ 57"
proof -
  have "unat (clamp_cp procs os cp) \<le> unat (push_bit SpccMaxWindowExp (gNumSess os))"
    by (simp add: clamp_cp_def unat_min)
  also have "\<dots> = 64 * unat (gNumSess os)" using assms by (intro unat_push6) simp
  finally show ?thesis using assms by simp
qed

lemma decide_cp_cases:
  "decide_cp cfg procs os dir = gCreditPool os \<or> (\<exists>cp. decide_cp cfg procs os dir = clamp_cp procs os cp)"
  by (auto simp: decide_cp_def spccDecrCp_def spccIncrCp_def Let_def)

lemma ctlStep_ok:
  assumes ok: "ctl_ok os"
  shows "\<exists>os' w' wake. ctlStep cfg procs os w = Some (os', w', wake) \<and> ctl_ok os' \<and> same_books os os' \<and>
     CtlState os' = next_state os \<and> keeps_pool_le os os'"
proof (cases "CtlState os")
  case PrepareMicroExp
  from ctlPrepare_ok [OF ok this, of cfg procs w] obtain os' w' wake where
    r: "ctlPrepare cfg procs os w = Some (os', w', wake)" "ctl_ok os'" "same_books os os'" "CtlState os' = StartMicroExp"
      "OrigCp os' = OrigCp os" "gCreditPool os' = (if PerturbCp cfg
        then spccUpdateCp cfg procs os (MicroExpDirs os ! unat (NumMicroExps os + 1)) else gCreditPool os)" by blast
  have "keeps_pool_le os os'"
    using r(5,6) clamp_cp_le [of os procs] by (auto simp: keeps_pool_le_def pool_le_def spccUpdateCp_def Let_def)
  then show ?thesis using r PrepareMicroExp by (simp add: ctlStep_def next_state_def)
next
  case StartMicroExp
  from ctlStart_ok [OF ok this, of cfg w] show ?thesis using StartMicroExp
    by (auto simp: ctlStep_def next_state_def keeps_pool_le_def pool_le_def)
next
  case EndMicroExp
  from ctlEnd_ok [OF ok this, of cfg w] obtain os' w' wake where
    r: "ctlEnd cfg os w = Some (os', w', wake)" "ctl_ok os'" "same_books os os'"
      "CtlState os' = (if NumMicroExps os = 0 then PrepareMicroExp else MakeDecision)" "OrigCp os' = OrigCp os"
      "gCreditPool os' = (if NumMicroExps os \<noteq> 0 \<and> PerturbCp cfg then OrigCp os else gCreditPool os)" by blast
  have "keeps_pool_le os os'" using r(5,6) by (auto simp: keeps_pool_le_def pool_le_def)
  then show ?thesis using r EndMicroExp by (simp add: ctlStep_def next_state_def)
next
  case MakeDecision
  from ctlDecide_ok [OF ok this, of cfg procs w] obtain os' w' wake s1 s2 where
    r: "ctlDecide cfg procs os w = Some (os', w', wake)" "ctl_ok os'" "same_books os os'"
      "CtlState os' = PrepareMicroExp" "OrigCp os' = gCreditPool os'"
      "gCreditPool os' \<in> {gCreditPool os, decide_cp cfg procs os (decide_dir cfg s1 s2)}" by blast
  have "keeps_pool_le os os'"
    using r(5,6) decide_cp_cases [of cfg procs os "decide_dir cfg s1 s2"] clamp_cp_le [of os procs]
    by (auto simp: keeps_pool_le_def pool_le_def)
  then show ?thesis using r MakeDecision by (simp add: ctlStep_def next_state_def)
qed

section \<open>The controller and the sessions\<close>

text \<open>
  One call of \<open>spccUpdateCreditPool\<close>: it does not panic, moves the controller by at most one
  state, and wakes as many drained sessions as there are unused credits, or all of them.
\<close>

lemma ctlWake_ok:
  assumes ok: "drained_ok L S" and procs: "procs_ok procs w" "procs \<le> SpccMaxProcs" "procs_below procs S"
  shows "\<exists>T lw w' L' W. ctlWake cfg procs doWakeUp S w = Some (set_ops ((ops T)\<lparr>LastWakeup := lw\<rparr>) T, w') \<and>
     drained_ok L' T \<and> wakes W S T \<and>
     card W = (if doWakeUp \<or> MicroTime w - LastWakeup (ops S) > RttUs cfg
       then min (wake_budget (gCreditPool (ops S)) (gCreditUsed (ops S))) (card (linked_sessions S)) else 0)"
proof (cases "doWakeUp \<or> MicroTime w - LastWakeup (ops S) > RttUs cfg")
  case True
  let ?w = "step_world w"
  let ?n = "if gCreditUsed (ops S) < gCreditPool (ops S) then gCreditPool (ops S) - gCreditUsed (ops S) else 0"
  have "procs_ok procs ?w" using procs(1) by simp
  from WakeUpDrained_ok [OF ok this procs(2,3), of "MaxClientDelayUs cfg" "RttUs cfg" ?n] obtain T w' L' W where
    T: "spccWakeUpDrainedSession (MaxClientDelayUs cfg) (RttUs cfg) procs ?n S ?w = Some (T, w')"
      "drained_ok L' T" "wakes W S T" "card W = min (unat ?n) (card (linked_sessions S))" by blast
  have "ctlWake cfg procs doWakeUp S w = Some (set_ops ((ops T)\<lparr>LastWakeup := MicroTime w\<rparr>) T, w')"
    using True T(1) by (simp add: ctlWake_def Let_def)
  then show ?thesis using True T(2-4) unused_budget by auto
next
  case False
  then have "ctlWake cfg procs doWakeUp S w =
      Some (set_ops ((ops S)\<lparr>LastWakeup := LastWakeup (ops S)\<rparr>) S, step_world w)"
    by (simp add: ctlWake_def Let_def)
  moreover have "wakes {} S S" using wakes_none [of S "Drained (ops S)"] by (simp add: set_drained_def)
  ultimately show ?thesis using False ok
    by (intro exI [of _ S] exI [of _ "LastWakeup (ops S)"] exI [of _ "step_world w"] exI [of _ L] exI [of _ "{}"]) simp
qed

definition pool_step :: "nat set \<Rightarrow> ('b, 'k) spccServer \<Rightarrow> ('b, 'k) spccServer \<Rightarrow> bool" where
  "pool_step W S S' \<longleftrightarrow> (\<exists>os T lw. same_books (ops S) os \<and> ctl_ok os \<and> keeps_pool_le (ops S) os \<and> wakes W (set_ops os S) T \<and>
     S' = set_ops ((ops T)\<lparr>LastWakeup := lw\<rparr>) T)"

lemma same_books_refl [simp]: "same_books os os"
  by (simp add: same_books_def)

lemma ctl_ok_cong: "ctl_ok (os\<lparr>LastWakeup := lw\<rparr>) = ctl_ok os"
  by (cases "CtlState os") (simp_all add: ctl_ok_def arrays_ok_def dirs_ok_def phase_ok_def)

lemma procs_ok_phases:
  "ctlPrepare cfg procs os w = Some (os', w', wake) \<Longrightarrow> procs_ok n w' = procs_ok n w"
  "ctlStart cfg os w = Some (os', w', wake) \<Longrightarrow> procs_ok n w' = procs_ok n w"
  "ctlEnd cfg os w = Some (os', w', wake) \<Longrightarrow> procs_ok n w' = procs_ok n w"
  "ctlDecide cfg procs os w = Some (os', w', wake) \<Longrightarrow> procs_ok n w' = procs_ok n w"
  subgoal by (auto simp: ctlPrepare_def Let_def bind_eq_Some_conv split: if_splits)
  subgoal by (auto simp: ctlStart_def Let_def bind_eq_Some_conv)
  subgoal unfolding ctlEnd_def Let_def
    by (auto simp only: bind_eq_Some_conv option.inject prod.inject procs_ok_step simp_thms split: if_split_asm)
  subgoal unfolding ctlDecide_def Let_def by (clarsimp simp only: bind_eq_Some_conv option.inject prod.inject procs_ok_step)
  done

lemma procs_ok_ctlStep:
  assumes "ctlStep cfg procs os w = Some (os', w', wake)"
  shows "procs_ok n w' = procs_ok n w"
  using assms procs_ok_phases by (cases "CtlState os") (simp_all add: ctlStep_def)

lemma UpdateCreditPool_ok:
  assumes ok: "drained_ok L S" and ctl: "ctl_ok (ops S)"
    and procs: "procs_ok procs w" "procs \<le> SpccMaxProcs" "procs_below procs S"
  shows "\<exists>S' w' L' W. spccUpdateCreditPool cfg procs S w = Some (S', w') \<and> drained_ok L' S' \<and> pool_step W S S'"
proof (cases "trylock_of w")
  case True
  let ?w = "step_world (step_world w)"
  obtain os w1 wake where s: "(if MicroTime (step_world w) < NextUpdate (ops S) then Some (ops S, ?w, False)
      else ctlStep cfg procs (ops S) ?w) = Some (os, w1, wake)"
    and os: "ctl_ok os" "same_books (ops S) os" "keeps_pool_le (ops S) os" and w1: "procs_ok procs w1"
  proof (cases "MicroTime (step_world w) < NextUpdate (ops S)")
    case True
    then show ?thesis using that [of "ops S" ?w False] ctl procs(1) by simp
  next
    case False
    from ctlStep_ok [OF ctl, of cfg procs ?w] obtain os w1 wake where
      "ctlStep cfg procs (ops S) ?w = Some (os, w1, wake)" "ctl_ok os" "same_books (ops S) os"
      "keeps_pool_le (ops S) os" by blast
    then show ?thesis using that [of os w1 wake] False procs(1) procs_ok_ctlStep [of cfg procs "ops S" ?w] by simp
  qed
  have "drained_ok L (set_ops os S)"
    using os(2) by (intro drained_ok_ops [OF ok]) (simp_all add: same_books_def)
  from ctlWake_ok [OF this w1 procs(2), of cfg wake] procs(3) obtain T lw w' L' W where
    T: "ctlWake cfg procs wake (set_ops os S) w1 = Some (set_ops ((ops T)\<lparr>LastWakeup := lw\<rparr>) T, w')"
      "drained_ok L' T" "wakes W (set_ops os S) T" by auto
  let ?S = "set_ops ((ops T)\<lparr>LastWakeup := lw\<rparr>) T"
  have "spccUpdateCreditPool cfg procs S w = Some (?S, w')"
    using True s T(1) unfolding spccUpdateCreditPool_def Let_def by simp
  moreover have "drained_ok L' ?S" by (intro drained_ok_ops [OF T(2)]) simp_all
  moreover have "pool_step W S ?S" using os T(3) unfolding pool_step_def by blast
  ultimately show ?thesis by blast
next
  case False
  have "wakes {} (set_ops (ops S) S) S" using wakes_none [of S "Drained (ops S)"] by (simp add: set_drained_def)
  then have "pool_step {} S S" using ctl unfolding pool_step_def
    by (intro exI [of _ "ops S"] exI [of _ S] exI [of _ "LastWakeup (ops S)"]) simp
  then show ?thesis using False ok by (auto simp: spccUpdateCreditPool_def)
qed

text \<open>What the sessions see of a call, and that it keeps the books.\<close>

lemma pool_step_facts:
  assumes "pool_step W S S'"
  shows "sess S' = (\<lambda>p. if p \<in> W then map_option woken (sess S p) else sess S p)" "W \<subseteq> linked_sessions S"
    "gNumSess (ops S') = gNumSess (ops S)" "gCreditDs (ops S') = gCreditDs (ops S)"
    "gNumPending (ops S') = gNumPending (ops S)" "ctl_ok (ops S')"
    "gCreditUsed (ops S') = gCreditUsed (ops S) + of_nat (card W)" "keeps_pool_le (ops S) (ops S')"
proof -
  from assms obtain os T lw where t: "same_books (ops S) os" "ctl_ok os" "wakes W (set_ops os S) T"
      and kp: "keeps_pool_le (ops S) os" and S': "S' = set_ops ((ops T)\<lparr>LastWakeup := lw\<rparr>) T" unfolding pool_step_def by blast
  note t = t S'
  from t(3) obtain h where h: "ops T = os\<lparr>Drained := h, gNumDrained := gNumDrained os - of_nat (card W),
        gCreditUsed := gCreditUsed os + of_nat (card W)\<rparr>" unfolding wakes_def by auto
  show "sess S' = (\<lambda>p. if p \<in> W then map_option woken (sess S p) else sess S p)" "W \<subseteq> linked_sessions S"
    using t(3,4) by (auto simp: wakes_def fun_eq_iff)
  show "gNumSess (ops S') = gNumSess (ops S)" "gCreditDs (ops S') = gCreditDs (ops S)"
    "gNumPending (ops S') = gNumPending (ops S)"
    "gCreditUsed (ops S') = gCreditUsed (ops S) + of_nat (card W)"
    using t(1,4) h by (simp_all add: same_books_def)
  show "keeps_pool_le (ops S) (ops S')" using kp t(4) h by (simp add: keeps_pool_le_def pool_le_def)
  have "ctl_ok (ops T)" using t(2) unfolding h
    by (cases "CtlState os") (simp_all add: ctl_ok_def arrays_ok_def dirs_ok_def phase_ok_def)
  then show "ctl_ok (ops S')" using t(4) by (simp add: ctl_ok_cong)
qed

lemma pool_step_books:
  assumes ok: "drained_ok L S" and st: "pool_step W S S'"
  shows "procs_below n S \<Longrightarrow> procs_below n S'" "linked_open S \<Longrightarrow> linked_open S'"
    "linked_open S \<Longrightarrow> credits_ok S \<Longrightarrow> credits_ok S'"
proof -
  from st obtain os T lw where t: "same_books (ops S) os" "wakes W (set_ops os S) T"
      "S' = set_ops ((ops T)\<lparr>LastWakeup := lw\<rparr>) T" unfolding pool_step_def by blast
  have ok': "drained_ok L (set_ops os S)"
    using t(1) by (intro drained_ok_ops [OF ok]) (simp_all add: same_books_def)
  show "procs_below n S \<Longrightarrow> procs_below n S'"
    using wakes_procs [OF t(2)] t(3) by simp
  show "linked_open S \<Longrightarrow> linked_open S'"
    using pool_step_facts(1) [OF st] by (auto simp: linked_open_def woken_def split: if_splits)
  show "credits_ok S'" if "linked_open S" "credits_ok S"
    using wakes_credits_ok [OF ok' t(2)] that t by (simp add: credits_ok_def same_books_def)
qed

end
