(* ===== verification/Pcc_Server.thy ===== *)
theory Pcc_Server
  imports Pcc_Control
begin

text \<open>
  The goroutines of Svalinn's server, \<open>src/ovldctlrpc/pcc/pcc_server.go\<close>: per client one sender
  (\<open>spccSender\<close>) and one receiver (\<open>spccRecvOne\<close> in the loop of \<open>spccServer\<close>), and per
  request one worker (\<open>spccWorker\<close>).  The operations below are the pieces of these goroutines that
  run between two points where another goroutine can interfere; the step relation of theory
  \<open>Pcc_System\<close> interleaves them.

  Parameters: \<open>B\<close> the bitmap package, \<open>rd\<close> and \<open>wr\<close> the connection, \<open>pad\<close> the
  padding bytes of a header, \<open>handler\<close> the application's request handler (a function on the request
  context), \<open>pooled\<close> the object the context pool hands out.
\<close>

section \<open>Counting per micro-experiment\<close>

definition arr_inc :: "u64 list \<Rightarrow> u64 \<Rightarrow> u64 list option" where
  "arr_inc xs i = do { v \<leftarrow> arr_get xs i; arr_set xs i (AtomicAddUint64 v 1) }"

text \<open>\<open>EndTs\<close> is the time of the last event, \<open>QDelay\<close> the largest delay seen.\<close>

definition note_event :: "u64 \<Rightarrow> u64 \<Rightarrow> u64 \<Rightarrow> spccOps \<Rightarrow> spccOps option" where
  "note_event now maxQueueDelay i os = do {
     et \<leftarrow> arr_set (EndTs os) i now;
     q \<leftarrow> arr_get (QDelay os) i;
     qd \<leftarrow> (if maxQueueDelay > q then arr_set (QDelay os) i maxQueueDelay else Some (QDelay os));
     Some (os\<lparr>EndTs := et, QDelay := qd\<rparr>)
   }"

section \<open>The sender\<close>

definition spccSenderWaits :: "'b bitmap_ops \<Rightarrow> ('b, 'c, 'k) credSession \<Rightarrow> bool" where
  "spccSenderWaits B s \<longleftrightarrow>
     \<not> Closed s \<and> \<not> NeedECredit s \<and> \<not> WakeUp s \<and> bmCount B (CompletedSlots s) = 0"

text \<open>The sender's local variables after its first critical section.\<close>

record 'b senderVars =
  vTmp :: 'b
  vDrainedProc :: int
  vCredit :: int
  vSendECredit :: bool

text \<open>Whether one of the completed requests was dropped; a nil slot would panic.\<close>

fun any_dropped :: "('b, 'z credCtx_scheme, 'k) credSession \<Rightarrow> nat list \<Rightarrow> bool \<Rightarrow> bool option" where
  "any_dropped s [] acc = Some acc"
| "any_dropped s (i # rest) acc = do {
     p \<leftarrow> slot_at s (int i);
     c \<leftarrow> p;
     any_dropped s rest (if Drop (Cmn c) then True else acc)
   }"

definition spccSenderCollect ::
  "'b bitmap_ops \<Rightarrow> nat \<Rightarrow> nat \<Rightarrow> u64 \<Rightarrow> 'x credOps_scheme \<Rightarrow> ('b, 'z credCtx_scheme, 'k) credSession \<Rightarrow>
   ('x credOps_scheme \<times> ('b, 'z credCtx_scheme, 'k) credSession \<times> 'b senderVars) option" where
  "spccSenderCollect B procs p now os s = do {
     let tmp = bmClone B (CompletedSlots s);
     let s1 = s\<lparr>CompletedSlots := bmXor B (CompletedSlots s) tmp\<rparr>;
     reqDropped \<leftarrow> any_dropped s1 (bmRange B tmp) False;
     (os2, s2) \<leftarrow> (if WakeUp s1 then spccRemoveFromDrainedList p os s1 else Some (os, s1));
     let drainedProc = DrainedProc s2;
     let numResp = int (bmCount B tmp);
     let s3 = s2\<lparr>NumPending := isub (NumPending s2) numResp\<rparr>;
     let oldCredit = Credit s3;
     (os4, s4) \<leftarrow> spccUpdateCredit (int procs) os2 s3 reqDropped;
     let credit = Credit s4;
     let creditIssued = Max_go 0 (iadd (isub credit oldCredit) numResp);
     let os5 = os4\<lparr>StatCreditTx := AtomicAddUint64 (StatCreditTx os4) (i2u creditIssued)\<rparr>;
     let sendECredit = ((NeedECredit s4 \<or> WakeUp s4) \<and> numResp = 0 \<and> Advertised s4 < Credit s4);
     let s5 = (if numResp > 0 \<or> sendECredit then s4\<lparr>Advertised := Credit s4\<rparr> else s4);
     let s6 = s5\<lparr>NeedECredit := False, WakeUp := False\<rparr>;
     let s7 = (if sendECredit then s6\<lparr>LastECreditTs := now\<rparr> else s6);
     Some (os5, s7, \<lparr>vTmp = tmp, vDrainedProc = drainedProc, vCredit = credit, vSendECredit = sendECredit\<rparr>)
   }"

text \<open>
  Outside the lock: an explicit credit message (\<open>Inl\<close> its return value), or the responses
  (\<open>Inr ()\<close>, the sender then looks whether the session is drained).
\<close>

definition spccSenderSend ::
  "'b bitmap_ops \<Rightarrow> 'k writer \<Rightarrow> byte list \<Rightarrow> 'b senderVars \<Rightarrow> 'x credOps_scheme \<Rightarrow>
   ('b, 'z credCtx_scheme, 'k) credSession \<Rightarrow>
   ((int + unit) \<times> 'x credOps_scheme \<times> ('b, 'z credCtx_scheme, 'k) credSession) option" where
  "spccSenderSend B wr pad v os s =
     (if vSendECredit v then do {
        (ret, os1, s1) \<leftarrow> spccSendECredit wr pad os s;
        Some (Inl ret, os1, s1)
      } else do {
        (os1, s1) \<leftarrow> spccSendCompletionVector B wr pad os s (vTmp v);
        Some (Inr (), os1, s1)
      })"

definition spccSenderLink ::
  "'b bitmap_ops \<Rightarrow> nat \<Rightarrow> nat \<Rightarrow> 'b senderVars \<Rightarrow> 'x credOps_scheme \<Rightarrow> ('b, 'c, 'k) credSession \<Rightarrow>
   ('x credOps_scheme \<times> ('b, 'c, 'k) credSession) option" where
  "spccSenderLink B procId p v os s =
     (if vCredit v = 0 \<and> vDrainedProc v = - 1 \<and> bmCount B (AvailSlots s) = SpccMaxWindow
      then spccLinkDrained (0 < Demand s) procId p os s
      else Some (os, s))"

text \<open>The exit of the sender: wait for the requests in flight, unlink the session, free the slots.\<close>

definition spccSenderDrainWaits :: "'b bitmap_ops \<Rightarrow> ('b, 'c, 'k) credSession \<Rightarrow> bool" where
  "spccSenderDrainWaits B s \<longleftrightarrow>
     \<not> Closed s \<or> bmCount B (AvailSlots s) + bmCount B (CompletedSlots s) < SpccMaxWindow"

fun put_all_slots :: "'b bitmap_ops \<Rightarrow> nat list \<Rightarrow> ('b, 'c, 'k) credSession \<Rightarrow> ('b, 'c, 'k) credSession option" where
  "put_all_slots B [] s = Some s"
| "put_all_slots B (i # rest) s = do {
     p \<leftarrow> slot_at s (int i);
     s' \<leftarrow> (if p \<noteq> None then spccPutSlot B s (int i) else Some s);
     put_all_slots B rest s'
   }"

definition spccSenderExit ::
  "'b bitmap_ops \<Rightarrow> nat \<Rightarrow> 'x credOps_scheme \<Rightarrow> ('b, 'c, 'k) credSession \<Rightarrow>
   ('x credOps_scheme \<times> ('b, 'c, 'k) credSession) option" where
  "spccSenderExit B p os s = do {
     (os1, s1) \<leftarrow> spccRemoveFromDrainedList p os s;
     s2 \<leftarrow> put_all_slots B [0..<SpccMaxWindow] s1;
     Some (os1, s2\<lparr>SendDone := True\<rparr>)
   }"

section \<open>The worker\<close>

definition spccWorkerCount :: "u64 \<Rightarrow> bool \<Rightarrow> u64 \<Rightarrow> spccOps \<Rightarrow> world \<Rightarrow> (spccOps \<times> world) option" where
  "spccWorkerCount microExpId dropped dsCredit os w = (
     let os1 = (if \<not> dropped then os\<lparr>gCreditDs := AtomicSetUint64 (gCreditDs os) dsCredit\<rparr>
                else os\<lparr>StatReqDropped := AtomicAddUint64 (StatReqDropped os) 1\<rparr>) in
     if MicroExpId os1 = microExpId then do {
       os2 \<leftarrow> (if \<not> dropped then do {
           outr \<leftarrow> arr_inc (OutResps os1) microExpId;
           good \<leftarrow> arr_inc (GoodOutResps os1) microExpId;
           Some (os1\<lparr>OutResps := outr, GoodOutResps := good\<rparr>)
         } else do {
           drp \<leftarrow> arr_inc (DropReqs os1) microExpId;
           Some (os1\<lparr>DropReqs := drp\<rparr>)
         });
       let now = MicroTime w;
       let w = step_world w;
       os3 \<leftarrow> note_event now (QueueDelayMax_of w div 1000) microExpId os2;
       Some (os3, step_world w)
     } else Some (os1, w))"

definition complete_slot :: "'b bitmap_ops \<Rightarrow> int \<Rightarrow> ('b, 'c, 'k) credSession \<Rightarrow> ('b, 'c, 'k) credSession" where
  "complete_slot B idx s =
     s\<lparr>CompletedSlots := bmSet B (unat (word_of_int idx :: u32)) (CompletedSlots s), Signalled := True\<rparr>"

definition spccWorker ::
  "'b bitmap_ops \<Rightarrow> spccCfg \<Rightarrow> nat \<Rightarrow> (srpcCtx \<Rightarrow> srpcCtx) \<Rightarrow> nat \<Rightarrow> nat \<Rightarrow> ('b, 'k) spccServer \<Rightarrow> world \<Rightarrow>
   (('b, 'k) spccServer \<times> world) option" where
  "spccWorker B cfg procs handler p i S w = do {
     s \<leftarrow> sess S p;
     slot \<leftarrow> slot_at s (int i);
     c \<leftarrow> slot;
     let microExpId = Opaque c;
     let cmn = handler ((Cmn c)\<lparr>Drop := False\<rparr>);
     let s1 = s\<lparr>Slots := (Slots s)[i := Some (c\<lparr>Cmn := cmn\<rparr>)]\<rparr>;
     (os, w1) \<leftarrow> spccWorkerCount microExpId (Drop cmn) (DsCredit cmn) (ops S) w;
     (S2, w2) \<leftarrow> spccUpdateCreditPool cfg procs (set_ops os (put_sess p s1 S)) w1;
     s2 \<leftarrow> sess S2 p;
     Some (put_sess p (complete_slot B (Idx cmn) s2) S2, w2)
   }"

section \<open>The receiver\<close>

text \<open>
  Reading and checking a header: \<open>Some None\<close> is the return of -1 on a failed read, a wrong magic
  number or an oversized request.
\<close>

definition spccRecvHdr :: "'k reader \<Rightarrow> 'k \<Rightarrow> (cpccHdr option \<times> 'k) option" where
  "spccRecvHdr rd k = do {
     (n, err, buf, k1) \<leftarrow> ReadFull rd (replicate hdr_size 0) k;
     let chdr = CpccHdr_of_bytes buf;
     Some (if err \<noteq> None then (None, k1)
           else if cMagic chdr \<noteq> PccReqMagic then (None, k1)
           else if unat (cLen chdr) > SrpcBufSize then (None, k1)
           else (Some chdr, k1))
   }"

text \<open>
  The outcomes of one pass through \<open>spccRecvOne\<close>: back to the label \<open>again\<close>, a return value,
  or the start of a worker on a slot followed by the return of 0.
\<close>

datatype recvOutcome = RecvAgain | RecvRet int | RecvSpawn nat

text \<open>\<open>Adjust the credits if demand changed\<close>: both operations end with this.\<close>

definition spccClipCredit ::
  "'x credOps_scheme \<Rightarrow> ('b, 'c, 'k) credSession \<Rightarrow> 'x credOps_scheme \<times> ('b, 'c, 'k) credSession" where
  "spccClipCredit os s = (
     let most = iadd (NumPending s) (u2i (Demand s)) in
     if Credit s > most then
       let creditDiff = isub (Credit s) most in
       (os\<lparr>gCreditUsed := AtomicSubUint64 (gCreditUsed os) (i2u creditDiff)\<rparr>, s\<lparr>Credit := most\<rparr>)
     else (os, s))"

definition spccCountDrop :: "u64 \<Rightarrow> spccOps \<Rightarrow> world \<Rightarrow> u64 option \<Rightarrow> (spccOps \<times> world) option" where
  "spccCountDrop microExpId os w delay = (
     let os1 = os\<lparr>StatReqDropped := AtomicAddUint64 (StatReqDropped os) 1\<rparr> in
     if MicroExpId os1 = microExpId then do {
       drp \<leftarrow> arr_inc (DropReqs os1) microExpId;
       let now = MicroTime w;
       let w = step_world w;
       let maxQueueDelay = (case delay of None \<Rightarrow> QueueDelayMax_of w div 1000 | Some d \<Rightarrow> d);
       os2 \<leftarrow> note_event now maxQueueDelay microExpId (os1\<lparr>DropReqs := drp\<rparr>);
       Some (os2, step_world w)
     } else Some (os1, w))"

definition spccRecvCall ::
  "'b bitmap_ops \<Rightarrow> 'k reader \<Rightarrow> spccCfg \<Rightarrow> nat \<Rightarrow> spccCtx \<Rightarrow> cpccHdr \<Rightarrow> nat \<Rightarrow> ('b, 'k) spccServer \<Rightarrow> world \<Rightarrow>
   (recvOutcome \<times> ('b, 'k) spccServer \<times> world) option" where
  "spccRecvCall B rd cfg procs pooled chdr p S w = do {
     s \<leftarrow> sess S p;
     let os = ops S;
     let microExpId = MicroExpId os;
     let os1 = os\<lparr>StatReqRx := AtomicAddUint64 (StatReqRx os) 1\<rparr>;
     os2 \<leftarrow> (if MicroExpId os1 = microExpId
             then do { inr \<leftarrow> arr_inc (InReqs os1) microExpId; Some (os1\<lparr>InReqs := inr\<rparr>) }
             else Some os1);
     (idx, s1) \<leftarrow> spccGetSlot B pooled s;
     if idx < 0 then do {
       (n, err, buf, k) \<leftarrow> ReadFull rd (replicate (unat (cLen chdr)) 0) (Conn s1);
       (os3, w1) \<leftarrow> spccCountDrop microExpId os2 w None;
       Some (RecvAgain, set_ops os3 (put_sess p (s1\<lparr>Conn := k\<rparr>) S), w1)
     } else do {
       slot \<leftarrow> slot_at s1 idx;
       ctx \<leftarrow> slot;
       (n, err, buf, k) \<leftarrow> ReadFull rd (take (unat (cLen chdr)) (ReqBuf (Cmn ctx))) (Conn s1);
       let s2 = s1\<lparr>Conn := k\<rparr>;
       if err \<noteq> None then do {
         s3 \<leftarrow> spccPutSlot B s2 idx;
         Some (RecvRet (- 1), set_ops os2 (put_sess p s3 S), w)
       } else do {
         let ctx1 = ctx\<lparr>Cmn := (Cmn ctx)\<lparr>ReqBuf := buf @ drop (unat (cLen chdr)) (ReqBuf (Cmn ctx)),
                        ReqLen := cLen chdr, RespLen := 0, CtxId := cId chdr\<rparr>,
                        TsSent := cTsSent chdr, Opaque := microExpId\<rparr>;
         let s3 = s2\<lparr>Slots := (Slots s2)[nat idx := Some ctx1], Demand := cDemand chdr\<rparr>;
         (os4, s4) \<leftarrow> spccRemoveFromDrainedList p os2 s3;
         let (os5, s5) = spccClipCredit os4 (s4\<lparr>NumPending := iadd (NumPending s4) 1\<rparr>);
         let os6 = os5\<lparr>gNumPending := AtomicAddUint64 (gNumPending os5) 1\<rparr>;
         let maxQueueDelay = QueueDelayMax_of w div 1000;
         let w1 = step_world w;
         let S6 = set_ops os6 (put_sess p s5 S);
         if maxQueueDelay \<ge> QdelayBudget cfg then do {
           (S7, w2) \<leftarrow> spccHandleReqDrop cfg procs maxQueueDelay S6 w1;
           s7 \<leftarrow> sess S7 p;
           let s8 = complete_slot B idx
                      (s7\<lparr>Slots := (Slots s7)[nat idx := Some (ctx1\<lparr>Cmn := (Cmn ctx1)\<lparr>Drop := True\<rparr>\<rparr>)]\<rparr>);
           (os8, w3) \<leftarrow> spccCountDrop microExpId (ops S7) w2 (Some maxQueueDelay);
           Some (RecvAgain, set_ops os8 (put_sess p s8 S7), w3)
         } else Some (RecvSpawn (nat idx), S6, w1)
       }
     }
   }"

definition spccRecvCredit ::
  "cpccHdr \<Rightarrow> nat \<Rightarrow> ('x, 'b, 'c, 'k) credServer \<Rightarrow> world \<Rightarrow>
   (recvOutcome \<times> ('x, 'b, 'c, 'k) credServer \<times> world) option" where
  "spccRecvCredit chdr p S w =
     (if cLen chdr \<noteq> 0 then Some (RecvRet (- 1), S, w)
      else do {
        s \<leftarrow> sess S p;
        let s1 = s\<lparr>Demand := cDemand chdr\<rparr>;
        (os2, s2, w2) \<leftarrow>
          (if NumPending s1 = 0 \<and> 0 < Demand s1 then Some (ops S, s1\<lparr>NeedECredit := True\<rparr>, w)
           else if NumPending s1 = 0 then do {
             (os, s) \<leftarrow> spccLinkDrained False (ProcId_of w) p (ops S) s1;
             Some (os, s\<lparr>Advertised := 0\<rparr>, step_world w)
           } else Some (ops S, s1, w));
        let (os3, s3) = spccClipCredit os2 s2;
        let os4 = os3\<lparr>StatCUpdateRx := AtomicAddUint64 (StatCUpdateRx os3) 1\<rparr>;
        Some (RecvRet 0, set_ops os4 (put_sess p (s3\<lparr>Signalled := True\<rparr>) S), w2)
      })"

definition spccRecvMsg ::
  "'b bitmap_ops \<Rightarrow> 'k reader \<Rightarrow> spccCfg \<Rightarrow> nat \<Rightarrow> spccCtx \<Rightarrow> cpccHdr \<Rightarrow> nat \<Rightarrow> ('b, 'k) spccServer \<Rightarrow> world \<Rightarrow>
   (recvOutcome \<times> ('b, 'k) spccServer \<times> world) option" where
  "spccRecvMsg B rd cfg procs pooled chdr p S w =
     (if cOp chdr = PccOpCall then spccRecvCall B rd cfg procs pooled chdr p S w
      else if cOp chdr = PccOpCredit then spccRecvCredit chdr p S w
      else Some (RecvRet (- 1), S, w))"

definition spccRecvPass ::
  "'b bitmap_ops \<Rightarrow> 'k reader \<Rightarrow> spccCfg \<Rightarrow> nat \<Rightarrow> spccCtx \<Rightarrow> nat \<Rightarrow> ('b, 'k) spccServer \<Rightarrow> world \<Rightarrow>
   (recvOutcome \<times> ('b, 'k) spccServer \<times> world) option" where
  "spccRecvPass B rd cfg procs pooled p S w = do {
     s \<leftarrow> sess S p;
     (h, k) \<leftarrow> spccRecvHdr rd (Conn s);
     let S1 = put_sess p (s\<lparr>Conn := k\<rparr>) S;
     (case h of None \<Rightarrow> Some (RecvRet (- 1), S1, w)
      | Some chdr \<Rightarrow> spccRecvMsg B rd cfg procs pooled chdr p S1 w)
   }"

text \<open>The loop through the label \<open>again\<close>.\<close>

partial_function (option) spccRecvOne ::
  "'b bitmap_ops \<Rightarrow> 'k reader \<Rightarrow> spccCfg \<Rightarrow> nat \<Rightarrow> spccCtx \<Rightarrow> nat \<Rightarrow> ('b, 'k) spccServer \<Rightarrow> world \<Rightarrow>
   (recvOutcome \<times> ('b, 'k) spccServer \<times> world) option" where
  "spccRecvOne B rd cfg procs pooled p S w =
     (case spccRecvPass B rd cfg procs pooled p S w of
        None \<Rightarrow> None
      | Some (r, S1, w1) \<Rightarrow>
          (if r = RecvAgain then spccRecvOne B rd cfg procs pooled p S1 w1 else Some (r, S1, w1)))"

section \<open>Opening and closing a session\<close>

definition spccNewSession :: "'b bitmap_ops \<Rightarrow> 'k \<Rightarrow> int \<Rightarrow> ('b, 'c, 'k) credSession" where
  "spccNewSession B k ident = (
     let idxs = [0..<SpccMaxWindow];
         av = fold (bmSet B) idxs (bmGrow B SpccMaxWindow (bmZero B));
         co = fold (bmRemove B) idxs (bmGrow B SpccMaxWindow (bmZero B))
     in \<lparr>Conn = k, SessId = ident, NumPending = 0, Closed = False, AvailSlots = av, CompletedSlots = co,
         Slots = replicate SpccMaxWindow None, Signalled = False, SendDone = False, DrainedProc = - 1,
         IsLinked = False, DrainedTs = 0, WakeUp = False, Credit = 0, Advertised = 0, Demand = 0,
         NeedECredit = False, LastECreditTs = 0\<rparr>)"

definition spccServer_open ::
  "'b bitmap_ops \<Rightarrow> nat \<Rightarrow> 'k \<Rightarrow> ('x, 'b, 'c, 'k) credServer \<Rightarrow> ('x, 'b, 'c, 'k) credServer" where
  "spccServer_open B p k S = (
     let os = ops S;
         n = AtomicAddUint64 (gNumSess os) 1;
         h = ListNode_Init (Link p) p (Drained os)
     in set_ops (os\<lparr>gNumSess := n, Drained := h\<rparr>) (put_sess p (spccNewSession B k (u2i n)) S))"

text \<open>After the receive loop: return the credits, tell the sender, leave the count.\<close>

definition spccServer_close :: "nat \<Rightarrow> ('x, 'b, 'c, 'k) credServer \<Rightarrow> ('x, 'b, 'c, 'k) credServer option" where
  "spccServer_close p S = do {
     s \<leftarrow> sess S p;
     (os1, s1) \<leftarrow> (if IsLinked s then spccRemoveFromDrainedList p (ops S) s else Some (ops S, s));
     let os2 = os1\<lparr>gCreditUsed := AtomicSubUint64 (gCreditUsed os1) (i2u (Credit s1)),
                   gNumPending := AtomicSubUint64 (gNumPending os1) (i2u (NumPending s1))\<rparr>;
     let s2 = s1\<lparr>NumPending := 0, Demand := 0, Closed := True, Signalled := True\<rparr>;
     let os3 = os2\<lparr>gNumSess := AtomicSubUint64 (gNumSess os2) 1\<rparr>;
     Some (set_ops os3 (put_sess p s2 S))
   }"

text \<open>After the sender is done: the last client to leave resets the credits.\<close>

definition spccServer_finish :: "nat \<Rightarrow> nat \<Rightarrow> ('x, 'b, 'c, 'k) credServer \<Rightarrow> ('x, 'b, 'c, 'k) credServer" where
  "spccServer_finish procs p S = (
     let os = ops S;
         os1 = (if AtomicGetUint64 (gNumSess os) = 0
                then os\<lparr>gCreditUsed := AtomicSetUint64 (gCreditUsed os) 0,
                        gCreditPool := AtomicSetUint64 (gCreditPool os) (of_nat procs),
                        gCreditDs := AtomicSetUint64 (gCreditDs os) 0\<rparr>
                else os)
     in S\<lparr>ops := os1, sess := (sess S)(p := None)\<rparr>)"

section \<open>Start-up\<close>

definition init_heads :: "(dnode, nat) heap \<Rightarrow> (dnode, nat) heap" where
  "init_heads h = fold (\<lambda>i h. ListHead_Init (HeadL i) (ListHead_Init (HeadH i) h)) [0..<SpccMaxProcs] h"

definition spccListener_init :: "nat \<Rightarrow> spccOps \<Rightarrow> world \<Rightarrow> spccOps \<times> world" where
  "spccListener_init procs os w = (
     let os1 = os\<lparr>Drained := init_heads (Drained os), gNumSess := 0, gNumDrained := 0,
                  gCreditPool := of_nat procs, gCreditUsed := 0, gCreditDs := 0, gNumActive := 0,
                  gNumPending := 0, gCreditCarry := FFin 0,
                  StatCUpdateRx := 0, StatECreditTx := 0, StatCreditTx := 0, StatReqRx := 0,
                  StatReqDropped := 0, StatRespTx := 0,
                  CtlState := PrepareMicroExp, NextUpdate := MicroTime w\<rparr>;
         w1 = step_world w;
         os2 = os1\<lparr>LastWakeup := MicroTime w1, MicroExpId := 0, NumMicroExps := 0\<rparr>;
         w2 = step_world w1;
         os3 = spccGenMicroExpDirs (coin_of w2) os2
     in (os3\<lparr>OrigCp := AtomicGetUint64 (gCreditPool os3)\<rparr>, step_world w2))"

text \<open>\<open>SrpcEnable\<close>: a second call is refused; the handler is an option, nil before the first call.\<close>

definition SrpcEnable ::
  "nat \<Rightarrow> 'h \<Rightarrow> 'h option \<Rightarrow> spccOps \<Rightarrow> world \<Rightarrow> int \<times> 'h option \<times> spccOps \<times> world" where
  "SrpcEnable procs handler current os w =
     (case current of
        Some h \<Rightarrow> (- 1, current, os, w)
      | None \<Rightarrow> (case spccListener_init procs os w of (os', w') \<Rightarrow> (0, Some handler, os', w')))"

definition SrpcStatCUpdateRx :: "'x credOps_scheme \<Rightarrow> u64" where
  "SrpcStatCUpdateRx os = AtomicGetUint64 (StatCUpdateRx os)"

definition SrpcStatECreditTx :: "'x credOps_scheme \<Rightarrow> u64" where
  "SrpcStatECreditTx os = AtomicGetUint64 (StatECreditTx os)"

definition SrpcStatCreditTx :: "'x credOps_scheme \<Rightarrow> u64" where
  "SrpcStatCreditTx os = AtomicGetUint64 (StatCreditTx os)"

definition SrpcStatReqRx :: "'x credOps_scheme \<Rightarrow> u64" where
  "SrpcStatReqRx os = AtomicGetUint64 (StatReqRx os)"

definition SrpcStatReqDropped :: "'x credOps_scheme \<Rightarrow> u64" where
  "SrpcStatReqDropped os = AtomicGetUint64 (StatReqDropped os)"

definition SrpcStatRespTx :: "'x credOps_scheme \<Rightarrow> u64" where
  "SrpcStatRespTx os = AtomicGetUint64 (StatRespTx os)"

end
