(* ===== verification/Pcc_System.thy ===== *)
theory Pcc_System
  imports Pcc_Server
begin

text \<open>
  The running server of \<open>src/ovldctlrpc/pcc/pcc_server.go\<close> as a transition system: any number of
  clients, and for each of them a receiver, a sender and the workers of its requests, interleaved at
  the points where the code releases a session's lock.  A step of the receiver is one pass through
  \<open>spccRecvOne\<close>; the sender has a step for each of its critical sections and for the part in between,
  so that requests arrive, workers finish and the client disconnects while responses are being sent.
  Readings of the clock, of the queueing delay, of the processor and of the controller's
  \<open>TryLock\<close> are arbitrary in every step, and the receive loop may end at any time.

  The invariant \<open>conf_ok\<close>: every occupied slot of a session belongs to exactly one running worker,
  one completion or one transmission in progress; the counters of pending requests, of sessions and of
  drained sessions are exact; the drained lists are well-formed; the controller is in one of its legal
  phases; no wake-up of a sender is lost.  \<open>books_ok\<close> adds the exact accounting of credits, for
  executions in which no client leaves while its sender is between two critical sections.
\<close>

section \<open>Configurations and steps\<close>

datatype 'b senderPc = SCheck | SWait | SSend "'b senderVars" | SLink "'b senderVars" | SDrain | SDone

record ('b, 'k) spccEnv =
  eB :: "'b bitmap_ops"
  eRd :: "'k reader"
  eWr :: "'k writer"
  ePad :: "byte list"
  eCfg :: spccCfg
  eProcs :: nat
  eHandler :: "srpcCtx \<Rightarrow> srpcCtx"

record ('b, 'k) spccConf =
  sys :: "('b, 'k) spccServer"
  spc :: "nat \<Rightarrow> 'b senderPc"
  running :: "nat \<Rightarrow> nat set"

text \<open>
  What the server relies on from a client: a demand is a queue length, and a message that only updates
  the credit is sent because there is demand.
\<close>

definition client_msg_ok :: "cpccHdr \<Rightarrow> bool" where
  "client_msg_ok h \<longleftrightarrow> uint (cDemand h) < 2 ^ 60 \<and> (cOp h = PccOpCredit \<longrightarrow> cDemand h \<noteq> 0)"

definition between_sections :: "'b senderPc \<Rightarrow> bool" where
  "between_sections pc = (case pc of SSend v \<Rightarrow> True | SLink v \<Rightarrow> True | _ \<Rightarrow> False)"

definition max_sessions :: nat where "max_sessions = 2 ^ 50"

definition set_conf ::
  "nat \<Rightarrow> ('b, 'k) spccServer \<Rightarrow> 'b senderPc \<Rightarrow> nat set \<Rightarrow> ('b, 'k) spccConf \<Rightarrow> ('b, 'k) spccConf" where
  "set_conf p S pc run c = c\<lparr>sys := S, spc := (spc c)(p := pc), running := (running c)(p := run)\<rparr>"

definition spawned :: "recvOutcome \<Rightarrow> nat set" where
  "spawned r = (case r of RecvSpawn i \<Rightarrow> {i} | _ \<Rightarrow> {})"

inductive spcc_step :: "('b, 'k) spccEnv \<Rightarrow> bool \<Rightarrow> ('b, 'k) spccConf \<Rightarrow> ('b, 'k) spccConf \<Rightarrow> bool"
  for E :: "('b, 'k) spccEnv" and quiet :: bool where
  Accept: "\<lbrakk>sess (sys c) p = None; card (dom (sess (sys c))) < max_sessions\<rbrakk>
    \<Longrightarrow> spcc_step E quiet c (set_conf p (spccServer_open (eB E) p k (sys c)) SCheck {} c)"
| Receive: "\<lbrakk>sess (sys c) p = Some s; \<not> Closed s; spccRecvHdr (eRd E) (Conn s) = Some (Some chdr, k);
     client_msg_ok chdr; pooled_ok pooled; procs_ok (eProcs E) w;
     spccRecvMsg (eB E) (eRd E) (eCfg E) (eProcs E) pooled chdr p (put_sess p (s\<lparr>Conn := k\<rparr>) (sys c)) w
       = Some (r, S', w')\<rbrakk>
    \<Longrightarrow> spcc_step E quiet c (set_conf p S' (spc c p) (running c p \<union> spawned r) c)"
| Work: "\<lbrakk>sess (sys c) p = Some s; i \<in> running c p; procs_ok (eProcs E) w;
     spccWorker (eB E) (eCfg E) (eProcs E) (eHandler E) p i (sys c) w = Some (S', w')\<rbrakk>
    \<Longrightarrow> spcc_step E quiet c (set_conf p S' (spc c p) (running c p - {i}) c)"
| Wait: "\<lbrakk>sess (sys c) p = Some s; spc c p = SCheck; spccSenderWaits (eB E) s\<rbrakk>
    \<Longrightarrow> spcc_step E quiet c (set_conf p (put_sess p (s\<lparr>Signalled := False\<rparr>) (sys c)) SWait (running c p) c)"
| Wake: "\<lbrakk>sess (sys c) p = Some s; spc c p = SWait; Signalled s\<rbrakk>
    \<Longrightarrow> spcc_step E quiet c (set_conf p (sys c) SCheck (running c p) c)"
| Leave: "\<lbrakk>sess (sys c) p = Some s; spc c p = SCheck; Closed s\<rbrakk>
    \<Longrightarrow> spcc_step E quiet c (set_conf p (sys c) SDrain (running c p) c)"
| Collect: "\<lbrakk>sess (sys c) p = Some s; spc c p = SCheck; \<not> spccSenderWaits (eB E) s; \<not> Closed s;
     spccSenderCollect (eB E) (eProcs E) p now (ops (sys c)) s = Some (os', s', v)\<rbrakk>
    \<Longrightarrow> spcc_step E quiet c (set_conf p (set_ops os' (put_sess p s' (sys c))) (SSend v) (running c p) c)"
| Send: "\<lbrakk>sess (sys c) p = Some s; spc c p = SSend v;
     spccSenderSend (eB E) (eWr E) (ePad E) v (ops (sys c)) s = Some (r, os', s');
     pc' = (case r of Inl ret \<Rightarrow> if ret \<noteq> 0 then SDrain else SCheck | Inr u \<Rightarrow> SLink v)\<rbrakk>
    \<Longrightarrow> spcc_step E quiet c (set_conf p (set_ops os' (put_sess p s' (sys c))) pc' (running c p) c)"
| LinkStep: "\<lbrakk>sess (sys c) p = Some s; spc c p = SLink v; procId < eProcs E;
     spccSenderLink (eB E) procId p v (ops (sys c)) s = Some (os', s')\<rbrakk>
    \<Longrightarrow> spcc_step E quiet c (set_conf p (set_ops os' (put_sess p s' (sys c))) SCheck (running c p) c)"
| Exit: "\<lbrakk>sess (sys c) p = Some s; spc c p = SDrain; \<not> spccSenderDrainWaits (eB E) s;
     spccSenderExit (eB E) p (ops (sys c)) s = Some (os', s')\<rbrakk>
    \<Longrightarrow> spcc_step E quiet c (set_conf p (set_ops os' (put_sess p s' (sys c))) SDone (running c p) c)"
| CloseStep: "\<lbrakk>sess (sys c) p = Some s; \<not> Closed s; quiet \<longrightarrow> \<not> between_sections (spc c p);
     spccServer_close p (sys c) = Some S'\<rbrakk>
    \<Longrightarrow> spcc_step E quiet c (set_conf p S' (spc c p) (running c p) c)"
| Finish: "\<lbrakk>sess (sys c) p = Some s; spc c p = SDone; Closed s\<rbrakk>
    \<Longrightarrow> spcc_step E quiet c (set_conf p (spccServer_finish (eProcs E) p (sys c)) SCheck {} c)"

text \<open>The start: \<open>SrpcEnable\<close> has run, nobody is connected.\<close>

definition zero_ops :: spccOps where
  "zero_ops = \<lparr>gNumSess = 0, gNumDrained = 0, gNumActive = 0, gCreditPool = 0, gCreditUsed = 0, gCreditDs = 0,
     gNumPending = 0, gCreditCarry = FFin 0, StatCUpdateRx = 0, StatECreditTx = 0, StatCreditTx = 0,
     StatReqRx = 0, StatReqDropped = 0, StatRespTx = 0,
     Drained = \<lparr>Next = (\<lambda>_. None), Prev = (\<lambda>_. None), Value = (\<lambda>_. None)\<rparr>,
     LastWakeup = 0, NextUpdate = 0, CtlState = PrepareMicroExp, InReqs = replicate 3 0,
     OutResps = replicate 3 0, GoodOutResps = replicate 3 0, DropReqs = replicate 3 0, StartTs = replicate 3 0,
     EndTs = replicate 3 0, QDelay = replicate 3 0, MemAccesses = replicate 3 0,
     EnergyConsumed = replicate 3 (FFin 0), MicroExpId = 0, NumMicroExps = 0, MicroExpDirs = replicate 3 0,
     OrigCp = 0\<rparr>"

definition spcc_start :: "nat \<Rightarrow> world \<Rightarrow> ('b, 'k) spccConf" where
  "spcc_start procs w =
     \<lparr>sys = \<lparr>ops = fst (spccListener_init procs zero_ops w), sess = (\<lambda>_. None)\<rparr>,
      spc = (\<lambda>_. SCheck), running = (\<lambda>_. {})\<rparr>"

inductive spcc_reachable :: "('b, 'k) spccEnv \<Rightarrow> bool \<Rightarrow> ('b, 'k) spccConf \<Rightarrow> bool"
  for E :: "('b, 'k) spccEnv" and quiet :: bool where
  start: "spcc_reachable E quiet (spcc_start (eProcs E) w)"
| step: "\<lbrakk>spcc_reachable E quiet c; spcc_step E quiet c c'\<rbrakk> \<Longrightarrow> spcc_reachable E quiet c'"

section \<open>The invariant\<close>

definition sending :: "('b \<Rightarrow> nat set) \<Rightarrow> 'b senderPc \<Rightarrow> nat set" where
  "sending bits pc = (case pc of SSend v \<Rightarrow> bits (vTmp v) | _ \<Rightarrow> {})"

definition link_ready :: "'b senderVars \<Rightarrow> ('b, 'c, 'k) credSession \<Rightarrow> bool" where
  "link_ready v s \<longleftrightarrow> (vCredit v = 0 \<and> vDrainedProc v = - 1 \<longrightarrow> Credit s = 0 \<and> \<not> IsLinked s)"

definition pc_ok :: "'b bitmap_ops \<Rightarrow> ('b \<Rightarrow> nat set) \<Rightarrow> 'b senderPc \<Rightarrow> ('b, 'c, 'k) credSession \<Rightarrow> bool" where
  "pc_ok B bits pc s = (case pc of
     SCheck \<Rightarrow> True
   | SWait \<Rightarrow> Signalled s \<or> spccSenderWaits B s
   | SSend v \<Rightarrow> (vSendECredit v \<longrightarrow> bits (vTmp v) = {}) \<and> link_ready v s
   | SLink v \<Rightarrow> link_ready v s
   | SDrain \<Rightarrow> True
   | SDone \<Rightarrow> Closed s \<and> occupied s = {} \<and> \<not> IsLinked s \<and> SendDone s)"

definition sess_ok ::
  "'b bitmap_ops \<Rightarrow> ('b \<Rightarrow> nat set) \<Rightarrow> 'b senderPc \<Rightarrow> nat set \<Rightarrow> ('b, 'z credCtx_scheme, 'k) credSession \<Rightarrow> bool" where
  "sess_ok B bits pc run s \<longleftrightarrow>
     (if pc = SDone then run = {}
      else slots_ok bits s \<and>
        run \<inter> bits (CompletedSlots s) = {} \<and> (run \<union> bits (CompletedSlots s)) \<inter> sending bits pc = {} \<and>
        occupied s = run \<union> bits (CompletedSlots s) \<union> sending bits pc) \<and>
     NumPending s = (if Closed s then 0 else int (card (run \<union> bits (CompletedSlots s)))) \<and>
     uint (Demand s) < 2 ^ 60 \<and> DrainedTs s = 0 \<and> pc_ok B bits pc s"

definition pend :: "('b \<Rightarrow> nat set) \<Rightarrow> 'b senderPc \<Rightarrow> ('b, 'c, 'k) credSession \<Rightarrow> int" where
  "pend bits pc s = NumPending s + int (card (sending bits pc))"

definition pend_sum :: "('b \<Rightarrow> nat set) \<Rightarrow> ('b, 'k) spccConf \<Rightarrow> int" where
  "pend_sum bits c = (\<Sum>p\<in>dom (sess (sys c)). pend bits (spc c p) (the (sess (sys c) p)))"

definition open_sessions :: "('o, 'b, 'c, 'k) credSys \<Rightarrow> nat set" where
  "open_sessions S = {p. \<exists>s. sess S p = Some s \<and> \<not> Closed s}"

definition conf_ok :: "'b bitmap_ops \<Rightarrow> ('b \<Rightarrow> nat set) \<Rightarrow> nat \<Rightarrow> ('b, 'k) spccConf \<Rightarrow> bool" where
  "conf_ok B bits procs c \<longleftrightarrow>
     (\<exists>L. drained_ok L (sys c)) \<and> procs_below procs (sys c) \<and> ctl_ok (ops (sys c)) \<and>
     (\<forall>p s. sess (sys c) p = Some s \<longrightarrow> sess_ok B bits (spc c p) (running c p) s) \<and>
     gNumSess (ops (sys c)) = of_nat (card (open_sessions (sys c))) \<and>
     card (dom (sess (sys c))) \<le> max_sessions \<and>
     gNumPending (ops (sys c)) = i2u (pend_sum bits c)"

section \<open>Updating one session\<close>

lemma goint_small [simp]: "- (2 ^ 62) \<le> x \<Longrightarrow> x \<le> 2 ^ 62 \<Longrightarrow> goint x = x"
  by (rule goint_id) (simp add: in_int64_def)

lemma open_upd:
  "open_sessions (set_ops os (put_sess p s S)) =
     (if Closed s then open_sessions S - {p} else insert p (open_sessions S))"
  by (auto simp: open_sessions_def)

lemma open_finite: "finite (dom (sess S)) \<Longrightarrow> finite (open_sessions S)"
  by (rule finite_subset [of _ "dom (sess S)"]) (auto simp: open_sessions_def)

lemma conf_okD:
  assumes "conf_ok B bits procs c"
  shows "\<exists>L. drained_ok L (sys c)" "procs_below procs (sys c)" "ctl_ok (ops (sys c))"
    "\<And>p s. sess (sys c) p = Some s \<Longrightarrow> sess_ok B bits (spc c p) (running c p) s"
    "gNumSess (ops (sys c)) = of_nat (card (open_sessions (sys c)))"
    "card (dom (sess (sys c))) \<le> max_sessions"
    "gNumPending (ops (sys c)) = i2u (pend_sum bits c)"
    "finite (dom (sess (sys c)))"
  using assms drained_okD(2) unfolding conf_ok_def by blast+

lemma pend_sum_upd:
  assumes "finite (dom (sess (sys c)))" "sess (sys c) p = Some s"
  shows "pend_sum bits (set_conf p (set_ops os (put_sess p s' (sys c))) pc run c) =
     pend_sum bits c - pend bits (spc c p) s + pend bits pc s'"
proof -
  let ?f = "\<lambda>q. pend bits (spc c q) (the (sess (sys c) q))"
  have "pend_sum bits (set_conf p (set_ops os (put_sess p s' (sys c))) pc run c) =
      (\<Sum>q\<in>dom (sess (sys c)). (?f(p := pend bits pc s')) q)"
    unfolding pend_sum_def set_conf_def using assms(2) by (intro sum.cong) (auto simp: insert_absorb)
  also have "\<dots> = pend_sum bits c - pend bits (spc c p) s + pend bits pc s'"
    using assms unfolding pend_sum_def by (subst sum_fun_upd_int) auto
  finally show ?thesis .
qed

lemma conf_ok_upd:
  assumes ok: "conf_ok B bits procs c" and p: "sess (sys c) p = Some s"
    and dr: "\<exists>L. drained_ok L (set_ops os (put_sess p s' (sys c)))"
    and pb: "IsLinked s' \<Longrightarrow> DrainedProc s' < int procs" and ctl: "ctl_ok os"
    and s': "sess_ok B bits pc run s'"
    and cl: "if Closed s' \<and> \<not> Closed s then gNumSess os = gNumSess (ops (sys c)) - 1
             else Closed s' = Closed s \<and> gNumSess os = gNumSess (ops (sys c))"
    and np: "gNumPending os = gNumPending (ops (sys c)) + i2u (pend bits pc s' - pend bits (spc c p) s)"
  shows "conf_ok B bits procs (set_conf p (set_ops os (put_sess p s' (sys c))) pc run c)"
proof -
  note d = conf_okD [OF ok]
  let ?S = "set_ops os (put_sess p s' (sys c))" and ?c = "set_conf p (set_ops os (put_sess p s' (sys c))) pc run c"
  have sys: "sys ?c = ?S" by (simp add: set_conf_def)
  have dom: "dom (sess ?S) = dom (sess (sys c))" using p by auto
  have fo: "finite (open_sessions (sys c))" using d(8) by (rule open_finite)
  have num: "gNumSess os = of_nat (card (open_sessions ?S))"
  proof (cases "Closed s' \<and> \<not> Closed s")
    case True
    have po: "p \<in> open_sessions (sys c)" using p True by (simp add: open_sessions_def)
    then have "card (open_sessions (sys c)) = Suc (card (open_sessions (sys c) - {p}))"
      using fo by (metis card_Suc_Diff1)
    then show ?thesis using True cl d(5) by (simp add: open_upd)
  next
    case False
    then have "open_sessions ?S = open_sessions (sys c)" using cl p by (auto simp: open_upd open_sessions_def)
    then show ?thesis using False cl d(5) by simp
  qed
  have pend: "gNumPending os = i2u (pend_sum bits ?c)"
    unfolding pend_sum_upd [OF d(8) p] np d(7) by (simp add: i2u_def)
  have "\<forall>q t. sess ?S q = Some t \<longrightarrow> sess_ok B bits (spc ?c q) (running ?c q) t"
    using d(4) s' by (simp add: set_conf_def)
  moreover have "procs_below procs ?S" using d(2) pb by (simp add: procs_below_def)
  ultimately show ?thesis unfolding conf_ok_def sys using dr ctl num pend dom d(6) by simp
qed

text \<open>A call of the controller wakes drained sessions; nothing else of a session changes.\<close>

lemma sess_ok_woken:
  assumes "sess_ok B bits pc run s" "IsLinked s"
  shows "sess_ok B bits pc run (woken s)"
proof -
  have "slots_ok bits (woken s) = slots_ok bits s" "occupied (woken s) = occupied s"
    by (rule slots_ok_cong occupied_cong; simp add: woken_def)+
  then show ?thesis using assms
    by (cases pc) (auto simp: sess_ok_def pc_ok_def woken_def link_ready_def)
qed

lemma pend_woken [simp]: "pend bits pc (woken s) = pend bits pc s" "Closed (woken s) = Closed s"
  by (simp_all add: pend_def woken_def)

lemma conf_ok_pool:
  assumes ok: "conf_ok B bits procs c" and st: "pool_step W (sys c) S'" and dr: "drained_ok L' S'"
  shows "conf_ok B bits procs (c\<lparr>sys := S'\<rparr>)"
proof -
  note d = conf_okD [OF ok] and f = pool_step_facts [OF st]
  obtain L where L: "drained_ok L (sys c)" using d(1) by blast
  have dom: "dom (sess S') = dom (sess (sys c))" using f(1) by (auto simp: dom_def split: if_splits)
  have lk: "IsLinked s" if "p \<in> W" "sess (sys c) p = Some s" for p s
    using f(2) that by (auto simp: linked_sessions_def)
  have "\<forall>p s. sess S' p = Some s \<longrightarrow> sess_ok B bits (spc c p) (running c p) s"
    using d(4) lk unfolding f(1) by (auto split: if_splits intro!: sess_ok_woken)
  moreover have "open_sessions S' = open_sessions (sys c)"
    unfolding open_sessions_def f(1) by auto
  moreover have "pend_sum bits (c\<lparr>sys := S'\<rparr>) = pend_sum bits c"
    unfolding pend_sum_def using dom
    by (intro sum.cong) (auto simp: f(1))
  ultimately show ?thesis
    using dr pool_step_books(1) [OF L st d(2)] f(3,5,6) d(5-7) dom unfolding conf_ok_def by auto
qed

lemma ctl_ok_books [simp]:
  "ctl_ok (os\<lparr>Drained := h\<rparr>) = ctl_ok os" "ctl_ok (os\<lparr>gNumDrained := n\<rparr>) = ctl_ok os"
  "ctl_ok (os\<lparr>gCreditUsed := n\<rparr>) = ctl_ok os" "ctl_ok (os\<lparr>gNumPending := n\<rparr>) = ctl_ok os"
  "ctl_ok (os\<lparr>gNumSess := n\<rparr>) = ctl_ok os" "ctl_ok (os\<lparr>gCreditPool := n\<rparr>) = ctl_ok os"
  "ctl_ok (os\<lparr>gCreditDs := n\<rparr>) = ctl_ok os" "ctl_ok (os\<lparr>StatCreditTx := n\<rparr>) = ctl_ok os"
  "ctl_ok (os\<lparr>StatRespTx := n\<rparr>) = ctl_ok os" "ctl_ok (os\<lparr>StatECreditTx := n\<rparr>) = ctl_ok os"
  "ctl_ok (os\<lparr>StatReqRx := n\<rparr>) = ctl_ok os" "ctl_ok (os\<lparr>StatReqDropped := n\<rparr>) = ctl_ok os"
  "ctl_ok (os\<lparr>StatCUpdateRx := n\<rparr>) = ctl_ok os"
  by (cases "CtlState os"; simp add: ctl_ok_def arrays_ok_def dirs_ok_def phase_ok_def)+

lemma conf_ok_neutral:
  assumes ok: "conf_ok B bits procs c" and p: "sess (sys c) p = Some s"
    and same: "IsLinked s' = IsLinked s" "DrainedProc s' = DrainedProc s" "IsLinked s \<Longrightarrow> Credit s' = Credit s"
    and cl: "Closed s' = Closed s"
    and os: "Drained os = Drained (ops (sys c))" "gNumDrained os = gNumDrained (ops (sys c))"
      "gNumSess os = gNumSess (ops (sys c))" "ctl_ok os"
    and s': "sess_ok B bits pc run s'"
    and np: "gNumPending os = gNumPending (ops (sys c)) + i2u (pend bits pc s' - pend bits (spc c p) s)"
  shows "conf_ok B bits procs (set_conf p (set_ops os (put_sess p s' (sys c))) pc run c)"
proof -
  note d = conf_okD [OF ok]
  obtain L where L: "drained_ok L (sys c)" using d(1) by blast
  have "drained_ok L (set_ops os (put_sess p s' (sys c)))"
    using drained_okD(4) [OF L p] same os by (intro drained_neutral [OF L p]) simp_all
  moreover have "IsLinked s' \<Longrightarrow> DrainedProc s' < int procs"
    using d(2) p same by (simp add: procs_below_def)
  ultimately show ?thesis using cl os(3) by (intro conf_ok_upd [OF ok p _ _ os(4) s' _ np]) auto
qed

lemma UpdateCredit_total:
  assumes "u2i (gNumSess os) \<noteq> 0"
  shows "\<exists>cr. spccUpdateCredit procs os s dropped =
       Some (os\<lparr>gCreditUsed := gCreditUsed os + i2u (cr - Credit s)\<rparr>, s\<lparr>Credit := cr\<rparr>) \<and>
     (DrainedProc s \<noteq> - 1 \<longrightarrow> cr = Credit s) \<and>
     (counters_ok os \<and> credit_ok s \<longrightarrow> 0 \<le> cr \<and> cr \<le> 63)"
proof (cases "DrainedProc s = - 1")
  case False
  then show ?thesis
    by (intro exI [of _ "Credit s"]) (auto simp: spccUpdateCredit_def Let_def credit_ok_def)
next
  case True
  have i2: "i2u (isub a b) = i2u (a - b)" for a b by (simp add: isub_def)
  obtain cr where cr: "spccUpdateCredit procs os s dropped =
       Some (os\<lparr>gCreditUsed := gCreditUsed os + i2u (cr - Credit s)\<rparr>, s\<lparr>Credit := cr\<rparr>)"
    using True assms unfolding spccUpdateCredit_def Let_def idiv_def AtomicGet_val AtomicAdd_plus i2
    by (simp only: if_False if_True simp_thms option.case)
  have "cr = next_credit procs os s dropped" if "counters_ok os" "credit_ok s"
  proof -
    have "s\<lparr>Credit := cr\<rparr> = s\<lparr>Credit := next_credit procs os s dropped\<rparr>"
      using cr spccUpdateCredit_eq [OF that True, of procs dropped] by simp
    then have "Credit (s\<lparr>Credit := cr\<rparr>) = Credit (s\<lparr>Credit := next_credit procs os s dropped\<rparr>)" by simp
    then show ?thesis by simp
  qed
  then show ?thesis using cr True next_credit_bounds(1,2) [of os s procs dropped]
    by (intro exI [of _ cr]) auto
qed

lemma any_dropped_total:
  assumes "set is \<subseteq> occupied s"
  shows "\<exists>b. any_dropped s is acc = Some b"
  using assms
proof (induction "is" arbitrary: acc)
  case (Cons i rest)
  then obtain c where "slot_at s (int i) = Some (Some c)" by (auto simp: slot_at_def occupied_def)
  then show ?case using Cons by simp
qed simp

section \<open>The sender's steps\<close>

definition cmn_ok :: "nat \<Rightarrow> srpcCtx \<Rightarrow> bool" where
  "cmn_ok i c \<longleftrightarrow> Idx c = int i \<and> length (ReqBuf c) = SrpcBufSize \<and> length (RespBuf c) = SrpcBufSize \<and>
     unat (ReqLen c) \<le> SrpcBufSize \<and> unat (RespLen c) \<le> SrpcBufSize"

definition handler_ok :: "(srpcCtx \<Rightarrow> srpcCtx) \<Rightarrow> bool" where
  "handler_ok h \<longleftrightarrow> (\<forall>i c. cmn_ok i c \<longrightarrow> cmn_ok i (h c))"

lemma ctx_ok_cmn: "ctx_ok i c = cmn_ok i (Cmn c)"
  by (simp add: ctx_ok_def cmn_ok_def)

lemma put_all_total:
  assumes "length (Slots s) = 64" "distinct is" "set is \<subseteq> {..<64}"
  shows "\<exists>sl av. put_all_slots B is s = Some (s\<lparr>Slots := sl, AvailSlots := av\<rparr>) \<and> length sl = 64 \<and>
     (\<forall>i<64. sl ! i = (if i \<in> set is then None else Slots s ! i))"
  using assms
proof (induction "is" arbitrary: s)
  case Nil
  then show ?case by (intro exI [of _ "Slots s"] exI [of _ "AvailSlots s"]) simp
next
  case (Cons i rest)
  have i: "i < 64" "i \<notin> set rest" "set rest \<subseteq> {..<64}" "distinct rest" using Cons.prems by auto
  have sl: "slot_at s (int i) = Some (Slots s ! i)" using i Cons.prems(1) by (simp add: slot_at_def)
  let ?s = "if Slots s ! i \<noteq> None
    then s\<lparr>Slots := (Slots s)[i := None], AvailSlots := bmSet B i (AvailSlots s)\<rparr> else s"
  have st: "(if Slots s ! i \<noteq> None then spccPutSlot B s (int i) else Some s) = Some ?s"
    using sl by (auto simp: spccPutSlot_def)
  have "length (Slots ?s) = 64" using Cons.prems(1) by simp
  from Cons.IH [OF this i(4,3)] obtain sl' av where
    r: "put_all_slots B rest ?s = Some (?s\<lparr>Slots := sl', AvailSlots := av\<rparr>)" "length sl' = 64"
      "\<forall>j<64. sl' ! j = (if j \<in> set rest then None else Slots ?s ! j)" by blast
  have "\<forall>j<64. sl' ! j = (if j \<in> set (i # rest) then None else Slots s ! j)"
    using r(3) i Cons.prems(1) by (auto simp: nth_list_update)
  moreover have "put_all_slots B (i # rest) s = Some (s\<lparr>Slots := sl', AvailSlots := av\<rparr>)"
    using sl st r(1) by (simp split: if_splits)
  ultimately show ?case using r(2) by blast
qed

text \<open>The session after the first critical section of the sender.\<close>

definition collected :: "('b \<Rightarrow> nat set) \<Rightarrow> ('b, 'c, 'k) credSession \<Rightarrow> 'b \<Rightarrow> bool \<Rightarrow> int \<Rightarrow> int \<Rightarrow> int \<Rightarrow> u64 \<Rightarrow>
    ('b, 'c, 'k) credSession" where
  "collected bits s co il dp cr adv ts = s\<lparr>CompletedSlots := co,
     NumPending := NumPending s - int (card (bits (CompletedSlots s))), IsLinked := il, DrainedProc := dp,
     Credit := cr, Advertised := adv, NeedECredit := False, WakeUp := False, LastECreditTs := ts\<rparr>"

locale pcc_server = credit_server "eB E" bits "eWr E" sent + byte_stream "eRd E" pending
  for E :: "('b, 'k) spccEnv" and bits :: "'b \<Rightarrow> nat set" and sent :: "'k \<Rightarrow> byte list"
    and pending :: "'k \<Rightarrow> byte list" +
  assumes handler: "handler_ok (eHandler E)" and procs_pos: "0 < eProcs E" and procs_max: "eProcs E \<le> SpccMaxProcs"
begin

abbreviation "B \<equiv> eB E"
abbreviation ok :: "('b, 'k) spccConf \<Rightarrow> bool" where "ok \<equiv> conf_ok (eB E) bits (eProcs E)"

lemma Wait_ok:
  assumes ok: "ok c" and p: "sess (sys c) p = Some s" and pc: "spc c p = SCheck" and w: "spccSenderWaits B s"
  shows "ok (set_conf p (put_sess p (s\<lparr>Signalled := False\<rparr>) (sys c)) SWait (running c p) c)"
proof -
  note d = conf_okD [OF ok] and s = conf_okD(4) [OF ok p]
  let ?s = "s\<lparr>Signalled := False\<rparr>"
  have "slots_ok bits ?s = slots_ok bits s" "occupied ?s = occupied s"
    by (rule slots_ok_cong occupied_cong; simp)+
  then have s': "sess_ok B bits SWait (running c p) ?s"
    using s w pc by (auto simp: sess_ok_def pc_ok_def spccSenderWaits_def sending_def)
  have "ok (set_conf p (set_ops (ops (sys c)) (put_sess p ?s (sys c))) SWait (running c p) c)"
    by (rule conf_ok_neutral [OF ok p]) (use s' d(3) pc in \<open>simp_all add: pend_def sending_def\<close>)
  then show ?thesis by (simp add: set_ops_def put_sess_def)
qed

lemma pc_change_ok:
  assumes ok: "ok c" and p: "sess (sys c) p = Some s" and s: "sess_ok B bits pc (running c p) s"
    and se: "sending bits pc = sending bits (spc c p)"
  shows "ok (set_conf p (sys c) pc (running c p) c)"
proof -
  have "ok (set_conf p (set_ops (ops (sys c)) (put_sess p s (sys c))) pc (running c p) c)"
    by (rule conf_ok_neutral [OF ok p]) (use s conf_okD(3) [OF ok] se in \<open>simp_all add: pend_def\<close>)
  moreover have "put_sess p s (sys c) = sys c" using p by (simp add: put_sess_def fun_upd_idem)
  ultimately show ?thesis by (simp add: set_ops_def)
qed

lemma Wake_ok:
  assumes ok: "ok c" and p: "sess (sys c) p = Some s" and pc: "spc c p = SWait \<or> spc c p = SCheck"
    and pc': "pc' = SCheck \<or> pc' = SDrain"
  shows "ok (set_conf p (sys c) pc' (running c p) c)"
  by (rule pc_change_ok [OF ok p])
    (use conf_okD(4) [OF ok p] pc pc' in \<open>auto simp: sess_ok_def pc_ok_def sending_def\<close>)

lemma num_sess_pos:
  assumes ok: "ok c" and p: "sess (sys c) p = Some s" "\<not> Closed s"
  shows "0 < uint (gNumSess (ops (sys c)))" "uint (gNumSess (ops (sys c))) \<le> 2 ^ 50"
proof -
  note d = conf_okD [OF ok]
  have f: "finite (open_sessions (sys c))" using d(8) by (rule open_finite)
  have "p \<in> open_sessions (sys c)" using p by (simp add: open_sessions_def)
  then have pos: "0 < card (open_sessions (sys c))" using f by (auto simp: card_gt_0_iff)
  have "card (open_sessions (sys c)) \<le> card (dom (sess (sys c)))"
    using d(8) by (intro card_mono) (auto simp: open_sessions_def)
  then have le: "card (open_sessions (sys c)) \<le> 2 ^ 50" using d(6) by (simp add: max_sessions_def)
  then have "uint (gNumSess (ops (sys c))) = int (card (open_sessions (sys c)))"
    unfolding d(5) by (simp add: uint_nat unat_of_nat_64)
  then show "0 < uint (gNumSess (ops (sys c)))" "uint (gNumSess (ops (sys c))) \<le> 2 ^ 50"
    using pos le by simp_all
qed

lemma wakeup_leaves_list:
  assumes L: "drained_ok L (set_ops os (put_sess p s S))"
  shows "\<exists>h nd il dp L'.
     (if WakeUp s then spccRemoveFromDrainedList p os s else Some (os, s)) =
       Some (os\<lparr>Drained := h, gNumDrained := nd\<rparr>, s\<lparr>IsLinked := il, DrainedProc := dp\<rparr>) \<and>
     drained_ok L' (set_ops (os\<lparr>Drained := h, gNumDrained := nd\<rparr>)
        (put_sess p (s\<lparr>IsLinked := il, DrainedProc := dp\<rparr>) S)) \<and>
     (il \<longrightarrow> IsLinked s \<and> dp = DrainedProc s)"
proof (cases "WakeUp s")
  case True
  have "sess (set_ops os (put_sess p s S)) p = Some s" by simp
  from RemoveFromDrained_ok [OF L this] True show ?thesis
    by (simp add: put_sess_def set_ops_def) blast
next
  case False
  have "s\<lparr>IsLinked := IsLinked s, DrainedProc := DrainedProc s\<rparr> = s" by simp
  then show ?thesis using L False
    by (intro exI [of _ "Drained os"] exI [of _ "gNumDrained os"] exI [of _ "IsLinked s"]
        exI [of _ "DrainedProc s"] exI [of _ L]) simp
qed

lemma pending_bounds:
  assumes "ok c" "sess (sys c) p = Some s" "\<not> Closed s"
  shows "spc c p \<noteq> SDone" "int (card (bits (CompletedSlots s))) \<le> NumPending s" "NumPending s \<le> 64"
proof -
  note so = conf_okD(4) [OF assms(1,2)]
  show live: "spc c p \<noteq> SDone" using so assms(3) by (auto simp: sess_ok_def pc_ok_def)
  have num: "NumPending s = int (card (running c p \<union> bits (CompletedSlots s)))" "card (occupied s) \<le> 64"
    using so assms(3) live occupied_card [of bits s] by (auto simp: sess_ok_def)
  have sub: "running c p \<union> bits (CompletedSlots s) \<subseteq> occupied s" using so live by (auto simp: sess_ok_def)
  have "finite (running c p \<union> bits (CompletedSlots s))" using sub by (rule finite_subset) simp
  from card_mono [OF this, of "bits (CompletedSlots s)"] num(1)
  show "int (card (bits (CompletedSlots s))) \<le> NumPending s" by simp
  show "NumPending s \<le> 64" using num card_mono [OF _ sub] by simp
qed

lemma Collect_spec:
  fixes c :: "('b, 'k) spccConf"
  assumes ok: "ok c" and p: "sess (sys c) p = Some s" and op: "\<not> Closed s"
  defines "S \<equiv> sys c"
  shows "\<exists>h nd st cr co il dp adv ts v L.
    spccSenderCollect B (eProcs E) p now (ops S) s =
      Some ((ops S)\<lparr>Drained := h, gNumDrained := nd, gCreditUsed := gCreditUsed (ops S) + i2u (cr - Credit s),
              StatCreditTx := st\<rparr>, collected bits s co il dp cr adv ts, v) \<and>
    bits co = {} \<and> bits (vTmp v) = bits (CompletedSlots s) \<and> vCredit v = cr \<and> vDrainedProc v = dp \<and>
    (vSendECredit v \<longrightarrow> bits (vTmp v) = {}) \<and> (il \<longrightarrow> IsLinked s \<and> dp = DrainedProc s) \<and> (\<not> il \<longleftrightarrow> dp = - 1) \<and>
    drained_ok L (set_ops ((ops S)\<lparr>Drained := h, gNumDrained := nd,
        gCreditUsed := gCreditUsed (ops S) + i2u (cr - Credit s), StatCreditTx := st\<rparr>)
      (put_sess p (collected bits s co il dp cr adv ts) S)) \<and>
    (counters_ok (ops S) \<and> 0 \<le> Credit s \<and> Credit s \<le> 63 \<longrightarrow> 0 \<le> cr \<and> cr \<le> 63)"
proof -
  note d = conf_okD [OF ok] and so = conf_okD(4) [OF ok p]
  note live = pending_bounds(1) [OF ok p op] and nn = pending_bounds(2) [OF ok p op] and n64 = pending_bounds(3) [OF ok p op]
  obtain L where L: "drained_ok L S" using d(1) unfolding S_def by blast
  have p': "sess S p = Some s" using p by (simp add: S_def)
  define tmp where "tmp = bmClone B (CompletedSlots s)"
  define s1 where "s1 = s\<lparr>CompletedSlots := bmXor B (CompletedSlots s) tmp\<rparr>"
  have tb: "bits tmp = bits (CompletedSlots s)" by (simp add: tmp_def bits_clone)
  have xb: "bits (bmXor B (CompletedSlots s) tmp) = {}" unfolding tmp_def by (rule xor_clone)
  have "set (bmRange B tmp) \<subseteq> occupied s1"
    using so live tb by (auto simp: bits_range sess_ok_def slots_ok_def s1_def occupied_def)
  then obtain dropped where ad: "any_dropped s1 (bmRange B tmp) False = Some dropped"
    using any_dropped_total by blast
  let ?S1 = "set_ops (ops S) (put_sess p s1 S)"
  have L1: "drained_ok L ?S1"
    by (rule drained_neutral [OF L p']) (use drained_okD(4) [OF L p'] in \<open>simp_all add: s1_def\<close>)
  have s1: "IsLinked s1 = IsLinked s" "DrainedProc s1 = DrainedProc s" by (simp_all add: s1_def)
  from wakeup_leaves_list [OF L1] obtain h nd il dp L2 where
    rm: "(if WakeUp s1 then spccRemoveFromDrainedList p (ops S) s1 else Some (ops S, s1)) =
       Some ((ops S)\<lparr>Drained := h, gNumDrained := nd\<rparr>, s1\<lparr>IsLinked := il, DrainedProc := dp\<rparr>)"
      "drained_ok L2 (set_ops ((ops S)\<lparr>Drained := h, gNumDrained := nd\<rparr>)
         (put_sess p (s1\<lparr>IsLinked := il, DrainedProc := dp\<rparr>) S))"
      "il \<longrightarrow> IsLinked s \<and> dp = DrainedProc s" unfolding s1 by blast
  let ?os2 = "(ops S)\<lparr>Drained := h, gNumDrained := nd\<rparr>" and ?s2 = "s1\<lparr>IsLinked := il, DrainedProc := dp\<rparr>"
  let ?S2 = "set_ops ?os2 (put_sess p ?s2 S)"
  have p2: "sess ?S2 p = Some ?s2" by simp
  have dp: "\<not> il \<longleftrightarrow> dp = - 1"
    using drained_okD(5) [OF rm(2) p2] drained_okD(6) [OF rm(2) p2] by auto
  have cr0: "il \<Longrightarrow> Credit s = 0" using drained_okD(4) [OF rm(2) p2] by (simp add: s1_def)
  let ?n = "card (bits (CompletedSlots s))"
  have ns: "isub (NumPending s) (int ?n) = NumPending s - int ?n"
    unfolding isub_def using n64 nn by simp
  let ?s3 = "?s2\<lparr>NumPending := NumPending s - int ?n\<rparr>"
  have "u2i (gNumSess ?os2) \<noteq> 0"
    using num_sess_pos [OF ok p op] by (simp add: u2i_60 S_def)
  from UpdateCredit_total [OF this, of "int (eProcs E)" ?s3 dropped] obtain cr where
    uc: "spccUpdateCredit (int (eProcs E)) ?os2 ?s3 dropped =
        Some (?os2\<lparr>gCreditUsed := gCreditUsed (ops S) + i2u (cr - Credit s)\<rparr>, ?s3\<lparr>Credit := cr\<rparr>)"
      "dp \<noteq> - 1 \<longrightarrow> cr = Credit s" "counters_ok ?os2 \<and> credit_ok ?s3 \<longrightarrow> 0 \<le> cr \<and> cr \<le> 63"
    by (auto simp: s1_def)
  have cok: "0 \<le> cr \<and> cr \<le> 63" if "counters_ok (ops S)" "0 \<le> Credit s" "Credit s \<le> 63"
    using uc(3) that nn n64 so by (simp add: counters_ok_def credit_ok_def s1_def sess_ok_def)
  define e where "e = ((NeedECredit s \<or> WakeUp s) \<and> int ?n = 0 \<and> Advertised s < cr)"
  define v where "v = \<lparr>vTmp = tmp, vDrainedProc = dp, vCredit = cr, vSendECredit = e\<rparr>"
  define adv where "adv = (if int ?n > 0 \<or> e then cr else Advertised s)"
  define ts where "ts = (if e then now else LastECreditTs s)"
  define st where "st = AtomicAddUint64 (StatCreditTx (ops S)) (i2u (Max_go 0 (iadd (isub cr (Credit s)) (int ?n))))"
  let ?co = "bmXor B (CompletedSlots s) tmp"
  let ?s' = "collected bits s ?co il dp cr adv ts"
  let ?os' = "(ops S)\<lparr>Drained := h, gNumDrained := nd, gCreditUsed := gCreditUsed (ops S) + i2u (cr - Credit s),
              StatCreditTx := st\<rparr>"
  have bc: "bmCount B tmp = ?n" by (simp add: bits_count tb)
  have f3: "isub (NumPending ?s2) (int ?n) = NumPending s - int ?n" "Credit ?s3 = Credit s"
    using ns by (simp_all add: s1_def)
  let ?os4 = "?os2\<lparr>gCreditUsed := gCreditUsed (ops S) + i2u (cr - Credit s)\<rparr>" and ?s4 = "?s3\<lparr>Credit := cr\<rparr>"
  have f4: "Credit ?s4 = cr" "NeedECredit ?s4 = NeedECredit s" "WakeUp ?s4 = WakeUp s" "Advertised ?s4 = Advertised s"
    "DrainedProc ?s2 = dp" "StatCreditTx ?os4 = StatCreditTx (ops S)" by (simp_all add: s1_def)
  have col: "spccSenderCollect B (eProcs E) p now (ops S) s = Some (?os', ?s', v)"
    unfolding spccSenderCollect_def Let_def tmp_def [symmetric] s1_def [symmetric] ad rm(1) bc
      Option.bind.simps prod.case f3 uc(1) f4 st_def [symmetric] e_def [symmetric]
      v_def adv_def ts_def collected_def option.inject prod.inject
    by (cases e; cases "int ?n > 0"; simp only: simp_thms if_True if_False; simp add: s1_def)
  have "drained_ok L2 (set_ops ?os' (put_sess p ?s' ?S2))"
    by (rule drained_neutral [OF rm(2) p2]) (use uc(2) cr0 dp in \<open>auto simp: collected_def\<close>)
  then have "drained_ok L2 (set_ops ?os' (put_sess p ?s' S))" by (simp add: put_sess_def set_ops_def)
  moreover have "vCredit v = cr" "vDrainedProc v = dp" "bits (vTmp v) = bits (CompletedSlots s)"
    "vSendECredit v \<longrightarrow> bits (vTmp v) = {}"
    by (auto simp: v_def e_def tb)
  ultimately show ?thesis using col xb rm(3) dp cok by blast
qed

lemma Collect_ok:
  assumes ok: "ok c" and p: "sess (sys c) p = Some s" and pc: "spc c p = SCheck" and op: "\<not> Closed s"
    and r: "spccSenderCollect B (eProcs E) p now (ops (sys c)) s = Some (os', s', v)"
  shows "ok (set_conf p (set_ops os' (put_sess p s' (sys c))) (SSend v) (running c p) c)"
proof -
  note d = conf_okD [OF ok] and so = conf_okD(4) [OF ok p]
  from Collect_spec [OF ok p op, of now] r obtain h nd st cr co il dp adv ts L where
    os': "os' = (ops (sys c))\<lparr>Drained := h, gNumDrained := nd,
        gCreditUsed := gCreditUsed (ops (sys c)) + i2u (cr - Credit s), StatCreditTx := st\<rparr>"
    and s': "s' = collected bits s co il dp cr adv ts"
    and f: "bits co = {}" "bits (vTmp v) = bits (CompletedSlots s)" "vCredit v = cr" "vDrainedProc v = dp"
      "vSendECredit v \<longrightarrow> bits (vTmp v) = {}" "il \<longrightarrow> IsLinked s \<and> dp = DrainedProc s" "\<not> il \<longleftrightarrow> dp = - 1"
    and L: "drained_ok L (set_ops os' (put_sess p s' (sys c)))"
    by (simp only: option.inject prod.inject) blast
  have sub: "running c p \<subseteq> occupied s" "finite (bits (CompletedSlots s))" using so pc by (auto simp: sess_ok_def)
  have fr: "finite (running c p)" using sub(1) by (rule finite_subset) simp
  have card: "card (running c p \<union> bits (CompletedSlots s)) = card (running c p) + card (bits (CompletedSlots s))"
    using so pc fr sub(2) by (intro card_Un_disjoint) (auto simp: sess_ok_def)
  have occ: "occupied s' = occupied s" by (rule occupied_cong) (simp add: s' collected_def)
  have sl: "slots_ok bits s'" using so pc f(1) occ by (auto simp: sess_ok_def slots_ok_def s' collected_def)
  have so': "sess_ok B bits (SSend v) (running c p) s'"
    using so sl occ f pc card op
    by (auto simp: sess_ok_def pc_ok_def link_ready_def sending_def s' collected_def)
  have pe: "pend bits (SSend v) s' = pend bits (spc c p) s"
    using f(2) pc by (simp add: pend_def sending_def s' collected_def)
  show ?thesis
  proof (rule conf_ok_upd [OF ok p _ _ _ so'])
    show "IsLinked s' \<Longrightarrow> DrainedProc s' < int (eProcs E)"
      using f(6) d(2) p by (simp add: s' collected_def procs_below_def)
  qed (use L d(3) pe in \<open>auto simp: os' s' collected_def\<close>)
qed

lemma Send_total:
  assumes ok: "ok c" and p: "sess (sys c) p = Some s" and pc: "spc c p = SSend v"
  shows "\<exists>r k n m sl av. spccSenderSend B (eWr E) (ePad E) v (ops (sys c)) s =
      Some (r, (ops (sys c))\<lparr>gNumPending := gNumPending (ops (sys c)) - of_nat (card (bits (vTmp v))),
              StatRespTx := StatRespTx (ops (sys c)) + of_nat n, StatECreditTx := StatECreditTx (ops (sys c)) + of_nat m\<rparr>,
            s\<lparr>Conn := k, Slots := sl, AvailSlots := av\<rparr>) \<and>
      slots_ok bits (s\<lparr>Conn := k, Slots := sl, AvailSlots := av\<rparr>) \<and>
      occupied (s\<lparr>Conn := k, Slots := sl, AvailSlots := av\<rparr>) = occupied s - bits (vTmp v) \<and>
      (\<forall>ret. r = Inl ret \<longrightarrow> bits (vTmp v) = {})"
proof (cases "vSendECredit v")
  case True
  have e: "bits (vTmp v) = {}" using conf_okD(4) [OF ok p] pc True by (simp add: sess_ok_def pc_ok_def)
  obtain n err k where w: "WriteFull (eWr E) (SpccHdr_bytes (ePad E) (ecredit_hdr s)) (Conn s) = Some (n, err, k)"
    using WriteFull_sink by blast
  let ?s = "s\<lparr>Conn := k\<rparr>"
  have "slots_ok bits ?s = slots_ok bits s" "occupied ?s = occupied s" by (rule slots_ok_cong occupied_cong; simp)+
  moreover have "?s = s\<lparr>Conn := k, Slots := Slots s, AvailSlots := AvailSlots s\<rparr>" by simp
  ultimately show ?thesis using conf_okD(4) [OF ok p] pc True w e
    by (intro exI [of _ "Inl (if err \<noteq> None then - 1 else 0)"] exI [of _ k] exI [of _ 0]
        exI [of _ "if err \<noteq> None then 0 else 1 :: nat"] exI [of _ "Slots s"] exI [of _ "AvailSlots s"])
      (simp add: spccSenderSend_def spccSendECredit_def sess_ok_def)
next
  case False
  have so: "sess_ok B bits (SSend v) (running c p) s" using conf_okD(4) [OF ok p] pc by simp
  have "set (bmRange B (vTmp v)) \<subseteq> occupied s" "set (bmRange B (vTmp v)) \<inter> bits (CompletedSlots s) = {}"
    "slots_ok bits s"
    using so by (auto simp: sess_ok_def sending_def bits_range)
  from SendAll_ok [OF this(3) bits_range(1) this(1,2), of "ePad E" "ops (sys c)"]
  obtain n k av sl where
    a: "spccSendAll B (eWr E) (ePad E) (bmRange B (vTmp v)) (ops (sys c), s) = Some
      ((ops (sys c))\<lparr>gNumPending := gNumPending (ops (sys c)) - of_nat (length (bmRange B (vTmp v))),
         StatRespTx := StatRespTx (ops (sys c)) + of_nat n\<rparr>, s\<lparr>Conn := k, Slots := sl, AvailSlots := av\<rparr>)"
      "slots_ok bits (s\<lparr>Conn := k, Slots := sl, AvailSlots := av\<rparr>)"
      "occupied (s\<lparr>Conn := k, Slots := sl, AvailSlots := av\<rparr>) = occupied s - set (bmRange B (vTmp v))"
    by blast
  have "(ops (sys c))\<lparr>gNumPending := gNumPending (ops (sys c)) - of_nat (card (bits (vTmp v))),
         StatRespTx := StatRespTx (ops (sys c)) + of_nat n\<rparr> =
      (ops (sys c))\<lparr>gNumPending := gNumPending (ops (sys c)) - of_nat (card (bits (vTmp v))),
         StatRespTx := StatRespTx (ops (sys c)) + of_nat n, StatECreditTx := StatECreditTx (ops (sys c)) + of_nat 0\<rparr>"
    by simp
  then show ?thesis using a False
    by (intro exI [of _ "Inr ()"] exI [of _ k] exI [of _ n] exI [of _ 0] exI [of _ sl] exI [of _ av])
      (simp add: spccSenderSend_def spccSendCompletionVector_def length_range bits_range)
qed

lemma Send_ok:
  assumes ok: "ok c" and p: "sess (sys c) p = Some s" and pc: "spc c p = SSend v"
    and r: "spccSenderSend B (eWr E) (ePad E) v (ops (sys c)) s = Some (r, os', s')"
    and pc': "pc' = (case r of Inl ret \<Rightarrow> if ret \<noteq> 0 then SDrain else SCheck | Inr u \<Rightarrow> SLink v)"
  shows "ok (set_conf p (set_ops os' (put_sess p s' (sys c))) pc' (running c p) c)"
proof -
  note d = conf_okD [OF ok] and so = conf_okD(4) [OF ok p]
  from Send_total [OF ok p pc] r obtain k n m sl av where
    os': "os' = (ops (sys c))\<lparr>gNumPending := gNumPending (ops (sys c)) - of_nat (card (bits (vTmp v))),
              StatRespTx := StatRespTx (ops (sys c)) + of_nat n, StatECreditTx := StatECreditTx (ops (sys c)) + of_nat m\<rparr>"
    and s': "s' = s\<lparr>Conn := k, Slots := sl, AvailSlots := av\<rparr>" and sl: "slots_ok bits s'"
    and occ: "occupied s' = occupied s - bits (vTmp v)"
    by (simp only: option.inject prod.inject) blast
  have se: "sending bits pc' = {}" using pc' by (auto simp: sending_def split: sum.splits)
  have "sess_ok B bits pc' (running c p) s'"
    using so sl occ pc pc' by (auto simp: sess_ok_def pc_ok_def s' sending_def link_ready_def split: sum.splits)
  moreover have "gNumPending os' = gNumPending (ops (sys c)) + i2u (pend bits pc' s' - pend bits (spc c p) s)"
    using pc se by (simp add: os' s' pend_def sending_def i2u_def)
  ultimately show ?thesis using d(3)
    by (intro conf_ok_neutral [OF ok p]) (simp_all add: os' s')
qed

lemma Link_ok:
  assumes ok: "ok c" and p: "sess (sys c) p = Some s" and pc: "spc c p = SLink v" and q: "q < eProcs E"
  shows "\<exists>os' s'. spccSenderLink B q p v (ops (sys c)) s = Some (os', s') \<and>
     ok (set_conf p (set_ops os' (put_sess p s' (sys c))) SCheck (running c p) c)"
proof -
  note d = conf_okD [OF ok] and so = conf_okD(4) [OF ok p]
  have so1: "sess_ok B bits SCheck (running c p) s" using so pc by (simp add: sess_ok_def pc_ok_def sending_def)
  show ?thesis
  proof (cases "vCredit v = 0 \<and> vDrainedProc v = - 1 \<and> bmCount B (AvailSlots s) = SpccMaxWindow")
    case False
    have "put_sess p s (sys c) = sys c" using p by (simp add: put_sess_def fun_upd_idem)
    moreover have "ok (set_conf p (sys c) SCheck (running c p) c)"
      by (rule pc_change_ok [OF ok p so1]) (simp add: pc sending_def)
    ultimately show ?thesis using False by (auto simp: spccSenderLink_def)
  next
    case True
    have lk: "Credit s = 0" "\<not> IsLinked s" using so pc True by (auto simp: sess_ok_def pc_ok_def link_ready_def)
    obtain L where L: "drained_ok L (sys c)" using d(1) by blast
    have q': "q < SpccMaxProcs" using q procs_max by simp
    from LinkDrained_ok [OF L p lk(2,1) q', of "0 < Demand s"] obtain L' h where
      l: "spccLinkDrained (0 < Demand s) q p (ops (sys c)) s =
          Some ((ops (sys c))\<lparr>Drained := h, gNumDrained := gNumDrained (ops (sys c)) + 1\<rparr>,
            s\<lparr>IsLinked := True, DrainedProc := int q\<rparr>)"
        "drained_ok L' (set_ops ((ops (sys c))\<lparr>Drained := h, gNumDrained := gNumDrained (ops (sys c)) + 1\<rparr>)
          (put_sess p (s\<lparr>IsLinked := True, DrainedProc := int q\<rparr>) (sys c)))" by blast
    let ?s = "s\<lparr>IsLinked := True, DrainedProc := int q\<rparr>"
    have "slots_ok bits ?s = slots_ok bits s" "occupied ?s = occupied s" by (rule slots_ok_cong occupied_cong; simp)+
    then have "sess_ok B bits SCheck (running c p) ?s" using so1 by (simp add: sess_ok_def pc_ok_def)
    then have "ok (set_conf p (set_ops ((ops (sys c))\<lparr>Drained := h, gNumDrained := gNumDrained (ops (sys c)) + 1\<rparr>)
          (put_sess p ?s (sys c))) SCheck (running c p) c)"
      using l(2) d(3) q pc by (intro conf_ok_upd [OF ok p]) (auto simp: pend_def sending_def)
    then show ?thesis using True l(1) by (auto simp: spccSenderLink_def)
  qed
qed

lemma Exit_ok:
  assumes ok: "ok c" and p: "sess (sys c) p = Some s" and pc: "spc c p = SDrain"
    and w: "\<not> spccSenderDrainWaits B s"
  shows "\<exists>os' s'. spccSenderExit B p (ops (sys c)) s = Some (os', s') \<and>
     ok (set_conf p (set_ops os' (put_sess p s' (sys c))) SDone (running c p) c)"
proof -
  note d = conf_okD [OF ok] and so = conf_okD(4) [OF ok p]
  have sl: "slots_ok bits s" and dj: "running c p \<inter> bits (CompletedSlots s) = {}"
    and occ: "occupied s = running c p \<union> bits (CompletedSlots s)"
    using so pc by (auto simp: sess_ok_def sending_def)
  have cl: "Closed s" and cnt: "64 \<le> card (bits (AvailSlots s)) + card (bits (CompletedSlots s))"
    using w by (auto simp: spccSenderDrainWaits_def bits_count)
  have len: "length (Slots s) = 64" and av: "bits (AvailSlots s) = {i. i < 64} - occupied s"
    using sl by (auto simp: slots_ok_def)
  have sub: "occupied s \<subseteq> {i. i < 64}" using len by (auto simp: occupied_def)
  have fr: "finite (running c p)" using occ by (metis finite_Un occupied_finite)
  have "card (bits (AvailSlots s)) = 64 - card (occupied s)" unfolding av using sub by (subst card_Diff_subset) auto
  moreover have "card (occupied s) = card (running c p) + card (bits (CompletedSlots s))"
    unfolding occ by (rule card_Un_disjoint [OF fr finite_bits dj])
  moreover have "card (occupied s) \<le> 64" by (rule occupied_card [OF sl])
  ultimately have "card (running c p) = 0" using cnt by simp
  then have run: "running c p = {}" using fr by simp
  obtain L where L: "drained_ok L (sys c)" using d(1) by blast
  from RemoveFromDrained_ok [OF L p] obtain L' h where
    rm: "spccRemoveFromDrainedList p (ops (sys c)) s =
      Some ((ops (sys c))\<lparr>Drained := h, gNumDrained := gNumDrained (ops (sys c)) - (if IsLinked s then 1 else 0)\<rparr>,
            s\<lparr>IsLinked := False, DrainedProc := - 1\<rparr>)"
      "drained_ok L' (set_ops ((ops (sys c))\<lparr>Drained := h,
          gNumDrained := gNumDrained (ops (sys c)) - (if IsLinked s then 1 else 0)\<rparr>)
        (put_sess p (s\<lparr>IsLinked := False, DrainedProc := - 1\<rparr>) (sys c)))" by blast
  let ?os = "(ops (sys c))\<lparr>Drained := h, gNumDrained := gNumDrained (ops (sys c)) - (if IsLinked s then 1 else 0)\<rparr>"
  let ?s1 = "s\<lparr>IsLinked := False, DrainedProc := - 1\<rparr>"
  have "length (Slots ?s1) = 64" "distinct [0..<64]" "set [0..<64] \<subseteq> {..<64::nat}" using len by auto
  from put_all_total [OF this, of B] obtain sl' av' where
    pa: "put_all_slots B [0..<64] ?s1 = Some (?s1\<lparr>Slots := sl', AvailSlots := av'\<rparr>)" "length sl' = 64"
      "\<forall>i<64. sl' ! i = (if i \<in> set [0..<64] then None else Slots ?s1 ! i)" by blast
  let ?s' = "?s1\<lparr>Slots := sl', AvailSlots := av', SendDone := True\<rparr>"
  have e: "spccSenderExit B p (ops (sys c)) s = Some (?os, ?s')"
    using rm(1) pa(1) by (simp add: spccSenderExit_def)
  have "occupied ?s' = {}" using pa(2,3) by (auto simp: occupied_def)
  then have so': "sess_ok B bits SDone (running c p) ?s'"
    using so run cl by (simp add: sess_ok_def pc_ok_def)
  have p1: "sess (set_ops ?os (put_sess p ?s1 (sys c))) p = Some ?s1" by simp
  have "drained_ok L' (set_ops ?os (put_sess p ?s' (set_ops ?os (put_sess p ?s1 (sys c)))))"
    by (rule drained_neutral [OF rm(2) p1]) simp_all
  then have L2: "drained_ok L' (set_ops ?os (put_sess p ?s' (sys c)))" by (simp add: put_sess_def set_ops_def)
  have "ok (set_conf p (set_ops ?os (put_sess p ?s' (sys c))) SDone (running c p) c)"
    by (rule conf_ok_upd [OF ok p _ _ _ so'])
      (use L2 d(3) pc cl in \<open>auto simp: pend_def sending_def\<close>)
  then show ?thesis using e by blast
qed

lemma Close_ok:
  assumes ok: "ok c" and p: "sess (sys c) p = Some s" and op: "\<not> Closed s"
  shows "\<exists>os' s'. spccServer_close p (sys c) = Some (set_ops os' (put_sess p s' (sys c))) \<and>
     ok (set_conf p (set_ops os' (put_sess p s' (sys c))) (spc c p) (running c p) c) \<and>
     gCreditUsed os' = gCreditUsed (ops (sys c)) - i2u (Credit s) \<and> Closed s' \<and> \<not> IsLinked s' \<and>
     gCreditPool os' = gCreditPool (ops (sys c)) \<and> Credit s' = Credit s"
proof -
  note d = conf_okD [OF ok] and so = conf_okD(4) [OF ok p]
  obtain L where L: "drained_ok L (sys c)" using d(1) by blast
  let ?n = "if IsLinked s then 1 else 0 :: u64"
  from RemoveFromDrained_ok [OF L p] obtain L' h where
    rm: "spccRemoveFromDrainedList p (ops (sys c)) s =
      Some ((ops (sys c))\<lparr>Drained := h, gNumDrained := gNumDrained (ops (sys c)) - ?n\<rparr>,
            s\<lparr>IsLinked := False, DrainedProc := - 1\<rparr>)"
      "drained_ok L' (set_ops ((ops (sys c))\<lparr>Drained := h, gNumDrained := gNumDrained (ops (sys c)) - ?n\<rparr>)
        (put_sess p (s\<lparr>IsLinked := False, DrainedProc := - 1\<rparr>) (sys c)))" by blast
  let ?s1 = "s\<lparr>IsLinked := False, DrainedProc := - 1\<rparr>"
  have sid: "?s1 = s" if "\<not> IsLinked s" using that drained_okD(6) [OF L p] by simp
  have "\<exists>h' n'. (if IsLinked s then spccRemoveFromDrainedList p (ops (sys c)) s else Some (ops (sys c), s)) =
        Some ((ops (sys c))\<lparr>Drained := h', gNumDrained := n'\<rparr>, ?s1) \<and>
      (\<exists>L'. drained_ok L' (set_ops ((ops (sys c))\<lparr>Drained := h', gNumDrained := n'\<rparr>) (put_sess p ?s1 (sys c))))"
  proof (cases "IsLinked s")
    case False
    have "put_sess p s (sys c) = sys c" using p by (simp add: put_sess_def fun_upd_idem)
    then show ?thesis using False sid L
      by (intro exI [of _ "Drained (ops (sys c))"] exI [of _ "gNumDrained (ops (sys c))"]) auto
  qed (use rm in auto)
  then obtain h' n' L2 where
    r: "(if IsLinked s then spccRemoveFromDrainedList p (ops (sys c)) s else Some (ops (sys c), s)) =
        Some ((ops (sys c))\<lparr>Drained := h', gNumDrained := n'\<rparr>, ?s1)"
      "drained_ok L2 (set_ops ((ops (sys c))\<lparr>Drained := h', gNumDrained := n'\<rparr>) (put_sess p ?s1 (sys c)))" by blast
  let ?os1 = "(ops (sys c))\<lparr>Drained := h', gNumDrained := n'\<rparr>"
  let ?os = "?os1\<lparr>gCreditUsed := gCreditUsed (ops (sys c)) - i2u (Credit s),
      gNumPending := gNumPending (ops (sys c)) - i2u (NumPending s), gNumSess := gNumSess (ops (sys c)) - 1\<rparr>"
  let ?s' = "?s1\<lparr>NumPending := 0, Demand := 0, Closed := True, Signalled := True\<rparr>"
  have e: "spccServer_close p (sys c) = Some (set_ops ?os (put_sess p ?s' (sys c)))"
    using p r(1) by (simp add: spccServer_close_def)
  have p1: "sess (set_ops ?os1 (put_sess p ?s1 (sys c))) p = Some ?s1" by simp
  have "drained_ok L2 (set_ops ?os (put_sess p ?s' (set_ops ?os1 (put_sess p ?s1 (sys c)))))"
    by (rule drained_neutral [OF r(2) p1]) simp_all
  then have L3: "drained_ok L2 (set_ops ?os (put_sess p ?s' (sys c)))" by (simp add: put_sess_def set_ops_def)
  have live: "spc c p \<noteq> SDone" using so op by (auto simp: sess_ok_def pc_ok_def)
  have "slots_ok bits ?s' = slots_ok bits s" "occupied ?s' = occupied s" by (rule slots_ok_cong occupied_cong; simp)+
  then have so': "sess_ok B bits (spc c p) (running c p) ?s'"
    using so live by (cases "spc c p") (auto simp: sess_ok_def pc_ok_def link_ready_def)
  have "ok (set_conf p (set_ops ?os (put_sess p ?s' (sys c))) (spc c p) (running c p) c)"
    by (rule conf_ok_upd [OF ok p _ _ _ so']) (use L3 d(3) op in \<open>auto simp: pend_def i2u_def\<close>)
  then show ?thesis using e by (intro exI [of _ ?os] exI [of _ ?s']) simp
qed

end

section \<open>Opening, finishing, starting\<close>

lemma init_heads_lists: "dlists dheads (init_heads h) (\<lambda>_. [])"
proof -
  let ?H = "\<lambda>n. HeadH ` {..<n} \<union> HeadL ` {..<n}"
  let ?f = "\<lambda>i h. ListHead_Init (HeadL i) (ListHead_Init (HeadH i) h)"
  have "dlists (?H n) (fold ?f [0..<n] h) (\<lambda>_. [])" for n
  proof (induction n)
    case 0
    then show ?case by (simp add: dlists_def)
  next
    case (Suc n)
    let ?h = "fold ?f [0..<n] h"
    have "dlists (insert (HeadH n) (?H n)) (ListHead_Init (HeadH n) ?h) ((\<lambda>_. [])(HeadH n := []))"
      by (rule dlists_Init [OF Suc]) (auto simp: unlinked_def)
    then have "dlists (insert (HeadH n) (?H n)) (ListHead_Init (HeadH n) ?h) (\<lambda>_. [])"
      by (simp add: fun_upd_idem)
    from dlists_Init [OF this, of "HeadL n"]
    have "dlists (insert (HeadL n) (insert (HeadH n) (?H n))) (?f n ?h) ((\<lambda>_. [])(HeadL n := []))"
      by (auto simp: unlinked_def)
    moreover have "insert (HeadL n) (insert (HeadH n) (?H n)) = ?H (Suc n)"
      by (auto simp: lessThan_Suc)
    ultimately show ?case by (simp add: fun_upd_idem)
  qed
  from this [of SpccMaxProcs] show ?thesis by (simp add: init_heads_def dheads_def)
qed

lemma start_ctl_ok: "ctl_ok (fst (spccListener_init procs zero_ops w))"
  by (simp add: spccListener_init_def zero_ops_def Let_def spccGenMicroExpDirs_def ctl_ok_def arrays_ok_def
      dirs_ok_def phase_ok_def)

lemma start_ok: "conf_ok B bits procs (spcc_start procs w)"
proof -
  let ?os = "fst (spccListener_init procs zero_ops w)"
  have "drained_ok (\<lambda>_. []) \<lparr>ops = ?os, sess = (\<lambda>_. None)\<rparr>"
    using init_heads_lists [of "Drained zero_ops"]
    by (intro drained_okI)
      (auto simp: spccListener_init_def Let_def spccGenMicroExpDirs_def linked_sessions_def)
  moreover have "gNumSess ?os = 0" "gNumPending ?os = 0"
    by (simp_all add: spccListener_init_def Let_def spccGenMicroExpDirs_def)
  ultimately show ?thesis using start_ctl_ok [of procs w]
    unfolding conf_ok_def spcc_start_def
    by (auto simp: procs_below_def open_sessions_def pend_sum_def)
qed

lemma drained_open:
  assumes ok: "drained_ok L S" and p: "sess S p = None" and s: "\<not> IsLinked s" "DrainedProc s = - 1"
    and os: "Drained os = ListNode_Init (Link p) p (Drained (ops S))" "gNumDrained os = gNumDrained (ops S)"
  shows "drained_ok L (set_ops os (put_sess p s S))"
proof -
  note d = drained_okD [OF ok]
  have un: "unlinked dheads L (Link p)"
    using d(7) p unfolding unlinked_def by fastforce
  have ls: "linked_sessions (set_ops os (put_sess p s S)) = linked_sessions S"
    using p s unfolding linked_upd by (auto simp: linked_sessions_def)
  show ?thesis
  proof (rule drained_okI)
    show "dlists dheads (Drained (ops (set_ops os (put_sess p s S)))) L"
      using dlists_NodeInit [OF d(1) un] os by simp
    fix r t assume rt: "sess (set_ops os (put_sess p s S)) r = Some t"
    show "Value (Drained (ops (set_ops os (put_sess p s S)))) (Link r) = Some r"
      using rt d(3) os by (cases "r = p") (auto simp: ListNode_Init_def)
    show "IsLinked t \<Longrightarrow> Credit t = 0 \<and> (\<exists>q<SpccMaxProcs. DrainedProc t = int q \<and> in_lists L q (Link r))"
      using rt d(4,5) s by (cases "r = p") auto
    show "\<not> IsLinked t \<Longrightarrow> DrainedProc t = - 1"
      using rt d(6) s by (cases "r = p") auto
  next
    fix a n assume "a \<in> dheads" "n \<in> set (L a)"
    from d(7) [OF this] show "\<exists>r t. n = Link r \<and> sess (set_ops os (put_sess p s S)) r = Some t \<and> IsLinked t"
      using p by auto
  qed (use d os ls in simp_all)
qed

lemma drained_remove:
  assumes ok: "drained_ok L S" and p: "sess S p = Some s" "\<not> IsLinked s"
    and os: "Drained os = Drained (ops S)" "gNumDrained os = gNumDrained (ops S)"
  shows "drained_ok L (S\<lparr>ops := os, sess := (sess S)(p := None)\<rparr>)"
proof -
  note d = drained_okD [OF ok]
  have ls: "linked_sessions (S\<lparr>ops := os, sess := (sess S)(p := None)\<rparr>) = linked_sessions S"
    using p by (auto simp: linked_sessions_def)
  show ?thesis
  proof (rule drained_okI)
    fix a n assume "a \<in> dheads" "n \<in> set (L a)"
    from d(7) [OF this] show "\<exists>r t. n = Link r \<and>
        sess (S\<lparr>ops := os, sess := (sess S)(p := None)\<rparr>) r = Some t \<and> IsLinked t"
      using p by fastforce
  next
    show "finite (dom (sess (S\<lparr>ops := os, sess := (sess S)(p := None)\<rparr>)))" using d(2) by simp
  next
    fix r t assume rt: "sess (S\<lparr>ops := os, sess := (sess S)(p := None)\<rparr>) r = Some t"
    then have r: "r \<noteq> p" "sess S r = Some t" by (auto split: if_splits)
    show "Value (Drained (ops (S\<lparr>ops := os, sess := (sess S)(p := None)\<rparr>))) (Link r) = Some r"
      using d(3) [OF r(2)] os by simp
    show "IsLinked t \<Longrightarrow> Credit t = 0 \<and> (\<exists>q<SpccMaxProcs. DrainedProc t = int q \<and> in_lists L q (Link r))"
      using d(4) [OF r(2)] d(5) [OF r(2)] by blast
    show "\<not> IsLinked t \<Longrightarrow> DrainedProc t = - 1" by (rule d(6) [OF r(2)])
  qed (use d os ls in simp_all)
qed

lemma Finish_ok:
  assumes ok: "conf_ok B bits procs c" and p: "sess (sys c) p = Some s" and pc: "spc c p = SDone"
  shows "conf_ok B bits procs (set_conf p (spccServer_finish n p (sys c)) SCheck {} c)"
proof -
  note d = conf_okD [OF ok] and so = conf_okD(4) [OF ok p]
  have f: "Closed s" "\<not> IsLinked s" "NumPending s = 0" using so pc by (auto simp: sess_ok_def pc_ok_def)
  obtain L where L: "drained_ok L (sys c)" using d(1) by blast
  obtain os where os: "spccServer_finish n p (sys c) = (sys c)\<lparr>ops := os, sess := (sess (sys c))(p := None)\<rparr>"
    "Drained os = Drained (ops (sys c))" "gNumDrained os = gNumDrained (ops (sys c))"
    "gNumSess os = gNumSess (ops (sys c))" "gNumPending os = gNumPending (ops (sys c))" "ctl_ok os"
    using d(3) by (simp add: spccServer_finish_def Let_def)
  let ?S = "(sys c)\<lparr>ops := os, sess := (sess (sys c))(p := None)\<rparr>"
  have op: "open_sessions ?S = open_sessions (sys c)" using p f by (auto simp: open_sessions_def)
  have pd: "p \<in> dom (sess (sys c))" using p by auto
  have "pend_sum bits c = pend bits (spc c p) s + (\<Sum>q\<in>dom (sess (sys c)) - {p}. pend bits (spc c q) (the (sess (sys c) q)))"
    unfolding pend_sum_def using sum.remove [OF d(8) pd, of "\<lambda>q. pend bits (spc c q) (the (sess (sys c) q))"] p by simp
  also have "pend bits (spc c p) s = 0" using f pc by (simp add: pend_def sending_def)
  also have "(\<Sum>q\<in>dom (sess (sys c)) - {p}. pend bits (spc c q) (the (sess (sys c) q))) =
      pend_sum bits (set_conf p ?S SCheck {} c)"
    unfolding pend_sum_def set_conf_def by (intro sum.cong) auto
  finally have ps: "pend_sum bits (set_conf p ?S SCheck {} c) = pend_sum bits c" by simp
  have "card (dom (sess (sys c)) - {p}) \<le> max_sessions"
    using d(6) card_mono [OF d(8), of "dom (sess (sys c)) - {p}"] by auto
  then show ?thesis
    unfolding os(1) conf_ok_def ps
    using drained_remove [OF L p f(2) os(2,3)] d(2,4,5,7) os op
    by (auto simp: set_conf_def procs_below_def)
qed

context bitmap begin

lemma fold_set: "bits (fold (bmSet B) is b) = bits b \<union> set is"
  by (induction "is" arbitrary: b) (auto simp: bits_set)

lemma fold_remove: "bits (fold (bmRemove B) is b) = bits b - set is"
  by (induction "is" arbitrary: b) (auto simp: bits_remove)

end

context pcc_server begin

lemma Accept_ok:
  assumes ok: "ok c" and p: "sess (sys c) p = None" and room: "card (dom (sess (sys c))) < max_sessions"
  shows "ok (set_conf p (spccServer_open B p k (sys c)) SCheck {} c)"
proof -
  note d = conf_okD [OF ok]
  obtain L where L: "drained_ok L (sys c)" using d(1) by blast
  define s :: "('b, spccCtx, 'k) credSession" where "s = spccNewSession B k (u2i (gNumSess (ops (sys c)) + 1))"
  define os where "os = (ops (sys c))\<lparr>gNumSess := gNumSess (ops (sys c)) + 1,
     Drained := ListNode_Init (Link p) p (Drained (ops (sys c)))\<rparr>"
  have e: "spccServer_open B p k (sys c) = set_ops os (put_sess p s (sys c))"
    by (simp add: spccServer_open_def Let_def os_def s_def)
  have f: "\<not> IsLinked s" "DrainedProc s = - 1" "\<not> Closed s" "NumPending s = 0" "Demand s = 0" "DrainedTs s = 0"
    "occupied s = {}" "bits (CompletedSlots s) = {}" "length (Slots s) = 64" "bits (AvailSlots s) = {i. i < 64}"
    by (auto simp: s_def spccNewSession_def Let_def occupied_def fold_set fold_remove bits_zero bits_grow)
  have so: "sess_ok B bits SCheck {} s"
    using f by (auto simp: sess_ok_def slots_ok_def sending_def pc_ok_def occupied_def)
  have dr: "drained_ok L (set_ops os (put_sess p s (sys c)))"
    by (rule drained_open [OF L p f(1,2)]) (simp_all add: os_def)
  have fo: "finite (open_sessions (sys c))" using d(8) by (rule open_finite)
  have "p \<notin> open_sessions (sys c)" using p by (simp add: open_sessions_def)
  then have num: "gNumSess os = of_nat (card (open_sessions (set_ops os (put_sess p s (sys c)))))"
    using f fo d(5) by (simp add: open_upd os_def)
  have pn: "p \<notin> dom (sess (sys c))" using p by auto
  have "pend_sum bits (set_conf p (set_ops os (put_sess p s (sys c))) SCheck {} c) =
     pend bits SCheck s + (\<Sum>q\<in>dom (sess (sys c)). pend bits (spc c q) (the (sess (sys c) q)))"
    unfolding pend_sum_def set_conf_def using d(8) pn by (auto intro!: sum.cong)
  then have ps: "pend_sum bits (set_conf p (set_ops os (put_sess p s (sys c))) SCheck {} c) = pend_sum bits c"
    using f by (simp add: pend_def sending_def pend_sum_def)
  have gp: "gNumPending os = gNumPending (ops (sys c))" "ctl_ok os" using d(3) by (simp_all add: os_def)
  have "card (dom (sess (set_ops os (put_sess p s (sys c))))) \<le> max_sessions"
    using room d(8) pn by simp
  then show ?thesis
    unfolding e conf_ok_def ps using dr d(2,4,7) gp num so f
    by (auto simp: set_conf_def procs_below_def)
qed

end

section \<open>Counting does not panic\<close>

definition counts_only :: "spccOps \<Rightarrow> spccOps \<Rightarrow> bool" where
  "counts_only os os' \<longleftrightarrow> Drained os' = Drained os \<and> gNumDrained os' = gNumDrained os \<and>
     gNumSess os' = gNumSess os \<and> gNumPending os' = gNumPending os \<and> gCreditUsed os' = gCreditUsed os \<and>
     gCreditPool os' = gCreditPool os \<and> OrigCp os' = OrigCp os \<and> ctl_ok os'"

lemma micro_idx: "ctl_ok os \<Longrightarrow> unat (MicroExpId os) < 3"
  by (cases "CtlState os") (auto simp: ctl_ok_def phase_ok_def)

lemma ctl_ok_counts [simp]:
  assumes "length xs = 3"
  shows "ctl_ok os \<Longrightarrow> ctl_ok (os\<lparr>InReqs := xs\<rparr>)" "ctl_ok os \<Longrightarrow> ctl_ok (os\<lparr>OutResps := xs\<rparr>)"
    "ctl_ok os \<Longrightarrow> ctl_ok (os\<lparr>GoodOutResps := xs\<rparr>)" "ctl_ok os \<Longrightarrow> ctl_ok (os\<lparr>DropReqs := xs\<rparr>)"
    "ctl_ok os \<Longrightarrow> ctl_ok (os\<lparr>EndTs := xs\<rparr>)" "ctl_ok os \<Longrightarrow> ctl_ok (os\<lparr>QDelay := xs\<rparr>)"
  using assms by (cases "CtlState os"; simp add: ctl_ok_def arrays_ok_def dirs_ok_def phase_ok_def)+

lemma arr_inc_total: "length xs = 3 \<Longrightarrow> unat i < 3 \<Longrightarrow> \<exists>ys. arr_inc xs i = Some ys \<and> length ys = 3"
  by (simp add: arr_inc_def arr_get_def arr_set_def)

lemma ctl_ok_len:
  assumes "ctl_ok os"
  shows "length (InReqs os) = 3" "length (OutResps os) = 3" "length (GoodOutResps os) = 3"
    "length (DropReqs os) = 3" "length (EndTs os) = 3" "length (QDelay os) = 3"
  using assms by (auto simp: ctl_ok_def arrays_ok_def)

lemma note_event_total:
  assumes "ctl_ok os" "unat i < 3"
  shows "\<exists>os'. note_event now dly i os = Some os' \<and> counts_only os os'"
  using assms ctl_ok_len [OF assms(1)]
  by (simp add: note_event_def arr_get_def arr_set_def counts_only_def)

lemma counts_only_trans: "counts_only a b \<Longrightarrow> counts_only b c \<Longrightarrow> counts_only a c"
  by (simp add: counts_only_def)

lemma WorkerCount_total:
  assumes ok: "ctl_ok os"
  shows "\<exists>os' w'. spccWorkerCount m dr ds os w = Some (os', w') \<and> counts_only os os' \<and>
     (\<forall>n. procs_ok n w' = procs_ok n w)"
proof -
  define os1 where "os1 = (if \<not> dr then os\<lparr>gCreditDs := AtomicSetUint64 (gCreditDs os) ds\<rparr>
                else os\<lparr>StatReqDropped := AtomicAddUint64 (StatReqDropped os) 1\<rparr>)"
  have c1: "counts_only os os1" using ok by (simp add: os1_def counts_only_def)
  then have ok1: "ctl_ok os1" by (simp add: counts_only_def)
  show ?thesis
  proof (cases "MicroExpId os1 = m")
    case False
    then have "spccWorkerCount m dr ds os w = Some (os1, w)"
      unfolding spccWorkerCount_def Let_def os1_def [symmetric] by simp
    then show ?thesis using c1 by blast
  next
    case True
    then have i: "unat m < 3" using micro_idx [OF ok1] by simp
    from arr_inc_total [OF ctl_ok_len(2) [OF ok1] i] arr_inc_total [OF ctl_ok_len(3) [OF ok1] i]
      arr_inc_total [OF ctl_ok_len(4) [OF ok1] i]
    obtain a b d where inc: "arr_inc (OutResps os1) m = Some a" "length a = 3"
      "arr_inc (GoodOutResps os1) m = Some b" "length b = 3" "arr_inc (DropReqs os1) m = Some d" "length d = 3"
      by blast
    define os2 where "os2 = (if \<not> dr then os1\<lparr>OutResps := a, GoodOutResps := b\<rparr> else os1\<lparr>DropReqs := d\<rparr>)"
    have c2: "counts_only os1 os2" using ok1 inc by (simp add: os2_def counts_only_def)
    then have ok2: "ctl_ok os2" by (simp add: counts_only_def)
    from note_event_total [OF ok2 i, of "MicroTime w" "QueueDelayMax_of (step_world w) div 1000"] obtain os3 where
      n: "note_event (MicroTime w) (QueueDelayMax_of (step_world w) div 1000) m os2 = Some os3" "counts_only os2 os3"
      by blast
    have "spccWorkerCount m dr ds os w = Some (os3, step_world (step_world w))"
      unfolding spccWorkerCount_def Let_def os1_def [symmetric] using True inc n(1)
      by (cases dr) (simp_all add: os2_def)
    then show ?thesis using counts_only_trans [OF counts_only_trans [OF c1 c2] n(2)] by auto
  qed
qed

lemma CountDrop_total:
  assumes ok: "ctl_ok os"
  shows "\<exists>os' w'. spccCountDrop m os w dly = Some (os', w') \<and> counts_only os os'"
proof -
  define os1 where "os1 = os\<lparr>StatReqDropped := AtomicAddUint64 (StatReqDropped os) 1\<rparr>"
  have c1: "counts_only os os1" using ok by (simp add: os1_def counts_only_def)
  then have ok1: "ctl_ok os1" by (simp add: counts_only_def)
  show ?thesis
  proof (cases "MicroExpId os1 = m")
    case False
    then have "spccCountDrop m os w dly = Some (os1, w)"
      unfolding spccCountDrop_def Let_def os1_def [symmetric] by simp
    then show ?thesis using c1 by blast
  next
    case True
    then have i: "unat m < 3" using micro_idx [OF ok1] by simp
    from arr_inc_total [OF ctl_ok_len(4) [OF ok1] i] obtain d where
      inc: "arr_inc (DropReqs os1) m = Some d" "length d = 3" by blast
    define os2 where "os2 = os1\<lparr>DropReqs := d\<rparr>"
    have c2: "counts_only os1 os2" using ok1 inc by (simp add: os2_def counts_only_def)
    then have ok2: "ctl_ok os2" by (simp add: counts_only_def)
    let ?d = "case dly of None \<Rightarrow> QueueDelayMax_of (step_world w) div 1000 | Some d \<Rightarrow> d"
    from note_event_total [OF ok2 i, of "MicroTime w" ?d] obtain os3 where
      n: "note_event (MicroTime w) ?d m os2 = Some os3" "counts_only os2 os3" by blast
    have "spccCountDrop m os w dly = Some (os3, step_world (step_world w))"
      unfolding spccCountDrop_def Let_def os1_def [symmetric] using True inc n(1)
      by (simp add: os2_def)
    then show ?thesis using counts_only_trans [OF counts_only_trans [OF c1 c2] n(2)] by auto
  qed
qed

section \<open>The worker and the receiver\<close>

lemma unat_u32_idx: "i < 64 \<Longrightarrow> unat (word_of_int (int i) :: u32) = i"
  by (simp add: unat_of_nat take_bit_nat_eq_self)

lemma sess_ok_slot:
  assumes s: "sess_ok B bits pc run s" and i: "i \<in> run" and x: "ctx_ok i x"
  shows "sess_ok B bits pc run (s\<lparr>Slots := (Slots s)[i := Some x]\<rparr>)"
proof -
  have nd: "pc \<noteq> SDone" using s i by (auto simp: sess_ok_def)
  have sl: "slots_ok bits s" and io: "i \<in> occupied s" using s i nd by (auto simp: sess_ok_def)
  have il: "i < length (Slots s)" using io by (simp add: occupied_def)
  let ?s = "s\<lparr>Slots := (Slots s)[i := Some x]\<rparr>"
  have occ: "occupied ?s = occupied s" using occupied_update [OF il, of "Some x"] io by auto
  have "slots_ok bits ?s" using sl occ x il by (auto simp: slots_ok_def nth_list_update split: if_splits)
  then show ?thesis using s nd occ
    by (cases pc) (auto simp: sess_ok_def pc_ok_def spccSenderWaits_def link_ready_def)
qed

context bitmap begin

lemma sess_ok_complete:
  assumes s: "sess_ok B bits pc run s" and i: "i \<in> run"
  shows "sess_ok B bits pc (run - {i}) (complete_slot B (int i) s)"
proof -
  have nd: "pc \<noteq> SDone" using s i by (auto simp: sess_ok_def)
  have sl: "slots_ok bits s" and io: "i \<in> occupied s" using s i nd by (auto simp: sess_ok_def)
  have "i < 64" using sl io by (auto simp: slots_ok_def occupied_def)
  then have c: "complete_slot B (int i) s = s\<lparr>CompletedSlots := bmSet B i (CompletedSlots s), Signalled := True\<rparr>"
    by (simp only: complete_slot_def unat_u32_idx)
  let ?s = "s\<lparr>CompletedSlots := bmSet B i (CompletedSlots s), Signalled := True\<rparr>"
  have occ: "occupied ?s = occupied s" by (rule occupied_cong) simp
  have "slots_ok bits ?s" using sl io occ by (auto simp: slots_ok_def bits_set)
  moreover have "run - {i} \<union> insert i (bits (CompletedSlots s)) = run \<union> bits (CompletedSlots s)" using i by auto
  ultimately show ?thesis unfolding c using s i nd occ
    by (cases pc) (auto simp: sess_ok_def pc_ok_def link_ready_def bits_set)
qed

end

text \<open>The adjustment of the credits to the demand.\<close>

lemma ClipCredit_eq:
  assumes "0 \<le> NumPending s" "NumPending s \<le> 65" "uint (Demand s) < 2 ^ 60"
  shows "spccClipCredit os s =
     (let cr = min (Credit s) (NumPending s + uint (Demand s))
      in (os\<lparr>gCreditUsed := gCreditUsed os + i2u (cr - Credit s)\<rparr>, s\<lparr>Credit := cr\<rparr>))"
proof -
  have "iadd (NumPending s) (u2i (Demand s)) = NumPending s + uint (Demand s)"
    unfolding iadd_def u2i_60 [OF assms(3)] using assms order_trans [OF _ uint_ge_0, of "- NumPending s" "Demand s"]
    by (intro goint_small) simp_all
  then show ?thesis
    by (simp add: spccClipCredit_def Let_def min_def isub_def i2u_diff i2u_add algebra_simps)
qed

context pcc_server begin

lemma same_put:
  "set_conf p (put_sess p s' (sys c)) pc run c = set_conf p (set_ops (ops (sys c)) (put_sess p s' (sys c))) pc run c"
  by (simp add: set_ops_def put_sess_def)

lemma set_conf_twice:
  "set_conf p S pc run (set_conf p S' pc' run' c) = set_conf p S pc run c"
  by (simp add: set_conf_def)

lemma set_conf_fields [simp]:
  "sys (set_conf p S pc run c) = S" "spc (set_conf p S pc run c) p = pc" "running (set_conf p S pc run c) p = run"
  by (simp_all add: set_conf_def)

lemma put_put [simp]: "put_sess p s (set_ops os (put_sess p s' S)) = set_ops os (put_sess p s S)"
  by (simp add: put_sess_def set_ops_def)

text \<open>A controller call inside a worker or receiver of session \<open>p\<close>.\<close>

lemma pool_ok:
  assumes ok: "ok c" and w: "procs_ok (eProcs E) w" and p: "sess (sys c) p = Some s"
  shows "\<exists>S' w' s'. spccUpdateCreditPool (eCfg E) (eProcs E) (sys c) w = Some (S', w') \<and>
     sess S' p = Some s' \<and> (s' = s \<or> s' = woken s \<and> IsLinked s) \<and> ok (c\<lparr>sys := S'\<rparr>)"
proof -
  note d = conf_okD [OF ok]
  obtain L where L: "drained_ok L (sys c)" using d(1) by blast
  from UpdateCreditPool_ok [OF L d(3) w procs_max d(2), of "eCfg E"] obtain S' w' L' W where
    u: "spccUpdateCreditPool (eCfg E) (eProcs E) (sys c) w = Some (S', w')" "drained_ok L' S'" "pool_step W (sys c) S'"
    by blast
  have "sess S' p = Some (if p \<in> W then woken s else s)" using pool_step_facts(1) [OF u(3)] p by simp
  moreover have "p \<in> W \<Longrightarrow> IsLinked s" using pool_step_facts(2) [OF u(3)] p by (auto simp: linked_sessions_def)
  ultimately show ?thesis using u conf_ok_pool [OF ok u(3,2)] by auto
qed

lemma Work_ok:
  assumes ok: "ok c" and p: "sess (sys c) p = Some s" and i: "i \<in> running c p" and w: "procs_ok (eProcs E) w"
  shows "\<exists>S' w'. spccWorker B (eCfg E) (eProcs E) (eHandler E) p i (sys c) w = Some (S', w') \<and>
     ok (set_conf p S' (spc c p) (running c p - {i}) c)"
proof -
  note d = conf_okD [OF ok] and so = conf_okD(4) [OF ok p]
  have nd: "spc c p \<noteq> SDone" using so i by (auto simp: sess_ok_def)
  have sl: "slots_ok bits s" and io: "i \<in> occupied s" using so i nd by (auto simp: sess_ok_def)
  then obtain x where x: "Slots s ! i = Some x" and il: "i < length (Slots s)" and i64: "i < 64"
    by (auto simp: occupied_def slots_ok_def)
  have cx: "cmn_ok i (Cmn x)" using sl x i64 by (simp add: slots_ok_def ctx_ok_cmn)
  define cmn where "cmn = eHandler E ((Cmn x)\<lparr>Drop := False\<rparr>)"
  have "cmn_ok i ((Cmn x)\<lparr>Drop := False\<rparr>)" using cx by (simp add: cmn_ok_def)
  then have hx: "cmn_ok i cmn" using handler by (simp add: handler_ok_def cmn_def)
  then have ix: "Idx cmn = int i" by (simp add: cmn_ok_def)
  let ?x = "x\<lparr>Cmn := cmn\<rparr>" let ?s1 = "s\<lparr>Slots := (Slots s)[i := Some ?x]\<rparr>"
  have so1: "sess_ok B bits (spc c p) (running c p) ?s1"
    using sess_ok_slot [OF so i, of ?x] hx by (simp add: ctx_ok_cmn)
  from WorkerCount_total [OF d(3)] obtain os w1 where
    wc: "spccWorkerCount (Opaque x) (Drop cmn) (DsCredit cmn) (ops (sys c)) w = Some (os, w1)"
      "counts_only (ops (sys c)) os" "\<forall>n. procs_ok n w1 = procs_ok n w" by blast
  let ?c1 = "set_conf p (set_ops os (put_sess p ?s1 (sys c))) (spc c p) (running c p) c"
  have ok1: "ok ?c1"
    by (rule conf_ok_neutral [OF ok p]) (use wc(2) so1 in \<open>simp_all add: counts_only_def pend_def\<close>)
  have p1: "sess (sys ?c1) p = Some ?s1" by simp
  have w1: "procs_ok (eProcs E) w1" using wc(3) w by simp
  from pool_ok [OF ok1 w1 p1] obtain S2 w2 s2 where
    u: "spccUpdateCreditPool (eCfg E) (eProcs E) (set_ops os (put_sess p ?s1 (sys c))) w1 = Some (S2, w2)"
      "sess S2 p = Some s2" "ok (?c1\<lparr>sys := S2\<rparr>)" by auto
  have e: "spccWorker B (eCfg E) (eProcs E) (eHandler E) p i (sys c) w =
      Some (put_sess p (complete_slot B (int i) s2) S2, w2)"
    using p x il wc(1) u(1,2) ix by (simp add: spccWorker_def slot_at_def cmn_def [symmetric] Let_def)
  let ?c2 = "?c1\<lparr>sys := S2\<rparr>" let ?s3 = "complete_slot B (int i) s2"
  have p2: "sess (sys ?c2) p = Some s2" using u(2) by simp
  have "sess_ok B bits (spc c p) (running c p) s2" using conf_okD(4) [OF u(3) p2] by (simp add: set_conf_def)
  then have so3: "sess_ok B bits (spc c p) (running c p - {i}) ?s3" by (rule sess_ok_complete [OF _ i])
  have "ok (set_conf p (set_ops (ops (sys ?c2)) (put_sess p ?s3 (sys ?c2))) (spc c p) (running c p - {i}) ?c2)"
    by (rule conf_ok_neutral [OF u(3) p2])
      (use so3 conf_okD(3) [OF u(3)] in \<open>simp_all add: complete_slot_def pend_def set_conf_def\<close>)
  moreover have "set_conf p (set_ops (ops (sys ?c2)) (put_sess p ?s3 (sys ?c2))) (spc c p) (running c p - {i}) ?c2 =
      set_conf p (put_sess p ?s3 S2) (spc c p) (running c p - {i}) c"
    by (simp add: set_conf_def set_ops_def put_sess_def)
  ultimately show ?thesis using e by simp
qed

end

end
