(* ===== verification/Pcc_Invariant.thy ===== *)
theory Pcc_Invariant
  imports Pcc_System
begin

text \<open>
  The receiver keeps the invariant of theory \<open>Pcc_System\<close>, every step keeps the credit books
  (\<open>books_ok\<close>) as long as no client leaves between two critical sections of its sender, and so
  both hold in every reachable configuration.  Every operation of the server returns in every reachable
  configuration: no index out of range, no nil slot, no division by zero.
\<close>

section \<open>The credit books\<close>

definition books_ok :: "('b, 'k) spccConf \<Rightarrow> bool" where
  "books_ok c \<longleftrightarrow> credits_ok (sys c) \<and> linked_open (sys c) \<and>
     (\<forall>p s. sess (sys c) p = Some s \<longrightarrow> 0 \<le> Credit s \<and> Credit s \<le> 63) \<and>
     (\<forall>p s. sess (sys c) p = Some s \<longrightarrow> between_sections (spc c p) \<longrightarrow> \<not> Closed s) \<and>
     pool_le (ops (sys c))"

lemma books_okD:
  assumes "books_ok c"
  shows "credits_ok (sys c)" "linked_open (sys c)" "pool_le (ops (sys c))"
    "\<And>p s. sess (sys c) p = Some s \<Longrightarrow> 0 \<le> Credit s" "\<And>p s. sess (sys c) p = Some s \<Longrightarrow> Credit s \<le> 63"
    "\<And>p s. sess (sys c) p = Some s \<Longrightarrow> between_sections (spc c p) \<Longrightarrow> \<not> Closed s"
  using assms unfolding books_ok_def by blast+

lemma books_upd:
  assumes b: "books_ok c" and fin: "finite (dom (sess (sys c)))" and p: "sess (sys c) p = Some s"
    and used: "gCreditUsed os = gCreditUsed (ops (sys c)) + i2u (owed s' - owed s)"
    and cr: "0 \<le> Credit s'" "Credit s' \<le> 63" and lk: "IsLinked s' \<Longrightarrow> \<not> Closed s'"
    and pc: "between_sections pc \<Longrightarrow> \<not> Closed s'"
    and pool: "gCreditPool os = gCreditPool (ops (sys c))" "OrigCp os = OrigCp (ops (sys c))"
  shows "books_ok (set_conf p (set_ops os (put_sess p s' (sys c))) pc run c)"
proof -
  note d = books_okD [OF b]
  have "i2u (credit_sum (sys c) - owed s + owed s') = i2u (credit_sum (sys c)) + i2u (owed s' - owed s)"
    by (simp add: i2u_def)
  then have "credits_ok (set_ops os (put_sess p s' (sys c)))"
    using d(1) used credit_sum_upd [OF fin p, of os s'] by (simp add: credits_ok_def)
  then show ?thesis using d(2-6) cr lk pc pool
    by (simp add: books_ok_def set_conf_def linked_open_def pool_le_def)
qed

lemma books_pool:
  assumes b: "books_ok c" and L: "drained_ok L (sys c)" and st: "pool_step W (sys c) S'"
    and n: "unat (gNumSess (ops (sys c))) \<le> 2 ^ 50"
  shows "books_ok (c\<lparr>sys := S'\<rparr>)"
proof -
  note d = books_okD [OF b] and f = pool_step_facts [OF st]
  have "pool_le (ops S')" using f(8) n d(3) by (simp add: keeps_pool_le_def)
  moreover have "0 \<le> Credit t \<and> Credit t \<le> 63" if "sess S' p = Some t" for p t
    using that d(4,5) f(1) by (auto simp: woken_def split: if_splits)
  moreover have "\<not> Closed t" if "sess S' p = Some t" "between_sections (spc c p)" for p t
    using that d(6) f(1) by (auto simp: woken_def split: if_splits)
  ultimately show ?thesis
    using pool_step_books(2,3) [OF L st] d(1,2) by (simp add: books_ok_def)
qed

lemma num_sess_le:
  assumes "conf_ok B bits procs c"
  shows "unat (gNumSess (ops (sys c))) \<le> 2 ^ 50"
proof -
  note d = conf_okD [OF assms]
  have "card (open_sessions (sys c)) \<le> card (dom (sess (sys c)))"
    using d(8) by (intro card_mono) (auto simp: open_sessions_def)
  then have le: "card (open_sessions (sys c)) \<le> 2 ^ 50" using d(6) by (simp add: max_sessions_def)
  then show ?thesis unfolding d(5) by (simp add: unat_of_nat_64)
qed

section \<open>The receiver\<close>

text \<open>The session while a request occupies slot \<open>i\<close> and is counted as pending.\<close>

definition received :: "spccCtx \<Rightarrow> nat \<Rightarrow> 'k \<Rightarrow> 'b \<Rightarrow> u64 \<Rightarrow> int \<Rightarrow> ('b, spccCtx, 'k) credSession \<Rightarrow> ('b, spccCtx, 'k) credSession" where
  "received x i k av dem cr s = s\<lparr>Conn := k, AvailSlots := av, Slots := (Slots s)[i := Some x], Demand := dem,
     IsLinked := False, DrainedProc := - 1, NumPending := NumPending s + 1, Credit := cr\<rparr>"

text \<open>The counters a request passes first in \<open>spccRecvCall\<close>.\<close>

abbreviation count_in :: "spccOps \<Rightarrow> spccOps option" where
  "count_in os \<equiv> (if MicroExpId (os\<lparr>StatReqRx := AtomicAddUint64 (StatReqRx os) 1\<rparr>) = MicroExpId os
     then do { inr \<leftarrow> arr_inc (InReqs (os\<lparr>StatReqRx := AtomicAddUint64 (StatReqRx os) 1\<rparr>)) (MicroExpId os);
               Some (os\<lparr>StatReqRx := AtomicAddUint64 (StatReqRx os) 1, InReqs := inr\<rparr>) }
     else Some (os\<lparr>StatReqRx := AtomicAddUint64 (StatReqRx os) 1\<rparr>))"

lemma count_in_total:
  assumes "ctl_ok os"
  shows "\<exists>os2. count_in os = Some os2 \<and> counts_only os os2"
proof -
  from arr_inc_total [OF ctl_ok_len(1) [OF assms] micro_idx [OF assms]] obtain inr where
    inr: "arr_inc (InReqs os) (MicroExpId os) = Some inr" "length inr = 3" by blast
  then have "counts_only os (os\<lparr>StatReqRx := AtomicAddUint64 (StatReqRx os) 1, InReqs := inr\<rparr>)"
    using assms by (simp add: counts_only_def)
  then show ?thesis using inr by simp
qed

context pcc_server begin

lemma NumPending_bounds:
  assumes "sess_ok B bits pc run s"
  shows "0 \<le> NumPending s" "NumPending s \<le> 64"
proof -
  show "0 \<le> NumPending s" using assms by (simp add: sess_ok_def)
  show "NumPending s \<le> 64"
  proof (cases "Closed s")
    case False
    then have nd: "pc \<noteq> SDone" using assms by (auto simp: sess_ok_def pc_ok_def)
    have sl: "slots_ok bits s" and sub: "run \<union> bits (CompletedSlots s) \<subseteq> occupied s"
      using assms nd by (auto simp: sess_ok_def)
    have "card (run \<union> bits (CompletedSlots s)) \<le> 64"
      using card_mono [OF occupied_finite sub] occupied_card [OF sl] by simp
    then show ?thesis using assms False by (simp add: sess_ok_def)
  qed (use assms in \<open>simp add: sess_ok_def\<close>)
qed

lemma RecvCredit_ok:
  assumes ok: "ok c" and p: "sess (sys c) p = Some s" and op: "\<not> Closed s"
    and m: "uint (cDemand chdr) < 2 ^ 60" "cDemand chdr \<noteq> 0"
  shows "\<exists>r S'. spccRecvCredit chdr p (sys c) w = Some (r, S', w) \<and> spawned r = {} \<and>
     ok (set_conf p S' (spc c p) (running c p) c) \<and>
     (books_ok c \<longrightarrow> books_ok (set_conf p S' (spc c p) (running c p) c))"
proof (cases "cLen chdr = 0")
  case False
  have "ok (set_conf p (sys c) (spc c p) (running c p) c)"
    by (rule pc_change_ok [OF ok p]) (use conf_okD(4) [OF ok p] in simp_all)
  moreover have "set_conf p (sys c) (spc c p) (running c p) c = c" by (simp add: set_conf_def)
  ultimately show ?thesis using False by (simp add: spccRecvCredit_def spawned_def)
next
  case True
  note d = conf_okD [OF ok] and so = conf_okD(4) [OF ok p]
  obtain L where L: "drained_ok L (sys c)" using d(1) by blast
  let ?s1 = "s\<lparr>Demand := cDemand chdr\<rparr>"
  define ne where "ne = (NumPending s = 0 \<or> NeedECredit s)"
  let ?s2 = "?s1\<lparr>NeedECredit := ne\<rparr>"
  define cr where "cr = min (Credit s) (NumPending s + uint (cDemand chdr))"
  let ?os = "(ops (sys c))\<lparr>gCreditUsed := gCreditUsed (ops (sys c)) + i2u (cr - Credit s),
      StatCUpdateRx := StatCUpdateRx (ops (sys c)) + 1\<rparr>"
  let ?s' = "?s2\<lparr>Credit := cr, Signalled := True\<rparr>"
  have pos: "0 < cDemand chdr" using m(2) by (simp add: word_gt_0)
  have two: "(if NumPending ?s1 = 0 \<and> 0 < Demand ?s1 then Some (ops (sys c), ?s1\<lparr>NeedECredit := True\<rparr>, w)
           else if NumPending ?s1 = 0 then do {
             (os, s) \<leftarrow> spccLinkDrained False (ProcId_of w) p (ops (sys c)) ?s1;
             Some (os, s\<lparr>Advertised := 0\<rparr>, step_world w)
           } else Some (ops (sys c), ?s1, w)) = Some (ops (sys c), ?s2, w)"
    using pos by (simp add: ne_def)
  have nb: "0 \<le> NumPending ?s2" "NumPending ?s2 \<le> 65" "uint (Demand ?s2) < 2 ^ 60"
    using NumPending_bounds [OF so] m by simp_all
  have e: "spccRecvCredit chdr p (sys c) w = Some (RecvRet 0, set_ops ?os (put_sess p ?s' (sys c)), w)"
    unfolding spccRecvCredit_def p Option.bind.simps Let_def two prod.case ClipCredit_eq [OF nb]
    using True by (simp add: cr_def)
  have "slots_ok bits ?s' = slots_ok bits s" "occupied ?s' = occupied s" by (rule slots_ok_cong occupied_cong; simp)+
  moreover have c0: "Credit s = 0 \<Longrightarrow> cr = 0"
    using NumPending_bounds(1) [OF so] order_trans [OF _ uint_ge_0, of "- NumPending s" "cDemand chdr"]
    by (simp add: cr_def min_def)
  ultimately have so': "sess_ok B bits (spc c p) (running c p) ?s'"
    using so op m by (cases "spc c p") (auto simp: sess_ok_def pc_ok_def link_ready_def)
  have "ok (set_conf p (set_ops ?os (put_sess p ?s' (sys c))) (spc c p) (running c p) c)"
    by (rule conf_ok_neutral [OF ok p])
      (use so' d(3) c0 drained_okD(4) [OF L p] in \<open>simp_all add: pend_def\<close>)
  moreover have "books_ok (set_conf p (set_ops ?os (put_sess p ?s' (sys c))) (spc c p) (running c p) c)"
    if b: "books_ok c"
  proof (rule books_upd [OF b d(8) p])
    have "0 \<le> NumPending s + uint (cDemand chdr)" using NumPending_bounds(1) [OF so] by simp
    then show "0 \<le> Credit ?s'" "Credit ?s' \<le> 63"
      using books_okD(4,5) [OF b p] by (simp_all add: cr_def)
  qed (use op in \<open>simp_all add: owed_def\<close>)
  ultimately show ?thesis using e by (simp add: spawned_def)
qed

lemma sess_ok_received:
  assumes so: "sess_ok B bits pc run s" and op: "\<not> Closed s"
    and i: "i < 64" "i \<notin> occupied s" and av: "bits av = bits (AvailSlots s) - {i}" and x: "ctx_ok i x"
    and m: "uint dem < 2 ^ 60" and c0: "Credit s = 0 \<Longrightarrow> cr = 0"
  shows "sess_ok B bits pc (insert i run) (received x i k av dem cr s)"
proof -
  have nd: "pc \<noteq> SDone" using so op by (auto simp: sess_ok_def pc_ok_def)
  let ?s = "received x i k av dem cr s"
  have sl: "slots_ok bits s" and oc: "occupied s = run \<union> bits (CompletedSlots s) \<union> sending bits pc"
    using so nd by (auto simp: sess_ok_def)
  have len: "length (Slots s) = 64" using sl by (simp add: slots_ok_def)
  have occ: "occupied ?s = insert i (occupied s)"
    using i len by (auto simp: occupied_def received_def nth_list_update)
  have "slots_ok bits ?s"
    unfolding slots_ok_def occ using sl av i x len
    by (auto simp: slots_ok_def received_def nth_list_update split: if_splits)
  moreover have "card (insert i (run \<union> bits (CompletedSlots s))) = Suc (card (run \<union> bits (CompletedSlots s)))"
  proof (rule card_insert_disjoint)
    show "finite (run \<union> bits (CompletedSlots s))" using oc by (metis finite_Un occupied_finite)
    show "i \<notin> run \<union> bits (CompletedSlots s)" using i oc by auto
  qed
  ultimately show ?thesis using so op i oc nd occ m c0
    by (cases pc) (auto simp: sess_ok_def received_def pc_ok_def spccSenderWaits_def link_ready_def)
qed


lemma RecvCall_free_ok:
  assumes ok: "ok c" and p: "sess (sys c) p = Some s" and op: "\<not> Closed s"
    and dem: "uint (cDemand chdr) < 2 ^ 60" and i: "i < 64" "i \<notin> occupied s"
    and cnt: "counts_only (ops (sys c)) os2" and x: "ctx_ok i x"
    and s3: "s3 = s\<lparr>Conn := k, AvailSlots := av, Slots := (Slots s)[i := Some x], Demand := cDemand chdr\<rparr>"
    and av: "bits av = bits (AvailSlots s) - {i}"
  shows "\<exists>os4 s4 os5 s5. spccRemoveFromDrainedList p os2 s3 = Some (os4, s4) \<and>
     spccClipCredit os4 (s4\<lparr>NumPending := iadd (NumPending s4) 1\<rparr>) = (os5, s5) \<and>
     gCreditUsed os5 = gCreditUsed (ops (sys c)) + i2u (Credit s5 - Credit s) \<and>
     gNumPending os5 = gNumPending (ops (sys c)) \<and> \<not> IsLinked s5 \<and> Credit s5 \<le> Credit s \<and>
     (0 \<le> Credit s \<longrightarrow> 0 \<le> Credit s5) \<and> gCreditPool os5 = gCreditPool (ops (sys c)) \<and> OrigCp os5 = OrigCp (ops (sys c)) \<and>
     ok (set_conf p (set_ops (os5\<lparr>gNumPending := gNumPending os5 + 1\<rparr>) (put_sess p s5 (sys c)))
          (spc c p) (insert i (running c p)) c)"
proof -
  note d = conf_okD [OF ok] and so = conf_okD(4) [OF ok p]
  obtain L where L: "drained_ok L (sys c)" using d(1) by blast
  let ?S3 = "set_ops os2 (put_sess p s3 (sys c))"
  have L3: "drained_ok L ?S3"
    by (rule drained_neutral [OF L p]) (use drained_okD(4) [OF L p] cnt in \<open>simp_all add: s3 counts_only_def\<close>)
  have p3: "sess ?S3 p = Some s3" by simp
  from RemoveFromDrained_ok [OF L3 p3] obtain L' h where
    rm: "spccRemoveFromDrainedList p os2 s3 =
        Some (os2\<lparr>Drained := h, gNumDrained := gNumDrained os2 - (if IsLinked s3 then 1 else 0)\<rparr>,
            s3\<lparr>IsLinked := False, DrainedProc := - 1\<rparr>)"
      "drained_ok L' (set_ops (os2\<lparr>Drained := h, gNumDrained := gNumDrained os2 - (if IsLinked s3 then 1 else 0)\<rparr>)
        (put_sess p (s3\<lparr>IsLinked := False, DrainedProc := - 1\<rparr>) (sys c)))" by (auto simp: put_sess_def set_ops_def)
  let ?os4 = "os2\<lparr>Drained := h, gNumDrained := gNumDrained os2 - (if IsLinked s3 then 1 else 0)\<rparr>"
  let ?s4 = "s3\<lparr>IsLinked := False, DrainedProc := - 1\<rparr>"
  note nb = NumPending_bounds [OF so]
  have inc: "iadd (NumPending ?s4) 1 = NumPending s + 1" using nb by (simp add: s3 iadd_def)
  define cr where "cr = min (Credit s) (NumPending s + 1 + uint (cDemand chdr))"
  let ?os5 = "?os4\<lparr>gCreditUsed := gCreditUsed os2 + i2u (cr - Credit s)\<rparr>" and ?s5 = "received x i k av (cDemand chdr) cr s"
  have clip: "spccClipCredit ?os4 (?s4\<lparr>NumPending := iadd (NumPending ?s4) 1\<rparr>) = (?os5, ?s5)"
    unfolding inc using nb dem by (subst ClipCredit_eq) (simp_all add: s3 cr_def received_def Let_def)
  have nn: "0 \<le> NumPending s + 1 + uint (cDemand chdr)" using nb(1) by simp
  have c0: "Credit s = 0 \<Longrightarrow> cr = 0" "0 \<le> Credit s \<longrightarrow> 0 \<le> cr" "cr \<le> Credit s" using nn by (simp_all add: cr_def)
  have so5: "sess_ok B bits (spc c p) (insert i (running c p)) ?s5"
    by (rule sess_ok_received [OF so op i av x dem]) (rule c0)
  have p4: "sess (set_ops ?os4 (put_sess p ?s4 (sys c))) p = Some ?s4" by simp
  let ?os6 = "?os5\<lparr>gNumPending := gNumPending ?os5 + 1\<rparr>"
  have "drained_ok L' (set_ops ?os6 (put_sess p ?s5 (set_ops ?os4 (put_sess p ?s4 (sys c)))))"
    by (rule drained_neutral [OF rm(2) p4]) (simp_all add: received_def)
  then have L5: "drained_ok L' (set_ops ?os6 (put_sess p ?s5 (sys c)))" by (simp add: put_sess_def set_ops_def)
  have "ok (set_conf p (set_ops ?os6 (put_sess p ?s5 (sys c))) (spc c p) (insert i (running c p)) c)"
    by (rule conf_ok_upd [OF ok p _ _ _ so5])
      (use L5 cnt op in \<open>auto simp: received_def counts_only_def pend_def\<close>)
  then show ?thesis using rm(1) clip cnt c0
    by (intro exI [of _ ?os4] exI [of _ ?s4] exI [of _ ?os5] exI [of _ ?s5]) (simp add: received_def counts_only_def)
qed


lemma pool_books:
  assumes ok: "ok c" and w: "procs_ok (eProcs E) w" and p: "sess (sys c) p = Some s"
  shows "\<exists>S' w' s'. spccUpdateCreditPool (eCfg E) (eProcs E) (sys c) w = Some (S', w') \<and>
     sess S' p = Some s' \<and> (s' = s \<or> s' = woken s \<and> IsLinked s) \<and> ok (c\<lparr>sys := S'\<rparr>) \<and>
     (books_ok c \<longrightarrow> books_ok (c\<lparr>sys := S'\<rparr>))"
proof -
  note d = conf_okD [OF ok]
  obtain L where L: "drained_ok L (sys c)" using d(1) by blast
  from UpdateCreditPool_ok [OF L d(3) w procs_max d(2), of "eCfg E"] obtain S' w' L' W where
    u: "spccUpdateCreditPool (eCfg E) (eProcs E) (sys c) w = Some (S', w')" "drained_ok L' S'" "pool_step W (sys c) S'"
    by blast
  have "sess S' p = Some (if p \<in> W then woken s else s)" using pool_step_facts(1) [OF u(3)] p by simp
  moreover have "p \<in> W \<Longrightarrow> IsLinked s" using pool_step_facts(2) [OF u(3)] p by (auto simp: linked_sessions_def)
  ultimately show ?thesis
    using u conf_ok_pool [OF ok u(3,2)] books_pool [OF _ L u(3) num_sess_le [OF ok]] by auto
qed

text \<open>Dropping a request that is already counted: the controller runs, the slot is completed.\<close>

lemma Drop_ok:
  assumes ok: "ok c" and p: "sess (sys c) p = Some s" and nl: "\<not> IsLinked s" and i: "i \<in> running c p"
    and w: "procs_ok (eProcs E) w" and x: "ctx_ok i x"
  shows "\<exists>S7 w2 os8 w3. spccHandleReqDrop (eCfg E) (eProcs E) dly (sys c) w = Some (S7, w2) \<and> sess S7 p = Some s \<and>
     spccCountDrop m (ops S7) w2 (Some dly) = Some (os8, w3) \<and>
     (let c' = set_conf p (set_ops os8 (put_sess p (complete_slot B (int i) (s\<lparr>Slots := (Slots s)[i := Some x]\<rparr>)) S7))
                 (spc c p) (running c p - {i}) c
      in ok c' \<and> (books_ok c \<longrightarrow> books_ok c'))"
proof -
  from pool_books [OF ok w p] nl obtain S7 w2 where
    u: "spccUpdateCreditPool (eCfg E) (eProcs E) (sys c) w = Some (S7, w2)" "sess S7 p = Some s"
      "ok (c\<lparr>sys := S7\<rparr>)" "books_ok c \<longrightarrow> books_ok (c\<lparr>sys := S7\<rparr>)" by blast
  let ?c7 = "c\<lparr>sys := S7\<rparr>"
  have p7: "sess (sys ?c7) p = Some s" using u(2) by simp
  note d7 = conf_okD [OF u(3)]
  have "ctl_ok (ops S7)" using d7(3) by simp
  from CountDrop_total [OF this, of m w2 "Some dly"] obtain os8 w3 where
    cd: "spccCountDrop m (ops S7) w2 (Some dly) = Some (os8, w3)" "counts_only (ops S7) os8" by blast
  let ?s = "complete_slot B (int i) (s\<lparr>Slots := (Slots s)[i := Some x]\<rparr>)"
  have "sess_ok B bits (spc c p) (running c p) s" using d7(4) [OF p7] by simp
  then have so: "sess_ok B bits (spc c p) (running c p - {i}) ?s"
    by (intro sess_ok_complete sess_ok_slot i x)
  have "ok (set_conf p (set_ops os8 (put_sess p ?s (sys ?c7))) (spc c p) (running c p - {i}) ?c7)"
    by (rule conf_ok_neutral [OF u(3) p7])
      (use so cd(2) in \<open>simp_all add: complete_slot_def counts_only_def pend_def\<close>)
  moreover have "books_ok (set_conf p (set_ops os8 (put_sess p ?s (sys ?c7))) (spc c p) (running c p - {i}) ?c7)"
    if b: "books_ok ?c7"
    by (rule books_upd [OF b d7(8) p7])
      (use cd(2) books_okD(4,5) [OF b p7] books_okD(2) [OF b] books_okD(6) [OF b p7] p7 in
        \<open>auto simp: complete_slot_def counts_only_def owed_def linked_open_def\<close>)
  moreover have "set_conf p (set_ops os8 (put_sess p ?s (sys ?c7))) (spc c p) (running c p - {i}) ?c7 =
      set_conf p (set_ops os8 (put_sess p ?s S7)) (spc c p) (running c p - {i}) c" by (simp add: set_conf_def)
  ultimately show ?thesis using u cd(1) unfolding spccHandleReqDrop_def Let_def by auto
qed

text \<open>A step that only counts and keeps what the sender and the books see of the session.\<close>

lemma neutral_step:
  assumes ok: "ok c" and p: "sess (sys c) p = Some s" and op: "\<not> Closed s" and cnt: "counts_only (ops (sys c)) os'"
    and s': "s' = s\<lparr>Conn := k, AvailSlots := av, Slots := sl\<rparr>" "slots_ok bits s'" "occupied s' = occupied s"
  shows "let c' = set_conf p (set_ops os' (put_sess p s' (sys c))) (spc c p) (running c p) c in ok c' \<and> (books_ok c \<longrightarrow> books_ok c')"
proof -
  note d = conf_okD [OF ok] and so = conf_okD(4) [OF ok p]
  have live: "spc c p \<noteq> SDone" using so op by (auto simp: sess_ok_def pc_ok_def)
  have so': "sess_ok B bits (spc c p) (running c p) s'"
    using so live s'(2,3) unfolding s'(1)
    by (cases "spc c p") (auto simp: sess_ok_def pc_ok_def spccSenderWaits_def link_ready_def)
  have "ok (set_conf p (set_ops os' (put_sess p s' (sys c))) (spc c p) (running c p) c)"
    by (rule conf_ok_neutral [OF ok p]) (use so' cnt in \<open>simp_all add: counts_only_def pend_def s'(1)\<close>)
  moreover have "books_ok (set_conf p (set_ops os' (put_sess p s' (sys c))) (spc c p) (running c p) c)" if "books_ok c"
    by (rule books_upd [OF that d(8) p])
      (use that cnt books_okD(2,4,5,6) [OF that] p op in \<open>auto simp: counts_only_def owed_def s'(1)\<close>)
  ultimately show ?thesis by (simp add: Let_def)
qed

lemma RecvCall_full:
  assumes ok: "ok c" and p: "sess (sys c) p = Some s" and op: "\<not> Closed s" and full: "\<not> card (occupied s) < 64"
    and pre: "count_in (ops (sys c)) = Some os2" and cnt: "counts_only (ops (sys c)) os2"
  shows "\<exists>r S' w'. spccRecvCall B (eRd E) (eCfg E) (eProcs E) pooled chdr p (sys c) w = Some (r, S', w') \<and>
     (let c' = set_conf p S' (spc c p) (running c p \<union> spawned r) c in ok c' \<and> (books_ok c \<longrightarrow> books_ok c'))"
proof -
  note so = conf_okD(4) [OF ok p]
  have sl: "slots_ok bits s" using so op by (auto simp: sess_ok_def pc_ok_def split: if_splits)
  have g: "spccGetSlot B pooled s = Some (- 1, s)"
    using occupied_card [OF sl] full by (intro GetSlot_full [OF sl]) simp
  obtain n err buf k where rd: "ReadFull (eRd E) (replicate (unat (cLen chdr)) 0) (Conn s) = Some (n, err, buf, k)"
    using ReadFull_total by blast
  have ctl2: "ctl_ok os2" using cnt by (simp add: counts_only_def)
  from CountDrop_total [OF ctl2, of "MicroExpId (ops (sys c))" w None] obtain os3 w1 where
    cd: "spccCountDrop (MicroExpId (ops (sys c))) os2 w None = Some (os3, w1)" "counts_only os2 os3" by blast
  let ?s = "s\<lparr>Conn := k\<rparr>"
  have e: "spccRecvCall B (eRd E) (eCfg E) (eProcs E) pooled chdr p (sys c) w =
      Some (RecvAgain, set_ops os3 (put_sess p ?s (sys c)), w1)"
    unfolding spccRecvCall_def p Option.bind.simps Let_def pre prod.case g using rd cd(1) by simp
  have "slots_ok bits ?s = slots_ok bits s" "occupied ?s = occupied s" by (rule slots_ok_cong occupied_cong; simp)+
  then have "let c' = set_conf p (set_ops os3 (put_sess p ?s (sys c))) (spc c p) (running c p) c in ok c' \<and> (books_ok c \<longrightarrow> books_ok c')"
    using sl by (intro neutral_step [OF ok p op counts_only_trans [OF cnt cd(2)], where k = k and av = "AvailSlots s" and sl = "Slots s"]) simp_all
  then show ?thesis using e by (simp add: spawned_def)
qed

lemma RecvCall_ioerr:
  assumes ok: "ok c" and p: "sess (sys c) p = Some s" and op: "\<not> Closed s"
    and pre: "count_in (ops (sys c)) = Some os2" and cnt: "counts_only (ops (sys c)) os2"
    and g: "spccGetSlot B pooled s = Some (int i, s\<lparr>AvailSlots := bmRemove B i (AvailSlots s), Slots := (Slots s)[i := Some x]\<rparr>)"
    and i: "i < 64" "i \<notin> occupied s"
    and sl1: "slots_ok bits (s\<lparr>AvailSlots := bmRemove B i (AvailSlots s), Slots := (Slots s)[i := Some x]\<rparr>)"
    and oc1: "occupied (s\<lparr>AvailSlots := bmRemove B i (AvailSlots s), Slots := (Slots s)[i := Some x]\<rparr>) = insert i (occupied s)"
    and rd: "ReadFull (eRd E) (take (unat (cLen chdr)) (ReqBuf (Cmn x))) (Conn s) = Some (n, Some err, buf, k)"
  shows "\<exists>r S' w'. spccRecvCall B (eRd E) (eCfg E) (eProcs E) pooled chdr p (sys c) w = Some (r, S', w') \<and>
     (let c' = set_conf p S' (spc c p) (running c p \<union> spawned r) c in ok c' \<and> (books_ok c \<longrightarrow> books_ok c'))"
proof -
  note so = conf_okD(4) [OF ok p]
  have sl: "slots_ok bits s" using so op by (auto simp: sess_ok_def pc_ok_def split: if_splits)
  let ?s1 = "s\<lparr>AvailSlots := bmRemove B i (AvailSlots s), Slots := (Slots s)[i := Some x]\<rparr>" and ?s2 = "s\<lparr>AvailSlots := bmRemove B i (AvailSlots s), Slots := (Slots s)[i := Some x], Conn := k\<rparr>"
  have at: "slot_at ?s1 (int i) = Some (Some x)" using i sl by (simp add: slot_at_def slots_ok_def)
  have "slots_ok bits ?s2" "occupied ?s2 = insert i (occupied s)" "i \<notin> bits (CompletedSlots ?s2)"
    using sl1 oc1 slots_ok_cong [of ?s2 ?s1 bits] occupied_cong [of ?s2 ?s1] sl i by (auto simp: slots_ok_def)
  with PutSlot_occupied [of ?s2 i] obtain s3 where
    ps: "spccPutSlot B ?s2 (int i) = Some s3"
      "s3 = ?s2\<lparr>Slots := (Slots ?s2)[i := None], AvailSlots := bmSet B i (AvailSlots ?s2)\<rparr>"
      "slots_ok bits s3" "occupied s3 = insert i (occupied s) - {i}" by auto
  have e: "spccRecvCall B (eRd E) (eCfg E) (eProcs E) pooled chdr p (sys c) w =
      Some (RecvRet (- 1), set_ops os2 (put_sess p s3 (sys c)), w)"
    unfolding spccRecvCall_def p Option.bind.simps Let_def pre prod.case g using at rd ps(1) by simp
  have "let c' = set_conf p (set_ops os2 (put_sess p s3 (sys c))) (spc c p) (running c p) c in ok c' \<and> (books_ok c \<longrightarrow> books_ok c')"
    by (rule neutral_step [OF ok p op cnt, where k = k and av = "AvailSlots s3" and sl = "Slots s3"]) (use ps i in auto)
  then show ?thesis using e by (simp add: spawned_def)
qed

lemma RecvCall_accept:
  assumes ok: "ok c" and p: "sess (sys c) p = Some s" and op: "\<not> Closed s"
    and dem: "uint (cDemand chdr) < 2 ^ 60" and len: "unat (cLen chdr) \<le> SrpcBufSize"
    and pool: "pooled_ok pooled" and w: "procs_ok (eProcs E) w"
    and pre: "count_in (ops (sys c)) = Some os2" and cnt: "counts_only (ops (sys c)) os2"
    and g: "spccGetSlot B pooled s = Some (int i, s\<lparr>AvailSlots := bmRemove B i (AvailSlots s), Slots := (Slots s)[i := Some x]\<rparr>)"
    and i: "i < 64" "i \<notin> occupied s"
    and x: "x = pooled\<lparr>Cmn := (Cmn pooled)\<lparr>Idx := int i, DsCredit := 0, Drop := False\<rparr>\<rparr>"
    and rd: "ReadFull (eRd E) (take (unat (cLen chdr)) (ReqBuf (Cmn x))) (Conn s) = Some (n, None, buf, k)"
      "length buf = length (take (unat (cLen chdr)) (ReqBuf (Cmn x)))"
  shows "\<exists>r S' w'. spccRecvCall B (eRd E) (eCfg E) (eProcs E) pooled chdr p (sys c) w = Some (r, S', w') \<and>
     (let c' = set_conf p S' (spc c p) (running c p \<union> spawned r) c in ok c' \<and> (books_ok c \<longrightarrow> books_ok c'))"
proof -
  note d = conf_okD [OF ok] and so = conf_okD(4) [OF ok p]
  note unf = spccRecvCall_def p Option.bind.simps Let_def pre prod.case
  have live: "spc c p \<noteq> SDone" using so op by (auto simp: sess_ok_def pc_ok_def)
  have len64: "length (Slots s) = 64" using so live by (simp add: sess_ok_def slots_ok_def)
  let ?os = "ops (sys c)" and ?m = "MicroExpId (ops (sys c))"
  let ?s1 = "s\<lparr>AvailSlots := bmRemove B i (AvailSlots s), Slots := (Slots s)[i := Some x]\<rparr>"
  have at: "slot_at ?s1 (int i) = Some (Some x)" using i len64 by (simp add: slot_at_def)
  define y where "y = x\<lparr>Cmn := (Cmn x)\<lparr>ReqBuf := buf @ drop (unat (cLen chdr)) (ReqBuf (Cmn x)),
                    ReqLen := cLen chdr, RespLen := 0, CtxId := cId chdr\<rparr>,
                    TsSent := cTsSent chdr, Opaque := ?m\<rparr>"
  define s3 where "s3 = s\<lparr>Conn := k, AvailSlots := bmRemove B i (AvailSlots s), Slots := (Slots s)[i := Some y],
      Demand := cDemand chdr\<rparr>"
  have y: "ctx_ok i y" "ctx_ok i (y\<lparr>Cmn := (Cmn y)\<lparr>Drop := True\<rparr>\<rparr>)"
    using pool rd(2) len by (simp_all add: y_def x ctx_ok_def pooled_ok_def)
  have s3': "(?s1\<lparr>Conn := k\<rparr>)\<lparr>Slots := (Slots (?s1\<lparr>Conn := k\<rparr>))[nat (int i) := Some y], Demand := cDemand chdr\<rparr> = s3"
    by (simp add: s3_def)
  from RecvCall_free_ok [OF ok p op dem i cnt y(1) s3_def bits_remove] obtain os4 s4 os5 s5 where
    r: "spccRemoveFromDrainedList p os2 s3 = Some (os4, s4)"
      "spccClipCredit os4 (s4\<lparr>NumPending := iadd (NumPending s4) 1\<rparr>) = (os5, s5)"
      "gCreditUsed os5 = gCreditUsed ?os + i2u (Credit s5 - Credit s)" "\<not> IsLinked s5" "Credit s5 \<le> Credit s"
      "0 \<le> Credit s \<longrightarrow> 0 \<le> Credit s5" "gCreditPool os5 = gCreditPool ?os" "OrigCp os5 = OrigCp ?os"
      "ok (set_conf p (set_ops (os5\<lparr>gNumPending := gNumPending os5 + 1\<rparr>) (put_sess p s5 (sys c)))
          (spc c p) (insert i (running c p)) c)" by blast
  let ?S6 = "set_ops (os5\<lparr>gNumPending := gNumPending os5 + 1\<rparr>) (put_sess p s5 (sys c))"
  let ?c6 = "set_conf p ?S6 (spc c p) (insert i (running c p)) c"
  have p6: "sess (sys ?c6) p = Some s5" by simp
  have cl5: "\<not> Closed s5"
    using r(1,2) op by (auto simp: spccRemoveFromDrainedList_def spccClipCredit_def Let_def s3_def
        bind_eq_Some_conv split: if_splits)
  have b6: "books_ok ?c6" if b: "books_ok c"
    by (rule books_upd [OF b d(8) p])
      (use r(3-8) books_okD(4,5) [OF b p] op cl5 in \<open>simp_all add: owed_def\<close>)
  show ?thesis
  proof (cases "QueueDelayMax_of w div 1000 \<ge> QdelayBudget (eCfg E)")
    case False
    have "spccRecvCall B (eRd E) (eCfg E) (eProcs E) pooled chdr p (sys c) w =
        Some (RecvSpawn i, ?S6, step_world w)"
      unfolding unf g using at rd(1) s3' r(1,2) False by (simp add: y_def [symmetric] del: nat_int)
    then show ?thesis using r(9) b6 by (simp add: spawned_def)
  next
    case True
    have ir: "i \<in> running ?c6 p" by simp
    have w1: "procs_ok (eProcs E) (step_world w)" using w by simp
    let ?z = "y\<lparr>Cmn := (Cmn y)\<lparr>Drop := True\<rparr>\<rparr>"
    from Drop_ok [OF r(9) p6 r(4) ir w1 y(2), of "QueueDelayMax_of w div 1000" ?m] obtain S7 w2 os8 w3 where
      dr: "spccHandleReqDrop (eCfg E) (eProcs E) (QueueDelayMax_of w div 1000) ?S6 (step_world w) = Some (S7, w2)"
        "sess S7 p = Some s5" "spccCountDrop ?m (ops S7) w2 (Some (QueueDelayMax_of w div 1000)) = Some (os8, w3)"
        "let c' = set_conf p (set_ops os8 (put_sess p (complete_slot B (int i) (s5\<lparr>Slots := (Slots s5)[i := Some ?z]\<rparr>)) S7))
             (spc ?c6 p) (running ?c6 p - {i}) ?c6
         in ok c' \<and> (books_ok ?c6 \<longrightarrow> books_ok c')" by auto
    have e: "spccRecvCall B (eRd E) (eCfg E) (eProcs E) pooled chdr p (sys c) w = Some (RecvAgain,
        set_ops os8 (put_sess p (complete_slot B (int i) (s5\<lparr>Slots := (Slots s5)[i := Some ?z]\<rparr>)) S7), w3)"
      unfolding unf g using at rd(1) s3' r(1,2) True dr(1-3)
      by (simp add: y_def [symmetric]) (simp add: y_def)
    have "i \<notin> running c p" using so live i by (auto simp: sess_ok_def)
    then have "insert i (running c p) - {i} = running c p" by auto
    then show ?thesis using e dr(4) b6 by (simp add: set_conf_twice spawned_def Let_def)
  qed
qed

lemma RecvCall_ok:
  assumes ok: "ok c" and p: "sess (sys c) p = Some s" and op: "\<not> Closed s"
    and dem: "uint (cDemand chdr) < 2 ^ 60" and len: "unat (cLen chdr) \<le> SrpcBufSize"
    and pool: "pooled_ok pooled" and w: "procs_ok (eProcs E) w"
  shows "\<exists>r S' w'. spccRecvCall B (eRd E) (eCfg E) (eProcs E) pooled chdr p (sys c) w = Some (r, S', w') \<and>
     (let c' = set_conf p S' (spc c p) (running c p \<union> spawned r) c in ok c' \<and> (books_ok c \<longrightarrow> books_ok c'))"
proof -
  have sl: "slots_ok bits s" using conf_okD(4) [OF ok p] op by (auto simp: sess_ok_def pc_ok_def split: if_splits)
  from count_in_total [OF conf_okD(3) [OF ok]] obtain os2 where
    c: "count_in (ops (sys c)) = Some os2" "counts_only (ops (sys c)) os2" by blast
  show ?thesis
  proof (cases "card (occupied s) < 64")
    case False
    then show ?thesis by (rule RecvCall_full [OF ok p op _ c])
  next
    case True
    from GetSlot_free [OF sl True pool] obtain i x where
      g: "spccGetSlot B pooled s = Some (int i, s\<lparr>AvailSlots := bmRemove B i (AvailSlots s), Slots := (Slots s)[i := Some x]\<rparr>)"
      "i < 64" "i \<notin> occupied s"
      and x: "x = pooled\<lparr>Cmn := (Cmn pooled)\<lparr>Idx := int i, DsCredit := 0, Drop := False\<rparr>\<rparr>"
      and s1: "slots_ok bits (s\<lparr>AvailSlots := bmRemove B i (AvailSlots s), Slots := (Slots s)[i := Some x]\<rparr>)"
        "occupied (s\<lparr>AvailSlots := bmRemove B i (AvailSlots s), Slots := (Slots s)[i := Some x]\<rparr>) = insert i (occupied s)"
      by blast
    obtain n err buf k where
      rd: "ReadFull (eRd E) (take (unat (cLen chdr)) (ReqBuf (Cmn x))) (Conn s) = Some (n, err, buf, k)"
      "length buf = length (take (unat (cLen chdr)) (ReqBuf (Cmn x)))"
      using ReadFull_total by blast
    show ?thesis
    proof (cases err)
      case None
      then show ?thesis using RecvCall_accept [OF ok p op dem len pool w c g x] rd by blast
    next
      case (Some e)
      then show ?thesis using RecvCall_ioerr [OF ok p op c g s1] rd by blast
    qed
  qed
qed

end

section \<open>Every step keeps the books\<close>

lemma credit_sum_bounds:
  assumes b: "books_ok c" and fin: "finite (dom (sess (sys c)))"
  shows "0 \<le> credit_sum (sys c)" "credit_sum (sys c) \<le> 63 * int (card (dom (sess (sys c))))"
proof -
  have o: "0 \<le> owed (the (sess (sys c) p)) \<and> owed (the (sess (sys c) p)) \<le> 63" if "p \<in> dom (sess (sys c))" for p
    using that books_okD(4,5) [OF b, of p] by (auto simp: owed_def)
  show "0 \<le> credit_sum (sys c)" unfolding credit_sum_def using o by (intro sum_nonneg) auto
  have "credit_sum (sys c) \<le> of_nat (card (dom (sess (sys c)))) * 63"
    unfolding credit_sum_def using o by (intro sum_bounded_above) auto
  then show "credit_sum (sys c) \<le> 63 * int (card (dom (sess (sys c))))" by simp
qed

lemma used_is_sum:
  assumes ok: "conf_ok B bits procs c" and b: "books_ok c"
  shows "uint (gCreditUsed (ops (sys c))) = credit_sum (sys c)" "credit_sum (sys c) < 2 ^ 60"
proof -
  note d = conf_okD [OF ok] and s = credit_sum_bounds [OF b conf_okD(8) [OF ok]]
  show lt: "credit_sum (sys c) < 2 ^ 60" using s(2) d(6) by (simp add: max_sessions_def)
  have "gCreditUsed (ops (sys c)) = word_of_int (credit_sum (sys c))"
    using books_okD(1) [OF b] by (simp add: credits_ok_def i2u_def)
  then show "uint (gCreditUsed (ops (sys c))) = credit_sum (sys c)"
    using s(1) lt by (simp add: uint_word_of_int)
qed

context pcc_server begin

lemma counters_hold:
  assumes ok: "ok c" and b: "books_ok c" and p: "sess (sys c) p = Some s" "\<not> Closed s"
  shows "counters_ok (ops (sys c))"
proof -
  have "unat (gCreditPool (ops (sys c))) \<le> 2 ^ 57" using books_okD(3) [OF b] by (simp add: pool_le_def)
  then have "int (unat (gCreditPool (ops (sys c)))) \<le> int (2 ^ 57)" by (simp only: of_nat_le_iff)
  then have "uint (gCreditPool (ops (sys c))) < 2 ^ 60" by simp
  then show ?thesis using used_is_sum [OF ok b] num_sess_pos [OF ok p] by (simp add: counters_ok_def)
qed

lemma Collect_books:
  assumes ok: "ok c" and b: "books_ok c" and p: "sess (sys c) p = Some s" and op: "\<not> Closed s"
    and r: "spccSenderCollect B (eProcs E) p now (ops (sys c)) s = Some (os', s', v)"
  shows "books_ok (set_conf p (set_ops os' (put_sess p s' (sys c))) (SSend v) (running c p) c)"
proof -
  from Collect_spec [OF ok p op, of now] r obtain h nd st cr co il dp adv ts where
    os': "os' = (ops (sys c))\<lparr>Drained := h, gNumDrained := nd,
        gCreditUsed := gCreditUsed (ops (sys c)) + i2u (cr - Credit s), StatCreditTx := st\<rparr>"
    and s': "s' = collected bits s co il dp cr adv ts"
    and cb: "counters_ok (ops (sys c)) \<and> 0 \<le> Credit s \<and> Credit s \<le> 63 \<longrightarrow> 0 \<le> cr \<and> cr \<le> 63"
    by (simp only: option.inject prod.inject) blast
  show ?thesis
    by (rule books_upd [OF b conf_okD(8) [OF ok] p])
      (use cb counters_hold [OF ok b p op] books_okD(4,5) [OF b p] op in \<open>simp_all add: os' s' collected_def owed_def\<close>)
qed

lemma Send_books:
  assumes ok: "ok c" and b: "books_ok c" and p: "sess (sys c) p = Some s" and pc: "spc c p = SSend v"
    and r: "spccSenderSend B (eWr E) (ePad E) v (ops (sys c)) s = Some (r, os', s')"
  shows "books_ok (set_conf p (set_ops os' (put_sess p s' (sys c))) pc' (running c p) c)"
proof -
  have op: "\<not> Closed s" using books_okD(6) [OF b p] pc by (simp add: between_sections_def)
  from Send_total [OF ok p pc] r obtain k n m sl av where
    os': "os' = (ops (sys c))\<lparr>gNumPending := gNumPending (ops (sys c)) - of_nat (card (bits (vTmp v))),
              StatRespTx := StatRespTx (ops (sys c)) + of_nat n, StatECreditTx := StatECreditTx (ops (sys c)) + of_nat m\<rparr>"
    and s': "s' = s\<lparr>Conn := k, Slots := sl, AvailSlots := av\<rparr>"
    by (simp only: option.inject prod.inject) blast
  show ?thesis
    by (rule books_upd [OF b conf_okD(8) [OF ok] p])
      (use books_okD(4,5) [OF b p] op in \<open>simp_all add: os' s' owed_def\<close>)
qed

lemma LinkDrained_fields:
  assumes "spccLinkDrained high q p os s = Some (os', s')"
  shows "gCreditUsed os' = gCreditUsed os" "gCreditPool os' = gCreditPool os" "OrigCp os' = OrigCp os"
    "Credit s' = Credit s" "Closed s' = Closed s"
  using assms by (auto simp: spccLinkDrained_def bind_eq_Some_conv split: if_splits)

lemma Link_books:
  assumes ok: "ok c" and b: "books_ok c" and p: "sess (sys c) p = Some s" and pc: "spc c p = SLink v"
    and r: "spccSenderLink B q p v (ops (sys c)) s = Some (os', s')"
  shows "books_ok (set_conf p (set_ops os' (put_sess p s' (sys c))) SCheck (running c p) c)"
proof -
  have op: "\<not> Closed s" using books_okD(6) [OF b p] pc by (simp add: between_sections_def)
  have "gCreditUsed os' = gCreditUsed (ops (sys c))" "gCreditPool os' = gCreditPool (ops (sys c))"
    "OrigCp os' = OrigCp (ops (sys c))" "Credit s' = Credit s" "Closed s' = Closed s"
    using r LinkDrained_fields [of "0 < Demand s" q p "ops (sys c)" s os' s']
    by (auto simp: spccSenderLink_def split: if_splits)
  then show ?thesis using books_okD(4,5) [OF b p] op
    by (intro books_upd [OF b conf_okD(8) [OF ok] p]) (simp_all add: owed_def)
qed

lemma RemoveFromDrained_fields:
  assumes "spccRemoveFromDrainedList p os s = Some (os', s')"
  shows "gCreditUsed os' = gCreditUsed os" "gCreditPool os' = gCreditPool os" "OrigCp os' = OrigCp os"
    "Credit s' = Credit s" "Closed s' = Closed s" "IsLinked s' \<Longrightarrow> IsLinked s"
  using assms by (auto simp: spccRemoveFromDrainedList_def bind_eq_Some_conv split: if_splits)

lemma put_all_fields:
  assumes "put_all_slots B is s = Some s'"
  shows "Credit s' = Credit s \<and> Closed s' = Closed s \<and> IsLinked s' = IsLinked s"
  using assms
proof (induction "is" arbitrary: s)
  case (Cons i rest)
  then obtain s1 where s1: "put_all_slots B rest s1 = Some s'" "s1 = s \<or> spccPutSlot B s (int i) = Some s1"
    by (auto simp: bind_eq_Some_conv split: if_splits)
  then show ?case using Cons.IH [OF s1(1)] by (auto simp: spccPutSlot_def bind_eq_Some_conv)
qed simp

lemma Exit_books:
  assumes ok: "ok c" and b: "books_ok c" and p: "sess (sys c) p = Some s" and cl: "Closed s"
    and r: "spccSenderExit B p (ops (sys c)) s = Some (os', s')"
  shows "books_ok (set_conf p (set_ops os' (put_sess p s' (sys c))) SDone (running c p) c)"
proof -
  from r obtain s1 s2 where x: "spccRemoveFromDrainedList p (ops (sys c)) s = Some (os', s1)"
    "put_all_slots B [0..<SpccMaxWindow] s1 = Some s2" "s' = s2\<lparr>SendDone := True\<rparr>"
    by (auto simp: spccSenderExit_def bind_eq_Some_conv)
  note f = RemoveFromDrained_fields [OF x(1)] put_all_fields [OF x(2)]
  have "\<not> IsLinked s" using books_okD(2) [OF b] p cl by (auto simp: linked_open_def)
  then show ?thesis using f x(3) books_okD(4,5) [OF b p] cl
    by (intro books_upd [OF b conf_okD(8) [OF ok] p]) (auto simp: owed_def between_sections_def)
qed

lemma Wait_books:
  assumes ok: "ok c" and b: "books_ok c" and p: "sess (sys c) p = Some s"
    and s': "Credit s' = Credit s" "Closed s' = Closed s" "IsLinked s' = IsLinked s" and pc: "\<not> between_sections pc"
  shows "books_ok (set_conf p (put_sess p s' (sys c)) pc run c)"
proof -
  have "books_ok (set_conf p (set_ops (ops (sys c)) (put_sess p s' (sys c))) pc run c)"
    using s' books_okD(4,5) [OF b p] books_okD(2) [OF b] p pc
    by (intro books_upd [OF b conf_okD(8) [OF ok] p]) (auto simp: owed_def linked_open_def)
  then show ?thesis by (simp add: set_ops_def put_sess_def)
qed

lemma Close_books:
  assumes ok: "ok c" and b: "books_ok c" and p: "sess (sys c) p = Some s" and op: "\<not> Closed s"
    and q: "\<not> between_sections (spc c p)" and r: "spccServer_close p (sys c) = Some S'"
  shows "books_ok (set_conf p S' (spc c p) (running c p) c)"
proof -
  from Close_ok [OF ok p op] r obtain os' s' where
    x: "S' = set_ops os' (put_sess p s' (sys c))" "gCreditUsed os' = gCreditUsed (ops (sys c)) - i2u (Credit s)"
      "Closed s'" "\<not> IsLinked s'" "gCreditPool os' = gCreditPool (ops (sys c))" "Credit s' = Credit s" by auto
  have "OrigCp os' = OrigCp (ops (sys c))"
  proof -
    have "OrigCp (ops S') = OrigCp (ops (sys c))"
      using r p RemoveFromDrained_fields(3) by (auto simp: spccServer_close_def bind_eq_Some_conv split: if_splits)
    then show ?thesis using x(1) by simp
  qed
  then show ?thesis unfolding x(1) using x(2-6) books_okD(4,5) [OF b p] op q
    by (intro books_upd [OF b conf_okD(8) [OF ok] p]) (simp_all add: owed_def i2u_def)
qed

lemma Finish_books:
  assumes ok: "ok c" and b: "books_ok c" and p: "sess (sys c) p = Some s" and pc: "spc c p = SDone"
  shows "books_ok (set_conf p (spccServer_finish (eProcs E) p (sys c)) SCheck {} c)"
proof -
  note d = conf_okD [OF ok] and so = conf_okD(4) [OF ok p] and bd = books_okD [OF b]
  have cl: "Closed s" using so pc by (simp add: sess_ok_def pc_ok_def)
  let ?S = "spccServer_finish (eProcs E) p (sys c)"
  have se: "sess ?S = (sess (sys c))(p := None)" by (simp add: spccServer_finish_def Let_def)
  have pd: "p \<in> dom (sess (sys c))" using p by auto
  have "credit_sum (sys c) = owed s + (\<Sum>q\<in>dom (sess (sys c)) - {p}. owed (the (sess (sys c) q)))"
    unfolding credit_sum_def using sum.remove [OF d(8) pd, of "\<lambda>q. owed (the (sess (sys c) q))"] p by simp
  also have "(\<Sum>q\<in>dom (sess (sys c)) - {p}. owed (the (sess (sys c) q))) = credit_sum ?S"
    unfolding credit_sum_def se by (intro sum.cong) auto
  finally have cs: "credit_sum ?S = credit_sum (sys c)" using cl by (simp add: owed_def)
  have "credits_ok ?S"
  proof (cases "gNumSess (ops (sys c)) = 0")
    case True
    have "open_sessions (sys c) \<subseteq> dom (sess (sys c))" by (auto simp: open_sessions_def)
    from card_mono [OF d(8) this] have "card (open_sessions (sys c)) < 2 ^ 64" using d(6) by (simp add: max_sessions_def)
    from unat_of_nat_64 [OF this] have "card (open_sessions (sys c)) = 0" using True d(5) by simp
    then have "open_sessions (sys c) = {}" using open_finite [OF d(8)] by simp
    then have "credit_sum (sys c) = 0"
      unfolding credit_sum_def by (intro sum.neutral) (auto simp: owed_def open_sessions_def)
    then show ?thesis using True cs by (simp add: credits_ok_def spccServer_finish_def Let_def)
  next
    case False
    then show ?thesis using bd(1) cs by (simp add: credits_ok_def spccServer_finish_def Let_def)
  qed
  moreover have "pool_le (ops ?S)"
    using bd(3) procs_max by (simp add: pool_le_def spccServer_finish_def Let_def unat_of_nat_64 SpccMaxProcs_def)
  ultimately show ?thesis using bd(2,4,5,6)
    by (auto simp: books_ok_def set_conf_def se linked_open_def between_sections_def split: if_splits)
qed

lemma Accept_books:
  assumes ok: "ok c" and b: "books_ok c" and p: "sess (sys c) p = None"
  shows "books_ok (set_conf p (spccServer_open B p k (sys c)) SCheck {} c)"
proof -
  note d = conf_okD [OF ok] and bd = books_okD [OF b]
  let ?S = "spccServer_open B p k (sys c)"
  obtain s where se: "sess ?S = (sess (sys c))(p \<mapsto> s)"
    and s: "Credit s = 0" "\<not> IsLinked s" "\<not> Closed s"
    by (simp add: spccServer_open_def Let_def spccNewSession_def)
  have pn: "p \<notin> dom (sess (sys c))" using p by auto
  have "credit_sum ?S = owed s + (\<Sum>q\<in>dom (sess (sys c)). owed (the (sess ?S q)))"
    unfolding credit_sum_def se using d(8) pn by simp
  also have "(\<Sum>q\<in>dom (sess (sys c)). owed (the (sess ?S q))) = credit_sum (sys c)"
    unfolding credit_sum_def se using pn by (intro sum.cong) auto
  finally have "credit_sum ?S = credit_sum (sys c)" using s by (simp add: owed_def)
  then have "credits_ok ?S" using bd(1) by (simp add: credits_ok_def spccServer_open_def Let_def)
  moreover have "pool_le (ops ?S)" using bd(3) by (simp add: pool_le_def spccServer_open_def Let_def)
  ultimately show ?thesis using bd(2,4,5,6) s
    by (auto simp: books_ok_def set_conf_def se linked_open_def between_sections_def split: if_splits)
qed

lemma Work_books:
  assumes ok: "ok c" and b: "books_ok c" and p: "sess (sys c) p = Some s" and i: "i \<in> running c p"
    and w: "procs_ok (eProcs E) w"
    and r: "spccWorker B (eCfg E) (eProcs E) (eHandler E) p i (sys c) w = Some (S', w')"
  shows "books_ok (set_conf p S' (spc c p) (running c p - {i}) c)"
proof -
  note d = conf_okD [OF ok]
  from r p obtain x os w1 S2 w2 s2 where
    wc: "spccWorkerCount (Opaque x) (Drop (eHandler E ((Cmn x)\<lparr>Drop := False\<rparr>)))
          (DsCredit (eHandler E ((Cmn x)\<lparr>Drop := False\<rparr>))) (ops (sys c)) w = Some (os, w1)"
    and u: "spccUpdateCreditPool (eCfg E) (eProcs E)
       (set_ops os (put_sess p (s\<lparr>Slots := (Slots s)[i := Some (x\<lparr>Cmn := eHandler E ((Cmn x)\<lparr>Drop := False\<rparr>)\<rparr>)]\<rparr>) (sys c))) w1
         = Some (S2, w2)" "sess S2 p = Some s2"
    and S': "S' = put_sess p (complete_slot B (Idx (eHandler E ((Cmn x)\<lparr>Drop := False\<rparr>))) s2) S2"
    and at: "slot_at s (int i) = Some (Some x)"
    by (auto simp: spccWorker_def Let_def bind_eq_Some_conv)
  let ?x = "x\<lparr>Cmn := eHandler E ((Cmn x)\<lparr>Drop := False\<rparr>)\<rparr>" let ?s1 = "s\<lparr>Slots := (Slots s)[i := Some ?x]\<rparr>"
  from WorkerCount_total [OF d(3)] obtain os' w1' where
    "spccWorkerCount (Opaque x) (Drop (eHandler E ((Cmn x)\<lparr>Drop := False\<rparr>)))
          (DsCredit (eHandler E ((Cmn x)\<lparr>Drop := False\<rparr>))) (ops (sys c)) w = Some (os', w1')"
    "counts_only (ops (sys c)) os'" "\<forall>n. procs_ok n w1' = procs_ok n w" by blast
  with wc w have cn: "counts_only (ops (sys c)) os" "procs_ok (eProcs E) w1" by simp_all
  have so: "sess_ok B bits (spc c p) (running c p) s" by (rule d(4) [OF p])
  have nd: "spc c p \<noteq> SDone" using so i by (auto simp: sess_ok_def)
  have "ctx_ok i x" using so nd at by (auto simp: sess_ok_def slots_ok_def slot_at_def split: if_splits)
  then have "cmn_ok i ((Cmn x)\<lparr>Drop := False\<rparr>)" by (simp add: ctx_ok_cmn cmn_ok_def)
  then have "ctx_ok i ?x" using handler by (simp add: handler_ok_def ctx_ok_cmn)
  from sess_ok_slot [OF so i this] have so1: "sess_ok B bits (spc c p) (running c p) ?s1" .
  let ?c1 = "set_conf p (set_ops os (put_sess p ?s1 (sys c))) (spc c p) (running c p) c"
  have ok1: "ok ?c1"
    by (rule conf_ok_neutral [OF ok p]) (use cn so1 in \<open>simp_all add: counts_only_def pend_def\<close>)
  have b1: "books_ok ?c1"
    by (rule books_upd [OF b d(8) p])
      (use cn books_okD(2,4,5,6) [OF b] p in \<open>auto simp: counts_only_def owed_def linked_open_def\<close>)
  have p1: "sess (sys ?c1) p = Some ?s1" by simp
  from pool_books [OF ok1 cn(2) p1] u(1) b1 have ok2: "ok (?c1\<lparr>sys := S2\<rparr>)" and b2: "books_ok (?c1\<lparr>sys := S2\<rparr>)"
    by auto
  let ?c2 = "?c1\<lparr>sys := S2\<rparr>"
  have p2: "sess (sys ?c2) p = Some s2" using u(2) by simp
  have "books_ok (set_conf p (set_ops (ops (sys ?c2)) (put_sess p
      (complete_slot B (Idx (eHandler E ((Cmn x)\<lparr>Drop := False\<rparr>))) s2) (sys ?c2))) (spc c p) (running c p - {i}) ?c2)"
    by (rule books_upd [OF b2 conf_okD(8) [OF ok2] p2])
      (use books_okD(2,4,5,6) [OF b2] p2 in \<open>auto simp: complete_slot_def owed_def linked_open_def set_conf_def\<close>)
  moreover have "set_conf p (set_ops (ops (sys ?c2)) (put_sess p
      (complete_slot B (Idx (eHandler E ((Cmn x)\<lparr>Drop := False\<rparr>))) s2) (sys ?c2))) (spc c p) (running c p - {i}) ?c2 =
      set_conf p S' (spc c p) (running c p - {i}) c"
    unfolding S' by (simp add: set_conf_def set_ops_def put_sess_def)
  ultimately show ?thesis by simp
qed

end

lemma start_books:
  assumes "procs \<le> SpccMaxProcs"
  shows "books_ok (spcc_start procs w)"
  using assms
  by (simp add: books_ok_def spcc_start_def credits_ok_def credit_sum_def linked_open_def pool_le_def
      spccListener_init_def Let_def spccGenMicroExpDirs_def unat_of_nat_64 SpccMaxProcs_def)

section \<open>Reachable configurations\<close>

context pcc_server begin

lemma Conn_ok:
  assumes ok: "ok c" and p: "sess (sys c) p = Some s"
  shows "ok (set_conf p (put_sess p (s\<lparr>Conn := k\<rparr>) (sys c)) (spc c p) (running c p) c)"
proof -
  have so: "sess_ok B bits (spc c p) (running c p) s" by (rule conf_okD(4) [OF ok p])
  have "slots_ok bits (s\<lparr>Conn := k\<rparr>) = slots_ok bits s" "occupied (s\<lparr>Conn := k\<rparr>) = occupied s"
    by (rule slots_ok_cong occupied_cong; simp)+
  then have "sess_ok B bits (spc c p) (running c p) (s\<lparr>Conn := k\<rparr>)"
    using so by (cases "spc c p") (auto simp: sess_ok_def pc_ok_def spccSenderWaits_def link_ready_def)
  then have "ok (set_conf p (set_ops (ops (sys c)) (put_sess p (s\<lparr>Conn := k\<rparr>) (sys c))) (spc c p) (running c p) c)"
    using conf_okD(3) [OF ok] by (intro conf_ok_neutral [OF ok p]) (simp_all add: pend_def)
  then show ?thesis by (simp add: same_put)
qed

lemma Conn_books:
  assumes ok: "ok c" and b: "books_ok c" and p: "sess (sys c) p = Some s" and op: "\<not> Closed s"
  shows "books_ok (set_conf p (put_sess p (s\<lparr>Conn := k\<rparr>) (sys c)) (spc c p) (running c p) c)"
proof -
  have "books_ok (set_conf p (set_ops (ops (sys c)) (put_sess p (s\<lparr>Conn := k\<rparr>) (sys c))) (spc c p) (running c p) c)"
    by (rule books_upd [OF b conf_okD(8) [OF ok] p])
      (use books_okD(4,5) [OF b p] op in \<open>auto simp: owed_def\<close>)
  then show ?thesis by (simp add: same_put)
qed

lemma RecvHdr_len: "spccRecvHdr rd k = Some (Some chdr, k') \<Longrightarrow> unat (cLen chdr) \<le> SrpcBufSize"
  by (auto simp: spccRecvHdr_def Let_def bind_eq_Some_conv split: if_splits)

lemma Receive_ok:
  assumes ok: "ok c" and p: "sess (sys c) p = Some s" and op: "\<not> Closed s"
    and h: "spccRecvHdr (eRd E) (Conn s) = Some (Some chdr, k)" and m: "client_msg_ok chdr"
    and pool: "pooled_ok pooled" and w: "procs_ok (eProcs E) w"
  shows "\<exists>r S' w'. spccRecvMsg B (eRd E) (eCfg E) (eProcs E) pooled chdr p (put_sess p (s\<lparr>Conn := k\<rparr>) (sys c)) w
       = Some (r, S', w') \<and>
     (let c' = set_conf p S' (spc c p) (running c p \<union> spawned r) c in ok c' \<and> (books_ok c \<longrightarrow> books_ok c'))"
proof -
  let ?s = "s\<lparr>Conn := k\<rparr>" let ?c = "set_conf p (put_sess p (s\<lparr>Conn := k\<rparr>) (sys c)) (spc c p) (running c p) c"
  have ok': "ok ?c" by (rule Conn_ok [OF ok p])
  have b': "books_ok c \<Longrightarrow> books_ok ?c" by (rule Conn_books [OF ok _ p op])
  have p': "sess (sys ?c) p = Some ?s" by simp
  have op': "\<not> Closed ?s" using op by simp
  have dem: "uint (cDemand chdr) < 2 ^ 60" using m by (simp add: client_msg_ok_def)
  consider "cOp chdr = PccOpCall" | "cOp chdr = PccOpCredit" "cOp chdr \<noteq> PccOpCall"
    | "cOp chdr \<noteq> PccOpCredit" "cOp chdr \<noteq> PccOpCall" by blast
  then show ?thesis
  proof cases
    case 1
    from RecvCall_ok [OF ok' p' op' dem RecvHdr_len [OF h] pool w] 1 b' show ?thesis
      by (simp add: spccRecvMsg_def set_conf_twice Let_def) blast
  next
    case 2
    then have "cDemand chdr \<noteq> 0" using m by (simp add: client_msg_ok_def)
    from RecvCredit_ok [OF ok' p' op' dem this, of w] obtain r S' where
      "spccRecvCredit chdr p (sys ?c) w = Some (r, S', w)" "spawned r = {}"
      "ok (set_conf p S' (spc ?c p) (running ?c p) ?c)"
      "books_ok ?c \<longrightarrow> books_ok (set_conf p S' (spc ?c p) (running ?c p) ?c)" by blast
    then show ?thesis using 2 b' by (simp add: spccRecvMsg_def set_conf_twice)
  next
    case 3
    then show ?thesis using ok' b' by (simp add: spccRecvMsg_def spawned_def)
  qed
qed

lemma step_ok:
  assumes st: "spcc_step E quiet c c'" and ok: "ok c"
  shows "ok c' \<and> (quiet \<longrightarrow> books_ok c \<longrightarrow> books_ok c')"
  using st
proof cases
  case (Accept p k)
  then show ?thesis using Accept_ok [OF ok] Accept_books [OF ok] by simp
next
  case (Receive p s chdr k pooled w r S' w')
  then show ?thesis using Receive_ok [OF ok Receive(2-7)] by (simp add: Let_def)
next
  case (Work p s i w S' w')
  then show ?thesis using Work_ok [OF ok Work(2-4)] Work_books [OF ok _ Work(2-5)] by auto
next
  case (Wait p s)
  then show ?thesis using Wait_ok [OF ok Wait(2-4)] Wait_books [OF ok _ Wait(2), of "s\<lparr>Signalled := False\<rparr>" SWait]
    by (simp add: between_sections_def)
next
  case (Wake p s)
  have "put_sess p s (sys c) = sys c" using Wake by (simp add: put_sess_def fun_upd_idem)
  then show ?thesis using Wake Wake_ok [OF ok Wake(2), of SCheck] Wait_books [OF ok _ Wake(2), of s SCheck]
    by (simp add: between_sections_def)
next
  case (Leave p s)
  have "put_sess p s (sys c) = sys c" using Leave by (simp add: put_sess_def fun_upd_idem)
  then show ?thesis using Leave Wake_ok [OF ok Leave(2), of SDrain] Wait_books [OF ok _ Leave(2), of s SDrain]
    by (simp add: between_sections_def)
next
  case (Collect p s now os' s' v)
  then show ?thesis using Collect_ok [OF ok Collect(2,3,5,6)] Collect_books [OF ok _ Collect(2,5,6)] by simp
next
  case (Send p s v r os' s' pc')
  then show ?thesis using Send_ok [OF ok Send(2-5)] Send_books [OF ok _ Send(2-4)] by simp
next
  case (LinkStep p s v procId os' s')
  then show ?thesis using Link_ok [OF ok LinkStep(2-4)] Link_books [OF ok _ LinkStep(2,3,5)] by auto
next
  case (Exit p s os' s')
  then have "Closed s" by (simp add: spccSenderDrainWaits_def)
  then show ?thesis using Exit Exit_ok [OF ok Exit(2-4)] Exit_books [OF ok _ Exit(2) _ Exit(5)] by auto
next
  case (CloseStep p s S')
  then show ?thesis using Close_ok [OF ok CloseStep(2,3)] Close_books [OF ok _ CloseStep(2,3) _ CloseStep(5)] by auto
next
  case (Finish p s)
  then show ?thesis using Finish_ok [OF ok Finish(2,3)] Finish_books [OF ok _ Finish(2,3)] by simp
qed

lemma reachable_ok:
  assumes "spcc_reachable E quiet c"
  shows "ok c \<and> (quiet \<longrightarrow> books_ok c)"
  using assms
proof induction
  case (start w)
  show ?case using start_ok start_books [OF procs_max] by blast
next
  case (step c c')
  then show ?case using step_ok [OF step.hyps(2)] by blast
qed

end

section \<open>The counters\<close>

lemma NumSess_exact:
  assumes ok: "conf_ok B bits procs c"
  shows "unat (gNumSess (ops (sys c))) = card (open_sessions (sys c))"
proof -
  note d = conf_okD [OF ok]
  have "open_sessions (sys c) \<subseteq> dom (sess (sys c))" by (auto simp: open_sessions_def)
  from card_mono [OF d(8) this] have "card (open_sessions (sys c)) < 2 ^ 64" using d(6) by (simp add: max_sessions_def)
  then show ?thesis unfolding d(5) by (rule unat_of_nat_64)
qed

context pcc_server begin

lemma pend_bounds:
  assumes so: "sess_ok B bits pc run s"
  shows "0 \<le> pend bits pc s" "pend bits pc s \<le> 128"
proof -
  note nb = NumPending_bounds [OF so]
  have "card (sending bits pc) \<le> 64"
  proof (cases "pc = SDone")
    case False
    then have sl: "slots_ok bits s" and sub: "sending bits pc \<subseteq> occupied s" using so by (auto simp: sess_ok_def)
    show ?thesis using card_mono [OF occupied_finite sub] occupied_card [OF sl] by simp
  qed (simp add: sending_def)
  then show "0 \<le> pend bits pc s" "pend bits pc s \<le> 128" using nb by (simp_all add: pend_def)
qed

lemma NumPending_exact:
  assumes ok: "ok c"
  shows "uint (gNumPending (ops (sys c))) = pend_sum bits c"
proof -
  note d = conf_okD [OF ok]
  have b: "0 \<le> pend bits (spc c p) (the (sess (sys c) p)) \<and> pend bits (spc c p) (the (sess (sys c) p)) \<le> 128"
    if "p \<in> dom (sess (sys c))" for p
    using that pend_bounds [OF d(4), of p] by auto
  have lo: "0 \<le> pend_sum bits c" unfolding pend_sum_def using b by (intro sum_nonneg) auto
  have "pend_sum bits c \<le> of_nat (card (dom (sess (sys c)))) * 128"
    unfolding pend_sum_def using b by (intro sum_bounded_above) auto
  then have "pend_sum bits c < 2 ^ 64" using d(6) by (simp add: max_sessions_def)
  then show ?thesis unfolding d(7) i2u_def using lo by (simp add: uint_word_of_int)
qed

end

text \<open>Once its workers are done, a closed session's sender can leave.\<close>

context pcc_server begin

lemma Drain_enabled:
  assumes ok: "ok c" and p: "sess (sys c) p = Some s" and pc: "spc c p = SDrain" and cl: "Closed s" and r: "running c p = {}"
  shows "\<not> spccSenderDrainWaits B s"
proof -
  have so: "sess_ok B bits SDrain {} s" using conf_okD(4) [OF ok p] pc r by simp
  then have av: "bits (AvailSlots s) = {i. i < 64} - bits (CompletedSlots s)"
    and oc: "occupied s = bits (CompletedSlots s)" and sub: "occupied s \<subseteq> {i. i < 64}"
    by (auto simp: sess_ok_def slots_ok_def sending_def occupied_def)
  have "card (bits (AvailSlots s)) = card {i. i < (64::nat)} - card (bits (CompletedSlots s))"
    unfolding av using sub oc by (intro card_Diff_subset) auto
  moreover have "card (bits (CompletedSlots s)) \<le> card {i. i < (64::nat)}" using sub oc by (intro card_mono) auto
  ultimately show ?thesis using cl by (simp add: spccSenderDrainWaits_def bits_count)
qed

end

end
