(* ===== verification/Netbench.thy ===== *)
theory Netbench
  imports Pcc_Invariant
begin

text \<open>
  The benchmark server's request handler, \<open>NetbenchReqHandler\<close> of
  \<open>src/apps/netbench/server/netbench_server.go\<close>, with the request and response layouts of
  \<open>src/apps/netbench/common/proto.go\<close>.  The synthetic work itself has no effect on the context, so
  it is represented by its duration; the outcome of the memory semaphore's \<open>TryWait\<close> is an
  argument.  The handler respects the contract \<open>handler_ok\<close> that the RPC servers rely on, so the
  locale \<open>pcc_server\<close> is interpreted on a server that runs it.
\<close>

record netbenchReq =
  nqMagic :: u64
  nqOpaque :: u64
  nqIsCpuBoundReq :: bool
  nqHash :: u64

record netbenchResp =
  npMagic :: u64
  npOpaque :: u64
  npWorkUs :: u64

definition NetbenchReqMagic :: u64 where "NetbenchReqMagic = 0xFEED"
definition NetbenchRespMagic :: u64 where "NetbenchRespMagic = 0xF00D"

definition NetbenchReq_size :: nat where "NetbenchReq_size = 32"
definition NetbenchResp_size :: nat where "NetbenchResp_size = 24"

definition NetbenchReq_of_bytes :: "byte list \<Rightarrow> netbenchReq" where
  "NetbenchReq_of_bytes bs = \<lparr>nqMagic = of_nat (field 0 8 bs), nqOpaque = of_nat (field 8 8 bs),
     nqIsCpuBoundReq = (bs ! 16 \<noteq> 0), nqHash = of_nat (field 24 8 bs)\<rparr>"

definition NetbenchResp_bytes :: "netbenchResp \<Rightarrow> byte list" where
  "NetbenchResp_bytes r =
     le_bytes 8 (unat (npMagic r)) @ le_bytes 8 (unat (npOpaque r)) @ le_bytes 8 (unat (npWorkUs r))"

definition NetbenchResp_of_bytes :: "byte list \<Rightarrow> netbenchResp" where
  "NetbenchResp_of_bytes bs = \<lparr>npMagic = of_nat (field 0 8 bs), npOpaque = of_nat (field 8 8 bs),
     npWorkUs = of_nat (field 16 8 bs)\<rparr>"

definition NetbenchReqHandler :: "bool \<Rightarrow> bool \<Rightarrow> u64 \<Rightarrow> srpcCtx \<Rightarrow> srpcCtx" where
  "NetbenchReqHandler useMsem tryWait workUs ctx = (
     let req = NetbenchReq_of_bytes (ReqBuf ctx) in
     if ReqLen ctx \<noteq> of_nat NetbenchReq_size then ctx
     else if nqMagic req \<noteq> NetbenchReqMagic then ctx
     else if \<not> nqIsCpuBoundReq req \<and> useMsem \<and> \<not> tryWait then ctx\<lparr>Drop := True\<rparr>
     else
       let resp = \<lparr>npMagic = NetbenchRespMagic, npOpaque = nqOpaque req, npWorkUs = workUs\<rparr>
       in ctx\<lparr>RespBuf := NetbenchResp_bytes resp @ drop NetbenchResp_size (RespBuf ctx),
              RespLen := of_nat NetbenchResp_size\<rparr>)"

lemma NetbenchResp_length [simp]: "length (NetbenchResp_bytes r) = 24"
  by (simp add: NetbenchResp_bytes_def)

lemma NetbenchResp_roundtrip: "NetbenchResp_of_bytes (NetbenchResp_bytes r @ rest) = r"
  by (simp add: NetbenchResp_of_bytes_def NetbenchResp_bytes_def field_def le_nat_u64
      del: le_nat.simps le_bytes.simps)

lemma NetbenchReqHandler_ok: "handler_ok (NetbenchReqHandler useMsem tryWait workUs)"
  by (auto simp: handler_ok_def cmn_ok_def NetbenchReqHandler_def Let_def NetbenchReq_size_def
      NetbenchResp_size_def SrpcBufSize_def)

definition netbench_env :: "spccCfg \<Rightarrow> (bool list, mem_conn) spccEnv" where
  "netbench_env cfg = \<lparr>eB = boolmap, eRd = mem_read, eWr = mem_write, ePad = replicate 7 0, eCfg = cfg,
     eProcs = 4, eHandler = NetbenchReqHandler False False 5\<rparr>"

interpretation nb: pcc_server "netbench_env cfg" bools written "\<lambda>c. concat (segments c)" for cfg
proof -
  have "credit_server boolmap bools mem_write written" by (rule cs.credit_server_axioms)
  moreover have "byte_stream mem_read (\<lambda>c. concat (segments c))" by (rule memr.byte_stream_axioms)
  ultimately show "pcc_server (netbench_env cfg) bools written (\<lambda>c. concat (segments c))"
    using NetbenchReqHandler_ok
    by (simp add: pcc_server_def pcc_server_axioms_def netbench_env_def SpccMaxProcs_def)
qed

end
