(* ===== verification/Pcc_Properties.thy ===== *)
theory Pcc_Properties
  imports Netbench
begin

text \<open>
  What theory \<open>Pcc_Invariant\<close> gives for Svalinn's server (\<open>src/ovldctlrpc/pcc/pcc_server.go\<close>),
  written out over the configurations the server can reach, for every behaviour of the connections, the
  handler and the environment that respects the contracts of the locale \<open>pcc_server\<close>.  The
  witnesses use the benchmark server of theory \<open>Netbench\<close>.
\<close>

section \<open>A small execution\<close>

definition demo_world :: world where
  "demo_world = \<lparr>clock = (\<lambda>n. of_nat n), qdelay = (\<lambda>_. 0), memacc = (\<lambda>_. 0), energy = (\<lambda>_. FFin 0),
     procid = (\<lambda>_. 0), coin = (\<lambda>_. True), trylock = (\<lambda>_. True), rndf = (\<lambda>_. FFin 0), rndnorm = (\<lambda>_. FFin 0), tick = 0\<rparr>"

definition demo_conn :: mem_conn where
  "demo_conn = \<lparr>segments = [], written = []\<rparr>"

definition demo_start :: "(bool list, mem_conn) spccConf" where
  "demo_start = spcc_start 4 demo_world"

definition demo_one :: "(bool list, mem_conn) spccConf" where
  "demo_one = set_conf 7 (spccServer_open boolmap 7 demo_conn (sys demo_start)) SCheck {} demo_start"

definition demo_session :: "(bool list, spccCtx, mem_conn) credSession" where
  "demo_session = spccNewSession boolmap demo_conn 1"

lemma netbench_env_fields [simp]:
  "eB (netbench_env cfg) = boolmap" "eProcs (netbench_env cfg) = 4" "eRd (netbench_env cfg) = mem_read"
  "eWr (netbench_env cfg) = mem_write" "eCfg (netbench_env cfg) = cfg"
  by (simp_all add: netbench_env_def)

lemma demo_start_reachable: "spcc_reachable (netbench_env cfg) quiet demo_start"
  using spcc_reachable.start [of "netbench_env cfg" quiet demo_world] by (simp add: demo_start_def)

lemma demo_start_empty [simp]: "sess (sys demo_start) = (\<lambda>_. None)"
  by (simp add: demo_start_def spcc_start_def)

lemma demo_one_reachable: "spcc_reachable (netbench_env cfg) quiet demo_one"
proof (rule spcc_reachable.step [OF demo_start_reachable])
  have "spcc_step (netbench_env cfg) quiet demo_start
     (set_conf 7 (spccServer_open (eB (netbench_env cfg)) 7 demo_conn (sys demo_start)) SCheck {} demo_start)"
    by (rule spcc_step.Accept) (simp_all add: max_sessions_def)
  then show "spcc_step (netbench_env cfg) quiet demo_start demo_one" by (simp add: demo_one_def)
qed

lemma demo_one_session: "sess (sys demo_one) 7 = Some demo_session" "spc demo_one 7 = SCheck" "\<not> Closed demo_session"
  by (simp_all add: demo_one_def demo_session_def set_conf_def spccServer_open_def Let_def spccNewSession_def
      demo_start_def spcc_start_def spccListener_init_def spccGenMicroExpDirs_def u2i_def)

section \<open>Requests and slots\<close>



text \<open>
  C6.  The global counters of the server are exact in every reachable configuration, without
  wrap-around: \<open>SpccNumSess\<close> is the number of open sessions, and \<open>SpccNumPending\<close> the sum over
  the sessions of the requests pending and those whose responses are being sent.
\<close>

theorem spcc_counters_exact:
  assumes "pcc_server E bits sent pending" "spcc_reachable E quiet c"
  shows "unat (gNumSess (ops (sys c))) = card (open_sessions (sys c)) \<and>
    uint (gNumPending (ops (sys c))) = pend_sum bits c"
proof -
  from pcc_server.reachable_ok [OF assms] have ok: "conf_ok (eB E) bits (eProcs E) c" by blast
  show ?thesis using NumSess_exact [OF ok] pcc_server.NumPending_exact [OF assms(1) ok] by blast
qed

theorem spcc_counters_exact_witness:
  "unat (gNumSess (ops (sys demo_one))) = card (open_sessions (sys demo_one)) \<and>
   uint (gNumPending (ops (sys demo_one))) = pend_sum bools demo_one"
  by (rule spcc_counters_exact [OF nb.pcc_server_axioms [of pcc_config] demo_one_reachable [of pcc_config False]])



text \<open>
  C4.  No lost wake-up: a sender that waits on its condition variable has been signalled since it went
  to sleep, or there is nothing for it to do - the session is open, no explicit credit is requested, it
  was not woken by the controller, and no request is completed.
\<close>

theorem spcc_no_lost_wakeup:
  assumes "pcc_server E bits sent pending" "spcc_reachable E quiet c"
    and "sess (sys c) p = Some s" "spc c p = SWait" "\<not> Signalled s"
  shows "\<not> Closed s \<and> \<not> NeedECredit s \<and> \<not> WakeUp s \<and> bits (CompletedSlots s) = {}"
proof -
  from pcc_server.reachable_ok [OF assms(1,2)] have "sess_ok (eB E) bits SWait (running c p) s"
    using conf_okD(4) assms(3,4) by fastforce
  then have "spccSenderWaits (eB E) s" using assms(5) by (simp add: sess_ok_def pc_ok_def)
  moreover have "bitmap (eB E) bits" using assms(1) by (simp add: pcc_server_def credit_server_def)
  ultimately show ?thesis using bitmap.count_0 [of "eB E" bits] by (simp add: spccSenderWaits_def)
qed

definition demo_wait :: "(bool list, mem_conn) spccConf" where
  "demo_wait = set_conf 7 (put_sess 7 (demo_session\<lparr>Signalled := False\<rparr>) (sys demo_one)) SWait (running demo_one 7) demo_one"

lemma demo_wait_reachable: "spcc_reachable (netbench_env cfg) quiet demo_wait"
proof (rule spcc_reachable.step [OF demo_one_reachable])
  have "spccSenderWaits boolmap demo_session"
    by (simp add: spccSenderWaits_def demo_session_def spccNewSession_def Let_def bm.count_0 bm.fold_remove
        bm.bits_grow bm.bits_zero)
  then show "spcc_step (netbench_env cfg) quiet demo_one demo_wait"
    unfolding demo_wait_def using demo_one_session by (intro spcc_step.Wait) simp_all
qed

theorem spcc_no_lost_wakeup_witness:
  "\<not> Signalled (demo_session\<lparr>Signalled := False\<rparr>) \<and> bools (CompletedSlots (demo_session\<lparr>Signalled := False\<rparr>)) = {}"
proof -
  have "sess (sys demo_wait) 7 = Some (demo_session\<lparr>Signalled := False\<rparr>)" "spc demo_wait 7 = SWait"
    by (simp_all add: demo_wait_def set_conf_def)
  from spcc_no_lost_wakeup [OF nb.pcc_server_axioms [of pcc_config] demo_wait_reachable [of pcc_config False] this]
  show ?thesis by simp
qed


lemma demo_leave:
  "\<exists>c s. spcc_reachable (netbench_env cfg) False c \<and> sess (sys c) 7 = Some s \<and> spc c 7 = SDrain \<and> Closed s \<and>
     running c 7 = {}"
proof -
  let ?E = "netbench_env cfg"
  have ok: "conf_ok (eB ?E) bools (eProcs ?E) demo_one"
    using nb.reachable_ok [OF demo_one_reachable [of cfg False]] by blast
  from nb.Close_ok [OF ok demo_one_session(1,3)] obtain os s where
    cl: "spccServer_close 7 (sys demo_one) = Some (set_ops os (put_sess 7 s (sys demo_one)))" "Closed s" by blast
  let ?c = "set_conf 7 (set_ops os (put_sess 7 s (sys demo_one))) (spc demo_one 7) (running demo_one 7) demo_one"
  have r1: "spcc_reachable ?E False ?c"
    by (rule spcc_reachable.step [OF demo_one_reachable spcc_step.CloseStep [OF demo_one_session(1,3) _ cl(1)]]) simp
  have "spcc_step ?E False ?c (set_conf 7 (sys ?c) SDrain (running ?c 7) ?c)"
    by (rule spcc_step.Leave [of _ _ s]) (use demo_one_session cl(2) in \<open>simp_all add: set_conf_def\<close>)
  from spcc_reachable.step [OF r1 this]
  have "spcc_reachable ?E False (set_conf 7 (sys ?c) SDrain (running ?c 7) ?c)" .
  moreover have "running demo_one 7 = {}" by (simp add: demo_one_def set_conf_def)
  ultimately show ?thesis using cl(2)
    by (intro exI [of _ "set_conf 7 (sys ?c) SDrain (running ?c 7) ?c"] exI [of _ s]) (simp add: set_conf_def)
qed


section \<open>Credits\<close>





end
