(* ===== verification/Pcc_Client.thy ===== *)
theory Pcc_Client
  imports Utils Env Wire
begin

text \<open>
  The client side of the credit protocol, \<open>src/ovldctlrpc/pcc/pcc_client.go\<close>: a session keeps a
  queue of at most 16 requests in a ring of preallocated request objects addressed by two \<open>uint32\<close>
  counters, and sends them over its connections as long as the credits of a connection last.

  Every definition is the code between taking and releasing the session's lock.  A connection object is
  the entry of \<open>csConns\<close> at its index (the array \<open>C\<close> of the common session up to
  \<open>NConns\<close>); a nil entry of \<open>QReq\<close> is \<open>None\<close>.  The drop handlers are the
  application's: whether one is installed is a flag of the session, and its calls are logged.
  \<open>csTimerSignal\<close> records a \<open>TimerCondVar.Signal()\<close> the timer has not seen yet.

  Outside the model are a connection's \<open>Read\<close> and \<open>Write\<close>, the padding of a header and the
  configured delay bound, collected in \<open>cpccEnv\<close>, and the result of \<open>net.DialTCP\<close>.
\<close>

section \<open>State\<close>

record 'a crpcCtx =
  rLen :: u64
  rId :: u64
  rTs :: u64
  rBuf :: "byte list"
  rArg :: "'a option"

record 'k cpccConn =
  ccC :: 'k
  ccWaitingResp :: bool
  ccCredit :: u32
  ccCreditUsed :: u32
  ccECreditRx :: u64
  ccCUpdateTx :: u64
  ccRespRx :: u64
  ccReqTx :: u64
  ccCreditExpired :: u64

record ('a, 'k) cpccSession =
  csId :: u64
  csReqId :: u64
  csNextConnIdx :: nat
  csRunning :: bool
  csInit :: bool
  csTimerSignal :: bool
  csHead :: u32
  csTail :: u32
  csQReq :: "'a crpcCtx option list"
  csReqDropped :: u64
  csConns :: "'k cpccConn list"
  csLDropHandler :: bool
  csRDropHandler :: bool
  csLDropLog :: "'a crpcCtx list"
  csRDropLog :: "(byte list \<times> u64 \<times> 'a option) list"

record 'k cpccEnv =
  xRd :: "'k reader"
  xWr :: "'k writer"
  xPad :: "byte list"
  xDelay :: u64

definition CrpcQlen :: nat where "CrpcQlen = 16"
definition CrpcMaxReplica :: nat where "CrpcMaxReplica = 256"
definition CpccMaxClientDelayUs :: u64 where "CpccMaxClientDelayUs = 10"

definition conn_at :: "('a, 'k) cpccSession \<Rightarrow> nat \<Rightarrow> 'k cpccConn option" where
  "conn_at s i = (if i < length (csConns s) then Some (csConns s ! i) else None)"

definition put_conn :: "nat \<Rightarrow> 'k cpccConn \<Rightarrow> ('a, 'k) cpccSession \<Rightarrow> ('a, 'k) cpccSession" where
  "put_conn i cc s = s\<lparr>csConns := (csConns s)[i := cc]\<rparr>"

text \<open>\<open>s.QReq[pos % CrpcQlen]\<close>; \<open>None\<close> is a nil pointer.\<close>

definition ring_pos :: "u32 \<Rightarrow> nat" where
  "ring_pos pos = unat (pos mod of_nat CrpcQlen)"

definition ctx_at :: "('a, 'k) cpccSession \<Rightarrow> u32 \<Rightarrow> 'a crpcCtx option" where
  "ctx_at s pos = (if ring_pos pos < length (csQReq s) then csQReq s ! ring_pos pos else None)"

definition demand_of :: "('a, 'k) cpccSession \<Rightarrow> u64" where
  "demand_of s = ucast (csHead s - csTail s)"

section \<open>Sending\<close>

definition cupdate_hdr :: "('a, 'k) cpccSession \<Rightarrow> cpccHdr" where
  "cupdate_hdr s = \<lparr>cMagic = PccReqMagic, cOp = PccOpCredit, cLen = 0, cId = 0, cDemand = demand_of s,
     cTsSent = 0, cFlags = 0\<rparr>"

definition call_hdr :: "u64 \<Rightarrow> u64 \<Rightarrow> u64 \<Rightarrow> u64 \<Rightarrow> cpccHdr" where
  "call_hdr ident len demand now = \<lparr>cMagic = PccReqMagic, cOp = PccOpCall, cLen = len, cId = ident,
     cDemand = demand, cTsSent = now, cFlags = 0\<rparr>"

definition cpccSendCUpdate ::
  "'k cpccEnv \<Rightarrow> nat \<Rightarrow> ('a, 'k) cpccSession \<Rightarrow> (int \<times> ('a, 'k) cpccSession) option" where
  "cpccSendCUpdate E i s = do {
     cc \<leftarrow> conn_at s i;
     (n, err, k) \<leftarrow> WriteFull (xWr E) (CpccHdr_bytes (xPad E) (cupdate_hdr s)) (ccC cc);
     let cc1 = cc\<lparr>ccC := k\<rparr>;
     Some (if err \<noteq> None then (- 1, put_conn i cc1 s)
           else (0, put_conn i (cc1\<lparr>ccCUpdateTx := ccCUpdateTx cc1 + 1\<rparr>) s))
   }"

text \<open>
  A call on the wire is its header and the first \<open>len\<close> bytes of the buffer (slicing beyond the
  buffer panics).  The result says whether both writes succeeded and how many payload bytes the last
  write reported.
\<close>

definition send_call ::
  "'k cpccEnv \<Rightarrow> cpccHdr \<Rightarrow> byte list \<Rightarrow> 'k \<Rightarrow> (bool \<times> nat \<times> 'k) option" where
  "send_call E h buf k = do {
     (n, err, k1) \<leftarrow> WriteFull (xWr E) (CpccHdr_bytes (xPad E) h) k;
     if err \<noteq> None then Some (False, n, k1)
     else if length buf < unat (cLen h) then None
     else do {
       (n, err, k2) \<leftarrow> WriteFull (xWr E) (take (unat (cLen h)) buf) k1;
       Some (err = None, n, k2)
     }
   }"

definition cpccSendRaw ::
  "'k cpccEnv \<Rightarrow> nat \<Rightarrow> byte list \<Rightarrow> u64 \<Rightarrow> u64 \<Rightarrow> ('a, 'k) cpccSession \<Rightarrow> world \<Rightarrow>
   (int \<times> ('a, 'k) cpccSession \<times> world) option" where
  "cpccSendRaw E i buf len ident s w = do {
     cc \<leftarrow> conn_at s i;
     (ok, n, k) \<leftarrow> send_call E (call_hdr ident len (demand_of s) (MicroTime w)) buf (ccC cc);
     let cc1 = cc\<lparr>ccC := k\<rparr>;
     Some (if \<not> ok then (- 1, put_conn i cc1 s, step_world w)
           else (int n, put_conn i (cc1\<lparr>ccReqTx := ccReqTx cc1 + 1\<rparr>) s, step_world w))
   }"

text \<open>
  One round of the loop of \<open>cpccSendRequestVector\<close>: the request at the tail leaves the queue before
  it is written; \<open>False\<close> is the early return after a failed write.
\<close>

definition send_tail ::
  "'k cpccEnv \<Rightarrow> u64 \<Rightarrow> nat \<Rightarrow> 'k cpccConn \<Rightarrow> ('a, 'k) cpccSession \<Rightarrow> (bool \<times> ('a, 'k) cpccSession) option" where
  "send_tail E now i cc s = do {
     c \<leftarrow> ctx_at s (csTail s);
     let s1 = s\<lparr>csTail := csTail s + 1\<rparr>;
     (ok, n, k) \<leftarrow> send_call E (call_hdr (rId c) (rLen c) (demand_of s1) now) (rBuf c) (ccC cc);
     let cc1 = cc\<lparr>ccC := k\<rparr>;
     Some (if \<not> ok then (False, put_conn i cc1 s1)
           else (True, put_conn i (cc1\<lparr>ccCreditUsed := ccCreditUsed cc1 + 1, ccReqTx := ccReqTx cc1 + 1\<rparr>) s1))
   }"

lemma send_tail_counters:
  assumes "send_tail E now i cc s = Some (b, s')"
  shows "csHead s' = csHead s" "csTail s' = csTail s + 1" "csQReq s' = csQReq s"
  using assms by (auto simp: send_tail_def put_conn_def Let_def split: Option.bind_splits if_splits)

lemma queue_shrinks: "(h :: u32) \<noteq> t \<Longrightarrow> unat (h - (t + 1)) < unat (h - t)"
proof -
  assume "h \<noteq> t"
  then have "0 < h - t" by (simp add: word_neq_0_conv [symmetric])
  moreover have "h - (t + 1) = (h - t) - 1" by simp
  ultimately show ?thesis by (metis measure_unat word_gt_0)
qed

function cpccVectorLoop ::
  "'k cpccEnv \<Rightarrow> u64 \<Rightarrow> nat \<Rightarrow> ('a, 'k) cpccSession \<Rightarrow> (bool \<times> ('a, 'k) cpccSession) option" where
  "cpccVectorLoop E now i s =
     (case conn_at s i of
        None \<Rightarrow> None
      | Some cc \<Rightarrow>
          if csHead s \<noteq> csTail s \<and> ccCreditUsed cc < ccCredit cc then
            (case send_tail E now i cc s of
               None \<Rightarrow> None
             | Some (ok, s1) \<Rightarrow> if ok then cpccVectorLoop E now i s1 else Some (False, s1))
          else Some (True, s))"
  by pat_completeness auto
termination
proof (relation "measure (\<lambda>(E, now, i, s). unat (csHead s - csTail s))", goal_cases)
  case 1
  show ?case by simp
next
  case (2 E now i s cc p ok s1)
  then have "csHead s1 = csHead s" "csTail s1 = csTail s + 1" using send_tail_counters(1,2) [of E now i cc s] by auto
  then show ?case using 2 queue_shrinks [of "csHead s" "csTail s"] by simp
qed

declare cpccVectorLoop.simps [simp del]

definition cpccSendRequestVector ::
  "'k cpccEnv \<Rightarrow> nat \<Rightarrow> ('a, 'k) cpccSession \<Rightarrow> world \<Rightarrow> (int \<times> ('a, 'k) cpccSession \<times> world) option" where
  "cpccSendRequestVector E i s w = do {
     cc \<leftarrow> conn_at s i;
     let now = MicroTime w;
     let w1 = step_world w;
     if csHead s = csTail s \<or> ccCredit cc \<le> ccCreditUsed cc then Some (0, s, w1)
     else do {
       (ok, s1) \<leftarrow> cpccVectorLoop E now i s;
       Some (if \<not> ok then (- 1, s1, w1)
             else if csHead s1 = csTail s1 then (0, s1\<lparr>csHead := 0, csTail := 0\<rparr>, w1)
             else (0, s1, w1))
     }
   }"

section \<open>The queue\<close>

text \<open>Dropping the request at the tail: the handler, the counter and the statistics.\<close>

definition drop_tail :: "'a crpcCtx \<Rightarrow> ('a, 'k) cpccSession \<Rightarrow> ('a, 'k) cpccSession" where
  "drop_tail c s = s\<lparr>csLDropLog := (if csLDropHandler s then csLDropLog s @ [c] else csLDropLog s),
     csTail := csTail s + 1, csReqDropped := csReqDropped s + 1\<rparr>"

function cpccDropLoop ::
  "('a crpcCtx \<Rightarrow> bool) \<Rightarrow> ('a, 'k) cpccSession \<Rightarrow> ('a, 'k) cpccSession option" where
  "cpccDropLoop stop s =
     (if csHead s \<noteq> csTail s then
        (case ctx_at s (csTail s) of
           None \<Rightarrow> None
         | Some c \<Rightarrow> if stop c then Some s else cpccDropLoop stop (drop_tail c s))
      else Some s)"
  by pat_completeness auto
termination
  by (relation "measure (\<lambda>(stop, s). unat (csHead s - csTail s))")
    (auto simp: drop_tail_def queue_shrinks simp del: add_uminus_conv_diff)

declare cpccDropLoop.simps [simp del]

text \<open>The loop of \<open>cpccDrainQueue\<close> that looks for a connection, over the offsets not yet tried.\<close>

fun cpccFindConn ::
  "'k cpccEnv \<Rightarrow> nat list \<Rightarrow> ('a, 'k) cpccSession \<Rightarrow> world \<Rightarrow> (('a, 'k) cpccSession \<times> world) option" where
  "cpccFindConn E [] s w = Some (s, w)"
| "cpccFindConn E (i # is) s w = (
     let connIdx = (csNextConnIdx s + i) mod length (csConns s) in
     case conn_at s connIdx of
       None \<Rightarrow> None
     | Some cc \<Rightarrow>
         if \<not> ccWaitingResp cc \<and> ccCreditUsed cc < ccCredit cc then do {
           (r, s1, w1) \<leftarrow> cpccSendRequestVector E connIdx s w;
           Some (s1\<lparr>csNextConnIdx := (connIdx + 1) mod length (csConns s1)\<rparr>, w1)
         } else cpccFindConn E is s w)"

definition cpccDrainQueue ::
  "'k cpccEnv \<Rightarrow> ('a, 'k) cpccSession \<Rightarrow> world \<Rightarrow> (('a, 'k) cpccSession \<times> world) option" where
  "cpccDrainQueue E s w = (
     let now = MicroTime w; w1 = step_world w in
     if csHead s = csTail s then Some (s, w1)
     else do {
       s1 \<leftarrow> cpccDropLoop (\<lambda>c. xDelay E = 0 \<or> now - rTs c \<le> xDelay E) s;
       cpccFindConn E [0..<length (csConns s1)] s1 w1
     })"

fun cpccAnnounce :: "'k cpccEnv \<Rightarrow> nat list \<Rightarrow> ('a, 'k) cpccSession \<Rightarrow> ('a, 'k) cpccSession option" where
  "cpccAnnounce E [] s = Some s"
| "cpccAnnounce E (i # is) s = do {
     (r, s1) \<leftarrow> cpccSendCUpdate E i s;
     cc \<leftarrow> conn_at s1 i;
     cpccAnnounce E is (put_conn i (cc\<lparr>ccWaitingResp := True\<rparr>) s1)
   }"

definition fill_ctx :: "byte list \<Rightarrow> u64 \<Rightarrow> 'a option \<Rightarrow> u64 \<Rightarrow> u64 \<Rightarrow> 'a crpcCtx \<Rightarrow> 'a crpcCtx" where
  "fill_ctx buf len arg ident now c =
     c\<lparr>rBuf := put_at 0 (take (length (rBuf c)) (take (unat len) buf)) (rBuf c),
       rId := ident, rTs := now, rLen := len, rArg := arg\<rparr>"

definition cpccEnqueueOne ::
  "'k cpccEnv \<Rightarrow> byte list \<Rightarrow> u64 \<Rightarrow> 'a option \<Rightarrow> ('a, 'k) cpccSession \<Rightarrow> world \<Rightarrow>
   (bool \<times> ('a, 'k) cpccSession \<times> world) option" where
  "cpccEnqueueOne E buf len arg s w = do {
     let now = MicroTime w;
     let w1 = step_world w;
     s1 \<leftarrow> (if of_nat CrpcQlen \<le> csHead s - csTail s
            then do { c \<leftarrow> ctx_at s (csTail s); Some (drop_tail c s) } else Some s);
     c \<leftarrow> ctx_at s1 (csHead s1);
     s2 \<leftarrow> (if length buf < unat len then None
            else Some (s1\<lparr>csQReq := (csQReq s1)[ring_pos (csHead s1) := Some (fill_ctx buf len arg (csReqId s1) now c)],
                          csHead := csHead s1 + 1, csReqId := csReqId s1 + 1\<rparr>));
     s3 \<leftarrow> (if \<not> csInit s2 then do {
              s \<leftarrow> cpccAnnounce E [0..<length (csConns s2)] s2;
              Some (s\<lparr>csInit := True\<rparr>)
            } else Some s2);
     Some (True, (if csHead s3 - csTail s3 = 1 then s3\<lparr>csTimerSignal := True\<rparr> else s3), w1)
   }"

section \<open>The client interface\<close>

definition CrpcAddConnection :: "nat \<Rightarrow> 'k option \<Rightarrow> ('a, 'k) cpccSession \<Rightarrow> int \<times> ('a, 'k) cpccSession" where
  "CrpcAddConnection port dial s =
     (if CrpcMaxReplica \<le> length (csConns s) then (- 1, s)
      else if port \<noteq> SrpcPort then (- 1, s)
      else case dial of
        None \<Rightarrow> (- 1, s)
      | Some k \<Rightarrow> (0, s\<lparr>csConns := csConns s @ [\<lparr>ccC = k, ccWaitingResp = False, ccCredit = 0, ccCreditUsed = 0,
            ccECreditRx = 0, ccCUpdateTx = 0, ccRespRx = 0, ccReqTx = 0, ccCreditExpired = 0\<rparr>]\<rparr>))"

definition CrpcSendOne ::
  "'k cpccEnv \<Rightarrow> byte list \<Rightarrow> u64 \<Rightarrow> 'a option \<Rightarrow> ('a, 'k) cpccSession \<Rightarrow> world \<Rightarrow>
   (int \<times> ('a, 'k) cpccSession \<times> world) option" where
  "CrpcSendOne E buf len arg s w = (
     if SrpcBufSize < unat len then Some (- 1, s, w)
     else do {
       cc \<leftarrow> conn_at s (csNextConnIdx s);
       if ccCreditUsed cc < ccCredit cc \<and> csHead s = csTail s then do {
         let s1 = put_conn (csNextConnIdx s) (cc\<lparr>ccCreditUsed := ccCreditUsed cc + 1\<rparr>) s;
         (ret, s2, w1) \<leftarrow> cpccSendRaw E (csNextConnIdx s) buf len (csReqId s1) s1 w;
         Some (ret, s2\<lparr>csReqId := csReqId s2 + 1,
                       csNextConnIdx := (csNextConnIdx s2 + 1) mod length (csConns s2)\<rparr>, w1)
       } else do {
         (queued, s1, w1) \<leftarrow> cpccEnqueueOne E buf len arg s w;
         (s2, w2) \<leftarrow> cpccDrainQueue E s1 w1;
         Some (if \<not> queued then - 1 else u2i len, s2, w2)
       }
     })"

datatype clientOutcome = ClientAgain | ClientRet int

text \<open>One pass through the label \<open>again\<close> of \<open>CrpcRecvOne\<close> on connection \<open>i\<close>.\<close>

definition cpccRecvHdr :: "'k cpccEnv \<Rightarrow> nat \<Rightarrow> 'k \<Rightarrow> (spccHdr option \<times> 'k) option" where
  "cpccRecvHdr E len k = do {
     (n, err, bs, k1) \<leftarrow> ReadFull (xRd E) (replicate hdr_size 0) k;
     let shdr = SpccHdr_of_bytes bs;
     Some (if err \<noteq> None then (None, k1)
           else if sMagic shdr \<noteq> PccRespMagic then (None, k1)
           else if Min_go SrpcBufSize len < unat (sLen shdr) then (None, k1)
           else (Some shdr, k1))
   }"

text \<open>\<open>Update the credit\<close>: the critical section of both operations.\<close>

definition cpccTakeCredit ::
  "'k cpccEnv \<Rightarrow> nat \<Rightarrow> bool \<Rightarrow> u64 \<Rightarrow> ('a, 'k) cpccSession \<Rightarrow> world \<Rightarrow> (('a, 'k) cpccSession \<times> world) option" where
  "cpccTakeCredit E i answered credit s w = do {
     cc \<leftarrow> conn_at s i;
     let cc1 = cc\<lparr>ccCreditUsed := (if answered then ccCreditUsed cc - 1 else ccCreditUsed cc),
                  ccCredit := ucast credit, ccWaitingResp := False\<rparr>;
     let s1 = put_conn i cc1 s;
     if 0 < ccCredit cc1 then cpccDrainQueue E s1 w else Some (s1, w)
   }"

definition cpccRecvCall ::
  "'k cpccEnv \<Rightarrow> nat \<Rightarrow> spccHdr \<Rightarrow> byte list \<Rightarrow> 'a option \<Rightarrow> ('a, 'k) cpccSession \<Rightarrow> world \<Rightarrow>
   (clientOutcome \<times> byte list \<times> ('a, 'k) cpccSession \<times> world) option" where
  "cpccRecvCall E i shdr buf arg s w = do {
     cc \<leftarrow> conn_at s i;
     let len = unat (sLen shdr);
     let dropped = (and (sFlags shdr) PccSFlagDrop \<noteq> 0);
     (failed, n, buf1, s1) \<leftarrow>
       (if 0 < len then
          if length buf < len then None
          else do {
            (n, err, bs, k) \<leftarrow> ReadFull (xRd E) (take len buf) (ccC cc);
            let cc1 = cc\<lparr>ccC := k\<rparr>;
            let cc2 = (if err = None \<and> \<not> dropped then cc1\<lparr>ccRespRx := ccRespRx cc1 + 1\<rparr> else cc1);
            Some (err \<noteq> None, n, bs @ drop len buf, put_conn i cc2 s)
          }
        else Some (False, hdr_size, buf, s));
     if failed then Some (ClientRet (- 1), buf1, s1, w)
     else do {
       (s2, w2) \<leftarrow> cpccTakeCredit E i True (sCredit shdr) s1 w;
       Some (if dropped
             then (ClientAgain, buf1,
                   s2\<lparr>csRDropLog := (if csRDropHandler s2 then csRDropLog s2 @ [(buf1, of_nat n, arg)] else csRDropLog s2)\<rparr>, w2)
             else (ClientRet (u2i (sLen shdr)), buf1, s2, w2))
     }
   }"

definition cpccRecvCredit ::
  "'k cpccEnv \<Rightarrow> nat \<Rightarrow> spccHdr \<Rightarrow> ('a, 'k) cpccSession \<Rightarrow> world \<Rightarrow>
   (clientOutcome \<times> ('a, 'k) cpccSession \<times> world) option" where
  "cpccRecvCredit E i shdr s w =
     (if sLen shdr \<noteq> 0 then Some (ClientRet (- 1), s, w)
      else do {
        (s1, w1) \<leftarrow> cpccTakeCredit E i False (sCredit shdr) s w;
        cc \<leftarrow> conn_at s1 i;
        Some (ClientAgain, put_conn i (cc\<lparr>ccECreditRx := ccECreditRx cc + 1\<rparr>) s1, w1)
      })"

definition cpccRecvPass ::
  "'k cpccEnv \<Rightarrow> nat \<Rightarrow> nat \<Rightarrow> byte list \<Rightarrow> 'a option \<Rightarrow> ('a, 'k) cpccSession \<Rightarrow> world \<Rightarrow>
   (clientOutcome \<times> byte list \<times> ('a, 'k) cpccSession \<times> world) option" where
  "cpccRecvPass E i len buf arg s w = do {
     cc \<leftarrow> conn_at s i;
     (h, k) \<leftarrow> cpccRecvHdr E len (ccC cc);
     let s1 = put_conn i (cc\<lparr>ccC := k\<rparr>) s;
     (case h of
        None \<Rightarrow> Some (ClientRet (- 1), buf, s1, w)
      | Some shdr \<Rightarrow>
          if sOp shdr = PccOpCall then cpccRecvCall E i shdr buf arg s1 w
          else if sOp shdr = PccOpCredit then do {
            (r, s2, w2) \<leftarrow> cpccRecvCredit E i shdr s1 w;
            Some (r, buf, s2, w2)
          } else Some (ClientRet (- 1), buf, s1, w))
   }"

partial_function (option) CrpcRecvOne ::
  "'k cpccEnv \<Rightarrow> nat \<Rightarrow> nat \<Rightarrow> byte list \<Rightarrow> 'a option \<Rightarrow> ('a, 'k) cpccSession \<Rightarrow> world \<Rightarrow>
   (int \<times> byte list \<times> ('a, 'k) cpccSession \<times> world) option" where
  "CrpcRecvOne E i len buf arg s w =
     (case cpccRecvPass E i len buf arg s w of
        None \<Rightarrow> None
      | Some (r, buf1, s1, w1) \<Rightarrow>
          (case r of
             ClientAgain \<Rightarrow> CrpcRecvOne E i len buf1 arg s1 w1
           | ClientRet n \<Rightarrow> Some (n, buf1, s1, w1)))"

section \<open>The timer\<close>

text \<open>
  One round of \<open>cpccTimer\<close>, from the test of its wait condition to the next release of the lock: it
  waits, exits, goes round again because the queue became empty, or releases the lock and sleeps
  (for the given number of microseconds, 0 if the time has passed).
\<close>

datatype timerNext = TimerWait | TimerExit | TimerAgain | TimerSleep u64

definition cpccTimer ::
  "'k cpccEnv \<Rightarrow> ('a, 'k) cpccSession \<Rightarrow> world \<Rightarrow> (timerNext \<times> ('a, 'k) cpccSession \<times> world) option" where
  "cpccTimer E s w =
     (if csRunning s \<and> csHead s = csTail s then Some (TimerWait, s\<lparr>csTimerSignal := False\<rparr>, w)
      else if \<not> csRunning s then Some (TimerExit, s, w)
      else do {
        let now = MicroTime w;
        let w1 = step_world w;
        s1 \<leftarrow> cpccDropLoop (\<lambda>c. now - rTs c \<le> xDelay E) s;
        if csHead s1 = csTail s1 then Some (TimerAgain, s1, w1)
        else do {
          c \<leftarrow> ctx_at s1 (csHead s1 - 1);
          let now = MicroTime w1;
          Some (TimerSleep (if now < rTs c + xDelay E then rTs c + xDelay E - now else 0), s1, step_world w1)
        }
      })"

section \<open>Opening, closing, statistics\<close>

definition CrpcOpen ::
  "nat \<Rightarrow> 'k option \<Rightarrow> u64 \<Rightarrow> bool \<Rightarrow> bool \<Rightarrow> ('a, 'k) cpccSession option \<times> int" where
  "CrpcOpen port dial ident ldrop rdrop =
     (if port \<noteq> SrpcPort then (None, - 1)
      else case dial of
        None \<Rightarrow> (None, - 1)
      | Some k \<Rightarrow> (Some \<lparr>csId = ident, csReqId = 1, csNextConnIdx = 0, csRunning = True, csInit = False,
            csTimerSignal = False, csHead = 0, csTail = 0,
            csQReq = replicate CrpcQlen (Some \<lparr>rLen = 0, rId = 0, rTs = 0, rBuf = replicate SrpcBufSize 0, rArg = None\<rparr>),
            csReqDropped = 0,
            csConns = [\<lparr>ccC = k, ccWaitingResp = False, ccCredit = 0, ccCreditUsed = 0,
              ccECreditRx = 0, ccCUpdateTx = 0, ccRespRx = 0, ccReqTx = 0, ccCreditExpired = 0\<rparr>],
            csLDropHandler = ldrop, csRDropHandler = rdrop, csLDropLog = [], csRDropLog = []\<rparr>, 0))"

text \<open>
  \<open>CrpcClose\<close> first stops the timer; when the timer has exited it closes every connection
  (\<open>cl\<close>) and clears the pointers, so the second part yields the closed connections and a session
  without connections and requests.
\<close>

definition CrpcClose_stop :: "('a, 'k) cpccSession \<Rightarrow> ('a, 'k) cpccSession" where
  "CrpcClose_stop s = s\<lparr>csRunning := False, csTimerSignal := True\<rparr>"

definition CrpcClose_free :: "('k \<Rightarrow> 'k) \<Rightarrow> ('a, 'k) cpccSession \<Rightarrow> 'k list \<times> ('a, 'k) cpccSession" where
  "CrpcClose_free cl s =
     (map (\<lambda>cc. cl (ccC cc)) (csConns s), s\<lparr>csConns := [], csQReq := replicate CrpcQlen None\<rparr>)"

definition CrpcCredit :: "('a, 'k) cpccSession \<Rightarrow> u64" where
  "CrpcCredit s = foldl (\<lambda>ret c. ret + ucast (ccCredit c)) 0 (csConns s)"

definition CrpcStatClear :: "('a, 'k) cpccSession \<Rightarrow> ('a, 'k) cpccSession" where
  "CrpcStatClear s = s\<lparr>csReqDropped := 0,
     csConns := map (\<lambda>c. c\<lparr>ccCreditExpired := 0, ccECreditRx := 0, ccCUpdateTx := 0, ccRespRx := 0, ccReqTx := 0\<rparr>)
       (csConns s)\<rparr>"

definition CrpcStatECreditRx :: "('a, 'k) cpccSession \<Rightarrow> u64" where
  "CrpcStatECreditRx s = foldl (\<lambda>ret c. ret + ccECreditRx c) 0 (csConns s)"

definition CrpcStatCreditExpired :: "('a, 'k) cpccSession \<Rightarrow> u64" where
  "CrpcStatCreditExpired s = foldl (\<lambda>ret c. ret + ccCreditExpired c) 0 (csConns s)"

definition CrpcStatCUpdateTx :: "('a, 'k) cpccSession \<Rightarrow> u64" where
  "CrpcStatCUpdateTx s = foldl (\<lambda>ret c. ret + ccCUpdateTx c) 0 (csConns s)"

definition CrpcStatRespRx :: "('a, 'k) cpccSession \<Rightarrow> u64" where
  "CrpcStatRespRx s = foldl (\<lambda>ret c. ret + ccRespRx c) 0 (csConns s)"

definition CrpcStatReqTx :: "('a, 'k) cpccSession \<Rightarrow> u64" where
  "CrpcStatReqTx s = foldl (\<lambda>ret c. ret + ccReqTx c) 0 (csConns s)"

definition CrpcStatReqDropped :: "('a, 'k) cpccSession \<Rightarrow> u64" where
  "CrpcStatReqDropped s = csReqDropped s"

end
