(* ===== verification/Client_Queue.thy ===== *)
theory Client_Queue
  imports Pcc_Client
begin

text \<open>
  Correctness of the client's request queue (theory \<open>Pcc_Client\<close>): the ring with its two wrapping
  counters is a bounded queue, and the sending and dropping loops consume it from the front.
\<close>

section \<open>The abstract queue\<close>

definition ctx_ok :: "'a crpcCtx \<Rightarrow> bool" where
  "ctx_ok c \<longleftrightarrow> length (rBuf c) = SrpcBufSize \<and> unat (rLen c) \<le> SrpcBufSize"

definition queue_ok :: "('a, 'k) cpccSession \<Rightarrow> bool" where
  "queue_ok s \<longleftrightarrow> length (csQReq s) = CrpcQlen \<and> (\<forall>i<CrpcQlen. \<exists>c. csQReq s ! i = Some c \<and> ctx_ok c) \<and>
     unat (csHead s - csTail s) \<le> CrpcQlen"

definition queue :: "('a, 'k) cpccSession \<Rightarrow> 'a crpcCtx list" where
  "queue s = map (\<lambda>k. the (ctx_at s (csTail s + of_nat k))) [0..<unat (csHead s - csTail s)]"

text \<open>16 divides the range of the counters, so the ring position survives their wrap-around.\<close>

lemma ring_pos_nat: "ring_pos p = unat p mod 16"
  by (simp add: ring_pos_def CrpcQlen_def unat_mod_distrib)

lemma ring_pos_less [simp]: "ring_pos p < 16"
  by (simp add: ring_pos_nat)

lemma ring_pos_add: "ring_pos (p + of_nat k) = (unat p + k) mod 16"
proof -
  have "unat (p + of_nat k) mod 16 = ((unat p + k mod 2 ^ 32) mod 2 ^ 32) mod 16"
    by (simp add: unat_word_ariths unat_of_nat take_bit_eq_mod)
  also have "\<dots> = (unat p + k mod 2 ^ 32) mod 16" by (rule mod_mod_cancel) simp
  also have "\<dots> = (unat p + (k mod 2 ^ 32) mod 16) mod 16" by (simp add: mod_add_right_eq)
  also have "(k mod 2 ^ 32) mod 16 = k mod 16" by (rule mod_mod_cancel) simp
  finally show ?thesis by (simp add: ring_pos_nat mod_add_right_eq)
qed

lemma queue_length [simp]: "length (queue s) = unat (csHead s - csTail s)"
  by (simp add: queue_def)

lemma queue_empty_iff: "queue s = [] \<longleftrightarrow> csHead s = csTail s"
  using queue_length [of s] by (metis eq_iff_diff_eq_0 length_0_conv unat_0 unat_eq_zero)

lemma ctx_at_Some:
  assumes "queue_ok s"
  shows "\<exists>c. ctx_at s p = Some c \<and> ctx_ok c"
  using assms ring_pos_less [of p] by (simp add: queue_ok_def ctx_at_def CrpcQlen_def)

lemma demand_queue: "demand_of s = of_nat (length (queue s))"
  by (simp add: demand_of_def)

lemma queue_pop:
  assumes "csHead s \<noteq> csTail s"
  shows "queue s = the (ctx_at s (csTail s)) # queue (s\<lparr>csTail := csTail s + 1\<rparr>)"
proof -
  have n: "unat (csHead s - csTail s) = Suc (unat (csHead s - (csTail s + 1)))"
  proof -
    have nz: "csHead s - csTail s \<noteq> 0" using assms by simp
    then have "unat (csHead s - csTail s) \<noteq> 0" by (simp add: unat_eq_0)
    moreover have "unat (csHead s - (csTail s + 1)) = unat (csHead s - csTail s) - 1"
      using unat_minus_one [OF nz] by (simp add: diff_diff_eq)
    ultimately show ?thesis by simp
  qed
  show ?thesis
    unfolding queue_def n upt_conv_Cons [OF zero_less_Suc] list.map
    by (simp add: map_Suc_upt [symmetric] ctx_at_def o_def add.assoc del: upt_Suc)
qed

lemma queue_cong:
  "csHead s = csHead t \<Longrightarrow> csTail s = csTail t \<Longrightarrow> csQReq s = csQReq t \<Longrightarrow> queue s = queue t"
  by (simp add: queue_def ctx_at_def)

lemma queue_ok_cong:
  "csHead s = csHead t \<Longrightarrow> csTail s = csTail t \<Longrightarrow> csQReq s = csQReq t \<Longrightarrow> queue_ok s = queue_ok t"
  by (simp add: queue_ok_def)

lemma queue_ok_pop:
  assumes "queue_ok s" "csHead s \<noteq> csTail s"
  shows "queue_ok (s\<lparr>csTail := csTail s + 1\<rparr>)"
  using assms queue_shrinks [of "csHead s" "csTail s"] by (simp add: queue_ok_def)

lemma queue_set: "queue_ok s \<Longrightarrow> c \<in> set (queue s) \<Longrightarrow> ctx_ok c"
proof -
  assume ok: "queue_ok s" and "c \<in> set (queue s)"
  then obtain p where "c = the (ctx_at s p)" by (auto simp: queue_def)
  then show "ctx_ok c" using ctx_at_Some [OF ok, of p] by auto
qed

lemma mod_window: "(a + k) mod 16 = (a + n) mod (16 :: nat) \<Longrightarrow> k < n \<Longrightarrow> n < 16 \<Longrightarrow> False"
  using mod_eq_dvd_iff_nat [of "a + k" "a + n" 16] by (auto dest: dvd_imp_le)

lemma queue_push:
  assumes ok: "queue_ok s" and room: "unat (csHead s - csTail s) < CrpcQlen" and c: "ctx_ok c"
    and s': "s' = s\<lparr>csQReq := (csQReq s)[ring_pos (csHead s) := Some c], csHead := csHead s + 1, csReqId := r\<rparr>"
  shows "queue s' = queue s @ [c]" "queue_ok s'"
proof -
  let ?n = "unat (csHead s - csTail s)"
  have n: "?n < 16" using room by (simp add: CrpcQlen_def)
  have hd: "csHead s = csTail s + of_nat ?n" by simp
  have n': "unat (csHead s + 1 - csTail s) = Suc ?n"
  proof -
    have eq: "csHead s + 1 - csTail s = (csHead s - csTail s) + 1" by simp
    have "unat ((csHead s - csTail s) + 1) = unat (csHead s - csTail s) + 1"
      using n by (simp add: unat_word_ariths)
    then show ?thesis unfolding eq by simp
  qed
  have len: "length (csQReq s) = 16" using ok by (simp add: queue_ok_def CrpcQlen_def)
  have neq: "ring_pos (csTail s + of_nat k) \<noteq> ring_pos (csHead s)" if "k < ?n" for k
  proof
    assume "ring_pos (csTail s + of_nat k) = ring_pos (csHead s)"
    then have "(unat (csTail s) + k) mod 16 = (unat (csTail s) + ?n) mod 16"
      using ring_pos_add [of "csTail s" k] ring_pos_add [of "csTail s" ?n] by simp
    then show False using mod_window that n by blast
  qed
  have old: "ctx_at s' (csTail s + of_nat k) = ctx_at s (csTail s + of_nat k)" if "k < ?n" for k
    using neq [OF that] by (simp add: ctx_at_def s')
  have new: "ctx_at s' (csHead s) = Some c" using len by (simp add: ctx_at_def s')
  show "queue s' = queue s @ [c]"
    using old new n' hd by (simp add: queue_def s' del: add_uminus_conv_diff)
  show "queue_ok s'"
    using ok n' n c by (auto simp: queue_ok_def s' CrpcQlen_def nth_list_update)
qed

section \<open>Dropping\<close>

definition dropped_front :: "'a crpcCtx list \<Rightarrow> ('a, 'k) cpccSession \<Rightarrow> ('a, 'k) cpccSession" where
  "dropped_front d s = s\<lparr>csTail := csTail s + of_nat (length d), csReqDropped := csReqDropped s + of_nat (length d),
     csLDropLog := (if csLDropHandler s then csLDropLog s @ d else csLDropLog s)\<rparr>"

lemma drop_tail_front: "drop_tail c s = dropped_front [c] s"
  by (simp add: drop_tail_def dropped_front_def)

lemma dropped_front_append: "dropped_front e (dropped_front d s) = dropped_front (d @ e) s"
  by (simp add: dropped_front_def algebra_simps)

lemma dropped_front_Nil [simp]: "dropped_front [] s = s"
  by (simp add: dropped_front_def)

lemma drop_tail_queue:
  assumes "queue_ok s" "csHead s \<noteq> csTail s" "ctx_at s (csTail s) = Some c"
  shows "queue s = c # queue (drop_tail c s)" "queue_ok (drop_tail c s)"
proof -
  have "queue (drop_tail c s) = queue (s\<lparr>csTail := csTail s + 1\<rparr>)" by (rule queue_cong) (simp_all add: drop_tail_def)
  then show "queue s = c # queue (drop_tail c s)" using queue_pop [OF assms(2)] assms(3) by simp
  have "queue_ok (drop_tail c s) = queue_ok (s\<lparr>csTail := csTail s + 1\<rparr>)"
    by (rule queue_ok_cong) (simp_all add: drop_tail_def)
  then show "queue_ok (drop_tail c s)" using queue_ok_pop [OF assms(1,2)] by simp
qed

text \<open>The expiry loops drop the longest prefix of requests that are all too old, and nothing else.\<close>

lemma DropLoop_spec:
  assumes "queue_ok s"
  shows "\<exists>s'. cpccDropLoop stop s = Some s' \<and> queue_ok s' \<and> queue s' = dropWhile (\<lambda>c. \<not> stop c) (queue s) \<and>
    s' = dropped_front (takeWhile (\<lambda>c. \<not> stop c) (queue s)) s"
  using assms
proof (induction stop s rule: cpccDropLoop.induct)
  case (1 stop s)
  show ?case
  proof (cases "csHead s = csTail s")
    case True
    then have "queue s = []" by (simp add: queue_empty_iff)
    then show ?thesis using True "1.prems" by (subst cpccDropLoop.simps) simp
  next
    case False
    obtain c where c: "ctx_at s (csTail s) = Some c" using ctx_at_Some [OF "1.prems"] by blast
    note q = drop_tail_queue [OF "1.prems" False c]
    show ?thesis
    proof (cases "stop c")
      case True
      then show ?thesis using False c q(1) "1.prems" by (subst cpccDropLoop.simps) simp
    next
      case go: False
      from "1.IH" [OF False c go q(2)] show ?thesis
        using False c go q(1) drop_tail_front [of c s]
        by (subst cpccDropLoop.simps) (auto simp: dropped_front_append)
    qed
  qed
qed

section \<open>Sending\<close>

text \<open>The bytes of at most \<open>m\<close> requests from the front of the queue, as one burst.\<close>

definition call_bytes :: "byte list \<Rightarrow> cpccHdr \<Rightarrow> byte list \<Rightarrow> byte list" where
  "call_bytes pad h buf = CpccHdr_bytes pad h @ take (unat (cLen h)) buf"

fun burst :: "byte list \<Rightarrow> u64 \<Rightarrow> 'a crpcCtx list \<Rightarrow> nat \<Rightarrow> byte list" where
  "burst pad now (c # q) (Suc m) =
     call_bytes pad (call_hdr (rId c) (rLen c) (of_nat (length q)) now) (rBuf c) @ burst pad now q m"
| "burst pad now q m = []"

definition credits :: "'k cpccConn \<Rightarrow> nat" where
  "credits cc = unat (ccCredit cc) - unat (ccCreditUsed cc)"

definition charged :: "nat \<Rightarrow> 'k \<Rightarrow> 'k cpccConn \<Rightarrow> 'k cpccConn" where
  "charged m k cc = cc\<lparr>ccC := k, ccCreditUsed := ccCreditUsed cc + of_nat m, ccReqTx := ccReqTx cc + of_nat m\<rparr>"

definition sent_front :: "nat \<Rightarrow> nat \<Rightarrow> 'k cpccConn \<Rightarrow> ('a, 'k) cpccSession \<Rightarrow> ('a, 'k) cpccSession" where
  "sent_front m i cc s = put_conn i cc (s\<lparr>csTail := csTail s + of_nat m\<rparr>)"

lemma put_conn_fields [simp]:
  "csHead (put_conn i cc s) = csHead s" "csTail (put_conn i cc s) = csTail s" "csQReq (put_conn i cc s) = csQReq s"
  "csNextConnIdx (put_conn i cc s) = csNextConnIdx s" "csInit (put_conn i cc s) = csInit s"
  "csReqId (put_conn i cc s) = csReqId s" "csRunning (put_conn i cc s) = csRunning s"
  "csTimerSignal (put_conn i cc s) = csTimerSignal s" "csReqDropped (put_conn i cc s) = csReqDropped s"
  "csConns (put_conn i cc s) = (csConns s)[i := cc]"
  by (simp_all add: put_conn_def)

lemma conn_at_put [simp]:
  "conn_at (put_conn i cc s) j = (if i = j \<and> i < length (csConns s) then Some cc else conn_at s j)"
  by (auto simp: conn_at_def put_conn_def)

lemma put_conn_queue [simp]: "queue (put_conn i cc s) = queue s" "queue_ok (put_conn i cc s) = queue_ok s"
  by (rule queue_cong queue_ok_cong; simp)+

lemma put_conn_put [simp]: "put_conn i a (put_conn i b s) = put_conn i a s"
  by (simp add: put_conn_def)

lemma put_conn_commute:
  "(put_conn i cc s)\<lparr>csTail := t\<rparr> = put_conn i cc (s\<lparr>csTail := t\<rparr>)"
  by (simp add: put_conn_def)

lemma sent_front_twice:
  "sent_front m i (charged m k' (charged 1 k cc)) (sent_front 1 i (charged 1 k cc) s) = sent_front (Suc m) i (charged (Suc m) k' cc) s"
  by (simp add: sent_front_def charged_def put_conn_def algebra_simps)

lemma sent_front_lost:
  "sent_front (Suc m) i (charged m k' (charged 1 k cc)) (sent_front 1 i (charged 1 k cc) s) =
     sent_front (Suc (Suc m)) i (charged (Suc m) k' cc) s"
  by (simp add: sent_front_def charged_def put_conn_def algebra_simps)

lemma sent_front_0: "conn_at s i = Some cc \<Longrightarrow> sent_front 0 i (charged 0 (ccC cc) cc) s = s"
  by (auto simp: sent_front_def charged_def put_conn_def conn_at_def split: if_splits)

lemma credits_pos: "0 < credits cc \<longleftrightarrow> ccCreditUsed cc < ccCredit cc"
  by (simp add: credits_def word_less_nat_alt)

lemma credits_charged:
  assumes "0 < credits cc"
  shows "credits cc = Suc (credits (charged 1 k cc))"
proof -
  have l: "unat (ccCreditUsed cc) < unat (ccCredit cc)" using assms by (simp add: credits_def)
  then have "unat (ccCreditUsed cc + 1) = unat (ccCreditUsed cc) + 1"
    using unat_bound [of "ccCredit cc"] by (simp add: unat_word_ariths)
  then show ?thesis using l by (simp add: credits_def charged_def)
qed

lemma sent_front_pop:
  assumes "queue_ok s" "csHead s \<noteq> csTail s" "queue s = c # q"
  shows "queue (sent_front 1 i cc s) = q" "queue_ok (sent_front 1 i cc s)"
  using queue_pop [OF assms(2)] queue_ok_pop [OF assms(1,2)] assms(3) by (simp_all add: sent_front_def)

locale cpcc_sender = byte_sink "xWr E" sent
  for E :: "'k cpccEnv" and sent :: "'k \<Rightarrow> byte list"
begin

lemma send_call_spec:
  assumes "unat (cLen h) \<le> length buf"
  shows "\<exists>ok n k'. send_call E h buf k = Some (ok, n, k') \<and>
    (ok \<longrightarrow> n = unat (cLen h) \<and> sent k' = sent k @ call_bytes (xPad E) h buf)"
proof -
  obtain n err k1 where w1: "WriteFull (xWr E) (CpccHdr_bytes (xPad E) h) k = Some (n, err, k1)"
    "err = None \<longrightarrow> sent k1 = sent k @ CpccHdr_bytes (xPad E) h" using WriteFull_sink by blast
  obtain n2 err2 k2 where w2: "WriteFull (xWr E) (take (unat (cLen h)) buf) k1 = Some (n2, err2, k2)"
    "err2 = None \<longrightarrow> n2 = length (take (unat (cLen h)) buf) \<and> sent k2 = sent k1 @ take (unat (cLen h)) buf"
    using WriteFull_sink by blast
  show ?thesis
    using w1 w2 assms by (cases err) (auto simp: send_call_def call_bytes_def)
qed

lemma send_tail_spec:
  assumes ok: "queue_ok s" and ne: "csHead s \<noteq> csTail s" and q: "queue s = c # q"
  shows "\<exists>b k. send_tail E now i cc s = Some (b, sent_front 1 i (if b then charged 1 k cc else cc\<lparr>ccC := k\<rparr>) s) \<and>
    (b \<longrightarrow> sent k = sent (ccC cc) @ burst (xPad E) now (c # q) 1)"
proof -
  obtain c' where c': "ctx_at s (csTail s) = Some c'" "ctx_ok c'" using ctx_at_Some [OF ok] by blast
  let ?s = "s\<lparr>csTail := csTail s + 1\<rparr>"
  have cq: "c' = c" "queue ?s = q" using queue_pop [OF ne] q c' by auto
  let ?h = "call_hdr (rId c) (rLen c) (demand_of ?s) now"
  have h: "?h = call_hdr (rId c) (rLen c) (of_nat (length q)) now"
    using demand_queue [of ?s] cq(2) by simp
  have "unat (cLen ?h) \<le> length (rBuf c)" using c' cq by (simp add: call_hdr_def ctx_ok_def)
  from send_call_spec [OF this, of "ccC cc"] obtain b n k where
    k: "send_call E ?h (rBuf c) (ccC cc) = Some (b, n, k)"
      "b \<longrightarrow> sent k = sent (ccC cc) @ call_bytes (xPad E) ?h (rBuf c)" by blast
  have "send_tail E now i cc s = Some (b, sent_front 1 i (if b then charged 1 k cc else cc\<lparr>ccC := k\<rparr>) s)"
    using c' cq k by (simp add: send_tail_def sent_front_def charged_def Let_def)
  then show ?thesis using k(2) h by (intro exI [of _ b] exI [of _ k]) (simp add: numeral_nat)
qed

text \<open>
  The sending loop sends exactly as many requests as the queue and the credits allow, in order; when a
  write fails it stops, and the request being written is lost.
\<close>

lemma VectorLoop_spec:
  assumes "queue_ok s" "conn_at s i = Some cc"
  shows "\<exists>b m k. cpccVectorLoop E now i s =
      Some (b, sent_front (if b then m else Suc m) i (charged m k cc) s) \<and>
    (if b then m = min (length (queue s)) (credits cc) \<and> sent k = sent (ccC cc) @ burst (xPad E) now (queue s) m
     else m < min (length (queue s)) (credits cc)) \<and>
    queue (sent_front (if b then m else Suc m) i (charged m k cc) s) = drop (if b then m else Suc m) (queue s) \<and>
    queue_ok (sent_front (if b then m else Suc m) i (charged m k cc) s)"
  using assms
proof (induction "length (queue s)" arbitrary: s cc)
  case 0
  then have e: "queue s = []" by (metis length_0_conv)
  then have h: "csHead s = csTail s" by (simp add: queue_empty_iff)
  note id = sent_front_0 [OF "0.prems"(2)]
  have "cpccVectorLoop E now i s = Some (True, s)"
    using "0.prems" h by (subst cpccVectorLoop.simps) simp
  then show ?case using id e "0.prems"
    by (intro exI [of _ True] exI [of _ 0] exI [of _ "ccC cc"]) simp
next
  case (Suc n)
  then obtain c q where q: "queue s = c # q" by (cases "queue s") auto
  then have ne: "csHead s \<noteq> csTail s" using queue_empty_iff [of s] by auto
  note ok = Suc.prems(1) and cc = Suc.prems(2)
  have i: "i < length (csConns s)" using cc by (simp add: conn_at_def split: if_splits)
  show ?case
  proof (cases "0 < credits cc")
    case False
    then have z: "credits cc = 0" "\<not> ccCreditUsed cc < ccCredit cc" using credits_pos [of cc] by auto
    note id = sent_front_0 [OF cc]
    have "cpccVectorLoop E now i s = Some (True, s)" using cc z by (subst cpccVectorLoop.simps) simp
    then show ?thesis using id z ok by (intro exI [of _ True] exI [of _ 0] exI [of _ "ccC cc"]) simp
  next
    case True
    then have lt: "ccCreditUsed cc < ccCredit cc" using credits_pos by blast
    from send_tail_spec [OF ok ne q, of now i cc] obtain b k where
      st: "send_tail E now i cc s = Some (b, sent_front 1 i (if b then charged 1 k cc else cc\<lparr>ccC := k\<rparr>) s)"
        "b \<longrightarrow> sent k = sent (ccC cc) @ burst (xPad E) now (c # q) 1" by blast
    show ?thesis
    proof (cases b)
      case False
      then have "cpccVectorLoop E now i s = Some (False, sent_front 1 i (charged 0 k cc) s)"
        using cc lt ne st(1) by (subst cpccVectorLoop.simps) (simp add: charged_def)
      then show ?thesis using True q sent_front_pop [OF ok ne q, of i]
        by (intro exI [of _ False] exI [of _ 0] exI [of _ k]) simp
    next
      case b: True
      let ?s = "sent_front 1 i (charged 1 k cc) s"
      note p = sent_front_pop [OF ok ne q, of i "charged 1 k cc"]
      have cr: "credits cc = Suc (credits (charged 1 k cc))" by (rule credits_charged [OF True])
      have "conn_at ?s i = Some (charged 1 k cc)" using i by (simp add: sent_front_def)
      moreover have "n = length (queue ?s)" using Suc.hyps(2) q p(1) by simp
      ultimately obtain b' m k' where ih:
        "cpccVectorLoop E now i ?s = Some (b', sent_front (if b' then m else Suc m) i (charged m k' (charged 1 k cc)) ?s)"
        "if b' then m = min (length q) (credits (charged 1 k cc)) \<and>
            sent k' = sent (ccC (charged 1 k cc)) @ burst (xPad E) now q m
         else m < min (length q) (credits (charged 1 k cc))"
        "queue (sent_front (if b' then m else Suc m) i (charged m k' (charged 1 k cc)) ?s) = drop (if b' then m else Suc m) q"
        "queue_ok (sent_front (if b' then m else Suc m) i (charged m k' (charged 1 k cc)) ?s)"
        using Suc.hyps(1) [of ?s] p by metis
      have loop: "cpccVectorLoop E now i s = cpccVectorLoop E now i ?s"
        using cc lt ne st(1) b by (subst cpccVectorLoop.simps) simp
      have bytes: "sent (ccC (charged 1 k cc)) @ burst (xPad E) now q m = sent (ccC cc) @ burst (xPad E) now (c # q) (Suc m)"
        using st(2) b by (simp add: charged_def numeral_nat)
      show ?thesis
        using ih loop bytes cr q
        by (intro exI [of _ b'] exI [of _ "Suc m"] exI [of _ k'])
          (cases b'; simp add: sent_front_twice [unfolded One_nat_def] sent_front_lost [unfolded One_nat_def] del: burst.simps)
    qed
  qed
qed

end

end
