(* ===== verification/Client_Safety.thy ===== *)
theory Client_Safety
  imports Client_Queue
begin

text \<open>
  The client's operations never panic and keep its invariant, for any behaviour of the connections, and
  every connection keeps whatever predicate its reads and its writes of well-formed messages keep.  The
  predicate is a parameter of the locale \<open>cpcc_client\<close>: with the trivial one the locale gives safety,
  with \<open>stream_ok\<close> it gives that only well-formed messages reach the wire.
\<close>

definition call_msg_ok :: "cpccHdr \<Rightarrow> bool" where
  "call_msg_ok h \<longleftrightarrow> cMagic h = PccReqMagic \<and> cOp h = PccOpCall \<and> unat (cLen h) \<le> SrpcBufSize \<and>
     unat (cDemand h) \<le> CrpcQlen"

definition credit_msg_ok :: "cpccHdr \<Rightarrow> bool" where
  "credit_msg_ok h \<longleftrightarrow> cMagic h = PccReqMagic \<and> cOp h = PccOpCredit \<and> cLen h = 0 \<and>
     0 < unat (cDemand h) \<and> unat (cDemand h) \<le> CrpcQlen"

definition conns_ok :: "('k \<Rightarrow> bool) \<Rightarrow> ('a, 'k) cpccSession \<Rightarrow> bool" where
  "conns_ok P s \<longleftrightarrow> csNextConnIdx s < length (csConns s) \<and> length (csConns s) \<le> CrpcMaxReplica \<and>
     (\<forall>cc\<in>set (csConns s). P (ccC cc))"

definition client_ok :: "('k \<Rightarrow> bool) \<Rightarrow> ('a, 'k) cpccSession \<Rightarrow> bool" where
  "client_ok P s \<longleftrightarrow> queue_ok s \<and> conns_ok P s"

lemma conns_ok_put:
  assumes "conns_ok P s" "P (ccC cc)"
  shows "conns_ok P (put_conn i cc s)"
  using assms set_update_subset_insert [of "csConns s" i cc] by (auto simp: conns_ok_def)

lemma client_ok_put: "client_ok P s \<Longrightarrow> P (ccC cc) \<Longrightarrow> client_ok P (put_conn i cc s)"
  by (simp add: client_ok_def conns_ok_put)

lemma conns_ok_cong:
  "csNextConnIdx s = csNextConnIdx t \<Longrightarrow> csConns s = csConns t \<Longrightarrow> conns_ok P s = conns_ok P t"
  by (simp add: conns_ok_def)

lemma conns_ok_at: "conns_ok P s \<Longrightarrow> i < length (csConns s) \<Longrightarrow> \<exists>cc. conn_at s i = Some cc \<and> P (ccC cc)"
  by (simp add: conns_ok_def conn_at_def)

lemma conn_at_P: "conns_ok P s \<Longrightarrow> conn_at s i = Some cc \<Longrightarrow> P (ccC cc)"
  by (auto simp: conns_ok_def conn_at_def split: if_splits)

lemma demand_unat: "unat (demand_of s) = length (queue s)"
proof -
  have "length (queue s) < 2 ^ 64" using unat_bound [of "csHead s - csTail s"] by simp
  then show ?thesis unfolding demand_queue by (rule unat_of_nat_64)
qed

lemma demand_bound: "queue_ok s \<Longrightarrow> unat (demand_of s) \<le> CrpcQlen"
  unfolding demand_unat by (simp add: queue_ok_def)

lemma demand_pos: "csHead s \<noteq> csTail s \<Longrightarrow> 0 < unat (demand_of s)"
  unfolding demand_unat using queue_empty_iff [of s] by blast

lemma call_hdr_ok:
  "queue_ok s \<Longrightarrow> unat len \<le> SrpcBufSize \<Longrightarrow> call_msg_ok (call_hdr ident len (demand_of s) now)"
  using demand_bound [of s] by (simp add: call_msg_ok_def call_hdr_def)

lemma cupdate_hdr_ok: "queue_ok s \<Longrightarrow> csHead s \<noteq> csTail s \<Longrightarrow> credit_msg_ok (cupdate_hdr s)"
  using demand_bound [of s] demand_pos [of s] by (simp add: credit_msg_ok_def cupdate_hdr_def)

locale cpcc_client = cpcc_sender E sent + byte_stream "xRd E" pending
  for E :: "'k cpccEnv" and sent :: "'k \<Rightarrow> byte list" and pending :: "'k \<Rightarrow> byte list" +
  fixes P :: "'k \<Rightarrow> bool"
  assumes P_call: "P k \<Longrightarrow> call_msg_ok h \<Longrightarrow> unat (cLen h) \<le> length buf \<Longrightarrow>
      send_call E h buf k = Some (b, n, k') \<Longrightarrow> P k'"
    and P_credit: "P k \<Longrightarrow> credit_msg_ok h \<Longrightarrow>
      WriteFull (xWr E) (CpccHdr_bytes (xPad E) h) k = Some (n, err, k') \<Longrightarrow> P k'"
    and P_read: "P k \<Longrightarrow> ReadFull (xRd E) buf k = Some (n, err, buf', k') \<Longrightarrow> P k'"
begin

abbreviation ok :: "('a, 'k) cpccSession \<Rightarrow> bool" where "ok \<equiv> client_ok P"

lemma SendCUpdate_ok:
  assumes s: "ok s" "csHead s \<noteq> csTail s" and i: "i < length (csConns s)"
  shows "\<exists>r cc. cpccSendCUpdate E i s = Some (r, put_conn i cc s) \<and> P (ccC cc)"
proof -
  obtain cc where cc: "conn_at s i = Some cc" "P (ccC cc)" using conns_ok_at s i by (metis client_ok_def)
  obtain n err k where w: "WriteFull (xWr E) (CpccHdr_bytes (xPad E) (cupdate_hdr s)) (ccC cc) = Some (n, err, k)"
    using WriteFull_sink by blast
  have "P k" using P_credit [OF cc(2) _ w] cupdate_hdr_ok s by (auto simp: client_ok_def)
  then show ?thesis using cc w
    by (intro exI [of _ "if err \<noteq> None then - 1 else 0"]
        exI [of _ "if err \<noteq> None then cc\<lparr>ccC := k\<rparr> else cc\<lparr>ccC := k, ccCUpdateTx := ccCUpdateTx cc + 1\<rparr>"])
      (simp add: cpccSendCUpdate_def Let_def)
qed

lemma Announce_ok:
  assumes "ok s" "csHead s \<noteq> csTail s" "\<forall>i\<in>set is. i < length (csConns s)"
  shows "\<exists>s'. cpccAnnounce E is s = Some s' \<and> ok s' \<and> csHead s' = csHead s \<and> csTail s' = csTail s \<and>
    csQReq s' = csQReq s \<and> csReqId s' = csReqId s"
  using assms
proof (induction "is" arbitrary: s)
  case Nil
  then show ?case by simp
next
  case (Cons i "is")
  then have i: "i < length (csConns s)" by simp
  from SendCUpdate_ok [OF Cons.prems(1,2) i] obtain r cc where
    u: "cpccSendCUpdate E i s = Some (r, put_conn i cc s)" "P (ccC cc)" by blast
  let ?s = "put_conn i (cc\<lparr>ccWaitingResp := True\<rparr>) s"
  have "ok ?s" using client_ok_put [OF Cons.prems(1), of "cc\<lparr>ccWaitingResp := True\<rparr>" i] u(2) by simp
  from Cons.IH [OF this] Cons.prems show ?case using u(1) i by auto
qed

lemma send_tail_ok:
  assumes s: "ok s" "csHead s \<noteq> csTail s" and cc: "P (ccC cc)"
  shows "\<exists>b cc'. send_tail E now i cc s = Some (b, sent_front 1 i cc' s) \<and> P (ccC cc') \<and> ok (sent_front 1 i cc' s)"
proof -
  let ?s = "s\<lparr>csTail := csTail s + 1\<rparr>"
  have q: "queue_ok s" "queue_ok ?s" using s queue_ok_pop by (auto simp: client_ok_def)
  obtain c where c: "ctx_at s (csTail s) = Some c" "ctx_ok c" using ctx_at_Some [OF q(1)] by blast
  let ?h = "call_hdr (rId c) (rLen c) (demand_of ?s) now"
  have h: "call_msg_ok ?h" "unat (cLen ?h) \<le> length (rBuf c)"
    using call_hdr_ok [OF q(2)] c(2) by (auto simp: ctx_ok_def call_hdr_def)
  from send_call_spec [OF h(2), of "ccC cc"] obtain b n k where
    k: "send_call E ?h (rBuf c) (ccC cc) = Some (b, n, k)" by blast
  have Pk: "P k" by (rule P_call [OF cc h k])
  let ?cc = "if b then charged 1 k cc else cc\<lparr>ccC := k\<rparr>"
  have "send_tail E now i cc s = Some (b, sent_front 1 i ?cc s)"
    using c k by (simp add: send_tail_def sent_front_def charged_def Let_def)
  moreover have "P (ccC ?cc)" using Pk by (simp add: charged_def)
  moreover have "conns_ok P ?s" using s(1) by (simp add: client_ok_def conns_ok_def)
  then have "ok (sent_front 1 i ?cc s)"
    using q conns_ok_put [of P ?s ?cc i] calculation(2) by (simp add: client_ok_def sent_front_def)
  ultimately show ?thesis by blast
qed

lemma VectorLoop_ok:
  assumes "ok s" "i < length (csConns s)"
  shows "\<exists>b s'. cpccVectorLoop E now i s = Some (b, s') \<and> ok s' \<and> length (csConns s') = length (csConns s)"
  using assms
proof (induction "unat (csHead s - csTail s)" arbitrary: s rule: less_induct)
  case less
  obtain cc where cc: "conn_at s i = Some cc" "P (ccC cc)"
    using conns_ok_at less.prems by (metis client_ok_def)
  show ?case
  proof (cases "csHead s \<noteq> csTail s \<and> ccCreditUsed cc < ccCredit cc")
    case False
    then show ?thesis using cc less.prems by (subst cpccVectorLoop.simps) auto
  next
    case True
    then have ne: "csHead s \<noteq> csTail s" by simp
    from send_tail_ok [OF less.prems(1) ne cc(2), of now i] obtain b cc' where
      t: "send_tail E now i cc s = Some (b, sent_front 1 i cc' s)" "ok (sent_front 1 i cc' s)" by blast
    have m: "unat (csHead (sent_front 1 i cc' s) - csTail (sent_front 1 i cc' s)) < unat (csHead s - csTail s)"
      using queue_shrinks [OF ne] by (simp add: sent_front_def)
    have len: "length (csConns (sent_front 1 i cc' s)) = length (csConns s)" by (simp add: sent_front_def)
    show ?thesis
    proof (cases b)
      case False
      then show ?thesis using cc True t len by (subst cpccVectorLoop.simps) auto
    next
      case b: True
      from less.hyps [OF m t(2)] less.prems(2) len show ?thesis
        using cc True t b by (subst cpccVectorLoop.simps) auto
    qed
  qed
qed

lemma SendRequestVector_ok:
  assumes "ok s" "i < length (csConns s)"
  shows "\<exists>r s' w'. cpccSendRequestVector E i s w = Some (r, s', w') \<and> ok s' \<and> length (csConns s') = length (csConns s)"
proof -
  obtain cc where cc: "conn_at s i = Some cc" using assms(2) by (simp add: conn_at_def)
  from VectorLoop_ok [OF assms, of "MicroTime w"] obtain b s1 where
    v: "cpccVectorLoop E (MicroTime w) i s = Some (b, s1)" "ok s1" "length (csConns s1) = length (csConns s)" by blast
  have "ok (s1\<lparr>csHead := 0, csTail := 0\<rparr>)" using v(2) by (simp add: client_ok_def queue_ok_def conns_ok_def)
  then show ?thesis using cc v assms(1)
    by (cases "csHead s = csTail s \<or> ccCredit cc \<le> ccCreditUsed cc"; cases b; cases "csHead s1 = csTail s1")
      (auto simp: cpccSendRequestVector_def Let_def)
qed

lemma FindConn_ok:
  assumes "ok s"
  shows "\<exists>s' w'. cpccFindConn E is s w = Some (s', w') \<and> ok s' \<and> length (csConns s') = length (csConns s)"
  using assms
proof (induction "is")
  case Nil
  then show ?case by simp
next
  case (Cons i "is")
  let ?i = "(csNextConnIdx s + i) mod length (csConns s)"
  have "0 < length (csConns s)" using assms by (auto simp: client_ok_def conns_ok_def)
  then have i: "?i < length (csConns s)" "(?i + 1) mod length (csConns s) < length (csConns s)"
    by (auto intro: mod_less_divisor)
  then obtain cc where cc: "conn_at s ?i = Some cc" by (simp add: conn_at_def)
  from SendRequestVector_ok [OF assms i(1), of w] obtain r s1 w1 where
    v: "cpccSendRequestVector E ?i s w = Some (r, s1, w1)" "ok s1" "length (csConns s1) = length (csConns s)" by blast
  have "ok (s1\<lparr>csNextConnIdx := (?i + 1) mod length (csConns s1)\<rparr>)"
    using v(2,3) i by (auto simp: client_ok_def queue_ok_def conns_ok_def)
  then show ?case using Cons cc v by (auto simp: Let_def)
qed

lemma DropLoop_ok:
  assumes "ok s"
  shows "\<exists>s'. cpccDropLoop stop s = Some s' \<and> ok s' \<and> csConns s' = csConns s"
proof -
  have "queue_ok s" using assms by (simp add: client_ok_def)
  from DropLoop_spec [OF this, of stop] obtain s' where
    s': "cpccDropLoop stop s = Some s'" "queue_ok s'" "s' = dropped_front (takeWhile (\<lambda>c. \<not> stop c) (queue s)) s" by blast
  have "conns_ok P s' = conns_ok P s" by (rule conns_ok_cong) (simp_all add: s'(3) dropped_front_def)
  then show ?thesis using s' assms by (auto simp: client_ok_def dropped_front_def)
qed

lemma DrainQueue_ok:
  assumes "ok s"
  shows "\<exists>s' w'. cpccDrainQueue E s w = Some (s', w') \<and> ok s' \<and> length (csConns s') = length (csConns s)"
proof -
  from DropLoop_ok [OF assms, of "\<lambda>c. xDelay E = 0 \<or> MicroTime w - rTs c \<le> xDelay E"] obtain s1 where
    s1: "cpccDropLoop (\<lambda>c. xDelay E = 0 \<or> MicroTime w - rTs c \<le> xDelay E) s = Some s1" "ok s1" "csConns s1 = csConns s"
    by blast
  from FindConn_ok [OF s1(2), of "[0..<length (csConns s)]" "step_world w"] show ?thesis
    using s1 assms by (auto simp: cpccDrainQueue_def Let_def)
qed

lemma Enqueue_room:
  assumes q: "queue_ok s"
  shows "\<exists>s1. (if of_nat CrpcQlen \<le> csHead s - csTail s
      then do { c \<leftarrow> ctx_at s (csTail s); Some (drop_tail c s) } else Some s) = Some s1 \<and> queue_ok s1 \<and>
    unat (csHead s1 - csTail s1) < CrpcQlen \<and> csConns s1 = csConns s \<and> csNextConnIdx s1 = csNextConnIdx s \<and>
    csHead s1 = csHead s \<and> csReqId s1 = csReqId s \<and>
    queue s1 = (if CrpcQlen \<le> length (queue s) then tl (queue s) else queue s) \<and>
    s1 = dropped_front (if CrpcQlen \<le> length (queue s) then [hd (queue s)] else []) s"
proof (cases "CrpcQlen \<le> length (queue s)")
  case False
  then have "\<not> of_nat CrpcQlen \<le> csHead s - csTail s" by (simp add: word_le_nat_alt CrpcQlen_def)
  then show ?thesis using False q by simp
next
  case True
  then have le: "of_nat CrpcQlen \<le> csHead s - csTail s" by (simp add: word_le_nat_alt CrpcQlen_def)
  have ne: "csHead s \<noteq> csTail s" using True queue_empty_iff [of s] by (auto simp: CrpcQlen_def)
  obtain c where c: "ctx_at s (csTail s) = Some c" using ctx_at_Some [OF q] by blast
  note d = drop_tail_queue [OF q ne c]
  have "length (queue s) \<le> CrpcQlen" using q by (simp add: queue_ok_def)
  then have n: "unat (csHead (drop_tail c s) - csTail (drop_tail c s)) < CrpcQlen"
    unfolding queue_length [symmetric] by (subst (asm) d(1)) simp
  have ht: "hd (queue s) = c" "tl (queue s) = queue (drop_tail c s)" by (simp_all add: d(1))
  have f: "csConns (drop_tail c s) = csConns s" "csNextConnIdx (drop_tail c s) = csNextConnIdx s"
    "csHead (drop_tail c s) = csHead s" "csReqId (drop_tail c s) = csReqId s" by (simp_all add: drop_tail_def)
  show ?thesis
    unfolding if_P [OF le] if_P [OF True] ht c bind.bind_lunit using n f d(2) drop_tail_front [of c s]
    by (intro exI [of _ "drop_tail c s"]) simp
qed

text \<open>
  Enqueueing puts the new request behind the queue and drops the oldest one if there are 16 already;
  the counters may wrap.
\<close>

lemma EnqueueOne_spec:
  assumes s: "ok s" and len: "unat len \<le> SrpcBufSize" "unat len \<le> length buf"
  shows "\<exists>s' c. cpccEnqueueOne E buf len arg s w = Some (True, s', step_world w) \<and> ok s' \<and>
    queue s' = (if CrpcQlen \<le> length (queue s) then tl (queue s) else queue s) @ [c] \<and>
    rId c = csReqId s \<and> rLen c = len \<and> rTs c = MicroTime w \<and> rArg c = arg \<and> take (unat len) (rBuf c) = take (unat len) buf \<and>
    csReqId s' = csReqId s + 1"
proof -
  have q: "queue_ok s" using s by (simp add: client_ok_def)
  from Enqueue_room [OF q] obtain s1 where s1:
    "(if of_nat CrpcQlen \<le> csHead s - csTail s
      then do { c \<leftarrow> ctx_at s (csTail s); Some (drop_tail c s) } else Some s) = Some s1" "queue_ok s1"
    "unat (csHead s1 - csTail s1) < CrpcQlen" "csConns s1 = csConns s" "csNextConnIdx s1 = csNextConnIdx s"
    "csReqId s1 = csReqId s" "queue s1 = (if CrpcQlen \<le> length (queue s) then tl (queue s) else queue s)" by blast
  obtain c where c: "ctx_at s1 (csHead s1) = Some c" "ctx_ok c" using ctx_at_Some [OF s1(2)] by blast
  let ?c = "fill_ctx buf len arg (csReqId s1) (MicroTime w) c"
  have ck: "ctx_ok ?c" "take (unat len) (rBuf ?c) = take (unat len) buf"
    using c(2) len by (simp_all add: ctx_ok_def fill_ctx_def put_at_def)
  define s2 where s2: "s2 = s1\<lparr>csQReq := (csQReq s1)[ring_pos (csHead s1) := Some ?c], csHead := csHead s1 + 1,
      csReqId := csReqId s1 + 1\<rparr>"
  note p = queue_push [OF s1(2,3) ck(1) s2]
  have "conns_ok P s2 = conns_ok P s" by (rule conns_ok_cong) (simp_all add: s2 s1(4,5))
  then have ok2: "ok s2" using p(2) s by (simp add: client_ok_def)
  have ne: "csHead s2 \<noteq> csTail s2" using p(1) queue_empty_iff [of s2] by auto
  have "\<exists>s3. (if \<not> csInit s2 then do { s \<leftarrow> cpccAnnounce E [0..<length (csConns s2)] s2; Some (s\<lparr>csInit := True\<rparr>) }
      else Some s2) = Some s3 \<and> ok s3 \<and> queue s3 = queue s2 \<and> csReqId s3 = csReqId s2"
  proof (cases "csInit s2")
    case True
    then show ?thesis using ok2 by simp
  next
    case False
    have "\<forall>i\<in>set [0..<length (csConns s2)]. i < length (csConns s2)" by simp
    from Announce_ok [OF ok2 ne this] obtain s3 where s3:
      "cpccAnnounce E [0..<length (csConns s2)] s2 = Some s3" "ok s3" "csHead s3 = csHead s2" "csTail s3 = csTail s2"
      "csQReq s3 = csQReq s2" "csReqId s3 = csReqId s2" by blast
    have "queue (s3\<lparr>csInit := True\<rparr>) = queue s2" by (rule queue_cong) (simp_all add: s3)
    moreover have "ok (s3\<lparr>csInit := True\<rparr>)" using s3(2) by (simp add: client_ok_def queue_ok_def conns_ok_def)
    ultimately show ?thesis using False s3(1,6) by simp
  qed
  then obtain s3 where s3:
    "(if \<not> csInit s2 then do { s \<leftarrow> cpccAnnounce E [0..<length (csConns s2)] s2; Some (s\<lparr>csInit := True\<rparr>) }
      else Some s2) = Some s3" "ok s3" "queue s3 = queue s2" "csReqId s3 = csReqId s2" by blast
  let ?s' = "if csHead s3 - csTail s3 = 1 then s3\<lparr>csTimerSignal := True\<rparr> else s3"
  have q': "queue ?s' = queue s3" by (simp add: queue_def ctx_at_def)
  have r: "cpccEnqueueOne E buf len arg s w = Some (True, ?s', step_world w)"
    by (simp only: cpccEnqueueOne_def Let_def s1(1) bind.bind_lunit c(1) len(2) not_less if_False s2 [symmetric] s3(1)
        if_not_P simp_thms)
  have "ok ?s'" using s3(2) by (simp add: client_ok_def queue_ok_def conns_ok_def CrpcQlen_def)
  then show ?thesis
    using r q' s3 p(1) s1(6,7) ck
    by (intro exI [of _ ?s'] exI [of _ ?c]) (simp add: fill_ctx_def s2)
qed

lemma SendOne_ok:
  assumes s: "ok s" and len: "unat len \<le> length buf"
  shows "\<exists>r s' w'. CrpcSendOne E buf len arg s w = Some (r, s', w') \<and> ok s'"
proof (cases "SrpcBufSize < unat len")
  case True
  then show ?thesis using s by (simp add: CrpcSendOne_def)
next
  case small: False
  let ?i = "csNextConnIdx s"
  have i: "?i < length (csConns s)" using s by (simp add: client_ok_def conns_ok_def)
  obtain cc where cc: "conn_at s ?i = Some cc" "P (ccC cc)" using conns_ok_at s i by (metis client_ok_def)
  show ?thesis
  proof (cases "ccCreditUsed cc < ccCredit cc \<and> csHead s = csTail s")
    case True
    let ?cc = "cc\<lparr>ccCreditUsed := ccCreditUsed cc + 1\<rparr>"
    let ?s1 = "put_conn ?i ?cc s"
    let ?h = "call_hdr (csReqId s) len (demand_of ?s1) (MicroTime w)"
    have q: "queue_ok ?s1" using s by (simp add: client_ok_def)
    have h: "call_msg_ok ?h" "unat (cLen ?h) \<le> length buf"
      using call_hdr_ok [OF q] small len by (auto simp: call_hdr_def)
    from send_call_spec [OF h(2), of "ccC cc"] obtain b n k where
      k: "send_call E ?h buf (ccC cc) = Some (b, n, k)" by blast
    have Pk: "P k" by (rule P_call [OF cc(2) h k])
    define cc2 where "cc2 = (if b then ?cc\<lparr>ccC := k, ccReqTx := ccReqTx cc + 1\<rparr> else ?cc\<lparr>ccC := k\<rparr>)"
    have "ok (put_conn ?i cc2 s)" using client_ok_put [OF s, of cc2 ?i] Pk by (simp add: cc2_def)
    then have "ok ((put_conn ?i cc2 s)\<lparr>csReqId := csReqId s + 1, csNextConnIdx := (?i + 1) mod length (csConns s)\<rparr>)"
      using i by (auto simp: client_ok_def queue_ok_def conns_ok_def intro: mod_less_divisor)
    then show ?thesis using True cc(1) i small k
      by (cases b) (auto simp: CrpcSendOne_def cpccSendRaw_def Let_def cc2_def)
  next
    case False
    from EnqueueOne_spec [OF s, of len buf arg w] small len obtain s1 where
      e: "cpccEnqueueOne E buf len arg s w = Some (True, s1, step_world w)" "ok s1" by (auto simp: not_less)
    from DrainQueue_ok [OF e(2), of "step_world w"] show ?thesis
      using False cc(1) small e(1) by (auto simp: CrpcSendOne_def)
  qed
qed

lemma TakeCredit_ok:
  assumes s: "ok s" and i: "i < length (csConns s)"
  shows "\<exists>s' w'. cpccTakeCredit E i a credit s w = Some (s', w') \<and> ok s' \<and> length (csConns s') = length (csConns s)"
proof -
  obtain cc where cc: "conn_at s i = Some cc" "P (ccC cc)" using conns_ok_at s i by (metis client_ok_def)
  define cc1 where "cc1 = cc\<lparr>ccCreditUsed := (if a then ccCreditUsed cc - 1 else ccCreditUsed cc),
                  ccCredit := ucast credit, ccWaitingResp := False\<rparr>"
  have ok1: "ok (put_conn i cc1 s)" using client_ok_put [OF s, of cc1 i] cc(2) by (simp add: cc1_def)
  from DrainQueue_ok [OF ok1, of w] show ?thesis
    using cc(1) ok1 by (auto simp: cpccTakeCredit_def Let_def cc1_def [symmetric])
qed

lemma RecvHdr_ok:
  assumes "P k"
  shows "\<exists>h k'. cpccRecvHdr E len k = Some (h, k') \<and> P k' \<and>
    (\<forall>shdr. h = Some shdr \<longrightarrow> unat (sLen shdr) \<le> SrpcBufSize \<and> unat (sLen shdr) \<le> len)"
proof -
  obtain n err bs k' where r: "ReadFull (xRd E) (replicate hdr_size 0) k = Some (n, err, bs, k')"
    using ReadFull_total by blast
  have "P k'" by (rule P_read [OF assms r])
  then show ?thesis using r by (auto simp: cpccRecvHdr_def Let_def)
qed

lemma RecvCall_ok:
  assumes s: "ok s" and i: "i < length (csConns s)" and len: "unat (sLen shdr) \<le> length buf"
  shows "\<exists>r buf' s' w'. cpccRecvCall E i shdr buf arg s w = Some (r, buf', s', w') \<and> ok s' \<and> length buf' = length buf \<and>
    length (csConns s') = length (csConns s)"
proof -
  obtain cc where cc: "conn_at s i = Some cc" "P (ccC cc)" using conns_ok_at s i by (metis client_ok_def)
  let ?n = "unat (sLen shdr)" let ?d = "and (sFlags shdr) PccSFlagDrop \<noteq> 0"
  have "\<exists>f n buf1 s1. (if 0 < ?n then
          if length buf < ?n then None
          else do {
            (n, err, bs, k) \<leftarrow> ReadFull (xRd E) (take ?n buf) (ccC cc);
            let cc1 = cc\<lparr>ccC := k\<rparr>;
            let cc2 = (if err = None \<and> \<not> ?d then cc1\<lparr>ccRespRx := ccRespRx cc1 + 1\<rparr> else cc1);
            Some (err \<noteq> None, n, bs @ drop ?n buf, put_conn i cc2 s)
          }
        else Some (False, hdr_size, buf, s)) = Some (f, n, buf1, s1) \<and> ok s1 \<and> length buf1 = length buf \<and>
        length (csConns s1) = length (csConns s)"
  proof (cases "0 < ?n")
    case False
    then show ?thesis using s by auto
  next
    case True
    obtain n err bs k where r: "ReadFull (xRd E) (take ?n buf) (ccC cc) = Some (n, err, bs, k)" "length bs = ?n"
      using ReadFull_total [of "take ?n buf" "ccC cc"] len by auto
    have "P k" by (rule P_read [OF cc(2) r(1)])
    then have "ok (put_conn i (cc\<lparr>ccC := k, ccRespRx := ccRespRx cc + 1\<rparr>) s)" "ok (put_conn i (cc\<lparr>ccC := k\<rparr>) s)"
      by (intro client_ok_put [OF s]; simp)+
    then show ?thesis using True r len by (simp add: Let_def)
  qed
  then obtain f n buf1 s1 where r1: "(if 0 < ?n then
          if length buf < ?n then None
          else do {
            (n, err, bs, k) \<leftarrow> ReadFull (xRd E) (take ?n buf) (ccC cc);
            let cc1 = cc\<lparr>ccC := k\<rparr>;
            let cc2 = (if err = None \<and> \<not> ?d then cc1\<lparr>ccRespRx := ccRespRx cc1 + 1\<rparr> else cc1);
            Some (err \<noteq> None, n, bs @ drop ?n buf, put_conn i cc2 s)
          }
        else Some (False, hdr_size, buf, s)) = Some (f, n, buf1, s1)" "ok s1" "length buf1 = length buf"
        "length (csConns s1) = length (csConns s)" by blast
  have i1: "i < length (csConns s1)" using i r1(4) by simp
  from TakeCredit_ok [OF r1(2) i1, of True "sCredit shdr" w] obtain s2 w2 where
    t: "cpccTakeCredit E i True (sCredit shdr) s1 w = Some (s2, w2)" "ok s2" "length (csConns s2) = length (csConns s1)" by blast
  have "ok (s2\<lparr>csRDropLog := l\<rparr>)" for l using t(2) by (simp add: client_ok_def queue_ok_def conns_ok_def)
  then show ?thesis using cc(1) r1 t unfolding cpccRecvCall_def by (simp add: Let_def)
qed

lemma RecvCredit_ok:
  assumes s: "ok s" and i: "i < length (csConns s)"
  shows "\<exists>r s' w'. cpccRecvCredit E i shdr s w = Some (r, s', w') \<and> ok s' \<and> length (csConns s') = length (csConns s)"
proof (cases "sLen shdr = 0")
  case False
  then show ?thesis using s by (simp add: cpccRecvCredit_def)
next
  case True
  from TakeCredit_ok [OF s i, of False "sCredit shdr" w] obtain s1 w1 where
    t: "cpccTakeCredit E i False (sCredit shdr) s w = Some (s1, w1)" "ok s1" "length (csConns s1) = length (csConns s)" by blast
  have "i < length (csConns s1)" using i t(3) by simp
  then obtain cc where cc: "conn_at s1 i = Some cc" "P (ccC cc)" using conns_ok_at t(2) by (metis client_ok_def)
  have "ok (put_conn i (cc\<lparr>ccECreditRx := ccECreditRx cc + 1\<rparr>) s1)"
    using client_ok_put [OF t(2), of "cc\<lparr>ccECreditRx := ccECreditRx cc + 1\<rparr>" i] cc(2) by simp
  then show ?thesis using True t cc(1) by (simp add: cpccRecvCredit_def)
qed

lemma RecvPass_ok:
  assumes s: "ok s" and i: "i < length (csConns s)" and len: "len \<le> length buf"
  shows "\<exists>r buf' s' w'. cpccRecvPass E i len buf arg s w = Some (r, buf', s', w') \<and> ok s' \<and> length buf' = length buf \<and>
    length (csConns s') = length (csConns s)"
proof -
  obtain cc where cc: "conn_at s i = Some cc" "P (ccC cc)" using conns_ok_at s i by (metis client_ok_def)
  from RecvHdr_ok [OF cc(2), of len] obtain h k where
    h: "cpccRecvHdr E len (ccC cc) = Some (h, k)" "P k"
      "\<forall>shdr. h = Some shdr \<longrightarrow> unat (sLen shdr) \<le> SrpcBufSize \<and> unat (sLen shdr) \<le> len" by blast
  let ?s = "put_conn i (cc\<lparr>ccC := k\<rparr>) s"
  have s1: "ok ?s" "i < length (csConns ?s)" using client_ok_put [OF s, of "cc\<lparr>ccC := k\<rparr>" i] h(2) i by auto
  show ?thesis
  proof (cases h)
    case None
    then show ?thesis using cc h s1 by (simp add: cpccRecvPass_def Let_def)
  next
    case (Some shdr)
    then have l: "unat (sLen shdr) \<le> length buf" using h(3) len by auto
    from RecvCall_ok [OF s1 l, of arg w] RecvCredit_ok [OF s1, of shdr w] show ?thesis
      using cc h(1) Some s1(1) by (auto simp: cpccRecvPass_def Let_def)
  qed
qed

lemma Timer_ok:
  assumes s: "ok s"
  shows "\<exists>r s' w'. cpccTimer E s w = Some (r, s', w') \<and> ok s'"
proof -
  from DropLoop_ok [OF s, of "\<lambda>c. MicroTime w - rTs c \<le> xDelay E"] obtain s1 where
    s1: "cpccDropLoop (\<lambda>c. MicroTime w - rTs c \<le> xDelay E) s = Some s1" "ok s1" by blast
  have "queue_ok s1" using s1(2) by (simp add: client_ok_def)
  then obtain c where c: "ctx_at s1 (csHead s1 - 1) = Some c" using ctx_at_Some by blast
  have "ok (s\<lparr>csTimerSignal := False\<rparr>)" using s by (simp add: client_ok_def queue_ok_def conns_ok_def)
  then show ?thesis using s s1 c by (auto simp: cpccTimer_def Let_def)
qed

lemma AddConnection_ok:
  assumes "ok s" "\<And>k. dial = Some k \<Longrightarrow> P k"
  shows "ok (snd (CrpcAddConnection port dial s))"
  using assms by (auto simp: CrpcAddConnection_def client_ok_def queue_ok_def conns_ok_def split: option.splits)

lemma Open_ok:
  assumes "CrpcOpen port dial ident l r = (Some s, ret)" "\<And>k. dial = Some k \<Longrightarrow> P k"
  shows "ok s"
  using assms
  by (auto simp: CrpcOpen_def client_ok_def queue_ok_def conns_ok_def ctx_ok_def CrpcQlen_def CrpcMaxReplica_def
      split: if_splits option.splits)

end

section \<open>The client as a transition system\<close>

text \<open>
  The operations of a session in any order and with any clock: calls of the application, messages from
  the server, the timer.  A new connection comes from \<open>dial\<close>.
\<close>

inductive client_step :: "'k cpccEnv \<Rightarrow> ('k \<Rightarrow> bool) \<Rightarrow> ('a, 'k) cpccSession \<Rightarrow> ('a, 'k) cpccSession \<Rightarrow> bool"
  for E :: "'k cpccEnv" and fresh :: "'k \<Rightarrow> bool" where
  Add: "(\<And>k. dial = Some k \<Longrightarrow> fresh k) \<Longrightarrow> client_step E fresh s (snd (CrpcAddConnection port dial s))"
| Send: "unat len \<le> length buf \<Longrightarrow> CrpcSendOne E buf len arg s w = Some (r, s', w') \<Longrightarrow> client_step E fresh s s'"
| Receive: "i < length (csConns s) \<Longrightarrow> len \<le> length buf \<Longrightarrow>
     cpccRecvPass E i len buf arg s w = Some (o', buf', s', w') \<Longrightarrow> client_step E fresh s s'"
| Timer: "cpccTimer E s w = Some (t, s', w') \<Longrightarrow> client_step E fresh s s'"
| Clear: "client_step E fresh s (CrpcStatClear s)"
| Stop: "client_step E fresh s (CrpcClose_stop s)"

inductive client_reachable :: "'k cpccEnv \<Rightarrow> ('k \<Rightarrow> bool) \<Rightarrow> ('a, 'k) cpccSession \<Rightarrow> bool"
  for E :: "'k cpccEnv" and fresh :: "'k \<Rightarrow> bool" where
  Open: "CrpcOpen port (Some k) ident l r = (Some s, ret) \<Longrightarrow> fresh k \<Longrightarrow> client_reachable E fresh s"
| Step: "client_reachable E fresh s \<Longrightarrow> client_step E fresh s s' \<Longrightarrow> client_reachable E fresh s'"

context cpcc_client
begin

lemma client_step_ok:
  assumes "client_step E fresh s s'" "ok s" "\<And>k. fresh k \<Longrightarrow> P k"
  shows "ok s'"
  using assms
proof (induction rule: client_step.induct)
  case (Add dial s port)
  then show ?case using AddConnection_ok [of s dial port] by blast
next
  case (Send len buf arg s w r s' w')
  then show ?case using SendOne_ok [of s len buf arg w] by auto
next
  case (Receive i s len buf arg w o' buf' s' w')
  then show ?case using RecvPass_ok [of s i len buf arg w] by auto
next
  case (Timer s w t s' w')
  then show ?case using Timer_ok [of s w] by auto
next
  case (Clear s)
  then show ?case by (auto simp: CrpcStatClear_def client_ok_def queue_ok_def conns_ok_def)
next
  case (Stop s)
  then show ?case by (auto simp: CrpcClose_stop_def client_ok_def queue_ok_def conns_ok_def)
qed

lemma client_reachable_ok:
  assumes "client_reachable E fresh s" "\<And>k. fresh k \<Longrightarrow> P k"
  shows "ok s"
  using assms
proof (induction rule: client_reachable.induct)
  case (Open port k ident l r s ret)
  then show ?case using Open_ok [of port "Some k"] by blast
next
  case (Step s s')
  then show ?case using client_step_ok by blast
qed

end

end
