(* ===== verification/Client_Properties.thy ===== *)
theory Client_Properties
  imports Client_Safety
begin

text \<open>
  The properties of the client (\<open>src/ovldctlrpc/pcc/pcc_client.go\<close>): safety of every operation, the
  queue as a bounded queue, exactness of the sending and the expiry loops, and the format of everything
  the client puts on the wire.
\<close>

section \<open>What the client writes\<close>

definition wire_ok :: "cpccHdr \<times> byte list \<Rightarrow> bool" where
  "wire_ok m \<longleftrightarrow> (call_msg_ok (fst m) \<or> credit_msg_ok (fst m)) \<and> length (snd m) = unat (cLen (fst m))"

definition wire_bytes :: "byte list \<Rightarrow> (cpccHdr \<times> byte list) list \<Rightarrow> byte list" where
  "wire_bytes pad ms = concat (map (\<lambda>m. CpccHdr_bytes pad (fst m) @ snd m) ms)"

definition stream_ok :: "byte list \<Rightarrow> ('k \<Rightarrow> byte list) \<Rightarrow> 'k \<Rightarrow> bool" where
  "stream_ok pad sent k \<longleftrightarrow> (\<exists>ms. sent k = wire_bytes pad ms \<and> (\<forall>m\<in>set ms. wire_ok m))"

lemma stream_ok_extend:
  assumes "stream_ok pad sent k" "wire_ok (h, p)" "sent k' = sent k @ CpccHdr_bytes pad h @ p"
  shows "stream_ok pad sent k'"
proof -
  obtain ms where ms: "sent k = wire_bytes pad ms" "\<forall>m\<in>set ms. wire_ok m" using assms(1) by (auto simp: stream_ok_def)
  have "sent k' = wire_bytes pad (ms @ [(h, p)])" using assms(3) ms(1) by (simp add: wire_bytes_def)
  moreover have "\<forall>m\<in>set (ms @ [(h, p)]). wire_ok m" using ms(2) assms(2) by auto
  ultimately show ?thesis unfolding stream_ok_def by blast
qed

text \<open>A connection on which writes do not fail, and reading does not change what was written.\<close>

locale cpcc_reliable = cpcc_sender E sent + byte_stream "xRd E" pending
  for E :: "'k cpccEnv" and sent :: "'k \<Rightarrow> byte list" and pending :: "'k \<Rightarrow> byte list" +
  assumes wr_never_fails: "fst (snd (xWr E bs c)) = None"
    and rd_keeps_sent: "sent (snd (snd (xRd E n c))) = sent c"
begin

lemma WriteFull_reliable: "\<exists>k'. WriteFull (xWr E) buf k = Some (length buf, None, k') \<and> sent k' = sent k @ buf"
proof (cases "buf = []")
  case True
  then show ?thesis by (simp add: WriteFull_def WriteFull_loop.simps)
next
  case False
  obtain n err k' where r: "xWr E buf k = (n, err, k')" by (cases "xWr E buf k")
  then have "err = None" using wr_never_fails [of buf k] by simp
  then have "n = length buf" "sent k' = sent k @ buf" using wr_all r by auto
  then show ?thesis using False r \<open>err = None\<close> by (simp add: WriteFull_def WriteFull_loop.simps)
qed

lemma ReadFull_loop_sent:
  assumes "tot \<le> length buf" "ReadFull_loop (xRd E) buf tot k = Some (n, err, buf', k')"
  shows "sent k' = sent k"
  using assms
proof (induction "length buf - tot" arbitrary: buf tot k rule: less_induct)
  case less
  show ?case
  proof (cases "tot < length buf")
    case False
    then show ?thesis using less.prems by (subst (asm) ReadFull_loop.simps) simp
  next
    case True
    obtain bs e k1 where r: "xRd E (length buf - tot) k = (bs, e, k1)" by (cases "xRd E (length buf - tot) k")
    have s1: "sent k1 = sent k" using rd_keeps_sent [of "length buf - tot" k] r by simp
    have bl: "length bs \<le> length buf - tot" using rd_len [of "length buf - tot" k] r by simp
    have len: "length (put_at tot bs buf) = length buf" using bl True by (simp add: put_at_def)
    show ?thesis
    proof (cases e)
      case (Some x)
      then show ?thesis using True r less.prems s1 by (subst (asm) ReadFull_loop.simps) simp
    next
      case None
      have "bs \<noteq> []" using rd_progress [of "length buf - tot" k bs k1] r None True by simp
      then have "0 < length bs" by simp
      then have "length (put_at tot bs buf) - (tot + length bs) < length buf - tot"
        "tot + length bs \<le> length (put_at tot bs buf)" using bl True unfolding len by arith+
      moreover have "ReadFull_loop (xRd E) (put_at tot bs buf) (tot + length bs) k1 = Some (n, err, buf', k')"
        using less.prems(2) True r None by (subst (asm) ReadFull_loop.simps) simp
      ultimately show ?thesis using less.hyps s1 by metis
    qed
  qed
qed

end

sublocale cpcc_reliable \<subseteq> cpcc_client E sent pending "stream_ok (xPad E) sent"
proof unfold_locales
  fix k h buf b n k'
  assume P: "stream_ok (xPad E) sent k" and h: "call_msg_ok h" and l: "unat (cLen h) \<le> length buf"
    and c: "send_call E h buf k = Some (b, n, k')"
  obtain k1 where k1: "WriteFull (xWr E) (CpccHdr_bytes (xPad E) h) k = Some (length (CpccHdr_bytes (xPad E) h), None, k1)"
    "sent k1 = sent k @ CpccHdr_bytes (xPad E) h" using WriteFull_reliable by blast
  obtain k2 where k2: "WriteFull (xWr E) (take (unat (cLen h)) buf) k1 = Some (length (take (unat (cLen h)) buf), None, k2)"
    "sent k2 = sent k1 @ take (unat (cLen h)) buf" using WriteFull_reliable by blast
  have "k' = k2" using c k1 k2 l by (simp add: send_call_def)
  then have "sent k' = sent k @ CpccHdr_bytes (xPad E) h @ take (unat (cLen h)) buf" using k1 k2 by simp
  then show "stream_ok (xPad E) sent k'"
    by (rule stream_ok_extend [OF P, rotated]) (use h l in \<open>simp add: wire_ok_def\<close>)
next
  fix k h n err k'
  assume P: "stream_ok (xPad E) sent k" and h: "credit_msg_ok h"
    and c: "WriteFull (xWr E) (CpccHdr_bytes (xPad E) h) k = Some (n, err, k')"
  have "sent k' = sent k @ CpccHdr_bytes (xPad E) h @ []"
    using WriteFull_reliable [of "CpccHdr_bytes (xPad E) h" k] c by auto
  then show "stream_ok (xPad E) sent k'"
    by (rule stream_ok_extend [OF P, rotated]) (use h in \<open>simp add: wire_ok_def credit_msg_ok_def\<close>)
next
  fix k buf n err buf' k'
  assume "stream_ok (xPad E) sent k" "ReadFull (xRd E) buf k = Some (n, err, buf', k')"
  then show "stream_ok (xPad E) sent k'"
    using ReadFull_loop_sent [of 0 buf k n err buf' k'] by (simp add: ReadFull_def stream_ok_def)
qed

context cpcc_reliable
begin

lemma reachable_stream:
  assumes "client_reachable E (\<lambda>k. sent k = []) s"
  shows "client_ok (stream_ok (xPad E) sent) s"
proof (rule client_reachable_ok [OF assms])
  show "sent k = [] \<Longrightarrow> stream_ok (xPad E) sent k" for k
    unfolding stream_ok_def wire_bytes_def by (intro exI [of _ "[]"]) simp
qed

end

definition mem_client :: "u64 \<Rightarrow> mem_conn cpccEnv" where
  "mem_client delay = \<lparr>xRd = mem_read, xWr = mem_write, xPad = replicate 7 0, xDelay = delay\<rparr>"

interpretation mc: cpcc_reliable "mem_client delay" written "\<lambda>c. concat (segments c)" for delay
proof -
  have "byte_sink mem_write written" by (rule memw.byte_sink_axioms)
  moreover have "byte_stream mem_read (\<lambda>c. concat (segments c))" by (rule memr.byte_stream_axioms)
  ultimately show "cpcc_reliable (mem_client delay) written (\<lambda>c. concat (segments c))"
    by (simp add: cpcc_reliable_def cpcc_sender_def cpcc_reliable_axioms_def mem_client_def mem_write_def mem_read_def
        split: list.split)
qed

lemma any_client: "byte_sink (xWr E) sent \<Longrightarrow> byte_stream (xRd E) pending \<Longrightarrow> cpcc_client E sent pending (\<lambda>_. True)"
  by (simp add: cpcc_client_def cpcc_sender_def cpcc_client_axioms_def)

lemma burst_0 [simp]: "burst pad now q 0 = []"
  by (cases q) simp_all

lemma credits_charged_many: "m \<le> credits cc \<Longrightarrow> credits (charged m k cc) = credits cc - m"
proof -
  assume m: "m \<le> credits cc"
  have "unat (ccCreditUsed cc + of_nat m) = unat (ccCreditUsed cc) + m"
  proof (cases "m = 0")
    case False
    then have "unat (ccCreditUsed cc) + m < 2 ^ 32" using m unat_bound [of "ccCredit cc"] by (simp add: credits_def)
    then show ?thesis by (simp add: unat_word_ariths unat_of_nat take_bit_eq_mod)
  qed simp
  then show ?thesis by (simp add: credits_def charged_def)
qed

section \<open>An example session\<close>

text \<open>
  A session with one connection that holds 5 credits, 3 of them used, and three queued requests whose
  ring positions straddle the wrap-around of the counters.
\<close>

definition demo_request :: "nat crpcCtx" where
  "demo_request = \<lparr>rLen = 2, rId = 7, rTs = 100, rBuf = replicate SrpcBufSize 0, rArg = None\<rparr>"

definition demo_cconn :: "mem_conn cpccConn" where
  "demo_cconn = \<lparr>ccC = \<lparr>segments = [], written = []\<rparr>, ccWaitingResp = False, ccCredit = 5, ccCreditUsed = 3,
     ccECreditRx = 0, ccCUpdateTx = 0, ccRespRx = 0, ccReqTx = 0, ccCreditExpired = 0\<rparr>"

definition demo_client :: "(nat, mem_conn) cpccSession" where
  "demo_client = \<lparr>csId = 1, csReqId = 10, csNextConnIdx = 0, csRunning = True, csInit = True, csTimerSignal = False,
     csHead = 1, csTail = - 2, csQReq = replicate CrpcQlen (Some demo_request), csReqDropped = 0,
     csConns = [demo_cconn], csLDropHandler = True, csRDropHandler = True, csLDropLog = [], csRDropLog = []\<rparr>"

lemma demo_client_ok: "client_ok (\<lambda>_. True) demo_client"
  by (simp add: client_ok_def queue_ok_def conns_ok_def demo_client_def ctx_ok_def demo_request_def CrpcQlen_def
      CrpcMaxReplica_def SrpcBufSize_def)

lemma demo_client_queue: "queue demo_client = replicate 3 demo_request"
proof -
  have "ctx_at demo_client p = Some demo_request" for p
    using ring_pos_less [of p] by (simp add: ctx_at_def demo_client_def CrpcQlen_def)
  moreover have "unat (csHead demo_client - csTail demo_client) = 3" by (simp add: demo_client_def)
  ultimately show ?thesis by (simp add: queue_def map_replicate_const)
qed

lemma demo_client_conn: "conn_at demo_client 0 = Some demo_cconn" "credits demo_cconn = 2"
  by (simp_all add: conn_at_def demo_client_def credits_def demo_cconn_def)

definition fresh_client :: "(nat, mem_conn) cpccSession" where
  "fresh_client = the (fst (CrpcOpen SrpcPort (Some \<lparr>segments = [], written = []\<rparr>) 1 True True))"

lemma fresh_client_reachable: "fresh \<lparr>segments = [], written = []\<rparr> \<Longrightarrow> client_reachable E fresh fresh_client"
  by (rule client_reachable.Open [of SrpcPort "\<lparr>segments = [], written = []\<rparr>" 1 True True _ 0])
    (simp_all add: fresh_client_def CrpcOpen_def)

definition demo_clock :: world where
  "demo_clock = \<lparr>clock = (\<lambda>_. 105), qdelay = (\<lambda>_. 0), memacc = (\<lambda>_. 0), energy = (\<lambda>_. FFin 0), procid = (\<lambda>_. 0),
     coin = (\<lambda>_. True), trylock = (\<lambda>_. True), rndf = (\<lambda>_. FFin 0), rndnorm = (\<lambda>_. FFin 0), tick = 0\<rparr>"

section \<open>Properties\<close>

text \<open>
  C8.  No operation of a client session panics, whatever the order of calls, messages and timer rounds
  and whatever the connections do: sending, receiving and the timer always return, and the queue never
  holds more than 16 requests.
\<close>

theorem cpcc_no_panic:
  assumes "byte_sink (xWr E) sent" "byte_stream (xRd E) pending" "client_reachable E (\<lambda>_. True) s"
  shows "length (queue s) \<le> 16 \<and>
    (\<forall>buf len arg w. unat len \<le> length buf \<longrightarrow> CrpcSendOne E buf len arg s w \<noteq> None) \<and>
    (\<forall>i len buf arg w. i < length (csConns s) \<longrightarrow> len \<le> length buf \<longrightarrow> cpccRecvPass E i len buf arg s w \<noteq> None) \<and>
    (\<forall>w. cpccTimer E s w \<noteq> None)"
proof -
  note C = any_client [OF assms(1,2)]
  have ok: "client_ok (\<lambda>_. True) s" by (rule cpcc_client.client_reachable_ok [OF C assms(3)]) simp
  have "length (queue s) \<le> 16" using ok by (simp add: client_ok_def queue_ok_def CrpcQlen_def)
  moreover have "CrpcSendOne E buf len arg s w \<noteq> None" if "unat len \<le> length buf" for buf len arg w
    using cpcc_client.SendOne_ok [OF C ok that] by (metis option.distinct(1))
  moreover have "cpccRecvPass E i len buf arg s w \<noteq> None" if "i < length (csConns s)" "len \<le> length buf" for i len buf arg w
    using cpcc_client.RecvPass_ok [OF C ok that] by (metis option.distinct(1))
  moreover have "cpccTimer E s w \<noteq> None" for w
    using cpcc_client.Timer_ok [OF C ok, of w] by auto
  ultimately show ?thesis by blast
qed

theorem cpcc_no_panic_witness:
  "length (queue fresh_client) \<le> 16 \<and> (\<forall>w. cpccTimer (mem_client 10) fresh_client w \<noteq> None)"
proof -
  have "byte_sink (xWr (mem_client 10)) written" "byte_stream (xRd (mem_client 10)) (\<lambda>c. concat (segments c))"
    using memw.byte_sink_axioms memr.byte_stream_axioms by (simp_all add: mem_client_def)
  from cpcc_no_panic [OF this fresh_client_reachable] show ?thesis by blast
qed

text \<open>
  C10.  The ring of 16 request objects with its two wrapping 32-bit counters is a bounded queue:
  \<open>cpccEnqueueOne\<close> appends the new request, with the next request number, the current time, the
  payload and its argument, and when the queue is full it first drops the oldest request.
\<close>

theorem cpcc_enqueue_fifo:
  assumes "byte_sink (xWr E) sent" "byte_stream (xRd E) pending" "client_ok (\<lambda>_. True) s"
    and "unat len \<le> SrpcBufSize" "unat len \<le> length buf"
  shows "\<exists>s' c. cpccEnqueueOne E buf len arg s w = Some (True, s', step_world w) \<and>
    queue s' = (if 16 \<le> length (queue s) then tl (queue s) else queue s) @ [c] \<and>
    rId c = csReqId s \<and> rLen c = len \<and> rTs c = MicroTime w \<and> rArg c = arg \<and>
    take (unat len) (rBuf c) = take (unat len) buf \<and> csReqId s' = csReqId s + 1 \<and> client_ok (\<lambda>_. True) s'"
  using cpcc_client.EnqueueOne_spec [OF any_client [OF assms(1,2)] assms(3-5), of arg w]
  unfolding CrpcQlen_def by blast

theorem cpcc_enqueue_fifo_witness:
  "\<exists>s' c. cpccEnqueueOne (mem_client 10) [1, 2, 3] 2 None demo_client demo_clock = Some (True, s', step_world demo_clock) \<and>
     queue s' = replicate 3 demo_request @ [c] \<and> rId c = 10 \<and> take 2 (rBuf c) = [1, 2]"
proof -
  have E: "byte_sink (xWr (mem_client 10)) written" "byte_stream (xRd (mem_client 10)) (\<lambda>c. concat (segments c))"
    using memw.byte_sink_axioms memr.byte_stream_axioms by (simp_all add: mem_client_def)
  have "csReqId demo_client = 10" by (simp add: demo_client_def)
  with cpcc_enqueue_fifo [OF E demo_client_ok, of 2 "[1, 2, 3]" None demo_clock] demo_client_queue
  show ?thesis by (simp add: SrpcBufSize_def del: queue_length) blast
qed

text \<open>
  C9.  \<open>cpccSendRequestVector\<close> sends exactly as many requests as the queue holds and the credits of
  the connection allow, from the front of the queue and in order, each announcing how many requests
  remain, and charges one credit per request; it never spends more credits than it has.  When a write
  fails it stops: the requests before are sent, and the one being written is lost.
\<close>

theorem cpcc_vector_exact:
  assumes "byte_sink (xWr E) sent" "queue_ok s" "conn_at s i = Some cc"
  shows "\<exists>r s' cc'. cpccSendRequestVector E i s w = Some (r, s', step_world w) \<and> conn_at s' i = Some cc' \<and>
    (if r = 0 then
       (let m = min (length (queue s)) (credits cc) in
         queue s' = drop m (queue s) \<and> ccCreditUsed cc' = ccCreditUsed cc + of_nat m \<and>
         credits cc' = credits cc - m \<and>
         sent (ccC cc') = sent (ccC cc) @ burst (xPad E) (MicroTime w) (queue s) m)
     else \<exists>m < min (length (queue s)) (credits cc).
         queue s' = drop (Suc m) (queue s) \<and> ccCreditUsed cc' = ccCreditUsed cc + of_nat m)"
proof -
  let ?q = "queue s" and ?now = "MicroTime w" and ?m = "min (length (queue s)) (credits cc)"
  have i: "i < length (csConns s)" using assms(3) by (simp add: conn_at_def split: if_splits)
  show ?thesis
  proof (cases "csHead s = csTail s \<or> ccCredit cc \<le> ccCreditUsed cc")
    case True
    then have "?q = [] \<or> credits cc = 0" by (auto simp: queue_empty_iff credits_def word_le_nat_alt)
    then have m: "?m = 0" by (auto simp del: queue_length)
    have "cpccSendRequestVector E i s w = Some (0, s, step_world w)"
      using True assms(3) by (simp add: cpccSendRequestVector_def Let_def)
    then show ?thesis using assms(3) unfolding m by (intro exI [of _ 0] exI [of _ s] exI [of _ cc]) simp
  next
    case False
    have "cpcc_sender E sent" using assms(1) by (simp add: cpcc_sender_def)
    from cpcc_sender.VectorLoop_spec [OF this assms(2,3), of ?now] obtain b m k where
      v: "cpccVectorLoop E ?now i s = Some (b, sent_front (if b then m else Suc m) i (charged m k cc) s)"
        "if b then m = ?m \<and> sent k = sent (ccC cc) @ burst (xPad E) ?now ?q m else m < ?m"
        "queue (sent_front (if b then m else Suc m) i (charged m k cc) s) = drop (if b then m else Suc m) ?q" by blast
    let ?s = "sent_front (if b then m else Suc m) i (charged m k cc) s"
    let ?s' = "if b \<and> csHead ?s = csTail ?s then ?s\<lparr>csHead := 0, csTail := 0\<rparr> else ?s"
    have r: "cpccSendRequestVector E i s w = Some (if b then 0 else - 1, ?s', step_world w)"
      using False assms(3) v(1) by (simp add: cpccSendRequestVector_def Let_def)
    have q: "queue ?s' = drop (if b then m else Suc m) ?q"
      using v(3) queue_empty_iff [of ?s] by (auto simp: queue_def)
    have c: "conn_at ?s' i = Some (charged m k cc)" using i by (simp add: conn_at_def sent_front_def)
    have "m \<le> credits cc" using v(2) by (auto split: if_splits)
    then have cr: "credits (charged m k cc) = credits cc - m" by (rule credits_charged_many)
    show ?thesis
      using r q c v(2) cr
      by (intro exI [of _ "if b then 0 else - 1"] exI [of _ ?s'] exI [of _ "charged m k cc"])
        (cases b; auto simp: charged_def Let_def)
  qed
qed


theorem cpcc_vector_exact_witness:
  "\<exists>r s' cc'. cpccSendRequestVector (mem_client 10) 0 demo_client demo_clock = Some (r, s', step_world demo_clock) \<and>
     conn_at s' 0 = Some cc' \<and> (r = 0 \<longrightarrow> queue s' = [demo_request] \<and> credits cc' = 0)"
proof -
  have "byte_sink (xWr (mem_client 10)) written" using memw.byte_sink_axioms by (simp add: mem_client_def)
  moreover have "queue_ok demo_client" using demo_client_ok by (simp add: client_ok_def)
  ultimately obtain r s' cc' where
    "cpccSendRequestVector (mem_client 10) 0 demo_client demo_clock = Some (r, s', step_world demo_clock)"
    "conn_at s' 0 = Some cc'" "r = 0 \<longrightarrow> queue s' = drop 2 (queue demo_client) \<and> credits cc' = 0"
    using cpcc_vector_exact [of "mem_client 10" written demo_client 0 demo_cconn demo_clock] demo_client_conn
    unfolding Let_def by (simp add: demo_client_queue del: queue_length split: if_splits) blast
  then show ?thesis unfolding demo_client_queue by (simp add: numeral_nat)
qed

text \<open>
  C11.  A round of the timer drops exactly the requests at the front of the queue that have waited longer
  than the bound, in order, calling the application's drop handler once for each, and counts them; the
  rest of the queue is untouched.  It sleeps only when requests remain, and it waits for a signal only
  when the queue is empty.
\<close>

theorem cpcc_timer_exact:
  fixes E :: "'k cpccEnv" and s :: "('a, 'k) cpccSession" and w :: world
  assumes "queue_ok s" "csRunning s" "queue s \<noteq> []"
  defines "old \<equiv> takeWhile (\<lambda>c. xDelay E < MicroTime w - rTs c) (queue s)"
  shows "\<exists>t s' w'. cpccTimer E s w = Some (t, s', w') \<and>
    queue s = old @ queue s' \<and> (queue s' \<noteq> [] \<longrightarrow> \<not> xDelay E < MicroTime w - rTs (hd (queue s'))) \<and>
    csReqDropped s' = csReqDropped s + of_nat (length old) \<and>
    csLDropLog s' = (if csLDropHandler s then csLDropLog s @ old else csLDropLog s) \<and>
    t \<noteq> TimerWait \<and> t \<noteq> TimerExit \<and> (t = TimerAgain \<longleftrightarrow> queue s' = [])"
proof -
  let ?stop = "\<lambda>c. MicroTime w - rTs c \<le> xDelay E"
  have ns: "(\<lambda>c. \<not> ?stop c) = (\<lambda>c. xDelay E < MicroTime w - rTs c)" by (auto simp: not_le)
  from DropLoop_spec [OF assms(1), of ?stop] obtain s' where
    s': "cpccDropLoop ?stop s = Some s'" "queue_ok s'" "queue s' = dropWhile (\<lambda>c. xDelay E < MicroTime w - rTs c) (queue s)"
      "s' = dropped_front old s" unfolding ns old_def by blast
  obtain c where c: "ctx_at s' (csHead s' - 1) = Some c" using ctx_at_Some [OF s'(2)] by blast
  have ne: "csHead s \<noteq> csTail s" using assms(3) queue_empty_iff [of s] by simp
  have "\<exists>t w'. cpccTimer E s w = Some (t, s', w') \<and> t \<noteq> TimerWait \<and> t \<noteq> TimerExit \<and> (t = TimerAgain \<longleftrightarrow> queue s' = [])"
    using assms(2) ne s'(1) c by (cases "csHead s' = csTail s'") (simp_all add: cpccTimer_def Let_def queue_empty_iff)
  moreover have "queue s' \<noteq> [] \<longrightarrow> \<not> xDelay E < MicroTime w - rTs (hd (queue s'))"
    unfolding s'(3) using hd_dropWhile by metis
  moreover have "queue s = old @ queue s'" by (simp add: s'(3) old_def)
  moreover have "csReqDropped s' = csReqDropped s + of_nat (length old)"
    "csLDropLog s' = (if csLDropHandler s then csLDropLog s @ old else csLDropLog s)"
    unfolding s'(4) by (simp_all add: dropped_front_def)
  ultimately show ?thesis by blast
qed

theorem cpcc_timer_exact_witness:
  "\<exists>t s' w'. cpccTimer (mem_client 4) demo_client demo_clock = Some (t, s', w') \<and> queue s' = [] \<and>
     csReqDropped s' = 3 \<and> t = TimerAgain"
proof -
  have "queue_ok demo_client" "csRunning demo_client" "queue demo_client \<noteq> []"
    using demo_client_ok demo_client_queue by (simp_all add: client_ok_def demo_client_def)
  note T = cpcc_timer_exact [OF this, of "mem_client 4" demo_clock]
  have "takeWhile (\<lambda>c. xDelay (mem_client 4) < MicroTime demo_clock - rTs c) (queue demo_client) = replicate 3 demo_request"
    unfolding demo_client_queue
    by (auto simp: takeWhile_eq_all_conv mem_client_def MicroTime_def demo_clock_def demo_request_def)
  moreover have "csReqDropped demo_client = 0" by (simp add: demo_client_def)
  ultimately show ?thesis using T unfolding demo_client_queue by auto
qed

text \<open>
  C12.  Over a connection that does not fail, everything a client ever writes is a sequence of complete,
  well-formed messages: requests with a payload of the announced length (at most 2048 bytes) and a demand
  of at most 16, and credit updates without payload and with a demand between 1 and 16.
\<close>

theorem cpcc_wire_format:
  assumes "cpcc_reliable E sent pending" "client_reachable E (\<lambda>k. sent k = []) s" "conn_at s i = Some cc"
  shows "\<exists>ms. sent (ccC cc) = concat (map (\<lambda>(h, p). CpccHdr_bytes (xPad E) h @ p) ms) \<and>
    (\<forall>(h, p)\<in>set ms. cMagic h = PccReqMagic \<and> length p = unat (cLen h) \<and> unat (cLen h) \<le> 2048 \<and> unat (cDemand h) \<le> 16 \<and>
       (cOp h = PccOpCall \<or> cOp h = PccOpCredit \<and> p = [] \<and> 0 < unat (cDemand h)))"
proof -
  have "client_ok (stream_ok (xPad E) sent) s"
    by (rule cpcc_reliable.reachable_stream [OF assms(1,2)])
  then have "stream_ok (xPad E) sent (ccC cc)" using conn_at_P [OF _ assms(3)] by (auto simp: client_ok_def)
  then obtain ms where ms: "sent (ccC cc) = wire_bytes (xPad E) ms" "\<forall>m\<in>set ms. wire_ok m" by (auto simp: stream_ok_def)
  have "sent (ccC cc) = concat (map (\<lambda>(h, p). CpccHdr_bytes (xPad E) h @ p) ms)"
    unfolding ms(1) wire_bytes_def by (rule arg_cong [of _ _ concat]) (auto intro: map_cong)
  then show ?thesis using ms(2)
    by (intro exI [of _ ms])
      (auto simp: wire_ok_def call_msg_ok_def credit_msg_ok_def CrpcQlen_def SrpcBufSize_def split: prod.splits)
qed

theorem cpcc_wire_format_witness:
  "\<exists>cc ms. conn_at fresh_client 0 = Some cc \<and>
     written (ccC cc) = concat (map (\<lambda>(h, p). CpccHdr_bytes (replicate 7 0) h @ p) ms)"
proof -
  have r: "client_reachable (mem_client 10) (\<lambda>k. written k = []) fresh_client" by (rule fresh_client_reachable) simp
  obtain cc where cc: "conn_at fresh_client 0 = Some cc" by (simp add: fresh_client_def CrpcOpen_def conn_at_def)
  from cpcc_wire_format [OF mc.cpcc_reliable_axioms r cc] cc show ?thesis by (auto simp: mem_client_def)
qed

end
