(* ===== verification/Breakwater.thy ===== *)
theory Breakwater
  imports Pcc_Server Pcc_Client
begin

text \<open>
  Breakwater, \<open>src/ovldctlrpc/breakwater\<close>.  Its protocol and client (\<open>bw_proto.go\<close>,
  \<open>bw_client.go\<close>) are those of Svalinn with other names, and so are the sessions, the drained lists
  and the sender of its server (\<open>bw_server.go\<close>): those definitions are instances of the ones of
  theories \<open>Wire\<close>, \<open>Pcc_Client\<close>, \<open>Credit_Session\<close>, \<open>Credit_Drained\<close> and
  \<open>Pcc_Server\<close>.  What is its own is the controller: once per round-trip time the credit pool grows
  additively while the queueing delay is below the target, and shrinks multiplicatively above it.  The
  controller takes no lock; each of its functions is one step here.
\<close>

section \<open>Protocol\<close>

definition BwReqMagic where "BwReqMagic = PccReqMagic"
definition BwRespMagic where "BwRespMagic = PccRespMagic"
definition BwOpCall where "BwOpCall = PccOpCall"
definition BwOpCredit where "BwOpCredit = PccOpCredit"
definition BwOpMax where "BwOpMax = PccOpMax"
definition BwCFlagDsync where "BwCFlagDsync = PccCFlagDsync"
definition BwSFlagDrop where "BwSFlagDrop = PccSFlagDrop"
type_synonym cbwHdr = cpccHdr
type_synonym sbwHdr = spccHdr

section \<open>Client\<close>

definition cbwSendCUpdate where "cbwSendCUpdate = cpccSendCUpdate"
definition cbwSendRaw where "cbwSendRaw = cpccSendRaw"
definition cbwSendRequestVector where "cbwSendRequestVector = cpccSendRequestVector"
definition cbwDrainQueue where "cbwDrainQueue = cpccDrainQueue"
definition cbwEnqueueOne where "cbwEnqueueOne = cpccEnqueueOne"
definition cbwAddConnection where "cbwAddConnection = CrpcAddConnection"
definition cbwSendOne where "cbwSendOne = CrpcSendOne"
definition cbwRecvOne where "cbwRecvOne = CrpcRecvOne"
definition cbwTimer where "cbwTimer = cpccTimer"
definition cbwOpen where "cbwOpen = CrpcOpen"
definition cbwClose_stop where "cbwClose_stop = CrpcClose_stop"
definition cbwClose_free where "cbwClose_free = CrpcClose_free"
definition cbwCredit where "cbwCredit = CrpcCredit"
definition cbwStatClear where "cbwStatClear = CrpcStatClear"
definition cbwStatECreditRx where "cbwStatECreditRx = CrpcStatECreditRx"
definition cbwStatCreditExpired where "cbwStatCreditExpired = CrpcStatCreditExpired"
definition cbwStatCUpdateTx where "cbwStatCUpdateTx = CrpcStatCUpdateTx"
definition cbwStatRespRx where "cbwStatRespRx = CrpcStatRespRx"
definition cbwStatReqTx where "cbwStatReqTx = CrpcStatReqTx"
definition cbwStatReqDropped where "cbwStatReqDropped = CrpcStatReqDropped"
type_synonym 'k cbwConn = "'k cpccConn"
type_synonym ('a, 'k) cbwSession = "('a, 'k) cpccSession"

section \<open>Server state\<close>

record sbwOps = credOps +
  LastCpUpdate :: u64

type_synonym sbwCtx = credCtx
type_synonym ('b, 'k) sbwSession = "('b, credCtx, 'k) credSession"
type_synonym ('b, 'k) sbwServer = "(sbwOps, 'b, credCtx, 'k) credSys"

record sbwCfg =
  bwDelayTarget :: u64
  bwDropThresh :: u64
  bwRttUs :: u64
  bwAI :: float64
  bwMD :: float64
  bwMaxClientDelayUs :: u64

definition bw_config :: sbwCfg where
  "bw_config = \<lparr>bwDelayTarget = 80, bwDropThresh = 160, bwRttUs = 10, bwAI = f64_round (1/1000),
     bwMD = f64_round (2/100), bwMaxClientDelayUs = 10\<rparr>"

definition bw_eval_config :: sbwCfg where
  "bw_eval_config = \<lparr>bwDelayTarget = 2400, bwDropThresh = 4800, bwRttUs = 40, bwAI = f64_round (1/1000),
     bwMD = f64_round (2/100), bwMaxClientDelayUs = 40\<rparr>"

section \<open>Sessions, responses, drained lists and sender\<close>

definition sbwGetSlot where "sbwGetSlot = spccGetSlot"
definition sbwPutSlot where "sbwPutSlot = spccPutSlot"
definition sbwUpdateCredit where "sbwUpdateCredit = spccUpdateCredit"
definition sbwSendCompletionVector where "sbwSendCompletionVector = spccSendCompletionVector"
definition sbwSendECredit where "sbwSendECredit = spccSendECredit"
definition sbwSenderWaits where "sbwSenderWaits = spccSenderWaits"
definition sbwSenderCollect where "sbwSenderCollect = spccSenderCollect"
definition sbwSenderSend where "sbwSenderSend = spccSenderSend"
definition sbwSenderLink where "sbwSenderLink = spccSenderLink"
definition sbwSenderDrainWaits where "sbwSenderDrainWaits = spccSenderDrainWaits"
definition sbwSenderExit where "sbwSenderExit = spccSenderExit"
definition sbwRemoveFromDrainedList where "sbwRemoveFromDrainedList = spccRemoveFromDrainedList"
definition sbwChooseDrainedH where "sbwChooseDrainedH = spccChooseDrainedH"
definition sbwChooseDrainedL where "sbwChooseDrainedL = spccChooseDrainedL"
definition sbwWakeUpDrainedSession where "sbwWakeUpDrainedSession = spccWakeUpDrainedSession"

section \<open>The controller\<close>

text \<open>
  \<open>oor\<close> is the implementation's value for a conversion to \<open>uint64\<close> out of range; the new pool
  is returned with the changed state (\<open>SbwCreditCarry\<close>).
\<close>

definition sbwDecrCreditPool ::
  "(float64 \<Rightarrow> u64) \<Rightarrow> sbwCfg \<Rightarrow> nat \<Rightarrow> u64 \<Rightarrow> sbwOps \<Rightarrow> u64 \<times> sbwOps" where
  "sbwDecrCreditPool oor cfg procs delay os = (
     let creditPool = AtomicGetUint64 (gCreditPool os);
         alpha = f_div (f_of_u64 (delay - bwDelayTarget cfg)) (f_of_u64 (bwDelayTarget cfg));
         alpha = f_mul alpha (bwMD cfg);
         alpha = f_max (f_sub (FFin 1) alpha) (FFin (1/2));
         creditPool = Min_go (f_to_u64 oor (f_mul (f_of_u64 creditPool) alpha)) (creditPool - 1)
     in (clamp_cp procs os creditPool, os\<lparr>gCreditCarry := FFin 0\<rparr>))"

definition sbwIncrCreditPool ::
  "(float64 \<Rightarrow> u64) \<Rightarrow> sbwCfg \<Rightarrow> nat \<Rightarrow> sbwOps \<Rightarrow> u64 \<times> sbwOps" where
  "sbwIncrCreditPool oor cfg procs os = (
     let creditPool = AtomicGetUint64 (gCreditPool os);
         numSess = AtomicGetUint64 (gNumSess os);
         carry = f_add (gCreditCarry os) (f_mul (f_of_u64 numSess) (bwAI cfg));
         (creditPool, carry) =
           (if f_leq (FFin 1) carry then
              let newCreditInt = f_to_u64 oor carry
              in (creditPool + newCreditInt, f_sub carry (f_of_u64 newCreditInt))
            else (creditPool, carry))
     in (clamp_cp procs os creditPool, os\<lparr>gCreditCarry := carry\<rparr>))"

definition sbwUpdateCreditPool ::
  "(float64 \<Rightarrow> u64) \<Rightarrow> sbwCfg \<Rightarrow> nat \<Rightarrow> ('b, 'k) sbwServer \<Rightarrow> world \<Rightarrow> (('b, 'k) sbwServer \<times> world) option" where
  "sbwUpdateCreditPool oor cfg procs S w = (
     let now = MicroTime w; w1 = step_world w; os = ops S in
     if now - LastCpUpdate os < bwRttUs cfg then Some (S, w1)
     else
       let os1 = os\<lparr>LastCpUpdate := now\<rparr>;
           creditUsed = AtomicGetUint64 (gCreditUsed os1);
           maxQueueDelay = QueueDelayMax_of w1 div 1000;
           w2 = step_world w1;
           (newCp, os2) = (if maxQueueDelay \<ge> bwDelayTarget cfg then sbwDecrCreditPool oor cfg procs maxQueueDelay os1
                           else sbwIncrCreditPool oor cfg procs os1);
           creditUnused = (if newCp > creditUsed then newCp - creditUsed else 0)
       in do {
         (S1, w3) \<leftarrow> sbwWakeUpDrainedSession (bwMaxClientDelayUs cfg) (bwRttUs cfg) procs creditUnused (set_ops os2 S) w2;
         Some (set_ops ((ops S1)\<lparr>gCreditPool := AtomicSetUint64 (gCreditPool (ops S1)) newCp\<rparr>) S1, w3)
       })"

definition sbwHandleReqDrop ::
  "(float64 \<Rightarrow> u64) \<Rightarrow> sbwCfg \<Rightarrow> nat \<Rightarrow> u64 \<Rightarrow> sbwOps \<Rightarrow> world \<Rightarrow> sbwOps \<times> world" where
  "sbwHandleReqDrop oor cfg procs delay os w = (
     let now = MicroTime w; w1 = step_world w in
     if now - LastCpUpdate os < bwRttUs cfg then (os, w1)
     else
       let os1 = os\<lparr>LastCpUpdate := now\<rparr>;
           (newCp, os2) = sbwDecrCreditPool oor cfg procs delay os1
       in (os2\<lparr>gCreditPool := AtomicSetUint64 (gCreditPool os2) newCp\<rparr>, w1))"

section \<open>Worker and receiver\<close>

definition sbwWorker ::
  "(float64 \<Rightarrow> u64) \<Rightarrow> 'b bitmap_ops \<Rightarrow> sbwCfg \<Rightarrow> nat \<Rightarrow> (srpcCtx \<Rightarrow> srpcCtx) \<Rightarrow> nat \<Rightarrow> nat \<Rightarrow> ('b, 'k) sbwServer \<Rightarrow> world \<Rightarrow>
   (('b, 'k) sbwServer \<times> world) option" where
  "sbwWorker oor B cfg procs handler p i S w = do {
     s \<leftarrow> sess S p;
     slot \<leftarrow> slot_at s (int i);
     c \<leftarrow> slot;
     let cmn = handler ((Cmn c)\<lparr>Drop := False\<rparr>);
     let S1 = put_sess p (s\<lparr>Slots := (Slots s)[i := Some (c\<lparr>Cmn := cmn\<rparr>)]\<rparr>) S;
     let os = ops S1;
     (S2, w2) \<leftarrow>
       (if \<not> Drop cmn
        then sbwUpdateCreditPool oor cfg procs (set_ops (os\<lparr>gCreditDs := AtomicSetUint64 (gCreditDs os) (DsCredit cmn)\<rparr>) S1) w
        else Some (set_ops (os\<lparr>StatReqDropped := AtomicAddUint64 (StatReqDropped os) 1\<rparr>) S1, w));
     s2 \<leftarrow> sess S2 p;
     Some (put_sess p (complete_slot B (Idx cmn) s2) S2, w2)
   }"

definition sbwRecvHdr where "sbwRecvHdr = spccRecvHdr"
definition sbwRecvCredit where "sbwRecvCredit = spccRecvCredit"

definition sbwRecvCall ::
  "(float64 \<Rightarrow> u64) \<Rightarrow> 'b bitmap_ops \<Rightarrow> 'k reader \<Rightarrow> sbwCfg \<Rightarrow> nat \<Rightarrow> credCtx \<Rightarrow> cpccHdr \<Rightarrow> nat \<Rightarrow> ('b, 'k) sbwServer \<Rightarrow> world \<Rightarrow>
   (recvOutcome \<times> ('b, 'k) sbwServer \<times> world) option" where
  "sbwRecvCall oor B rd cfg procs pooled chdr p S w = do {
     s \<leftarrow> sess S p;
     let os = (ops S)\<lparr>StatReqRx := AtomicAddUint64 (StatReqRx (ops S)) 1\<rparr>;
     (idx, s1) \<leftarrow> sbwGetSlot B pooled s;
     if idx < 0 then do {
       (n, err, buf, k) \<leftarrow> ReadFull rd (replicate (unat (cLen chdr)) 0) (Conn s1);
       let os1 = os\<lparr>StatReqDropped := AtomicAddUint64 (StatReqDropped os) 1\<rparr>;
       Some (RecvAgain, set_ops os1 (put_sess p (s1\<lparr>Conn := k\<rparr>) S), w)
     } else do {
       slot \<leftarrow> slot_at s1 idx;
       ctx \<leftarrow> slot;
       (n, err, buf, k) \<leftarrow> ReadFull rd (take (unat (cLen chdr)) (ReqBuf (Cmn ctx))) (Conn s1);
       let s2 = s1\<lparr>Conn := k\<rparr>;
       if err \<noteq> None then do {
         s3 \<leftarrow> sbwPutSlot B s2 idx;
         Some (RecvRet (- 1), set_ops os (put_sess p s3 S), w)
       } else do {
         let ctx1 = ctx\<lparr>Cmn := (Cmn ctx)\<lparr>ReqBuf := buf @ drop (unat (cLen chdr)) (ReqBuf (Cmn ctx)),
                        ReqLen := cLen chdr, RespLen := 0, CtxId := cId chdr\<rparr>, TsSent := cTsSent chdr\<rparr>;
         let s3 = s2\<lparr>Slots := (Slots s2)[nat idx := Some ctx1], Demand := cDemand chdr\<rparr>;
         (os4, s4) \<leftarrow> sbwRemoveFromDrainedList p os s3;
         let (os5, s5) = spccClipCredit os4 (s4\<lparr>NumPending := iadd (NumPending s4) 1\<rparr>);
         let os6 = os5\<lparr>gNumPending := AtomicAddUint64 (gNumPending os5) 1\<rparr>;
         let maxQueueDelay = QueueDelayMax_of w div 1000;
         let w1 = step_world w;
         if maxQueueDelay \<ge> bwDropThresh cfg then
           let (os7, w2) = sbwHandleReqDrop oor cfg procs maxQueueDelay os6 w1;
               s6 = complete_slot B idx
                      (s5\<lparr>Slots := (Slots s5)[nat idx := Some (ctx1\<lparr>Cmn := (Cmn ctx1)\<lparr>Drop := True\<rparr>\<rparr>)]\<rparr>);
               os8 = os7\<lparr>StatReqDropped := AtomicAddUint64 (StatReqDropped os7) 1\<rparr>
           in Some (RecvAgain, set_ops os8 (put_sess p s6 S), w2)
         else Some (RecvSpawn (nat idx), set_ops os6 (put_sess p s5 S), w1)
       }
     }
   }"

definition sbwRecvPass ::
  "(float64 \<Rightarrow> u64) \<Rightarrow> 'b bitmap_ops \<Rightarrow> 'k reader \<Rightarrow> sbwCfg \<Rightarrow> nat \<Rightarrow> credCtx \<Rightarrow> nat \<Rightarrow> ('b, 'k) sbwServer \<Rightarrow> world \<Rightarrow>
   (recvOutcome \<times> ('b, 'k) sbwServer \<times> world) option" where
  "sbwRecvPass oor B rd cfg procs pooled p S w = do {
     s \<leftarrow> sess S p;
     (h, k) \<leftarrow> sbwRecvHdr rd (Conn s);
     let S1 = put_sess p (s\<lparr>Conn := k\<rparr>) S;
     (case h of None \<Rightarrow> Some (RecvRet (- 1), S1, w)
      | Some chdr \<Rightarrow>
          if cOp chdr = BwOpCall then sbwRecvCall oor B rd cfg procs pooled chdr p S1 w
          else if cOp chdr = BwOpCredit then sbwRecvCredit chdr p S1 w
          else Some (RecvRet (- 1), S1, w))
   }"

partial_function (option) sbwRecvOne ::
  "(float64 \<Rightarrow> u64) \<Rightarrow> 'b bitmap_ops \<Rightarrow> 'k reader \<Rightarrow> sbwCfg \<Rightarrow> nat \<Rightarrow> credCtx \<Rightarrow> nat \<Rightarrow> ('b, 'k) sbwServer \<Rightarrow> world \<Rightarrow>
   (recvOutcome \<times> ('b, 'k) sbwServer \<times> world) option" where
  "sbwRecvOne oor B rd cfg procs pooled p S w =
     (case sbwRecvPass oor B rd cfg procs pooled p S w of
        None \<Rightarrow> None
      | Some (r, S1, w1) \<Rightarrow>
          (if r = RecvAgain then sbwRecvOne oor B rd cfg procs pooled p S1 w1 else Some (r, S1, w1)))"

section \<open>Opening, closing, start-up\<close>

definition sbwServer_open where "sbwServer_open = spccServer_open"
definition sbwServer_close where "sbwServer_close = spccServer_close"

definition sbwServer_finish :: "nat \<Rightarrow> nat \<Rightarrow> ('b, 'k) sbwServer \<Rightarrow> world \<Rightarrow> ('b, 'k) sbwServer \<times> world" where
  "sbwServer_finish procs p S w = (
     let S1 = spccServer_finish procs p S in
     if AtomicGetUint64 (gNumSess (ops S)) = 0
     then (set_ops ((ops S1)\<lparr>LastCpUpdate := MicroTime w\<rparr>) S1, step_world w) else (S1, w))"

definition sbwListener_init :: "nat \<Rightarrow> sbwOps \<Rightarrow> world \<Rightarrow> sbwOps \<times> world" where
  "sbwListener_init procs os w =
     (os\<lparr>Drained := init_heads (Drained os), gNumSess := 0, gNumDrained := 0, gCreditPool := of_nat procs,
         gCreditUsed := 0, gCreditDs := 0, gNumActive := 0, gNumPending := 0, gCreditCarry := FFin 0,
         LastCpUpdate := MicroTime w,
         StatCUpdateRx := 0, StatECreditTx := 0, StatCreditTx := 0, StatReqRx := 0,
         StatReqDropped := 0, StatRespTx := 0\<rparr>, step_world w)"

definition sbwEnable :: "nat \<Rightarrow> 'h \<Rightarrow> 'h option \<Rightarrow> sbwOps \<Rightarrow> world \<Rightarrow> int \<times> 'h option \<times> sbwOps \<times> world" where
  "sbwEnable procs handler current os w =
     (case current of
        Some h \<Rightarrow> (- 1, current, os, w)
      | None \<Rightarrow> (case sbwListener_init procs os w of (os', w') \<Rightarrow> (0, Some handler, os', w')))"

definition sbwStatCUpdateRx where "sbwStatCUpdateRx = SrpcStatCUpdateRx"
definition sbwStatECreditTx where "sbwStatECreditTx = SrpcStatECreditTx"
definition sbwStatCreditTx where "sbwStatCreditTx = SrpcStatCreditTx"
definition sbwStatReqRx where "sbwStatReqRx = SrpcStatReqRx"
definition sbwStatReqDropped where "sbwStatReqDropped = SrpcStatReqDropped"
definition sbwStatRespTx where "sbwStatRespTx = SrpcStatRespTx"

end
