(* ===== verification/Protego.thy ===== *)
theory Protego
  imports Pcc_Server Pcc_Client
begin

text \<open>
  Protego, \<open>src/ovldctlrpc/protego\<close>.  As for Breakwater, the protocol, the client, the sessions, the
  drained lists and the sender are those of Svalinn with other names (\<open>pg_proto.go\<close>,
  \<open>pg_client.go\<close>, \<open>pg_server.go\<close>).  Its own are the controller, which compares how the
  throughput moved with how the load moved since the last interval, and a latency budget at the receiver.
\<close>

section \<open>Protocol\<close>

definition PgReqMagic where "PgReqMagic = PccReqMagic"
definition PgRespMagic where "PgRespMagic = PccRespMagic"
definition PgOpCall where "PgOpCall = PccOpCall"
definition PgOpCredit where "PgOpCredit = PccOpCredit"
definition PgOpMax where "PgOpMax = PccOpMax"
definition PgCFlagDsync where "PgCFlagDsync = PccCFlagDsync"
definition PgSFlagDrop where "PgSFlagDrop = PccSFlagDrop"
type_synonym cpgHdr = cpccHdr
type_synonym spgHdr = spccHdr

section \<open>Client\<close>

definition cpgSendCUpdate where "cpgSendCUpdate = cpccSendCUpdate"
definition cpgSendRaw where "cpgSendRaw = cpccSendRaw"
definition cpgSendRequestVector where "cpgSendRequestVector = cpccSendRequestVector"
definition cpgDrainQueue where "cpgDrainQueue = cpccDrainQueue"
definition cpgEnqueueOne where "cpgEnqueueOne = cpccEnqueueOne"
definition cpgAddConnection where "cpgAddConnection = CrpcAddConnection"
definition cpgSendOne where "cpgSendOne = CrpcSendOne"
definition cpgRecvOne where "cpgRecvOne = CrpcRecvOne"
definition cpgTimer where "cpgTimer = cpccTimer"
definition cpgOpen where "cpgOpen = CrpcOpen"
definition cpgClose_stop where "cpgClose_stop = CrpcClose_stop"
definition cpgClose_free where "cpgClose_free = CrpcClose_free"
definition cpgCredit where "cpgCredit = CrpcCredit"
definition cpgStatClear where "cpgStatClear = CrpcStatClear"
definition cpgStatECreditRx where "cpgStatECreditRx = CrpcStatECreditRx"
definition cpgStatCreditExpired where "cpgStatCreditExpired = CrpcStatCreditExpired"
definition cpgStatCUpdateTx where "cpgStatCUpdateTx = CrpcStatCUpdateTx"
definition cpgStatRespRx where "cpgStatRespRx = CrpcStatRespRx"
definition cpgStatReqTx where "cpgStatReqTx = CrpcStatReqTx"
definition cpgStatReqDropped where "cpgStatReqDropped = CrpcStatReqDropped"
type_synonym 'k cpgConn = "'k cpccConn"
type_synonym ('a, 'k) cpgSession = "('a, 'k) cpccSession"

section \<open>Server state\<close>

record spgOps = credOps +
  CmInCnt :: u64
  CmOutCnt :: u64
  CmDropCnt :: u64
  CmLastInCnt :: u64
  CmLastOutCnt :: u64
  CmLastUpdate :: u64
  CmResetStat :: bool

type_synonym spgCtx = credCtx
type_synonym ('b, 'k) spgSession = "('b, credCtx, 'k) credSession"
type_synonym ('b, 'k) spgServer = "(spgOps, 'b, credCtx, 'k) credSys"

record spgCfg =
  pgLatencyBudget :: u64
  pgCmSlopeThresh :: float64
  pgCmSlopeInv :: u64
  pgCmUpdateInterval :: u64
  pgCmP99Rtt :: u64
  pgRttUs :: u64
  pgAI :: float64
  pgMD :: float64
  pgMaxClientDelayUs :: u64

definition pg_config :: spgCfg where
  "pg_config = \<lparr>pgLatencyBudget = 55, pgCmSlopeThresh = f64_round (2/10), pgCmSlopeInv = 4, pgCmUpdateInterval = 200,
     pgCmP99Rtt = 100, pgRttUs = 10, pgAI = f64_round (1/1000), pgMD = f64_round (2/100), pgMaxClientDelayUs = 10\<rparr>"

definition pg_eval_config :: spgCfg where
  "pg_eval_config = \<lparr>pgLatencyBudget = 1500, pgCmSlopeThresh = f64_round (1/10), pgCmSlopeInv = 10,
     pgCmUpdateInterval = 1000, pgCmP99Rtt = 500, pgRttUs = 10, pgAI = f64_round (1/1000), pgMD = f64_round (2/100),
     pgMaxClientDelayUs = 10\<rparr>"

section \<open>Sessions, responses, drained lists and sender\<close>

definition spgGetSlot where "spgGetSlot = spccGetSlot"
definition spgPutSlot where "spgPutSlot = spccPutSlot"
definition spgUpdateCredit where "spgUpdateCredit = spccUpdateCredit"
definition spgSendCompletionVector where "spgSendCompletionVector = spccSendCompletionVector"
definition spgSendECredit where "spgSendECredit = spccSendECredit"
definition spgSenderWaits where "spgSenderWaits = spccSenderWaits"
definition spgSenderCollect where "spgSenderCollect = spccSenderCollect"
definition spgSenderSend where "spgSenderSend = spccSenderSend"
definition spgSenderLink where "spgSenderLink = spccSenderLink"
definition spgSenderDrainWaits where "spgSenderDrainWaits = spccSenderDrainWaits"
definition spgSenderExit where "spgSenderExit = spccSenderExit"
definition spgRemoveFromDrainedList where "spgRemoveFromDrainedList = spccRemoveFromDrainedList"
definition spgChooseDrainedH where "spgChooseDrainedH = spccChooseDrainedH"
definition spgChooseDrainedL where "spgChooseDrainedL = spccChooseDrainedL"
definition spgWakeUpDrainedSession where "spgWakeUpDrainedSession = spccWakeUpDrainedSession"

section \<open>The controller\<close>

text \<open>
  \<open>oor\<close> is the implementation's value for a conversion to \<open>uint64\<close> out of range; the new pool
  is returned with the changed state (\<open>SpgCreditCarry\<close>).  The decrease is computed in
  \<open>int64\<close>.
\<close>

definition spgDecrCreditPool :: "(float64 \<Rightarrow> u64) \<Rightarrow> spgCfg \<Rightarrow> nat \<Rightarrow> spgOps \<Rightarrow> u64 \<times> spgOps" where
  "spgDecrCreditPool oor cfg procs os = (
     let creditPool = u2i (AtomicGetUint64 (gCreditPool os));
         numSess = AtomicGetUint64 (gNumSess os);
         decr = u2i (Max_go (f_to_u64 oor (f_mul (f_of_u64 numSess) (pgAI cfg))) 1);
         creditPool = isub creditPool decr;
         creditPool = (if creditPool < int procs then int procs else creditPool);
         maxCp = u2i (push_bit SpccMaxWindowExp numSess);
         creditPool = (if creditPool > maxCp then maxCp else creditPool)
     in (i2u creditPool, os\<lparr>gCreditCarry := FFin 0\<rparr>))"

definition spgIncrCreditPool :: "(float64 \<Rightarrow> u64) \<Rightarrow> spgCfg \<Rightarrow> nat \<Rightarrow> spgOps \<Rightarrow> u64 \<times> spgOps" where
  "spgIncrCreditPool oor cfg procs os = (
     let creditPool = AtomicGetUint64 (gCreditPool os);
         numSess = AtomicGetUint64 (gNumSess os);
         carry = f_add (gCreditCarry os) (f_max (f_mul (f_of_u64 numSess) (pgAI cfg)) (FFin 1));
         (creditPool, carry) =
           (if f_leq (FFin 1) carry then
              let newCreditInt = f_to_u64 oor carry
              in (creditPool + newCreditInt, f_sub carry (f_of_u64 newCreditInt))
            else (creditPool, carry))
     in (clamp_cp procs os creditPool, os\<lparr>gCreditCarry := carry\<rparr>))"

text \<open>Whether the throughput followed the load closely enough to grow the pool.\<close>

definition spgShouldIncr :: "spgCfg \<Rightarrow> spgOps \<Rightarrow> bool" where
  "spgShouldIncr cfg os = (
     let creditUsed = AtomicGetUint64 (gCreditUsed os);
         newCp = AtomicGetUint64 (gCreditPool os);
         inCnt = AtomicGetUint64 (CmInCnt os);
         outCnt = AtomicGetUint64 (CmOutCnt os);
         lastInCnt = AtomicGetUint64 (CmLastInCnt os);
         lastOutCnt = AtomicGetUint64 (CmLastOutCnt os)
     in if inCnt = 0 then True
        else if inCnt \<ge> lastInCnt then
          outCnt > lastOutCnt \<and> pgCmSlopeInv cfg * (outCnt - lastOutCnt) \<ge> inCnt - lastInCnt \<and> creditUsed \<ge> newCp
        else
          lastOutCnt > outCnt \<and> pgCmSlopeInv cfg * (lastOutCnt - outCnt) \<ge> lastInCnt - inCnt \<and> creditUsed \<ge> newCp)"

definition spgUpdateCreditPool ::
  "(float64 \<Rightarrow> u64) \<Rightarrow> spgCfg \<Rightarrow> nat \<Rightarrow> ('b, 'k) spgServer \<Rightarrow> world \<Rightarrow> (('b, 'k) spgServer \<times> world) option" where
  "spgUpdateCreditPool oor cfg procs S w = (
     if \<not> trylock_of w then Some (S, step_world w)
     else
       let w1 = step_world w; now = MicroTime w1; w2 = step_world w1; os = ops S; tDiff = now - CmLastUpdate os in
       if tDiff < pgCmP99Rtt cfg then Some (S, w2)
       else
         let os1 = (if \<not> CmResetStat os then os\<lparr>CmInCnt := 0, CmOutCnt := 0, CmDropCnt := 0, CmResetStat := True\<rparr>
                    else os)
         in if tDiff < pgCmUpdateInterval cfg then Some (set_ops os1 S, w2)
         else
           let os2 = os1\<lparr>CmLastUpdate := now, CmResetStat := False\<rparr>;
               creditUsed = AtomicGetUint64 (gCreditUsed os2);
               inCnt = AtomicGetUint64 (CmInCnt os2);
               outCnt = AtomicGetUint64 (CmOutCnt os2);
               (newCp, os3) = (if spgShouldIncr cfg os2 then spgIncrCreditPool oor cfg procs os2
                               else spgDecrCreditPool oor cfg procs os2);
               creditUnused = (if newCp > creditUsed then newCp - creditUsed else 0)
           in do {
             (S1, w3) \<leftarrow> spgWakeUpDrainedSession (pgMaxClientDelayUs cfg) (pgRttUs cfg) procs creditUnused (set_ops os3 S) w2;
             Some (set_ops ((ops S1)\<lparr>gCreditPool := AtomicSetUint64 (gCreditPool (ops S1)) newCp,
                      CmLastInCnt := inCnt, CmLastOutCnt := outCnt, CmInCnt := 0, CmOutCnt := 0, CmDropCnt := 0\<rparr>) S1, w3)
           })"

definition spgHandleReqDrop ::
  "(float64 \<Rightarrow> u64) \<Rightarrow> spgCfg \<Rightarrow> nat \<Rightarrow> u64 \<Rightarrow> ('b, 'k) spgServer \<Rightarrow> world \<Rightarrow> (('b, 'k) spgServer \<times> world) option" where
  "spgHandleReqDrop oor cfg procs delay S w = do {
     (S1, w1) \<leftarrow> spgUpdateCreditPool oor cfg procs S w;
     let os = ops S1;
     Some (set_ops (os\<lparr>CmDropCnt := AtomicAddUint64 (CmDropCnt os) 1,
                       StatReqDropped := AtomicAddUint64 (StatReqDropped os) 1\<rparr>) S1, w1)
   }"

section \<open>Worker and receiver\<close>

definition spgWorker ::
  "(float64 \<Rightarrow> u64) \<Rightarrow> 'b bitmap_ops \<Rightarrow> spgCfg \<Rightarrow> nat \<Rightarrow> (srpcCtx \<Rightarrow> srpcCtx) \<Rightarrow> nat \<Rightarrow> nat \<Rightarrow> ('b, 'k) spgServer \<Rightarrow> world \<Rightarrow>
   (('b, 'k) spgServer \<times> world) option" where
  "spgWorker oor B cfg procs handler p i S w = do {
     s \<leftarrow> sess S p;
     slot \<leftarrow> slot_at s (int i);
     c \<leftarrow> slot;
     let cmn = handler ((Cmn c)\<lparr>Drop := False\<rparr>);
     let S1 = put_sess p (s\<lparr>Slots := (Slots s)[i := Some (c\<lparr>Cmn := cmn\<rparr>)]\<rparr>) S;
     let os = ops S1;
     let os1 = (if \<not> Drop cmn
                then os\<lparr>gCreditDs := AtomicSetUint64 (gCreditDs os) (DsCredit cmn),
                        CmOutCnt := AtomicAddUint64 (CmOutCnt os) 1\<rparr>
                else os\<lparr>CmDropCnt := AtomicAddUint64 (CmDropCnt os) 1,
                        StatReqDropped := AtomicAddUint64 (StatReqDropped os) 1\<rparr>);
     (S2, w2) \<leftarrow> spgUpdateCreditPool oor cfg procs (set_ops os1 S1) w;
     s2 \<leftarrow> sess S2 p;
     Some (put_sess p (complete_slot B (Idx cmn) s2) S2, w2)
   }"

definition spgRecvHdr where "spgRecvHdr = spccRecvHdr"
definition spgRecvCredit where "spgRecvCredit = spccRecvCredit"

definition spgRecvCall ::
  "(float64 \<Rightarrow> u64) \<Rightarrow> 'b bitmap_ops \<Rightarrow> 'k reader \<Rightarrow> spgCfg \<Rightarrow> nat \<Rightarrow> credCtx \<Rightarrow> cpccHdr \<Rightarrow> nat \<Rightarrow> ('b, 'k) spgServer \<Rightarrow> world \<Rightarrow>
   (recvOutcome \<times> ('b, 'k) spgServer \<times> world) option" where
  "spgRecvCall oor B rd cfg procs pooled chdr p S w = do {
     s \<leftarrow> sess S p;
     let os = (ops S)\<lparr>StatReqRx := AtomicAddUint64 (StatReqRx (ops S)) 1\<rparr>;
     (idx, s1) \<leftarrow> spgGetSlot B pooled s;
     if idx < 0 then do {
       (n, err, buf, k) \<leftarrow> ReadFull rd (replicate (unat (cLen chdr)) 0) (Conn s1);
       let os1 = os\<lparr>CmDropCnt := AtomicAddUint64 (CmDropCnt os) 1,
                     StatReqDropped := AtomicAddUint64 (StatReqDropped os) 1\<rparr>;
       Some (RecvAgain, set_ops os1 (put_sess p (s1\<lparr>Conn := k\<rparr>) S), w)
     } else do {
       slot \<leftarrow> slot_at s1 idx;
       ctx \<leftarrow> slot;
       (n, err, buf, k) \<leftarrow> ReadFull rd (take (unat (cLen chdr)) (ReqBuf (Cmn ctx))) (Conn s1);
       let s2 = s1\<lparr>Conn := k\<rparr>;
       if err \<noteq> None then do {
         s3 \<leftarrow> spgPutSlot B s2 idx;
         Some (RecvRet (- 1), set_ops os (put_sess p s3 S), w)
       } else do {
         let ctx1 = ctx\<lparr>Cmn := (Cmn ctx)\<lparr>ReqBuf := buf @ drop (unat (cLen chdr)) (ReqBuf (Cmn ctx)),
                        ReqLen := cLen chdr, RespLen := 0, CtxId := cId chdr\<rparr>, TsSent := cTsSent chdr\<rparr>;
         let s3 = s2\<lparr>Slots := (Slots s2)[nat idx := Some ctx1], Demand := cDemand chdr\<rparr>;
         (os4, s4) \<leftarrow> spgRemoveFromDrainedList p os s3;
         let (os5, s5) = spccClipCredit os4 (s4\<lparr>NumPending := iadd (NumPending s4) 1\<rparr>);
         let os6 = os5\<lparr>gNumPending := AtomicAddUint64 (gNumPending os5) 1,
                        CmInCnt := AtomicAddUint64 (CmInCnt os5) 1\<rparr>;
         let maxQueueDelay = QueueDelayMax_of w div 1000;
         let w1 = step_world w;
         let S6 = set_ops os6 (put_sess p s5 S);
         if maxQueueDelay \<ge> pgLatencyBudget cfg then do {
           (S7, w2) \<leftarrow> spgHandleReqDrop oor cfg procs maxQueueDelay S6 w1;
           s7 \<leftarrow> sess S7 p;
           let s8 = complete_slot B idx
                      (s7\<lparr>Slots := (Slots s7)[nat idx := Some (ctx1\<lparr>Cmn := (Cmn ctx1)\<lparr>Drop := True\<rparr>\<rparr>)]\<rparr>);
           Some (RecvAgain, put_sess p s8 S7, w2)
         } else Some (RecvSpawn (nat idx), S6, w1)
       }
     }
   }"

definition spgRecvPass ::
  "(float64 \<Rightarrow> u64) \<Rightarrow> 'b bitmap_ops \<Rightarrow> 'k reader \<Rightarrow> spgCfg \<Rightarrow> nat \<Rightarrow> credCtx \<Rightarrow> nat \<Rightarrow> ('b, 'k) spgServer \<Rightarrow> world \<Rightarrow>
   (recvOutcome \<times> ('b, 'k) spgServer \<times> world) option" where
  "spgRecvPass oor B rd cfg procs pooled p S w = do {
     s \<leftarrow> sess S p;
     (h, k) \<leftarrow> spgRecvHdr rd (Conn s);
     let S1 = put_sess p (s\<lparr>Conn := k\<rparr>) S;
     (case h of None \<Rightarrow> Some (RecvRet (- 1), S1, w)
      | Some chdr \<Rightarrow>
          if cOp chdr = PgOpCall then spgRecvCall oor B rd cfg procs pooled chdr p S1 w
          else if cOp chdr = PgOpCredit then spgRecvCredit chdr p S1 w
          else Some (RecvRet (- 1), S1, w))
   }"

partial_function (option) spgRecvOne ::
  "(float64 \<Rightarrow> u64) \<Rightarrow> 'b bitmap_ops \<Rightarrow> 'k reader \<Rightarrow> spgCfg \<Rightarrow> nat \<Rightarrow> credCtx \<Rightarrow> nat \<Rightarrow> ('b, 'k) spgServer \<Rightarrow> world \<Rightarrow>
   (recvOutcome \<times> ('b, 'k) spgServer \<times> world) option" where
  "spgRecvOne oor B rd cfg procs pooled p S w =
     (case spgRecvPass oor B rd cfg procs pooled p S w of
        None \<Rightarrow> None
      | Some (r, S1, w1) \<Rightarrow>
          (if r = RecvAgain then spgRecvOne oor B rd cfg procs pooled p S1 w1 else Some (r, S1, w1)))"

section \<open>Opening, closing, start-up\<close>

definition spgServer_open where "spgServer_open = spccServer_open"
definition spgServer_close where "spgServer_close = spccServer_close"

definition spgServer_finish where "spgServer_finish = spccServer_finish"

definition spgListener_init :: "nat \<Rightarrow> spgOps \<Rightarrow> world \<Rightarrow> spgOps \<times> world" where
  "spgListener_init procs os w =
     (os\<lparr>Drained := init_heads (Drained os), gNumSess := 0, gNumDrained := 0, gCreditPool := of_nat procs,
         gCreditUsed := 0, gCreditDs := 0, gNumActive := 0, gNumPending := 0, gCreditCarry := FFin 0,
         StatCUpdateRx := 0, StatECreditTx := 0, StatCreditTx := 0, StatReqRx := 0,
         StatReqDropped := 0, StatRespTx := 0,
         CmInCnt := 0, CmOutCnt := 0, CmDropCnt := 0, CmLastInCnt := 0, CmLastOutCnt := 0,
         CmLastUpdate := MicroTime w\<rparr>, step_world w)"

definition spgEnable :: "nat \<Rightarrow> 'h \<Rightarrow> 'h option \<Rightarrow> spgOps \<Rightarrow> world \<Rightarrow> int \<times> 'h option \<times> spgOps \<times> world" where
  "spgEnable procs handler current os w =
     (case current of
        Some h \<Rightarrow> (- 1, current, os, w)
      | None \<Rightarrow> (case spgListener_init procs os w of (os', w') \<Rightarrow> (0, Some handler, os', w')))"

definition spgStatCUpdateRx where "spgStatCUpdateRx = SrpcStatCUpdateRx"
definition spgStatECreditTx where "spgStatECreditTx = SrpcStatECreditTx"
definition spgStatCreditTx where "spgStatCreditTx = SrpcStatCreditTx"
definition spgStatReqRx where "spgStatReqRx = SrpcStatReqRx"
definition spgStatReqDropped where "spgStatReqDropped = SrpcStatReqDropped"
definition spgStatRespTx where "spgStatRespTx = SrpcStatRespTx"

end
