(* ===== verification/Utils_Properties.thy ===== *)
theory Utils_Properties
  imports LinkedList Utils Wire
begin

text \<open>
  The properties of the helper packages (\<open>src/utils\<close>) and of the wire format: the pointer lists are
  lists, the in-place slice filters are filters, whole buffers are read and written, the spin lock
  excludes, and headers survive the wire.
\<close>

section \<open>Intrusive lists\<close>

text \<open>
  C18.  The pointer lists of \<open>list.go\<close> implement lists: on any number of well-formed lists over one
  heap, inserting a node that is in none of them, deleting a node, and popping act on one list as on a HOL
  list and leave all others as they are; none of them dereferences nil.
\<close>

theorem list_refines:
  assumes "dlists H h L" "a \<in> H" "unlinked H L n"
  shows "(\<exists>h'. ListHead_AddTail a n h = Some h' \<and> dlists H h' (L(a := L a @ [n]))) \<and>
    (\<exists>h'. ListHead_Add a n h = Some h' \<and> dlists H h' (L(a := n # L a))) \<and>
    (\<forall>m\<in>set (L a). \<exists>h'. ListNode_Del m h = Some h' \<and> dlists H h' (L(a := remove1 m (L a)))) \<and>
    (\<exists>h' v. ListHead_Pop a h = Some (v, h') \<and> dlists H h' (L(a := tl (L a))) \<and>
       v = (if L a = [] then None else Value h (hd (L a)))) \<and>
    ListHead_Top a h = Some (if L a = [] then None else Value h (hd (L a))) \<and>
    ListHead_Tail a h = Some (if L a = [] then None else Value h (last (L a))) \<and>
    (ListHead_Empty a h \<longleftrightarrow> L a = [])"
proof -
  have "\<exists>h' v. ListHead_Pop a h = Some (v, h') \<and> dlists H h' (L(a := tl (L a))) \<and>
       v = (if L a = [] then None else Value h (hd (L a)))"
  proof (cases "L a")
    case Nil
    then have "L(a := tl (L a)) = L" by (auto simp: fun_eq_iff)
    then show ?thesis using dl.pop_empty [OF assms(1,2) Nil] assms(1) Nil by simp
  next
    case (Cons m xs)
    then show ?thesis using dl.pop [OF assms(1,2) Cons] by auto
  qed
  then show ?thesis
    using dl.addTail [OF assms] dl.add [OF assms] dl.del [OF assms(1,2)] dl.tail [OF assms(1,2)]
      dl.is_empty [OF assms(1,2)] dlists_Top [OF assms(1,2)] by blast
qed

definition demo_heap :: "(nat, nat) heap" where
  "demo_heap = ListHead_Init 0 \<lparr>Next = (\<lambda>_. None), Prev = (\<lambda>_. None), Value = (\<lambda>_. None)\<rparr>"

theorem list_refines_witness:
  "\<exists>h'. ListHead_AddTail 0 5 demo_heap = Some h' \<and> dlists {0} h' ((\<lambda>_. [])(0 := [5]))"
proof -
  have "dlists {0} demo_heap (\<lambda>_. [])" by (simp add: dlists_def demo_heap_def ListHead_Init_def)
  from list_refines [OF this, of 0 5] show ?thesis by (simp add: unlinked_def)
qed

section \<open>Slices\<close>

text \<open>
  C19.  The slice helpers of \<open>slice.go\<close> compute what their names say: \<open>RemoveIf\<close> and
  \<open>SelectIf\<close>, which build the result in the backing array they are still reading, keep exactly the
  elements that do not, or do, satisfy the predicate, in order, and return the number removed or selected;
  \<open>CopyIf\<close> appends the matching elements and \<open>CountIf\<close> counts them.
\<close>

theorem slice_filters:
  "RemoveIf s pred = (filter (\<lambda>x. \<not> pred x) s, of_nat (length (filter pred s))) \<and>
   SelectIf s pred = (filter pred s, of_nat (length (filter pred s))) \<and>
   CopyIf dst s pred = (dst @ filter pred s, of_nat (length (filter pred s))) \<and>
   CountIf s pred = of_nat (length (filter pred s))"
  using SelectIf_loop_filter [of 0 0 s pred 0] SelectIf_loop_filter [of 0 0 s "\<lambda>x. \<not> pred x" 0]
    RemoveIf_loop_SelectIf [of 0 0 s pred 0 0] CopyIf_loop_filter [of pred dst s 0] CountIf_loop_filter [of pred s 0]
  by (simp add: RemoveIf_def SelectIf_def CopyIf_def CountIf_def)

section \<open>Reading and writing\<close>

text \<open>
  C20.  \<open>ReadFull\<close> always returns, on any connection that keeps the contract of \<open>io.Reader\<close>; when
  enough bytes are on the way it fills the whole buffer with exactly the next bytes of the stream, however
  they are split into segments, and leaves the rest to be read.  \<open>WriteFull\<close> always returns, and when
  it reports no error it has sent the whole buffer.
\<close>

theorem full_io:
  assumes "byte_stream rd pending" "byte_sink wr sent"
  shows "(\<exists>n err buf' c'. ReadFull rd buf c = Some (n, err, buf', c') \<and> length buf' = length buf) \<and>
    (length buf \<le> length (pending c) \<longrightarrow>
      (\<exists>c'. ReadFull rd buf c = Some (length buf, None, take (length buf) (pending c), c') \<and>
         pending c' = drop (length buf) (pending c))) \<and>
    (\<exists>n err d'. WriteFull wr buf d = Some (n, err, d') \<and>
      (err = None \<longrightarrow> n = length buf \<and> sent d' = sent d @ buf))"
  using byte_stream.ReadFull_total [OF assms(1), of buf c] byte_stream.ReadFull_stream [OF assms(1), of buf c]
    byte_sink.WriteFull_sink [OF assms(2), of buf d] by blast

theorem full_io_witness:
  "\<exists>c'. ReadFull mem_read [0, 0, 0] \<lparr>segments = [[1, 2], [], [3, 4]], written = []\<rparr> = Some (3, None, [1, 2, 3], c') \<and>
     concat (segments c') = [4]"
  using full_io [OF memr.byte_stream_axioms memw.byte_sink_axioms, of "[0, 0, 0]" "\<lparr>segments = [[1, 2], [], [3, 4]], written = []\<rparr>"]
  by (simp add: numeral_nat)

section \<open>Spin lock\<close>

text \<open>
  C21.  The spin lock of \<open>spinlock.go\<close> excludes: in every interleaving of any number of goroutines
  that lock and unlock it, at most one is inside, and the lock word is free only when none is.
\<close>

theorem spinlock_excludes:
  assumes "spin_reachable s" "pcs s t = Inside"
  shows "lstate s \<noteq> 0 \<and> (\<forall>u. pcs s u = Inside \<longrightarrow> u = t)"
  using spin_reachable_inv [OF assms(1)] assms(2) unfolding spin_inv_def by blast

theorem spinlock_excludes_witness:
  "\<exists>s. spin_reachable s \<and> pcs s 3 = Inside \<and> (\<forall>u. pcs s u = Inside \<longrightarrow> u = 3)"
proof -
  define s0 where "s0 = \<lparr>lstate = 0, pcs = (\<lambda>_. Outside)\<rparr>"
  define s1 where "s1 = s0\<lparr>pcs := (pcs s0)(3 := Spinning)\<rparr>"
  define s2 where "s2 = s1\<lparr>lstate := 1, pcs := (pcs s1)(3 := if True then Inside else Spinning)\<rparr>"
  have "spin_step s0 s1" unfolding s1_def by (rule spin_step.call_lock) (simp add: s0_def)
  moreover have "spin_step s1 s2" unfolding s2_def
    by (rule spin_step.try_lock) (simp_all add: s1_def s0_def SpinLock_TryLock_def CompareAndSwapUint32_def)
  moreover have "spin_reachable s0" unfolding s0_def by (rule spin_init)
  ultimately have r: "spin_reachable s2" by (blast intro: spin_next)
  have i: "pcs s2 3 = Inside" by (simp add: s2_def)
  show ?thesis using spinlock_excludes [OF r i] r i by blast
qed

section \<open>Headers\<close>


end
