(* ===== verification/Control_Properties.thy ===== *)
theory Control_Properties
  imports Pcc_Properties
begin

text \<open>
  The properties of Svalinn's credits and controller (\<open>src/ovldctlrpc/pcc/pcc_server.go\<close>): how a
  session's credit is computed, which sessions a wake-up reaches, how the controller moves through its
  states and where the credit pool goes.
\<close>

section \<open>Examples\<close>

lemma demo_one_ok: "conf_ok boolmap bools 4 demo_one"
  using nb.reachable_ok [OF demo_one_reachable [of pcc_config False]] by simp

lemma demo_one_ops:
  "gCreditPool (ops (sys demo_one)) = 4" "gCreditUsed (ops (sys demo_one)) = 0" "gNumSess (ops (sys demo_one)) = 1"
  "gCreditDs (ops (sys demo_one)) = 0" "MicroExpDirs (ops (sys demo_one)) ! 1 = 1" "NumMicroExps (ops (sys demo_one)) = 0"
  "CtlState (ops (sys demo_one)) = PrepareMicroExp"
  by (simp_all add: demo_one_def set_conf_def spccServer_open_def Let_def demo_start_def spcc_start_def
      spccListener_init_def zero_ops_def spccGenMicroExpDirs_def coin_of_def demo_world_def numeral_3_eq_3)

lemma demo_session_fields:
  "NumPending demo_session = 0" "Credit demo_session = 0" "Demand demo_session = 0" "DrainedProc demo_session = - 1"
  "\<not> WakeUp demo_session" "\<not> IsLinked demo_session" "Closed demo_session = False"
  by (simp_all add: demo_session_def spccNewSession_def Let_def)

section \<open>The credit of a session\<close>



section \<open>Drained sessions\<close>

text \<open>
  C14.  \<open>spccWakeUpDrainedSession\<close> wakes exactly as many drained sessions as it is asked to, or all of
  them if there are fewer, wherever they are linked: it returns, each woken session leaves its list with
  one credit, its sender is signalled, \<open>SpccCreditUsed\<close> and \<open>SpccNumDrained\<close> follow, no other
  session changes, and the lists stay well-formed.
\<close>

theorem spcc_wakeup_exact:
  assumes "drained_ok L S" "procs_ok procs w" "procs \<le> SpccMaxProcs" "procs_below procs S"
  shows "\<exists>T w' L' W. spccWakeUpDrainedSession delay rtt procs n S w = Some (T, w') \<and> drained_ok L' T \<and>
    W \<subseteq> linked_sessions S \<and> card W = min (unat n) (card (linked_sessions S)) \<and>
    (\<forall>p. sess T p = (if p \<in> W then map_option (\<lambda>s. s\<lparr>IsLinked := False, DrainedProc := - 1, WakeUp := True,
        Credit := 1, Signalled := True\<rparr>) (sess S p) else sess S p)) \<and>
    gCreditUsed (ops T) = gCreditUsed (ops S) + of_nat (card W) \<and>
    gNumDrained (ops T) = gNumDrained (ops S) - of_nat (card W)"
proof -
  from WakeUpDrained_ok [OF assms, of delay rtt n] obtain T w' L' W where
    T: "spccWakeUpDrainedSession delay rtt procs n S w = Some (T, w')" "drained_ok L' T" "wakes W S T"
      "card W = min (unat n) (card (linked_sessions S))" by blast
  have wo: "woken = (\<lambda>s. s\<lparr>IsLinked := False, DrainedProc := - 1, WakeUp := True, Credit := 1, Signalled := True\<rparr>)"
    by (simp add: woken_def fun_eq_iff)
  show ?thesis using T(1,2,4) T(3) [unfolded wakes_def wo]
    by (intro exI [of _ T] exI [of _ w'] exI [of _ L'] exI [of _ W]) auto
qed

text \<open>An example with one drained session: client 7 is linked with high or low priority at processor 2.\<close>

lemma demo_linked:
  "\<exists>L (S :: (bool list, mem_conn) spccServer) s. drained_ok L S \<and> procs_below 4 S \<and> linked_sessions S = {7} \<and> sess S 7 = Some s \<and> IsLinked s \<and>
     NumPending s = 0 \<and> gNumSess (ops S) = 1 \<and> L (if high then HeadH 2 else HeadL 2) = [Link 7]"
proof -
  note d = conf_okD [OF demo_one_ok]
  obtain L where L: "drained_ok L (sys demo_one)" using d(1) by blast
  have only: "sess (sys demo_one) p = Some t \<Longrightarrow> p = 7 \<and> \<not> IsLinked t" for p t
    using demo_one_session(1) demo_session_fields
    by (auto simp: demo_one_def set_conf_def spccServer_open_def Let_def split: if_splits)
  have empty: "L a = []" if a: "a \<in> dheads" for a
  proof (rule ccontr)
    assume "L a \<noteq> []"
    then have "hd (L a) \<in> set (L a)" by simp
    then show False using drained_okD(7) [OF L a] only by blast
  qed
  have q: "2 < SpccMaxProcs" by (simp add: SpccMaxProcs_def)
  from LinkDrained_lists [OF L demo_one_session(1) _ _ q, of high] demo_session_fields obtain h where
    h: "drained_ok (if high then L(HeadH 2 := Link 7 # L (HeadH 2)) else L(HeadL 2 := L (HeadL 2) @ [Link 7]))
        (set_ops ((ops (sys demo_one))\<lparr>Drained := h, gNumDrained := gNumDrained (ops (sys demo_one)) + 1\<rparr>)
        (put_sess 7 (demo_session\<lparr>IsLinked := True, DrainedProc := 2\<rparr>) (sys demo_one)))" (is "drained_ok ?L ?S") by auto
  have "linked_sessions ?S = {7}" "procs_below 4 ?S"
    using only by (auto simp: linked_sessions_def procs_below_def split: if_splits)
  moreover have "?L (if high then HeadH 2 else HeadL 2) = [Link 7]"
    using empty [of "HeadH 2"] empty [of "HeadL 2"] q by simp
  ultimately show ?thesis
    using h demo_one_ops(3) demo_session_fields(1)
    by (intro exI [of _ ?L] exI [of _ ?S] exI [of _ "demo_session\<lparr>IsLinked := True, DrainedProc := 2\<rparr>"]) simp
qed

theorem spcc_wakeup_exact_witness:
  "\<exists>(S :: (bool list, mem_conn) spccServer) T w' s. spccWakeUpDrainedSession 10 10 4 3 S demo_world = Some (T, w') \<and> linked_sessions S = {7} \<and>
     sess T 7 = Some s \<and> Credit s = 1 \<and> WakeUp s \<and> linked_sessions T = {}"
proof -
  from demo_linked [of True] obtain L and S :: "(bool list, mem_conn) spccServer" and s where
    S: "drained_ok L S" "procs_below 4 S" "linked_sessions S = {7}" "sess S 7 = Some s" by blast
  have "procs_ok 4 demo_world" "(4 :: nat) \<le> SpccMaxProcs" by (simp_all add: procs_ok_def demo_world_def SpccMaxProcs_def)
  from spcc_wakeup_exact [OF S(1) this S(2), of 10 10 3] obtain T w' W where
    T: "spccWakeUpDrainedSession 10 10 4 3 S demo_world = Some (T, w')" "W \<subseteq> {7}" "card W = 1"
      "\<forall>p. sess T p = (if p \<in> W then map_option (\<lambda>s. s\<lparr>IsLinked := False, DrainedProc := - 1, WakeUp := True,
        Credit := 1, Signalled := True\<rparr>) (sess S p) else sess S p)" unfolding S(3) by auto
  have W: "W = {7}" using T(2,3) by (auto simp: card_1_singleton_iff)
  have "linked_sessions T = {}" using S(3) T(4) W by (auto simp: linked_sessions_def split: if_splits)
  then show ?thesis using T(1,4) S(3,4) W by (intro exI [of _ S] exI [of _ T] exI [of _ w']) simp
qed

text \<open>
  The two priorities of the drained lists are not kept: the time at which a session was drained
  (\<open>DrainedTs\<close>) is never set, so in every reachable configuration, at any clock reading beyond the
  demand timeout, \<open>spccChooseDrainedH\<close> finds every session of the high priority list timed out: it moves
  all of them behind the low priority list and returns none.
\<close>

theorem spcc_high_priority_demoted:
  assumes "pcc_server E bits sent pending" "spcc_reachable E quiet c" "q < SpccMaxProcs"
    and "spccDemandTimeout delay rtt < MicroTime w"
  shows "\<exists>L T L'. drained_ok L (sys c) \<and> spccChooseDrainedH delay rtt q (sys c) w = Some (None, T, step_world w) \<and>
    drained_ok L' T \<and> L' (HeadH q) = [] \<and> L' (HeadL q) = L (HeadL q) @ rev (L (HeadH q)) \<and> sess T = sess (sys c)"
proof -
  from pcc_server.reachable_ok [OF assms(1,2)] have ok: "conf_ok (eB E) bits (eProcs E) c" by blast
  obtain L where L: "drained_ok L (sys c)" using conf_okD(1) [OF ok] by blast
  have hq: "HeadH q \<in> dheads" using assms(3) by simp
  let ?now = "MicroTime w" and ?t = "spccDemandTimeout delay rtt"
  have ts: "DrainedTs s = 0" if "sess (sys c) p = Some s" for p s
    using conf_okD(4) [OF ok that] by (simp add: sess_ok_def)
  have ex: "\<forall>n\<in>set (rev (L (HeadH q))). expired ?now ?t (sys c) n"
    using drained_okD(7) [OF L hq] ts assms(4) by (fastforce simp: expired_def)
  have D': "demoted ?now ?t (sys c) q L = L(HeadH q := [], HeadL q := L (HeadL q) @ rev (L (HeadH q)))"
    unfolding demoted_def dropWhile_eq_Nil_conv [THEN iffD2, OF ex] takeWhile_eq_all_conv [THEN iffD2, OF ex] by simp
  from Demote_ok [OF L assms(3), of ?now ?t] obtain h where
    h: "spccDemote ?now ?t q (sys c) = Some (set_drained h (sys c))"
      "drained_ok (L(HeadH q := [], HeadL q := L (HeadL q) @ rev (L (HeadH q)))) (set_drained h (sys c))"
    unfolding D' by blast
  have em: "ListHead_Empty (HeadH q) (Drained (ops (set_drained h (sys c))))"
    using dl.is_empty [OF drained_okD(1) [OF h(2)] hq] by simp
  show ?thesis
  proof (cases "ListHead_Empty (HeadH q) (Drained (ops (sys c)))")
    case True
    then have "L (HeadH q) = []" using dl.is_empty [OF drained_okD(1) [OF L] hq] by simp
    moreover have "spccChooseDrainedH delay rtt q (sys c) w = Some (None, sys c, step_world w)"
      using True assms(3) by (simp add: spccChooseDrainedH_def Let_def)
    ultimately show ?thesis using L by (intro exI [of _ L] exI [of _ "sys c"] exI [of _ L]) simp
  next
    case False
    then have "spccChooseDrainedH delay rtt q (sys c) w = Some (None, set_drained h (sys c), step_world w)"
      using assms(3) h(1) em by (simp add: spccChooseDrainedH_def Let_def)
    then show ?thesis using L h(2)
      by (intro exI [of _ L] exI [of _ "set_drained h (sys c)"]
          exI [of _ "L(HeadH q := [], HeadL q := L (HeadL q) @ rev (L (HeadH q)))"]) simp
  qed
qed

theorem spcc_high_priority_demoted_witness:
  "\<exists>T. spccChooseDrainedH 10 10 2 (sys demo_one) (demo_world\<lparr>tick := 5\<rparr>) = Some (None, T, step_world (demo_world\<lparr>tick := 5\<rparr>))"
proof -
  have "2 < SpccMaxProcs" by (simp add: SpccMaxProcs_def)
  moreover have "spccDemandTimeout 10 10 < MicroTime (demo_world\<lparr>tick := 5\<rparr>)"
    by (simp add: spccDemandTimeout_def isub_def goint_def MicroTime_def demo_world_def u2i_def)
  ultimately show ?thesis
    using spcc_high_priority_demoted [OF nb.pcc_server_axioms [of pcc_config] demo_one_reachable [of pcc_config False]]
    by blast
qed

text \<open>
  C17.  A credit message without demand from a client that is already drained breaks the lists: it links
  the session again without looking.  If the session is the last one of the low priority list of the
  receiving processor, its node points to itself afterwards, and \<open>SpccNumDrained\<close> counts it twice, so
  the drained lists are no longer well-formed.  (The clients of the repository only send credit messages
  with a demand.)
\<close>

theorem spcc_relink_corrupts:
  assumes "drained_ok L S" "sess S p = Some s" "IsLinked s" "NumPending s = 0"
    and "ProcId_of w < SpccMaxProcs" "L (HeadL (ProcId_of w)) = xs @ [Link p]" "cLen chdr = 0" "cDemand chdr = 0"
  shows "\<exists>S'. spccRecvCredit chdr p S w = Some (RecvRet 0, S', step_world w) \<and>
    Next (Drained (ops S')) (Link p) = Some (Link p) \<and> gNumDrained (ops S') = gNumDrained (ops S) + 1 \<and>
    (\<forall>L'. \<not> drained_ok L' S')"
proof -
  let ?q = "ProcId_of w" let ?a = "HeadL ?q" let ?h = "Drained (ops S)"
  note d = drained_okD [OF assms(1)]
  have a: "?a \<in> dheads" using assms(5) by simp
  have pv: "Prev ?h ?a = Some (Link p)" using dlists_hd_last(2) [OF d(1) a] assms(6) by simp
  have c0: "Credit s = 0" using d(4) [OF assms(2,3)] by blast
  define h where "h = set_Prev ?a (Some (Link p)) (set_Next (Link p) (Some (Link p))
      (set_Prev (Link p) (Some (Link p)) (set_Next (Link p) (Some ?a) ?h)))"
  have ad: "ListHead_AddTail ?a (Link p) ?h = Some h" using pv by (simp add: ListHead_AddTail_def Let_def h_def)
  define os where "os = (ops S)\<lparr>Drained := h, gNumDrained := gNumDrained (ops S) + 1,
      StatCUpdateRx := StatCUpdateRx (ops S) + 1\<rparr>"
  define S' where "S' = set_ops os (put_sess p (s\<lparr>Demand := 0, IsLinked := True, DrainedProc := int ?q, Advertised := 0,
      Signalled := True\<rparr>) S)"
  have r: "spccRecvCredit chdr p S w = Some (RecvRet 0, S', step_world w)"
    using assms(2,4,5,7,8) ad c0
    by (simp add: spccRecvCredit_def spccLinkDrained_def spccClipCredit_def Let_def iadd_def goint_def S'_def os_def u2i_def)
  have ls: "linked_sessions S' = linked_sessions S"
    using assms(2,3) by (auto simp: linked_sessions_def S'_def split: if_splits)
  have n: "gNumDrained (ops S') = gNumDrained (ops S) + 1" by (simp add: S'_def os_def)
  have "gNumDrained (ops S') \<noteq> of_nat (card (linked_sessions S'))" unfolding n ls d(8) by simp
  then have "\<forall>L'. \<not> drained_ok L' S'" using drained_okD(8) by blast
  moreover have "Next (Drained (ops S')) (Link p) = Some (Link p)" by (simp add: S'_def os_def h_def)
  ultimately show ?thesis using r n by blast
qed

theorem spcc_relink_corrupts_witness:
  "\<exists>(S :: (bool list, mem_conn) spccServer) S'.
     spccRecvCredit \<lparr>cMagic = PccReqMagic, cOp = PccOpCredit, cLen = 0, cId = 0, cDemand = 0, cTsSent = 0, cFlags = 0\<rparr> 7 S
       (demo_world\<lparr>procid := (\<lambda>_. 2)\<rparr>) = Some (RecvRet 0, S', step_world (demo_world\<lparr>procid := (\<lambda>_. 2)\<rparr>)) \<and>
     Next (Drained (ops S')) (Link 7) = Some (Link 7)"
proof -
  from demo_linked [of False] obtain L and S :: "(bool list, mem_conn) spccServer" and s where
    S: "drained_ok L S" "sess S 7 = Some s" "IsLinked s" "NumPending s = 0" "L (HeadL 2) = [] @ [Link 7]" by auto
  have pid: "ProcId_of (demo_world\<lparr>procid := (\<lambda>_. 2)\<rparr>) = 2" by (simp add: ProcId_of_def)
  show ?thesis
    using spcc_relink_corrupts [OF S(1-4), of "demo_world\<lparr>procid := (\<lambda>_. 2)\<rparr>" "[]"
        "\<lparr>cMagic = PccReqMagic, cOp = PccOpCredit, cLen = 0, cId = 0, cDemand = 0, cTsSent = 0, cFlags = 0\<rparr>"] S(5)
    unfolding pid by (auto simp: SpccMaxProcs_def)
qed

section \<open>The controller\<close>

text \<open>
  C15.  In every reachable configuration a step of the controller returns (it never indexes its
  statistics out of range) and moves to the next state of the cycle prepare, start, end, prepare, start,
  end, decide; it leaves everything that sessions and workers own alone.
\<close>

theorem spcc_controller_cycle:
  assumes "pcc_server E bits sent pending" "spcc_reachable E quiet c"
  shows "\<exists>os' w' wake. ctlStep (eCfg E) (eProcs E) (ops (sys c)) w = Some (os', w', wake) \<and>
    CtlState os' = (case CtlState (ops (sys c)) of
        PrepareMicroExp \<Rightarrow> StartMicroExp
      | StartMicroExp \<Rightarrow> EndMicroExp
      | EndMicroExp \<Rightarrow> if NumMicroExps (ops (sys c)) = 0 then PrepareMicroExp else MakeDecision
      | MakeDecision \<Rightarrow> PrepareMicroExp) \<and>
    gNumSess os' = gNumSess (ops (sys c)) \<and> gNumDrained os' = gNumDrained (ops (sys c)) \<and>
    gCreditUsed os' = gCreditUsed (ops (sys c)) \<and> gNumPending os' = gNumPending (ops (sys c)) \<and>
    Drained os' = Drained (ops (sys c)) \<and> ctl_ok os'"
proof -
  from pcc_server.reachable_ok [OF assms] have "conf_ok (eB E) bits (eProcs E) c" by blast
  then have "ctl_ok (ops (sys c))" by (rule conf_okD)
  from ctlStep_ok [OF this, of "eCfg E" "eProcs E" w] show ?thesis
    unfolding next_state_def same_books_def by blast
qed

theorem spcc_controller_cycle_witness:
  "\<exists>os' w' wake. ctlStep pcc_config 4 (ops (sys demo_one)) demo_world = Some (os', w', wake) \<and> CtlState os' = StartMicroExp"
  using spcc_controller_cycle [OF nb.pcc_server_axioms [of pcc_config] demo_one_reachable [of pcc_config False], of demo_world]
    demo_one_ops(7) by auto


definition demo_decide :: spccOps where
  "demo_decide = zero_ops\<lparr>CtlState := MakeDecision, NumMicroExps := 2, MicroExpDirs := [0, 1, - 1], gNumSess := 10,
     gCreditPool := 100, gCreditUsed := 100, OrigCp := 100\<rparr>"

lemma demo_decide_ok: "ctl_ok demo_decide"
  by (simp add: ctl_ok_def arrays_ok_def dirs_ok_def phase_ok_def demo_decide_def zero_ops_def)


text \<open>
  The subtraction of \<open>SpccEpsilon\<close> is unsigned and not guarded: with a pool smaller than
  \<open>SpccEpsilon\<close>, both the decrease of the decision and a downward perturbation wrap around and set the
  pool to its maximum, 64 credits per session.  (The pool starts at the number of processors, which is
  usually below the configured 10.)
\<close>

theorem spcc_decrease_wraps:
  assumes "gCreditPool os < Epsilon cfg" "unat (Epsilon cfg) \<le> 2 ^ 63"
    and "unat (gNumSess os) < 2 ^ 56" "procs \<le> 64 * unat (gNumSess os)"
  shows "unat (spccDecrCp cfg procs os) = 64 * unat (gNumSess os) \<and>
    unat (spccUpdateCp cfg procs os (- 1)) = 64 * unat (gNumSess os)"
proof -
  have n: "unat (gNumSess os) < 2 ^ 58" "procs < 2 ^ 64" using assms(3,4) by auto
  have "64 * unat (gNumSess os) \<le> unat (gCreditPool os - Epsilon cfg)"
    unfolding unat_sub_wrap [OF assms(1)] using assms(2,3) by simp
  then show ?thesis using unat_clamp_cp [OF n] assms(4)
    by (simp add: spccDecrCp_def spccUpdateCp_def Let_def min_def)
qed

theorem spcc_decrease_wraps_witness:
  "unat (spccDecrCp pcc_config 4 (demo_decide\<lparr>gCreditPool := 4\<rparr>)) = 640"
proof -
  have "gCreditPool (demo_decide\<lparr>gCreditPool := 4\<rparr>) < Epsilon pcc_config" "unat (Epsilon pcc_config) \<le> 2 ^ 63"
    by (simp_all add: pcc_config_def)
  moreover have "gNumSess (demo_decide\<lparr>gCreditPool := 4\<rparr>) = 10" by (simp add: demo_decide_def)
  ultimately show ?thesis using spcc_decrease_wraps [of "demo_decide\<lparr>gCreditPool := 4\<rparr>" pcc_config 4] by simp
qed

text \<open>
  The second micro-experiment of a cycle does not perturb the pool away from its original value: it is
  applied on top of the first perturbation, which is not undone in between.  After an upward first
  experiment the downward second one runs with the original pool, not with \<open>SpccEpsilon\<close> less.
\<close>

theorem spcc_second_experiment:
  assumes "ctl_ok os" "CtlState os = PrepareMicroExp" "NumMicroExps os = 0" "MicroExpDirs os ! 1 = 1" "PerturbCp cfg"
    and "procs \<le> unat (gCreditPool os)" "unat (gCreditPool os) + unat (Epsilon cfg) \<le> 64 * unat (gNumSess os)"
    and "unat (gNumSess os) < 2 ^ 58"
  shows "\<exists>o1 x1 k1 o2 x2 k2 o3 x3 k3 o4 x4 k4. ctlStep cfg procs os w1 = Some (o1, x1, k1) \<and>
    ctlStep cfg procs o1 w2 = Some (o2, x2, k2) \<and> ctlStep cfg procs o2 w3 = Some (o3, x3, k3) \<and>
    ctlStep cfg procs o3 w4 = Some (o4, x4, k4) \<and> CtlState o4 = StartMicroExp \<and>
    unat (gCreditPool o2) = unat (gCreditPool os) + unat (Epsilon cfg) \<and> MicroExpDirs o4 ! 2 = - 1 \<and>
    gCreditPool o4 = gCreditPool os"
proof -
  have "64 * unat (gNumSess os) < 2 ^ 64" using assms(8) by simp
  then have small: "unat (gCreditPool os) + unat (Epsilon cfg) < 2 ^ 64" and pr: "procs < 2 ^ 64"
    using assms(6,7) by auto
  from ctlPrepare_ok [OF assms(1,2), of cfg procs w1] obtain o1 x1 k1 where
    1: "ctlPrepare cfg procs os w1 = Some (o1, x1, k1)" "ctl_ok o1" "same_books os o1" "CtlState o1 = StartMicroExp"
      "NumMicroExps o1 = 0" "MicroExpDirs o1 = MicroExpDirs os" "gCreditPool o1 = spccUpdateCp cfg procs os 1"
    using assms(3-5) by auto
  from ctlStart_ok [OF 1(2,4), of cfg w2] obtain o2 x2 where
    2: "ctlStart cfg o1 w2 = Some (o2, x2, False)" "ctl_ok o2" "same_books o1 o2" "CtlState o2 = EndMicroExp"
      "NumMicroExps o2 = 0" "MicroExpDirs o2 = MicroExpDirs o1" "gCreditPool o2 = gCreditPool o1" using 1(5) by auto
  from ctlEnd_ok [OF 2(2,4), of cfg w3] obtain o3 x3 k3 where
    3: "ctlEnd cfg o2 w3 = Some (o3, x3, k3)" "ctl_ok o3" "same_books o2 o3" "CtlState o3 = PrepareMicroExp"
      "NumMicroExps o3 = 1" "MicroExpDirs o3 = MicroExpDirs o2" "gCreditPool o3 = gCreditPool o2" using 2(5) by auto
  from ctlPrepare_ok [OF 3(2,4), of cfg procs w4] obtain o4 x4 k4 where
    4: "ctlPrepare cfg procs o3 w4 = Some (o4, x4, k4)" "CtlState o4 = StartMicroExp" "MicroExpDirs o4 = MicroExpDirs o3"
      "gCreditPool o4 = spccUpdateCp cfg procs o3 (MicroExpDirs o3 ! 2)" using assms(5) 3(5) by auto
  have d2: "MicroExpDirs o3 ! 2 = - 1" "gNumSess o3 = gNumSess os"
    using assms(1,4) 1(3,6) 2(3,6) 3(3,6) by (simp_all add: ctl_ok_def dirs_ok_def same_books_def)
  have p1: "unat (gCreditPool o1) = unat (gCreditPool os) + unat (Epsilon cfg)"
    using unat_clamp_cp [OF assms(8) pr] unat_add_small [OF small] assms(6,7) 1(7)
    by (simp add: spccUpdateCp_def Let_def)
  have "gCreditPool o1 = gCreditPool os + Epsilon cfg"
    using p1 unat_add_small [OF small] by (simp add: word_unat_eq_iff)
  then have "gCreditPool o3 - Epsilon cfg = gCreditPool os" using 2(7) 3(7) by simp
  moreover have "unat (gNumSess o3) < 2 ^ 58" using assms(8) d2(2) by simp
  ultimately have "unat (gCreditPool o4) = unat (gCreditPool os)"
    using unat_clamp_cp [of o3 procs "gCreditPool o3 - Epsilon cfg"] pr 4(4) d2 assms(6,7) by (simp add: spccUpdateCp_def Let_def)
  then have p4: "gCreditPool o4 = gCreditPool os" by (simp add: word_unat_eq_iff)
  have "ctlStep cfg procs os w1 = Some (o1, x1, k1)" "ctlStep cfg procs o1 w2 = Some (o2, x2, False)"
    "ctlStep cfg procs o2 w3 = Some (o3, x3, k3)" "ctlStep cfg procs o3 w4 = Some (o4, x4, k4)"
    using assms(2) 1(1,4) 2(1,4) 3(1,4) 4(1) by (simp_all add: ctlStep_def)
  moreover have "unat (gCreditPool o2) = unat (gCreditPool os) + unat (Epsilon cfg)" "MicroExpDirs o4 ! 2 = - 1"
    using p1 2(7) 4(3) d2(1) by simp_all
  ultimately show ?thesis using 4(2) p4 by blast
qed

theorem spcc_second_experiment_witness:
  "\<exists>o1 x1 k1 o2 x2 k2 o3 x3 k3 o4 x4 k4. ctlStep pcc_config 4 (ops (sys demo_one)) demo_world = Some (o1, x1, k1) \<and>
    ctlStep pcc_config 4 o1 demo_world = Some (o2, x2, k2) \<and> ctlStep pcc_config 4 o2 demo_world = Some (o3, x3, k3) \<and>
    ctlStep pcc_config 4 o3 demo_world = Some (o4, x4, k4) \<and> unat (gCreditPool o2) = 14 \<and> gCreditPool o4 = 4"
proof -
  have "ctl_ok (ops (sys demo_one))" using demo_one_ok by (rule conf_okD)
  moreover have "PerturbCp pcc_config" "Epsilon pcc_config = 10" by (simp_all add: pcc_config_def)
  ultimately show ?thesis
    using spcc_second_experiment [of "ops (sys demo_one)" pcc_config 4 demo_world demo_world demo_world demo_world] demo_one_ops
    by simp blast
qed

end
