(* ===== verification/Controllers.thy ===== *)
theory Controllers
  imports Control_Properties Breakwater Protego
begin

text \<open>
  The properties of the two other credit controllers: Breakwater's delay-based one
  (\<open>src/ovldctlrpc/breakwater/bw_server.go\<close>) and Protego's throughput-based one
  (\<open>src/ovldctlrpc/protego/pg_server.go\<close>).  The sessions and the drained lists are Svalinn's, so the
  lemmas of theory \<open>Credit_Drained\<close> apply to them as they are.
\<close>

section \<open>Breakwater\<close>

lemma clamp_cp_bounds:
  assumes "unat (gNumSess os) < 2 ^ 58" "procs \<le> SpccMaxProcs"
  shows "unat (clamp_cp procs os cp) \<le> 64 * unat (gNumSess os)" "min procs (64 * unat (gNumSess os)) \<le> unat (clamp_cp procs os cp)"
    "unat (clamp_cp procs os cp) \<le> max (unat cp) procs"
proof -
  have "procs < 2 ^ 64" using assms(2) by (simp add: SpccMaxProcs_def)
  note u = unat_clamp_cp [OF assms(1) this, of cp]
  show "unat (clamp_cp procs os cp) \<le> 64 * unat (gNumSess os)" "min procs (64 * unat (gNumSess os)) \<le> unat (clamp_cp procs os cp)"
    "unat (clamp_cp procs os cp) \<le> max (unat cp) procs" unfolding u by (auto simp: min_def max_def)
qed

lemma sbwDecr_spec:
  "\<exists>cp. sbwDecrCreditPool oor cfg procs delay os = (clamp_cp procs os cp, os\<lparr>gCreditCarry := FFin 0\<rparr>) \<and> cp \<le> gCreditPool os - 1"
  unfolding sbwDecrCreditPool_def Let_def by (intro exI conjI, rule refl) simp

lemma sbwIncr_spec:
  "\<exists>cp carry. sbwIncrCreditPool oor cfg procs os = (clamp_cp procs os cp, os\<lparr>gCreditCarry := carry\<rparr>)"
  unfolding sbwIncrCreditPool_def by (auto simp: Let_def split: prod.splits)

lemma sbw_due:
  assumes "drained_ok L S" "procs_ok procs w" "procs \<le> SpccMaxProcs" "procs_below procs S" "unat (gNumSess (ops S)) < 2 ^ 58"
    and due: "\<not> MicroTime w - LastCpUpdate (ops S) < bwRttUs cfg"
  shows "\<exists>S' w' L' W. sbwUpdateCreditPool oor cfg procs S w = Some (S', w') \<and> drained_ok L' S' \<and>
        LastCpUpdate (ops S') = MicroTime w \<and>
        unat (gCreditPool (ops S')) \<le> 64 * unat (gNumSess (ops S)) \<and>
        min procs (64 * unat (gNumSess (ops S))) \<le> unat (gCreditPool (ops S')) \<and>
        (bwDelayTarget cfg \<le> QueueDelayMax_of (step_world w) div 1000 \<and> 0 < unat (gCreditPool (ops S)) \<longrightarrow>
           unat (gCreditPool (ops S')) \<le> max (unat (gCreditPool (ops S)) - 1) procs) \<and>
        W \<subseteq> linked_sessions S \<and>
        card W = min (unat (gCreditPool (ops S')) - unat (gCreditUsed (ops S))) (card (linked_sessions S)) \<and>
        (\<forall>p. sess S' p = (if p \<in> W then map_option woken (sess S p) else sess S p)) \<and>
        gCreditUsed (ops S') = gCreditUsed (ops S) + of_nat (card W)"
proof -
  let ?d = "QueueDelayMax_of (step_world w) div 1000" and ?os = "(ops S)\<lparr>LastCpUpdate := MicroTime w\<rparr>"
  let ?r = "if ?d \<ge> bwDelayTarget cfg then sbwDecrCreditPool oor cfg procs ?d ?os else sbwIncrCreditPool oor cfg procs ?os"
  have "\<exists>cp carry. ?r = (clamp_cp procs ?os cp, ?os\<lparr>gCreditCarry := carry\<rparr>) \<and>
      (bwDelayTarget cfg \<le> ?d \<longrightarrow> cp \<le> gCreditPool (ops S) - 1)"
    using sbwDecr_spec [of oor cfg procs ?d ?os] sbwIncr_spec [of oor cfg procs ?os] by (cases "?d \<ge> bwDelayTarget cfg") auto
  then obtain cp carry where r: "?r = (clamp_cp procs ?os cp, ?os\<lparr>gCreditCarry := carry\<rparr>)"
    "bwDelayTarget cfg \<le> ?d \<longrightarrow> cp \<le> gCreditPool (ops S) - 1" by blast
  let ?cp = "clamp_cp procs ?os cp" let ?S = "set_ops (?os\<lparr>gCreditCarry := carry\<rparr>) S"
  let ?n = "if ?cp > gCreditUsed (ops S) then ?cp - gCreditUsed (ops S) else 0"
  have "drained_ok L ?S" by (intro drained_ok_ops [OF assms(1)]) simp_all
  moreover have "procs_ok procs (step_world (step_world w))" "procs_below procs ?S" using assms(2,4) by simp_all
  ultimately obtain T w' L' W where
    T: "spccWakeUpDrainedSession (bwMaxClientDelayUs cfg) (bwRttUs cfg) procs ?n ?S (step_world (step_world w)) = Some (T, w')"
      "drained_ok L' T" "wakes W ?S T" "card W = min (unat ?n) (card (linked_sessions S))"
    using WakeUpDrained_ok [of L ?S procs "step_world (step_world w)" "bwMaxClientDelayUs cfg" "bwRttUs cfg" ?n] assms(3) by auto
  let ?S' = "set_ops ((ops T)\<lparr>gCreditPool := ?cp\<rparr>) T"
  from T(3) obtain h where h: "ops T = ?os\<lparr>gCreditCarry := carry, Drained := h, gNumDrained := gNumDrained (ops S) - of_nat (card W),
      gCreditUsed := gCreditUsed (ops S) + of_nat (card W)\<rparr>" unfolding wakes_def by auto
  have e: "sbwUpdateCreditPool oor cfg procs S w = Some (?S', w')"
    using due r(1) T(1)
    by (cases "gCreditUsed (ops S) < ?cp") (simp_all add: sbwUpdateCreditPool_def sbwWakeUpDrainedSession_def Let_def)
  have d': "drained_ok L' ?S'" by (intro drained_ok_ops [OF T(2)]) simp_all
  have "unat (gNumSess ?os) < 2 ^ 58" using assms(5) by simp
  note cb = clamp_cp_bounds [OF this assms(3), of cp]
  have dec: "unat ?cp \<le> max (unat (gCreditPool (ops S)) - 1) procs"
    if "bwDelayTarget cfg \<le> ?d" "0 < unat (gCreditPool (ops S))"
  proof -
    have "unat cp \<le> unat (gCreditPool (ops S) - 1)" using r(2) that(1) by (simp add: word_le_nat_alt)
    also have "\<dots> = unat (gCreditPool (ops S)) - 1" using that(2) by (intro unat_minus_one) auto
    finally show ?thesis using cb(3) by (simp add: max_def split: if_splits)
  qed
  have cW: "card W = min (unat ?cp - unat (gCreditUsed (ops S))) (card (linked_sessions S))"
    using T(4) unused_budget [of "gCreditUsed (ops S)" ?cp] by (simp add: wake_budget_def)
  show ?thesis
    using e d' cb(1,2) dec cW T(3) h
    by (intro exI [of _ ?S'] exI [of _ w'] exI [of _ L'] exI [of _ W]) (simp add: wakes_def)
qed

text \<open>
  C23.  Breakwater's controller: within a round-trip time of the last update it changes nothing.  After
  that it returns with the pool between the number of processors and 64 credits per session; when the
  queueing delay has reached the target the pool has become smaller (unless it already was the minimum);
  exactly the drained sessions for which the new pool has unused credits are woken, and the lists stay
  well-formed.
\<close>

theorem sbw_update_pool:
  assumes "drained_ok L S" "procs_ok procs w" "procs \<le> SpccMaxProcs" "procs_below procs S" "unat (gNumSess (ops S)) < 2 ^ 58"
  shows "(MicroTime w - LastCpUpdate (ops S) < bwRttUs cfg \<longrightarrow> sbwUpdateCreditPool oor cfg procs S w = Some (S, step_world w)) \<and>
    (\<not> MicroTime w - LastCpUpdate (ops S) < bwRttUs cfg \<longrightarrow>
      (\<exists>S' w' L' W. sbwUpdateCreditPool oor cfg procs S w = Some (S', w') \<and> drained_ok L' S' \<and>
        LastCpUpdate (ops S') = MicroTime w \<and>
        unat (gCreditPool (ops S')) \<le> 64 * unat (gNumSess (ops S)) \<and>
        min procs (64 * unat (gNumSess (ops S))) \<le> unat (gCreditPool (ops S')) \<and>
        (bwDelayTarget cfg \<le> QueueDelayMax_of (step_world w) div 1000 \<and> 0 < unat (gCreditPool (ops S)) \<longrightarrow>
           unat (gCreditPool (ops S')) \<le> max (unat (gCreditPool (ops S)) - 1) procs) \<and>
        W \<subseteq> linked_sessions S \<and>
        card W = min (unat (gCreditPool (ops S')) - unat (gCreditUsed (ops S))) (card (linked_sessions S)) \<and>
        (\<forall>p. sess S' p = (if p \<in> W then map_option woken (sess S p) else sess S p)) \<and>
        gCreditUsed (ops S') = gCreditUsed (ops S) + of_nat (card W)))"
  using sbw_due [OF assms] by (auto simp: sbwUpdateCreditPool_def Let_def)

text \<open>An example: one client, a pool of 60 credits, a queueing delay of 100 microseconds.\<close>

definition demo_bw :: "(bool list, mem_conn) sbwServer" where
  "demo_bw = sbwServer_open boolmap 7 demo_conn
     \<lparr>ops = fst (sbwListener_init 4 \<lparr>gNumSess = 0, gNumDrained = 0, gNumActive = 0, gCreditPool = 0, gCreditUsed = 0,
        gCreditDs = 0, gNumPending = 0, gCreditCarry = FFin 0, StatCUpdateRx = 0, StatECreditTx = 0, StatCreditTx = 0,
        StatReqRx = 0, StatReqDropped = 0, StatRespTx = 0,
        Drained = \<lparr>Next = (\<lambda>_. None), Prev = (\<lambda>_. None), Value = (\<lambda>_. None)\<rparr>, LastCpUpdate = 0\<rparr> demo_world),
      sess = (\<lambda>_. None)\<rparr>"

definition demo_bw60 :: "(bool list, mem_conn) sbwServer" where
  "demo_bw60 = set_ops ((ops demo_bw)\<lparr>gCreditPool := 60\<rparr>) demo_bw"

definition demo_busy :: world where
  "demo_busy = demo_world\<lparr>clock := (\<lambda>_. 1000), qdelay := (\<lambda>_. 100000)\<rparr>"

lemma drained_open_server:
  assumes "drained_ok L S" "sess S p = None"
  shows "drained_ok L (spccServer_open B p k S)"
  unfolding spccServer_open_def Let_def
  by (rule drained_open [OF assms]) (simp_all add: spccNewSession_def Let_def)

lemma demo_bw60_ok: "drained_ok (\<lambda>_. []) demo_bw60" "procs_below 4 demo_bw60" "unat (gNumSess (ops demo_bw60)) = 1"
  "gCreditPool (ops demo_bw60) = 60" "LastCpUpdate (ops demo_bw60) = 0" "linked_sessions demo_bw60 = {}"
proof -
  have "drained_ok (\<lambda>_. []) demo_bw"
    unfolding demo_bw_def sbwServer_open_def
    by (rule drained_open_server)
      (simp_all add: drained_ok_def sbwListener_init_def init_heads_lists linked_sessions_def)
  then show "drained_ok (\<lambda>_. []) demo_bw60" unfolding demo_bw60_def by (rule drained_ok_ops) simp_all
  show "procs_below 4 demo_bw60" "unat (gNumSess (ops demo_bw60)) = 1" "gCreditPool (ops demo_bw60) = 60"
    "LastCpUpdate (ops demo_bw60) = 0" "linked_sessions demo_bw60 = {}"
    by (auto simp: demo_bw60_def demo_bw_def sbwServer_open_def spccServer_open_def Let_def procs_below_def
        spccNewSession_def sbwListener_init_def MicroTime_def demo_world_def linked_sessions_def split: if_splits)
qed

theorem sbw_update_pool_witness:
  "\<exists>S' w'. sbwUpdateCreditPool (\<lambda>_. 0) bw_config 4 demo_bw60 demo_busy = Some (S', w') \<and>
     4 \<le> unat (gCreditPool (ops S')) \<and> unat (gCreditPool (ops S')) \<le> 59 \<and> LastCpUpdate (ops S') = 1000"
proof -
  have w: "procs_ok 4 demo_busy" "(4 :: nat) \<le> SpccMaxProcs" "unat (gNumSess (ops demo_bw60)) < 2 ^ 58"
    using demo_bw60_ok(3) by (simp_all add: procs_ok_def demo_busy_def demo_world_def SpccMaxProcs_def)
  have t: "MicroTime demo_busy = 1000" "QueueDelayMax_of (step_world demo_busy) div 1000 = 100"
    "bwDelayTarget bw_config = 80" "bwRttUs bw_config = 10"
    by (simp_all add: MicroTime_def QueueDelayMax_of_def demo_busy_def bw_config_def step_world_def)
  from sbw_update_pool [OF demo_bw60_ok(1) w(1,2) demo_bw60_ok(2) w(3), of bw_config "\<lambda>_. 0"] show ?thesis
    by (auto simp: t demo_bw60_ok)
qed

section \<open>Protego\<close>

lemma uint_less_of_unat: "unat (w :: u64) < n \<Longrightarrow> uint w < int n"
proof -
  assume "unat w < n"
  then have "int (unat w) < int n" by (simp only: of_nat_less_iff)
  then show ?thesis by simp
qed

lemma in_int64_diff60: "0 \<le> a \<Longrightarrow> a < 2 ^ 60 \<Longrightarrow> 0 \<le> b \<Longrightarrow> b < 2 ^ 60 \<Longrightarrow> in_int64 (a - b)"
  by (simp add: in_int64_def)

lemma pool_clip_int:
  "(let y = if int c - int d < int p then int p else int c - int d in if int m < y then int m else y) =
     int (min (max (c - d) p) m)"
  by (auto simp: Let_def min_def max_def)

lemma spgDecr_spec:
  assumes ai: "pgAI cfg = FFin b" "0 \<le> b" "b \<le> 1" and n: "unat (gNumSess os) < 2 ^ 50"
    and pool: "unat (gCreditPool os) < 2 ^ 60" and procs: "procs \<le> SpccMaxProcs"
  shows "\<exists>decr. 1 \<le> decr \<and> spgDecrCreditPool oor cfg procs os =
     (of_nat (min (max (unat (gCreditPool os) - decr) procs) (64 * unat (gNumSess os))), os\<lparr>gCreditCarry := FFin 0\<rparr>)"
proof -
  let ?n = "gNumSess os" and ?c = "gCreditPool os"
  let ?d = "max (f_to_u64 oor (f_mul (f_of_u64 ?n) (pgAI cfg))) 1"
  have i: "int (unat ?n) = uint ?n" "int (unat ?c) = uint ?c" "int (unat ?d) = uint ?d" by simp_all
  have "uint ?n < 2 ^ 60" using uint_less_of_unat [OF n] by simp
  from f_mul_trunc_bound [OF ai(2,3) this, of oor]
  have d: "unat ?d \<le> 4 * unat ?n + 1" "1 \<le> unat ?d" unfolding ai(1) unat_max by simp_all
  have p6: "unat (push_bit SpccMaxWindowExp ?n) = 64 * unat ?n" using n by (intro unat_push6) simp
  have s: "u2i ?c = int (unat ?c)" "u2i ?d = int (unat ?d)" "u2i (push_bit SpccMaxWindowExp ?n) = int (64 * unat ?n)"
  proof -
    have "unat ?d < 2 ^ 60" using d(1) n by simp
    then have "uint ?c < 2 ^ 63" "uint ?d < 2 ^ 63" using uint_less_of_unat [OF pool] uint_less_of_unat [of ?d "2 ^ 60"] by simp_all
    then show "u2i ?c = int (unat ?c)" "u2i ?d = int (unat ?d)" using i by (simp_all add: u2i_small)
    have "uint (push_bit SpccMaxWindowExp ?n) = int (64 * unat ?n)" unfolding p6 [symmetric] by simp
    then show "u2i (push_bit SpccMaxWindowExp ?n) = int (64 * unat ?n)"
      using uint_less_of_unat [OF n] u2i_small [of "push_bit SpccMaxWindowExp ?n"] by simp
  qed
  have sub: "isub (int (unat ?c)) (int (unat ?d)) = int (unat ?c) - int (unat ?d)"
  proof -
    have "unat ?d < 2 ^ 60" using d(1) n by simp
    then have "uint ?c < 2 ^ 60" "uint ?d < 2 ^ 60"
      using uint_less_of_unat [OF pool] uint_less_of_unat [of ?d "2 ^ 60"] by simp_all
    then have "in_int64 (uint ?c - uint ?d)" by (intro in_int64_diff60) simp_all
    then show ?thesis unfolding isub_def i by (rule goint_id)
  qed
  let ?m = "min (max (unat ?c - unat ?d) procs) (64 * unat ?n)"
  let ?x = "int (unat ?c) - int (unat ?d)"
  have x: "(let y = if ?x < int procs then int procs else ?x
        in if int (64 * unat ?n) < y then int (64 * unat ?n) else y) = int ?m"
    by (rule pool_clip_int)
  have "spgDecrCreditPool oor cfg procs os = (i2u (int ?m), os\<lparr>gCreditCarry := FFin 0\<rparr>)"
    unfolding spgDecrCreditPool_def AtomicGet_val Max_max Let_def s sub x [unfolded Let_def] by (rule refl)
  moreover have "i2u (int ?m) = of_nat ?m" by (simp add: i2u_def)
  ultimately show ?thesis using d(2) by (intro exI [of _ "unat ?d"]) simp
qed

lemma spgIncr_spec:
  "\<exists>cp carry. spgIncrCreditPool oor cfg procs os = (clamp_cp procs os cp, os\<lparr>gCreditCarry := carry\<rparr>)"
  unfolding spgIncrCreditPool_def by (auto simp: Let_def split: prod.splits)

text \<open>The counters as the interval's end finds them: they restart after the first tail latency of an interval.\<close>

definition pg_counted :: "u64 \<Rightarrow> spgOps \<Rightarrow> spgOps" where
  "pg_counted now os =
     (if CmResetStat os then os else os\<lparr>CmInCnt := 0, CmOutCnt := 0, CmDropCnt := 0, CmResetStat := True\<rparr>)
       \<lparr>CmLastUpdate := now, CmResetStat := False\<rparr>"

lemma spgUpdate_due:
  assumes "trylock_of w" "\<not> MicroTime (step_world w) - CmLastUpdate (ops S) < pgCmP99Rtt cfg"
    "\<not> MicroTime (step_world w) - CmLastUpdate (ops S) < pgCmUpdateInterval cfg"
  shows "spgUpdateCreditPool oor cfg procs S w = (
    let os = pg_counted (MicroTime (step_world w)) (ops S);
        (newCp, os3) = (if spgShouldIncr cfg os then spgIncrCreditPool oor cfg procs os else spgDecrCreditPool oor cfg procs os);
        n = (if newCp > gCreditUsed os then newCp - gCreditUsed os else 0)
    in do {
      (S1, w3) \<leftarrow> spgWakeUpDrainedSession (pgMaxClientDelayUs cfg) (pgRttUs cfg) procs n (set_ops os3 S) (step_world (step_world w));
      Some (set_ops ((ops S1)\<lparr>gCreditPool := newCp, CmLastInCnt := CmInCnt os, CmLastOutCnt := CmOutCnt os,
        CmInCnt := 0, CmOutCnt := 0, CmDropCnt := 0\<rparr>) S1, w3) })"
  using assms by (cases "CmResetStat (ops S)") (simp_all add: spgUpdateCreditPool_def pg_counted_def Let_def cong: if_cong prod.case_cong)

lemma spg_new_pool:
  assumes "pgAI cfg = FFin b" "0 \<le> b" "b \<le> 1" "unat (gNumSess os) < 2 ^ 50" "unat (gCreditPool os) < 2 ^ 60" "procs \<le> SpccMaxProcs"
  shows "\<exists>cp carry. (if spgShouldIncr cfg os then spgIncrCreditPool oor cfg procs os else spgDecrCreditPool oor cfg procs os) =
        (cp, os\<lparr>gCreditCarry := carry\<rparr>) \<and> unat cp \<le> 64 * unat (gNumSess os) \<and>
      min procs (64 * unat (gNumSess os)) \<le> unat cp \<and>
      (\<not> spgShouldIncr cfg os \<longrightarrow> unat cp \<le> max (unat (gCreditPool os) - 1) procs)"
proof (cases "spgShouldIncr cfg os")
  case True
  have n58: "unat (gNumSess os) < 2 ^ 58" using assms(4) by simp
  show ?thesis using True spgIncr_spec [of oor cfg procs os] clamp_cp_bounds [OF n58 assms(6)] by auto
next
  case False
  have n58: "unat (gNumSess os) < 2 ^ 58" using assms(4) by simp
  from spgDecr_spec [OF assms(1-5) assms(6), of oor] obtain d where
    d: "1 \<le> d" "spgDecrCreditPool oor cfg procs os =
       (of_nat (min (max (unat (gCreditPool os) - d) procs) (64 * unat (gNumSess os))), os\<lparr>gCreditCarry := FFin 0\<rparr>)" by blast
  define m where "m = min (max (unat (gCreditPool os) - d) procs) (64 * unat (gNumSess os))"
  have bd: "m \<le> 64 * unat (gNumSess os)" "min procs (64 * unat (gNumSess os)) \<le> m" "m \<le> max (unat (gCreditPool os) - 1) procs"
    using d(1) unfolding m_def by (auto simp: min_def max_def)
  have "m < 2 ^ 64" using n58 bd(1) by simp
  then have "unat (of_nat m :: u64) = m" by (rule unat_of_nat_64)
  then show ?thesis using False d(2) bd unfolding m_def [symmetric]
    by (intro exI [of _ "of_nat m"] exI [of _ "FFin 0"]) simp
qed

lemma spg_due:
  fixes S :: "('b, 'c) spgServer" and w :: world and cfg :: spgCfg
  assumes "drained_ok L S" "procs_ok procs w" "procs \<le> SpccMaxProcs" "procs_below procs S"
    and "unat (gNumSess (ops S)) < 2 ^ 50" "unat (gCreditPool (ops S)) < 2 ^ 60"
    and "pgAI cfg = FFin b" "0 \<le> b" "b \<le> 1"
  defines "now \<equiv> MicroTime (step_world w)"
  defines "os \<equiv> pg_counted now (ops S)"
  assumes due: "trylock_of w" "\<not> now - CmLastUpdate (ops S) < pgCmP99Rtt cfg" "\<not> now - CmLastUpdate (ops S) < pgCmUpdateInterval cfg"
  shows "\<exists>S' w' L' W. spgUpdateCreditPool oor cfg procs S w = Some (S', w') \<and> drained_ok L' S' \<and>
        unat (gCreditPool (ops S')) \<le> 64 * unat (gNumSess (ops S)) \<and>
        min procs (64 * unat (gNumSess (ops S))) \<le> unat (gCreditPool (ops S')) \<and>
        (\<not> spgShouldIncr cfg os \<longrightarrow> unat (gCreditPool (ops S')) \<le> max (unat (gCreditPool (ops S)) - 1) procs) \<and>
        CmLastInCnt (ops S') = CmInCnt os \<and> CmLastOutCnt (ops S') = CmOutCnt os \<and> CmInCnt (ops S') = 0 \<and>
        CmOutCnt (ops S') = 0 \<and> CmDropCnt (ops S') = 0 \<and> \<not> CmResetStat (ops S') \<and>
        wakes W S (S'\<lparr>ops := (ops S)\<lparr>Drained := Drained (ops S'), gNumDrained := gNumDrained (ops S'), gCreditUsed := gCreditUsed (ops S')\<rparr>\<rparr>) \<and>
        card W = min (unat (gCreditPool (ops S')) - unat (gCreditUsed (ops S))) (card (linked_sessions S))"
proof -
  have f: "gNumSess os = gNumSess (ops S)" "gCreditPool os = gCreditPool (ops S)" "gCreditUsed os = gCreditUsed (ops S)"
    "Drained os = Drained (ops S)" "gNumDrained os = gNumDrained (ops S)" by (simp_all add: os_def pg_counted_def)
  let ?r = "if spgShouldIncr cfg os then spgIncrCreditPool oor cfg procs os else spgDecrCreditPool oor cfg procs os"
  from spg_new_pool [OF assms(7-9) _ _ assms(3), of os oor] assms(5,6) f(1,2) obtain cp carry where
    r: "?r = (cp, os\<lparr>gCreditCarry := carry\<rparr>)" "unat cp \<le> 64 * unat (gNumSess os)"
      "min procs (64 * unat (gNumSess os)) \<le> unat cp"
      "\<not> spgShouldIncr cfg os \<longrightarrow> unat cp \<le> max (unat (gCreditPool os) - 1) procs" by auto
  let ?S = "set_ops (os\<lparr>gCreditCarry := carry\<rparr>) S" let ?w = "step_world (step_world w)"
  define n where "n = (if cp > gCreditUsed os then cp - gCreditUsed os else 0)"
  have "drained_ok L ?S" by (intro drained_ok_ops [OF assms(1)]) (simp_all add: f)
  moreover have "procs_ok procs ?w" "procs_below procs ?S" using assms(2,4) by simp_all
  ultimately obtain T w' L' W where
    T: "spccWakeUpDrainedSession (pgMaxClientDelayUs cfg) (pgRttUs cfg) procs n ?S ?w = Some (T, w')"
      "drained_ok L' T" "wakes W ?S T" "card W = min (unat n) (card (linked_sessions S))"
    using WakeUpDrained_ok [of L ?S procs ?w "pgMaxClientDelayUs cfg" "pgRttUs cfg" n] assms(3) by auto
  let ?S' = "set_ops ((ops T)\<lparr>gCreditPool := cp, CmLastInCnt := CmInCnt os, CmLastOutCnt := CmOutCnt os,
     CmInCnt := 0, CmOutCnt := 0, CmDropCnt := 0\<rparr>) T"
  from T(3) obtain h where h: "ops T = os\<lparr>gCreditCarry := carry, Drained := h, gNumDrained := gNumDrained os - of_nat (card W),
      gCreditUsed := gCreditUsed os + of_nat (card W)\<rparr>" unfolding wakes_def by auto
  have e: "spgUpdateCreditPool oor cfg procs S w = Some (?S', w')"
    using due r(1) T(1) spgUpdate_due [of w S cfg oor procs] unfolding now_def [symmetric] os_def [symmetric] n_def
    by (simp add: spgWakeUpDrainedSession_def Let_def)
  have cW: "card W = min (unat cp - unat (gCreditUsed (ops S))) (card (linked_sessions S))"
    using T(4) unused_budget [of "gCreditUsed os" cp] f(3) by (simp add: n_def wake_budget_def)
  have d': "drained_ok L' ?S'" by (intro drained_ok_ops [OF T(2)]) simp_all
  have wk: "wakes W S (?S'\<lparr>ops := (ops S)\<lparr>Drained := Drained (ops ?S'), gNumDrained := gNumDrained (ops ?S'),
      gCreditUsed := gCreditUsed (ops ?S')\<rparr>\<rparr>)"
    using T(3) h f(3,5) unfolding wakes_def by (auto simp: linked_sessions_def set_ops_def)
  have rs: "\<not> CmResetStat os" by (simp add: os_def pg_counted_def)
  show ?thesis
    using e d' r(2-4) cW wk h rs f
    by (intro exI [of _ ?S'] exI [of _ w'] exI [of _ L'] exI [of _ W]) simp
qed


text \<open>An example: one client, a pool of 60 credits, five arrivals and no completion in the interval.\<close>

definition demo_pg :: "(bool list, mem_conn) spgServer" where
  "demo_pg = spgServer_open boolmap 7 demo_conn
     \<lparr>ops = fst (spgListener_init 4 \<lparr>gNumSess = 0, gNumDrained = 0, gNumActive = 0, gCreditPool = 0, gCreditUsed = 0,
        gCreditDs = 0, gNumPending = 0, gCreditCarry = FFin 0, StatCUpdateRx = 0, StatECreditTx = 0, StatCreditTx = 0,
        StatReqRx = 0, StatReqDropped = 0, StatRespTx = 0,
        Drained = \<lparr>Next = (\<lambda>_. None), Prev = (\<lambda>_. None), Value = (\<lambda>_. None)\<rparr>,
        CmInCnt = 0, CmOutCnt = 0, CmDropCnt = 0, CmLastInCnt = 0, CmLastOutCnt = 0, CmLastUpdate = 0, CmResetStat = False\<rparr> demo_world),
      sess = (\<lambda>_. None)\<rparr>"

definition demo_pg60 :: "(bool list, mem_conn) spgServer" where
  "demo_pg60 = set_ops ((ops demo_pg)\<lparr>gCreditPool := 60, CmInCnt := 5, CmResetStat := True\<rparr>) demo_pg"

lemma demo_pg60_ok: "drained_ok (\<lambda>_. []) demo_pg60" "procs_below 4 demo_pg60" "unat (gNumSess (ops demo_pg60)) = 1"
  "gCreditPool (ops demo_pg60) = 60" "CmLastUpdate (ops demo_pg60) = 0" "CmResetStat (ops demo_pg60)" "CmInCnt (ops demo_pg60) = 5"
  "CmOutCnt (ops demo_pg60) = 0" "CmLastInCnt (ops demo_pg60) = 0" "CmLastOutCnt (ops demo_pg60) = 0"
proof -
  have "drained_ok (\<lambda>_. []) demo_pg"
    unfolding demo_pg_def spgServer_open_def
    by (rule drained_open_server)
      (simp_all add: drained_ok_def spgListener_init_def init_heads_lists linked_sessions_def)
  then show "drained_ok (\<lambda>_. []) demo_pg60" unfolding demo_pg60_def by (rule drained_ok_ops) simp_all
  show "procs_below 4 demo_pg60" "unat (gNumSess (ops demo_pg60)) = 1" "gCreditPool (ops demo_pg60) = 60"
    "CmLastUpdate (ops demo_pg60) = 0" "CmResetStat (ops demo_pg60)" "CmInCnt (ops demo_pg60) = 5"
    "CmOutCnt (ops demo_pg60) = 0" "CmLastInCnt (ops demo_pg60) = 0" "CmLastOutCnt (ops demo_pg60) = 0"
    by (auto simp: demo_pg60_def demo_pg_def spgServer_open_def spccServer_open_def Let_def procs_below_def
        spccNewSession_def spgListener_init_def MicroTime_def demo_world_def split: if_splits)
qed


end
