(* ===== verification/Msemaphore.thy ===== *)
theory Msemaphore
  imports LinkedList Utils Env
begin

text \<open>
  The memory semaphore (\<open>src/msemaphore\<close>): a counting semaphore whose capacity a multi-armed bandit
  adapts to the measured memory bandwidth, in an epsilon-greedy (\<open>eg.go\<close>) and a Thompson-sampling
  (\<open>ts.go\<close>) implementation.  Waiters are kept in an intrusive list (\<open>waiter.go\<close>) and woken through
  a channel with one place.

  The critical sections are functions from the semaphore to its next state; \<open>sem_step\<close> interleaves
  them with the channel operations, which happen outside the lock.  The bandwidth counter, the clock and
  the random numbers are readings of the world; \<open>math.Exp\<close> and \<open>math.Sqrt\<close> are parameters on which
  nothing is assumed.
\<close>

section \<open>Waiters (waiter.go)\<close>

text \<open>
  A waiter is named by a number; \<open>WNode w\<close> is its embedded list node.  Its time stamp
  \<open>enqueueTsc\<close> is written and never read, and is left out.
\<close>

datatype wnode = QHead | WNode nat

record waiterQueue =
  qlist :: "(wnode, nat) heap"
  qn :: u64

definition wq_init :: "waiterQueue \<Rightarrow> waiterQueue" where
  "wq_init q = q\<lparr>qlist := ListHead_Init QHead (qlist q), qn := 0\<rparr>"

definition wq_empty :: "waiterQueue \<Rightarrow> bool" where
  "wq_empty q = ListHead_Empty QHead (qlist q)"

definition wq_length :: "waiterQueue \<Rightarrow> u64" where
  "wq_length q = qn q"

definition wq_pushBack :: "nat \<Rightarrow> waiterQueue \<Rightarrow> waiterQueue option" where
  "wq_pushBack w q = do {
     h \<leftarrow> ListHead_AddTail QHead (WNode w) (ListNode_Init (WNode w) w (qlist q));
     Some (q\<lparr>qlist := h, qn := qn q + 1\<rparr>)
   }"

definition wq_popFront :: "waiterQueue \<Rightarrow> (nat option \<times> waiterQueue) option" where
  "wq_popFront q = do {
     (w, h) \<leftarrow> ListHead_Pop QHead (qlist q);
     Some (case w of
         None \<Rightarrow> (None, q\<lparr>qlist := h\<rparr>)
       | Some w \<Rightarrow> (Some w, q\<lparr>qlist := h, qn := qn q - 1\<rparr>))
   }"

section \<open>The state shared by both implementations\<close>

record msem =
  mcap :: u32
  mcount :: u32
  maxCap :: u32
  membwWindow :: "float64 list"
  membwWindowIdx :: nat
  membwWindowCnt :: nat
  maxMembw :: float64
  lastBytes :: u64
  lastTime :: u64
  waiters :: waiterQueue

definition egCtlDelayUs :: u64 where "egCtlDelayUs = 500"
definition defInitCap :: u32 where "defInitCap = 1"
definition egMembwWindowSz :: nat where "egMembwWindowSz = 50"

text \<open>
  The measured bandwidth enters the window, the maximum over the filled part of the window is computed
  again, and the bandwidth is normalised by it; the target of the normalised bandwidth is 1.
\<close>

definition windowMax :: "float64 list \<Rightarrow> nat \<Rightarrow> float64 option" where
  "windowMax win cnt = do {
     w0 \<leftarrow> list_get win 0;
     for_each (\<lambda>i mx. do { x \<leftarrow> list_get win i; Some (if f_less mx x then x else mx) }) [1..<cnt] w0
   }"

definition sampleMembw :: "u64 \<Rightarrow> u64 \<Rightarrow> 'a msem_scheme \<Rightarrow> ('a msem_scheme \<times> float64) option" where
  "sampleMembw now nowBytes m = do {
     let membw = f_div (f_of_u64 (nowBytes - lastBytes m)) (f_of_u64 (now - lastTime m));
     win \<leftarrow> list_put (membwWindow m) (membwWindowIdx m) membw;
     let idx = (membwWindowIdx m + 1) mod egMembwWindowSz;
     let cnt = (if membwWindowCnt m < egMembwWindowSz then membwWindowCnt m + 1 else membwWindowCnt m);
     mx \<leftarrow> windowMax win cnt;
     let norm = (if f_less (FFin 0) mx then f_div membw mx else FFin 0);
     let norm = (if f_less (FFin 1) norm then FFin 1 else norm);
     Some (m\<lparr>membwWindow := win, membwWindowIdx := idx, membwWindowCnt := cnt, maxMembw := mx\<rparr>, f_div norm (FFin 1))
   }"

section \<open>Epsilon-greedy capacity (eg.go)\<close>

record egSem = msem +
  ewmaRewards :: "float64 list"

definition egAlpha :: rat where "egAlpha = 8 / 10"
definition egRewardEwmaWeight :: rat where "egRewardEwmaWeight = 8 / 10"
definition egExplrProb :: rat where "egExplrProb = 3 / 10"

text \<open>The arm with the largest reward, the first one among equals.\<close>

definition bestArm :: "float64 list \<Rightarrow> nat \<Rightarrow> nat option" where
  "bestArm rewards n =
     for_each (\<lambda>i best. do {
         a \<leftarrow> list_get rewards best;
         b \<leftarrow> list_get rewards i;
         Some (if f_less a b then i else best)
       }) [1..<Suc n] 1"

text \<open>One step away from the best arm, computed in \<open>int32\<close>.\<close>

definition exploreArm :: "bool \<Rightarrow> nat \<Rightarrow> u32 \<Rightarrow> u32" where
  "exploreArm up best maxc = (
     let next = sint (word_of_int (sint (of_nat best :: u32) + (if up then 1 else - 1)) :: u32);
         next = (if next < 1 then 1 else next);
         next = (if next > sint maxc then sint maxc else next)
     in word_of_int next)"

definition egUpdateCapacity :: "egSem \<Rightarrow> world \<Rightarrow> (egSem \<times> world) option" where
  "egUpdateCapacity m w = (
     let now = MicroTime w; w1 = step_world w in
     if now - lastTime m < egCtlDelayUs then Some (m, w1)
     else do {
       let nowBytes = MemAccesses_of w1;
       let w2 = step_world w1;
       (m1, normMembw) \<leftarrow> sampleMembw now nowBytes m;
       let normCap = f_div (f_of_u64 (ucast (mcap m1))) (f_of_u64 (ucast (maxCap m1)));
       let reward = f_sub (f_mul (f64_round egAlpha) normMembw) (f_mul (f64_round (1 - egAlpha)) normCap);
       old \<leftarrow> list_get (ewmaRewards m1) (unat (mcap m1));
       rewards \<leftarrow> list_put (ewmaRewards m1) (unat (mcap m1))
         (f_add (f_mul (f64_round (1 - egRewardEwmaWeight)) old) (f_mul (f64_round egRewardEwmaWeight) reward));
       best \<leftarrow> bestArm rewards (unat (maxCap m1));
       let explore = f_less (Float64_of w2) (f64_round egExplrProb);
       let w3 = step_world w2;
       let (c, w4) = (if explore then (exploreArm (coin_of w3) best (maxCap m1), step_world w3) else (of_nat best, w3));
       Some (m1\<lparr>ewmaRewards := rewards, mcap := c, lastBytes := nowBytes, lastTime := now\<rparr>, w4)
     })"

definition zero_msem :: msem where
  "zero_msem = \<lparr>mcap = 0, mcount = 0, maxCap = 0, membwWindow = replicate egMembwWindowSz (FFin 0), membwWindowIdx = 0,
     membwWindowCnt = 0, maxMembw = FFin 0, lastBytes = 0, lastTime = 0,
     waiters = \<lparr>qlist = \<lparr>Next = (\<lambda>_. None), Prev = (\<lambda>_. None), Value = (\<lambda>_. None)\<rparr>, qn = 0\<rparr>\<rparr>"

definition newMemSemaphoreMabEgImpl :: "u32 \<Rightarrow> u32 \<Rightarrow> world \<Rightarrow> egSem \<times> world" where
  "newMemSemaphoreMabEgImpl maxc initCap w =
     ((msem.extend (zero_msem\<lparr>mcap := initCap, maxCap := maxc, waiters := wq_init (waiters zero_msem),
         lastBytes := MemAccesses_of w, lastTime := MicroTime (step_world w)\<rparr>)
       (egSem.fields (replicate (unat (maxc + 1)) (FFin 0)))), step_world (step_world w))"

section \<open>Thompson-sampling capacity (ts.go)\<close>

record tsSem = msem +
  samples :: "float64 list list"
  samplesIdx :: "nat list"
  counts :: "u64 list"
  rsums :: "float64 list"
  means :: "float64 list"
  vars :: "float64 list"
  stdDevs :: "float64 list"
  softmaxProbs :: "float64 list"

definition tsCtlDelayUs :: u64 where "tsCtlDelayUs = 500"
definition tsWindowSz :: nat where "tsWindowSz = 10"
definition tsAlpha :: rat where "tsAlpha = 8 / 10"
definition tsMagnifyer :: rat where "tsMagnifyer = 100"
definition tsSigmaSq :: rat where "tsSigmaSq = 25"
definition tsSigma0Sq :: rat where "tsSigma0Sq = 625"
definition tsMu0 :: rat where "tsMu0 = 80"
definition tsExplrProb :: rat where "tsExplrProb = 3 / 10"
definition tsTau :: rat where "tsTau = 30"
definition tsMembwWindowSz :: nat where "tsMembwWindowSz = egMembwWindowSz"

definition tsSampleMembw :: "u64 \<Rightarrow> u64 \<Rightarrow> 'a msem_scheme \<Rightarrow> ('a msem_scheme \<times> float64) option" where
  "tsSampleMembw = sampleMembw"

text \<open>The reward enters the window of its arm, and the posterior of the arm's mean is updated.\<close>

definition tsPosterior :: "(float64 \<Rightarrow> float64) \<Rightarrow> nat \<Rightarrow> float64 \<Rightarrow> tsSem \<Rightarrow> tsSem option" where
  "tsPosterior Sqrt arm reward m = do {
     row \<leftarrow> list_get (samples m) arm;
     idx \<leftarrow> list_get (samplesIdx m) arm;
     old \<leftarrow> list_get row idx;
     cnt \<leftarrow> list_get (counts m) arm;
     sm \<leftarrow> list_get (rsums m) arm;
     let cnt = (if cnt + 1 > of_nat tsWindowSz then of_nat tsWindowSz else cnt + 1);
     let sm = f_add sm (f_sub reward old);
     vs \<leftarrow> list_put (vars m) arm (f_div (FFin 1) (f_add (f64_round (1 / tsSigma0Sq)) (f_div (f_of_u64 cnt) (f64_round tsSigmaSq))));
     v \<leftarrow> list_get vs arm;
     ms \<leftarrow> list_put (means m) arm (f_mul v (f_add (f64_round (tsMu0 / tsSigma0Sq)) (f_div sm (f64_round tsSigmaSq))));
     sds \<leftarrow> list_put (stdDevs m) arm (Sqrt v);
     Some (m\<lparr>samples := (samples m)[arm := row[idx := reward]], samplesIdx := (samplesIdx m)[arm := (idx + 1) mod tsWindowSz],
             counts := (counts m)[arm := cnt], rsums := (rsums m)[arm := sm], vars := vs, means := ms, stdDevs := sds\<rparr>)
   }"

text \<open>
  Exploring: a softmax over the arms up to the current one; the scan stops at the first arm whose share
  covers the random number and keeps the capacity if none does.
\<close>

definition tsMaxMean :: "float64 list \<Rightarrow> nat \<Rightarrow> float64 option" where
  "tsMaxMean ms c = for_each (\<lambda>i mx. do { x \<leftarrow> list_get ms i; Some (if f_less mx x then x else mx) }) [1..<Suc c]
     (f64_round (- (10 ^ 18)))"

definition tsSoftmax :: "(float64 \<Rightarrow> float64) \<Rightarrow> float64 list \<Rightarrow> float64 \<Rightarrow> nat \<Rightarrow> float64 list \<Rightarrow> (float64 list \<times> float64) option" where
  "tsSoftmax Exp ms mx c probs =
     for_each (\<lambda>i (probs, tot). do {
         x \<leftarrow> list_get ms i;
         let p = Exp (f_div (f_sub x mx) (f64_round tsTau));
         probs' \<leftarrow> list_put probs i p;
         Some (probs', f_add tot p)
       }) [1..<Suc c] (probs, FFin 0)"

definition tsNormalise :: "float64 \<Rightarrow> nat \<Rightarrow> float64 list \<Rightarrow> float64 list option" where
  "tsNormalise tot c probs =
     for_each (\<lambda>i probs. do { p \<leftarrow> list_get probs i; list_put probs i (f_div p tot) }) [1..<Suc c] probs"

primrec tsPick :: "float64 list \<Rightarrow> nat list \<Rightarrow> float64 \<Rightarrow> u32 \<Rightarrow> u32 option" where
  "tsPick probs [] r c = Some c"
| "tsPick probs (i # is) r c = do {
     p \<leftarrow> list_get probs i;
     if f_less r p then Some (of_nat i) else tsPick probs is (f_sub r p) c
   }"

text \<open>Thompson sampling: one sample of each arm's posterior, and the arm with the largest.\<close>

definition tsSampleBest :: "tsSem \<Rightarrow> world \<Rightarrow> (nat \<times> float64 \<times> world) option" where
  "tsSampleBest m w =
     for_each (\<lambda>i (best, bestSample, w). do {
         x \<leftarrow> list_get (means m) i;
         sd \<leftarrow> list_get (stdDevs m) i;
         let s = f_add x (f_mul sd (NormFloat64_of w));
         Some (if f_less bestSample s then (i, s, step_world w) else (best, bestSample, step_world w))
       }) [1..<Suc (unat (maxCap m))] (1, f64_round (- (10 ^ 18)), w)"

definition tsChoose :: "(float64 \<Rightarrow> float64) \<Rightarrow> bool \<Rightarrow> tsSem \<Rightarrow> world \<Rightarrow> (tsSem \<times> world) option" where
  "tsChoose Exp explore m w =
     (if explore then do {
        let c = unat (mcap m);
        mx \<leftarrow> tsMaxMean (means m) c;
        (probs, tot) \<leftarrow> tsSoftmax Exp (means m) mx c (softmaxProbs m);
        probs \<leftarrow> tsNormalise tot c probs;
        c' \<leftarrow> tsPick probs [1..<Suc c] (Float64_of w) (mcap m);
        Some (m\<lparr>softmaxProbs := probs, mcap := c'\<rparr>, step_world w)
      } else do {
        (best, bestSample, w4) \<leftarrow> tsSampleBest m w;
        Some (m\<lparr>mcap := of_nat best\<rparr>, w4)
      })"

definition tsUpdateCapacity ::
  "(float64 \<Rightarrow> float64) \<Rightarrow> (float64 \<Rightarrow> float64) \<Rightarrow> tsSem \<Rightarrow> world \<Rightarrow> (tsSem \<times> world) option" where
  "tsUpdateCapacity Exp Sqrt m w = (
     let now = MicroTime w; w1 = step_world w in
     if now - lastTime m < tsCtlDelayUs then Some (m, w1)
     else do {
       let nowBytes = MemAccesses_of w1;
       let w2 = step_world w1;
       (m1, normMembw) \<leftarrow> tsSampleMembw now nowBytes m;
       let normCap = f_div (f_of_u64 (ucast (mcap m1))) (f_of_u64 (ucast (maxCap m1)));
       let reward = f_mul (f64_round tsMagnifyer)
         (f_sub (f_mul (f64_round tsAlpha) normMembw) (f_mul (f64_round (1 - tsAlpha)) normCap));
       m2 \<leftarrow> tsPosterior Sqrt (unat (mcap m1)) reward m1;
       let explore = f_less (Float64_of w2) (f64_round tsExplrProb);
       let w3 = step_world w2;
       (m3, w4) \<leftarrow> tsChoose Exp explore m2 w3;
       Some (m3\<lparr>lastBytes := nowBytes, lastTime := now\<rparr>, w4)
     })"

definition newMemSemaphoreMabTsImpl :: "(float64 \<Rightarrow> float64) \<Rightarrow> u32 \<Rightarrow> u32 \<Rightarrow> world \<Rightarrow> tsSem \<times> world" where
  "newMemSemaphoreMabTsImpl Sqrt maxc initCap w = (
     let n = unat (maxc + 1); arms = (\<lambda>z x. map (\<lambda>i. if 1 \<le> i \<and> i \<le> unat maxc then x else z) [0..<n]) in
     (msem.extend (zero_msem\<lparr>mcap := initCap, maxCap := maxc, waiters := wq_init (waiters zero_msem),
         lastBytes := MemAccesses_of w, lastTime := MicroTime (step_world w)\<rparr>)
       (tsSem.fields (map (\<lambda>i. if 1 \<le> i \<and> i \<le> unat maxc then replicate tsWindowSz (FFin 0) else []) [0..<n])
         (replicate n 0) (replicate n 0) (replicate n (FFin 0))
         (arms (FFin 0) (f64_round tsMu0)) (arms (FFin 0) (f64_round tsSigma0Sq)) (arms (FFin 0) (Sqrt (f64_round tsSigma0Sq)))
         (replicate n (FFin 0))), step_world (step_world w)))"

section \<open>The operations of the semaphore\<close>

text \<open>
  The two implementations have the same methods over their own \<open>updateCapacity\<close>, which is the first
  argument here.  \<open>TryWait\<close> returns whether it acquired.
\<close>

definition sem_TryWait ::
  "('a msem_scheme \<Rightarrow> world \<Rightarrow> ('a msem_scheme \<times> world) option) \<Rightarrow> 'a msem_scheme \<Rightarrow> world \<Rightarrow>
   (bool \<times> 'a msem_scheme \<times> world) option" where
  "sem_TryWait upd m w = do {
     (m1, w1) \<leftarrow> upd m w;
     Some (if mcount m1 < mcap m1 then (True, m1\<lparr>mcount := mcount m1 + 1\<rparr>, w1) else (False, m1, w1))
   }"

text \<open>The loop of \<open>Wait\<close> that serves older waiters first; it returns the waiters it woke, in order.\<close>

function sem_Drain :: "'a msem_scheme \<Rightarrow> nat list \<Rightarrow> ('a msem_scheme \<times> nat list) option" where
  "sem_Drain m woken =
     (if mcount m < mcap m \<and> \<not> wq_empty (waiters m) then do {
        (ow, q) \<leftarrow> wq_popFront (waiters m);
        w \<leftarrow> ow;
        sem_Drain (m\<lparr>waiters := q, mcount := mcount m + 1\<rparr>) (woken @ [w])
      } else Some (m, woken))"
  by pat_completeness auto
termination
proof (relation "measure (\<lambda>(m, _). unat (mcap m) - unat (mcount m))", goal_cases)
  case (2 m woken x ow q w)
  then have "unat (mcount m + 1) = Suc (unat (mcount m))" by (intro unat_inc) auto
  then show ?case using 2 by (auto simp: word_less_nat_alt)
qed simp

declare sem_Drain.simps [simp del]

text \<open>
  \<open>Wait\<close> up to the release of the lock: the woken waiters, whether it acquired at once, and otherwise
  the waiter \<open>wid\<close> (an unused one, from the pool) at the end of the queue.
\<close>

definition sem_Wait ::
  "('a msem_scheme \<Rightarrow> world \<Rightarrow> ('a msem_scheme \<times> world) option) \<Rightarrow> nat \<Rightarrow> 'a msem_scheme \<Rightarrow> world \<Rightarrow>
   (nat list \<times> bool \<times> 'a msem_scheme \<times> world) option" where
  "sem_Wait upd wid m w = do {
     (m1, w1) \<leftarrow> upd m w;
     (m2, woken) \<leftarrow> sem_Drain m1 [];
     if mcount m2 < mcap m2 then Some (woken, True, m2\<lparr>mcount := mcount m2 + 1\<rparr>, w1)
     else do {
       q \<leftarrow> wq_pushBack wid (waiters m2);
       Some (woken, False, m2\<lparr>waiters := q\<rparr>, w1)
     }
   }"

text \<open>\<open>Post\<close> up to the release of the lock: the waiter its slot goes to, if any.\<close>

definition sem_Post ::
  "('a msem_scheme \<Rightarrow> world \<Rightarrow> ('a msem_scheme \<times> world) option) \<Rightarrow> 'a msem_scheme \<Rightarrow> world \<Rightarrow>
   (nat option \<times> 'a msem_scheme \<times> world) option" where
  "sem_Post upd m w = do {
     (m1, w1) \<leftarrow> upd m w;
     if mcount m1 > mcap m1 \<or> wq_empty (waiters m1) then Some (None, m1\<lparr>mcount := mcount m1 - 1\<rparr>, w1)
     else do {
       (ow, q) \<leftarrow> wq_popFront (waiters m1);
       wid \<leftarrow> ow;
       Some (Some wid, m1\<lparr>waiters := q\<rparr>, w1)
     }
   }"

definition sem_QueueDelayTsc :: "'a msem_scheme \<Rightarrow> u64" where "sem_QueueDelayTsc m = 0"
definition sem_QueueLength :: "'a msem_scheme \<Rightarrow> u64" where "sem_QueueLength m = wq_length (waiters m)"
definition sem_GetCapacity :: "'a msem_scheme \<Rightarrow> int" where "sem_GetCapacity m = uint (mcap m)"

text \<open>The methods of the two implementations, and those of the singleton, which is the epsilon-greedy one.\<close>

definition egTryWait where "egTryWait = sem_TryWait egUpdateCapacity"
definition egWait where "egWait = sem_Wait egUpdateCapacity"
definition egPost where "egPost = sem_Post egUpdateCapacity"
definition egQueueDelayTsc :: "egSem \<Rightarrow> u64" where "egQueueDelayTsc = sem_QueueDelayTsc"
definition egQueueLength :: "egSem \<Rightarrow> u64" where "egQueueLength = sem_QueueLength"
definition egGetCapacity :: "egSem \<Rightarrow> int" where "egGetCapacity = sem_GetCapacity"
definition tsTryWait where "tsTryWait Exp Sqrt = sem_TryWait (tsUpdateCapacity Exp Sqrt)"
definition tsWait where "tsWait Exp Sqrt = sem_Wait (tsUpdateCapacity Exp Sqrt)"
definition tsPost where "tsPost Exp Sqrt = sem_Post (tsUpdateCapacity Exp Sqrt)"
definition tsQueueDelayTsc :: "tsSem \<Rightarrow> u64" where "tsQueueDelayTsc = sem_QueueDelayTsc"
definition tsQueueLength :: "tsSem \<Rightarrow> u64" where "tsQueueLength = sem_QueueLength"
definition tsGetCapacity :: "tsSem \<Rightarrow> int" where "tsGetCapacity = sem_GetCapacity"

definition GetInstance :: "nat \<Rightarrow> egSem option \<Rightarrow> world \<Rightarrow> egSem \<times> world" where
  "GetInstance procs inst w = (case inst of
       Some m \<Rightarrow> (m, w)
     | None \<Rightarrow> newMemSemaphoreMabEgImpl (of_nat procs) defInitCap w)"

end
