(* ===== verification/Msem_System.thy ===== *)
theory Msem_System
  imports Msemaphore
begin

text \<open>
  The goroutines of the memory semaphore: a step relation over the critical sections and the channel
  operations, and the invariant that every interleaving keeps, for any capacity controller that stays in
  its bounds (locale \<open>sem_capacity\<close>).  Both controllers of \<open>src/msemaphore\<close> are shown to do so.
\<close>

section \<open>The waiter queue is a list\<close>

definition wq_rel :: "waiterQueue \<Rightarrow> nat list \<Rightarrow> bool" where
  "wq_rel q xs \<longleftrightarrow> qn q = of_nat (length xs) \<and> distinct xs \<and>
     (\<exists>L. dlists {QHead} (qlist q) L \<and> L QHead = map WNode xs) \<and> (\<forall>w\<in>set xs. Value (qlist q) (WNode w) = Some w)"

lemma wq_init_rel: "wq_rel (wq_init q) []"
proof -
  have "dlists {} (qlist q) (\<lambda>_. [])" by (simp add: dlists_def)
  from dlists_Init [OF this, of QHead] have "dlists {QHead} (ListHead_Init QHead (qlist q)) ((\<lambda>_. [])(QHead := []))"
    by (simp add: unlinked_def)
  then show ?thesis unfolding wq_rel_def wq_init_def by fastforce
qed

lemma wq_empty_rel: "wq_rel q xs \<Longrightarrow> wq_empty q \<longleftrightarrow> xs = []"
  using dlists_Empty [of "{QHead}" "qlist q" _ QHead] unfolding wq_rel_def wq_empty_def by fastforce

lemma wq_push_rel:
  assumes "wq_rel q xs" "w \<notin> set xs"
  shows "\<exists>q'. wq_pushBack w q = Some q' \<and> wq_rel q' (xs @ [w])"
proof -
  from assms(1) obtain L where L: "dlists {QHead} (qlist q) L" "L QHead = map WNode xs" unfolding wq_rel_def by blast
  have u: "unlinked {QHead} L (WNode w)" using L(2) assms(2) by (auto simp: unlinked_def)
  from dlists_AddTail [OF dlists_NodeInit [OF L(1) u] _ u, of QHead w] obtain h where
    h: "ListHead_AddTail QHead (WNode w) (ListNode_Init (WNode w) w (qlist q)) = Some h"
      "dlists {QHead} h (L(QHead := map WNode (xs @ [w])))" "Value h = (Value (qlist q))(WNode w := Some w)"
    using L(2) by (auto simp: ListNode_Init_def)
  have "\<exists>L. dlists {QHead} h L \<and> L QHead = map WNode (xs @ [w])" using h(2) by fastforce
  then show ?thesis using assms h(1,3) by (auto simp: wq_pushBack_def wq_rel_def)
qed

lemma wq_pop_rel:
  assumes "wq_rel q (w # xs)"
  shows "\<exists>q'. wq_popFront q = Some (Some w, q') \<and> wq_rel q' xs"
proof -
  from assms obtain L where L: "dlists {QHead} (qlist q) L" "L QHead = WNode w # map WNode xs" unfolding wq_rel_def by auto
  from dlists_Pop [OF L(1) _ L(2)] obtain h where
    h: "ListHead_Pop QHead (qlist q) = Some (Value (qlist q) (WNode w), h)"
      "dlists {QHead} h (L(QHead := map WNode xs))" "Value h = Value (qlist q)" by auto
  have "\<exists>L. dlists {QHead} h L \<and> L QHead = map WNode xs" using h(2) by fastforce
  then show ?thesis using assms h(1,3) by (auto simp: wq_popFront_def wq_rel_def)
qed

section \<open>Who waits and who holds\<close>

text \<open>
  A goroutine is outside, parked on a waiter, holding the semaphore, or, after \<open>Post\<close> has left the
  lock, about to send to the waiter that gets its slot.
\<close>

datatype semPc = Out | Parked nat | Holding | HandOff nat

text \<open>The goroutines that own a slot: the holders and the parked ones that have left the queue.\<close>

definition owners :: "nat list \<Rightarrow> (nat \<Rightarrow> semPc) \<Rightarrow> nat set" where
  "owners xs ps = {t. ps t = Holding \<or> (\<exists>w. ps t = Parked w \<and> w \<notin> set xs)}"

text \<open>
  The books of the semaphore, for \<open>n\<close> counted slots, the queue \<open>xs\<close>, the tokens \<open>ch\<close> in the
  waiters' channels and the goroutines \<open>ps\<close>: each waiter belongs to one goroutine; exactly the parked
  goroutines outside the queue have a token in their channel or on its way; the count is the number of owners; and
  whenever somebody queues, somebody owns.
\<close>

definition sem_books :: "nat \<Rightarrow> nat list \<Rightarrow> (nat \<Rightarrow> nat) \<Rightarrow> (nat \<Rightarrow> semPc) \<Rightarrow> bool" where
  "sem_books n xs ch ps \<longleftrightarrow> distinct xs \<and> finite {t. ps t \<noteq> Out} \<and>
     (\<forall>t u w. ps t = Parked w \<and> ps u = Parked w \<longrightarrow> t = u) \<and> (\<forall>w\<in>set xs. \<exists>t. ps t = Parked w) \<and>
     (\<forall>w. ch w + card {t. ps t = HandOff w} = (if (\<exists>t. ps t = Parked w) \<and> w \<notin> set xs then 1 else 0)) \<and>
     n = card (owners xs ps) \<and> (xs \<noteq> [] \<longrightarrow> 0 < n)"

lemma sem_booksD:
  assumes "sem_books n xs ch ps"
  shows "distinct xs" "finite {t. ps t \<noteq> Out}" "ps t = Parked w \<Longrightarrow> ps u = Parked w \<Longrightarrow> t = u"
    "w \<in> set xs \<Longrightarrow> \<exists>t. ps t = Parked w"
    "ch w + card {t. ps t = HandOff w} = (if (\<exists>t. ps t = Parked w) \<and> w \<notin> set xs then 1 else 0)"
    "n = card (owners xs ps)" "xs \<noteq> [] \<Longrightarrow> 0 < n" "finite (owners xs ps)" "finite {t. ps t = HandOff w}"
proof -
  have f: "finite {t. ps t \<noteq> Out}" using assms unfolding sem_books_def by blast
  then show "finite (owners xs ps)" "finite {t. ps t = HandOff w}"
    by (auto intro!: finite_subset [OF _ f] simp: owners_def)
qed (use assms in \<open>auto simp: sem_books_def split: if_splits\<close>)

lemma parked_upd:
  "\<forall>w. ps t \<noteq> Parked w \<Longrightarrow> (\<exists>u. (ps(t := v)) u = Parked w) \<longleftrightarrow> v = Parked w \<or> (\<exists>u. ps u = Parked w)"
  by (metis fun_upd_apply)

lemma handoff_upd:
  "ps t \<noteq> HandOff w \<Longrightarrow> v \<noteq> HandOff w \<Longrightarrow> {u. (ps(t := v)) u = HandOff w} = {u. ps u = HandOff w}"
  by auto

lemma live_upd: "finite {u. ps u \<noteq> Out} \<Longrightarrow> finite {u. (ps(t := v)) u \<noteq> Out}"
  by (rule finite_subset [of _ "insert t {u. ps u \<noteq> Out}"]) auto

lemma books_acquire:
  assumes "sem_books n xs ch ps" "ps t = Out"
  shows "sem_books (Suc n) xs ch (ps(t := Holding))"
proof -
  note d = sem_booksD [OF assms(1)]
  have o: "owners xs (ps(t := Holding)) = insert t (owners xs ps)" "t \<notin> owners xs ps"
    using assms(2) by (auto simp: owners_def)
  have h: "{u. (ps(t := Holding)) u = HandOff w} = {u. ps u = HandOff w}" for w using assms(2) by (intro handoff_upd) simp_all
  have p: "(\<exists>u. (ps(t := Holding)) u = Parked w) \<longleftrightarrow> (\<exists>u. ps u = Parked w)" for w
    using assms(2) parked_upd [of ps t Holding w] by simp
  show ?thesis unfolding sem_books_def h p
    using d(1,3-5) live_upd [OF d(2)] o d(6,8) by (auto split: if_splits)
qed

lemma books_park:
  assumes "sem_books n xs ch ps" "ps t = Out" "\<forall>u. ps u \<noteq> Parked wid" "0 < n"
  shows "sem_books n (xs @ [wid]) ch (ps(t := Parked wid))"
proof -
  note d = sem_booksD [OF assms(1)]
  have nx: "wid \<notin> set xs" using d(4) assms(3) by blast
  have o: "owners (xs @ [wid]) (ps(t := Parked wid)) = owners xs ps"
    using assms(2,3) by (auto simp: owners_def)
  have h: "{u. (ps(t := Parked wid)) u = HandOff w} = {u. ps u = HandOff w}" for w using assms(2) by (intro handoff_upd) simp_all
  have p: "(\<exists>u. (ps(t := Parked wid)) u = Parked w) \<longleftrightarrow> w = wid \<or> (\<exists>u. ps u = Parked w)" for w
    using assms(2) parked_upd [of ps t "Parked wid" w] by auto
  have z: "ch wid + card {u. ps u = HandOff wid} = 0" using d(5) [of wid] assms(3) by auto
  show ?thesis unfolding sem_books_def h p o
    using d(1,3,4,5,6) live_upd [OF d(2)] nx z assms(3,4) by (auto split: if_splits)
qed

lemma books_release:
  assumes "sem_books n xs ch ps" "ps t = Holding" "xs = [] \<or> 1 < n"
  shows "0 < n \<and> sem_books (n - 1) xs ch (ps(t := Out))"
proof -
  note d = sem_booksD [OF assms(1)]
  have o: "owners xs (ps(t := Out)) = owners xs ps - {t}" "t \<in> owners xs ps"
    using assms(2) by (auto simp: owners_def)
  have h: "{u. (ps(t := Out)) u = HandOff w} = {u. ps u = HandOff w}" for w using assms(2) by (intro handoff_upd) simp_all
  have p: "(\<exists>u. (ps(t := Out)) u = Parked w) \<longleftrightarrow> (\<exists>u. ps u = Parked w)" for w
    using assms(2) parked_upd [of ps t Out w] by simp
  have n: "0 < n" using o(2) d(6,8) by (auto simp: card_gt_0_iff)
  show ?thesis unfolding sem_books_def h p
    using d(1,3-6) live_upd [OF d(2)] o d(8) n assms(3) by (auto split: if_splits)
qed

lemma owners_pop:
  assumes "sem_books n (w # ys) ch ps"
  shows "\<exists>t0. ps t0 = Parked w \<and> t0 \<notin> owners (w # ys) ps \<and> owners ys ps = insert t0 (owners (w # ys) ps)"
proof -
  note d = sem_booksD [OF assms]
  obtain t0 where t0: "ps t0 = Parked w" using d(4) [of w] by auto
  then have "owners ys ps = insert t0 (owners (w # ys) ps)" "t0 \<notin> owners (w # ys) ps"
    using d(1,3) by (auto simp: owners_def)
  then show ?thesis using t0 by blast
qed

lemma books_grant1:
  assumes "sem_books n (w # ys) ch ps"
  shows "sem_books (Suc n) ys (ch(w := Suc (ch w))) ps"
proof -
  note d = sem_booksD [OF assms]
  obtain t0 where t0: "ps t0 = Parked w" "t0 \<notin> owners (w # ys) ps" "owners ys ps = insert t0 (owners (w # ys) ps)"
    using owners_pop [OF assms] by blast
  have "ch w = 0 \<and> card {t. ps t = HandOff w} = 0" using d(5) [of w] by simp
  then have tok: "(ch(w := Suc (ch w))) v + card {t. ps t = HandOff v} =
      (if (\<exists>t. ps t = Parked v) \<and> v \<notin> set ys then 1 else 0)" for v
    using d(5) [of v] d(1) t0(1) by (auto split: if_splits)
  show ?thesis unfolding sem_books_def
    using d(1,2,3,4,6,8) tok t0(2,3) by (auto simp del: fun_upd_apply)
qed

lemma books_grant:
  "sem_books n (ws @ ys) ch ps \<Longrightarrow> sem_books (n + length ws) ys (\<lambda>x. ch x + count_list ws x) ps"
proof (induction ws arbitrary: n ch)
  case (Cons w ws)
  then have "sem_books (Suc n) (ws @ ys) (ch(w := Suc (ch w))) ps" by (simp add: books_grant1)
  from Cons.IH [OF this] have "sem_books (Suc n + length ws) ys (\<lambda>x. (ch(w := Suc (ch w))) x + count_list ws x) ps" .
  moreover have "(\<lambda>x. (ch(w := Suc (ch w))) x + count_list ws x) = (\<lambda>x. ch x + count_list (w # ws) x)" by auto
  ultimately show ?case by (simp only: list.size add_Suc_right add_Suc add_0_right)
qed simp

lemma books_handoff:
  assumes "sem_books n (w # ys) ch ps" "ps t = Holding"
  shows "sem_books n ys ch (ps(t := HandOff w))"
proof -
  note d = sem_booksD [OF assms(1)]
  obtain t0 where t0: "ps t0 = Parked w" "t0 \<notin> owners (w # ys) ps" "owners ys ps = insert t0 (owners (w # ys) ps)"
    using owners_pop [OF assms(1)] by blast
  have o: "owners ys (ps(t := HandOff w)) = insert t0 (owners (w # ys) ps - {t})" "t \<in> owners (w # ys) ps" "t0 \<noteq> t"
    using t0 assms(2) by (auto simp: owners_def)
  have "0 < card (owners (w # ys) ps)" using o(2) d(8) by (auto simp: card_gt_0_iff)
  then have n: "card (owners ys (ps(t := HandOff w))) = n" using o t0(2) d(6,8) by simp
  have z: "ch w = 0 \<and> {t. ps t = HandOff w} = {}" using d(5) [of w] d(9) [of w] by simp
  have p: "(\<exists>u. (ps(t := HandOff w)) u = Parked v) \<longleftrightarrow> (\<exists>u. ps u = Parked v)" for v
    using assms(2) parked_upd [of ps t "HandOff w" v] by simp
  have h: "{u. (ps(t := HandOff w)) u = HandOff v} = (if v = w then {t} else {u. ps u = HandOff v})" for v
    using z assms(2) by auto
  have tok: "ch v + card {u. (ps(t := HandOff w)) u = HandOff v} = (if (\<exists>u. ps u = Parked v) \<and> v \<notin> set ys then 1 else 0)" for v
    unfolding h using d(5) [of v] z d(1) t0(1) by (auto split: if_splits)
  show ?thesis unfolding sem_books_def p
    using d(1,3,4,7) live_upd [OF d(2)] tok n by (auto split: if_splits)
qed

lemma books_receive:
  assumes "sem_books n xs ch ps" "ps t = Parked w" "0 < ch w"
  shows "sem_books n xs (ch(w := ch w - 1)) (ps(t := Holding))"
proof -
  note d = sem_booksD [OF assms(1)]
  have z: "w \<notin> set xs" "ch w = 1" "{u. ps u = HandOff w} = {}"
    using d(5) [of w] card_0_eq [OF d(9) [of w]] assms(3) by (auto split: if_splits simp del: card_0_eq)
  have o: "owners xs (ps(t := Holding)) = owners xs ps" using z(1) assms(2) by (auto simp: owners_def)
  have h: "{u. (ps(t := Holding)) u = HandOff v} = {u. ps u = HandOff v}" for v using assms(2) by (intro handoff_upd) simp_all
  have p: "(\<exists>u. (ps(t := Holding)) u = Parked v) \<longleftrightarrow> v \<noteq> w \<and> (\<exists>u. ps u = Parked v)" for v
    using assms(2) d(3) by (auto split: if_splits) (metis semPc.inject(1))
  have tok: "(ch(w := ch w - 1)) v + card {u. ps u = HandOff v} =
      (if (v \<noteq> w \<and> (\<exists>u. ps u = Parked v)) \<and> v \<notin> set xs then 1 else 0)" for v
    using d(5) [of v] z by auto
  show ?thesis unfolding sem_books_def o h p
    using d(1,3,4,6,7) live_upd [OF d(2)] tok z(1) by (auto split: if_splits)
qed

lemma books_send:
  assumes "sem_books n xs ch ps" "ps t = HandOff w"
  shows "ch w = 0 \<and> sem_books n xs (ch(w := 1)) (ps(t := Out))"
proof -
  note d = sem_booksD [OF assms(1)]
  have "t \<in> {u. ps u = HandOff w}" using assms(2) by simp
  then have "0 < card {u. ps u = HandOff w}" using d(9) [of w] by (metis card_gt_0_iff empty_iff)
  then have z: "ch w = 0" "card {u. ps u = HandOff w} = 1" "\<exists>u. ps u = Parked w" "w \<notin> set xs"
    using d(5) [of w] by (auto split: if_splits)
  from z(2) obtain x where x: "{u. ps u = HandOff w} = {x}" by (rule card_1_singletonE)
  have "t \<in> {x}" using assms(2) unfolding x [symmetric] by simp
  then have "{u. ps u = HandOff w} = {t}" using x by simp
  then have h: "{u. (ps(t := Out)) u = HandOff v} = (if v = w then {} else {u. ps u = HandOff v})" for v
    using assms(2) by (auto split: if_splits)
  have o: "owners xs (ps(t := Out)) = owners xs ps" using assms(2) by (auto simp: owners_def)
  have p: "(\<exists>u. (ps(t := Out)) u = Parked v) \<longleftrightarrow> (\<exists>u. ps u = Parked v)" for v
    using assms(2) parked_upd [of ps t Out v] by simp
  have tok: "(ch(w := 1)) v + card {u. (ps(t := Out)) u = HandOff v} =
      (if (\<exists>u. ps u = Parked v) \<and> v \<notin> set xs then 1 else 0)" for v
    unfolding h using d(5) [of v] z by auto
  show ?thesis unfolding sem_books_def o p
    using d(1,3,4,6,7) live_upd [OF d(2)] tok z(1) by (auto split: if_splits)
qed

section \<open>The step relation\<close>

text \<open>
  Each rule is one critical section or one channel operation of goroutine \<open>t\<close>; the readings \<open>w\<close> of
  clock, counters and random numbers are arbitrary in every step.  A waiter comes from the pool, so no
  parked goroutine uses it; it goes back to the pool when its goroutine has received.  Only a goroutine that holds the
  semaphore posts.
\<close>

record 's semConf =
  sem :: 's
  chans :: "nat \<Rightarrow> nat"
  pc :: "nat \<Rightarrow> semPc"

inductive sem_step ::
  "('a msem_scheme \<Rightarrow> world \<Rightarrow> ('a msem_scheme \<times> world) option) \<Rightarrow> 'a msem_scheme semConf \<Rightarrow> 'a msem_scheme semConf \<Rightarrow> bool"
  for upd where
  try_wait: "pc c t = Out \<Longrightarrow> sem_TryWait upd (sem c) w = Some (got, m, w') \<Longrightarrow>
    sem_step upd c (c\<lparr>sem := m, pc := (pc c)(t := if got then Holding else Out)\<rparr>)"
| wait: "pc c t = Out \<Longrightarrow> \<forall>u. pc c u \<noteq> Parked wid \<Longrightarrow> sem_Wait upd wid (sem c) w = Some (woken, got, m, w') \<Longrightarrow>
    sem_step upd c (c\<lparr>sem := m, chans := (\<lambda>x. chans c x + count_list woken x),
      pc := (pc c)(t := if got then Holding else Parked wid)\<rparr>)"
| receive: "pc c t = Parked wid \<Longrightarrow> 0 < chans c wid \<Longrightarrow>
    sem_step upd c (c\<lparr>chans := (chans c)(wid := chans c wid - 1), pc := (pc c)(t := Holding)\<rparr>)"
| post: "pc c t = Holding \<Longrightarrow> sem_Post upd (sem c) w = Some (ow, m, w') \<Longrightarrow>
    sem_step upd c (c\<lparr>sem := m, pc := (pc c)(t := case ow of None \<Rightarrow> Out | Some wid \<Rightarrow> HandOff wid)\<rparr>)"
| send: "pc c t = HandOff wid \<Longrightarrow> chans c wid = 0 \<Longrightarrow>
    sem_step upd c (c\<lparr>chans := (chans c)(wid := 1), pc := (pc c)(t := Out)\<rparr>)"

inductive sem_reachable ::
  "('a msem_scheme \<Rightarrow> world \<Rightarrow> ('a msem_scheme \<times> world) option) \<Rightarrow> 'a msem_scheme \<Rightarrow> 'a msem_scheme semConf \<Rightarrow> bool"
  for upd m0 where
  sem_init: "sem_reachable upd m0 \<lparr>sem = m0, chans = (\<lambda>_. 0), pc = (\<lambda>_. Out)\<rparr>"
| sem_next: "sem_reachable upd m0 c \<Longrightarrow> sem_step upd c c' \<Longrightarrow> sem_reachable upd m0 c'"

section \<open>Serving the queue\<close>

lemma unat_add_of_nat: "unat a + k < 2 ^ LENGTH('a) \<Longrightarrow> unat (a + of_nat k) = unat (a :: 'a::len word) + k"
  by (simp add: unat_word_ariths(1) unat_of_nat take_bit_nat_eq_self)

text \<open>The loop of \<open>Wait\<close> wakes as many waiters as there are free slots, oldest first.\<close>

definition free_slots :: "'a msem_scheme \<Rightarrow> nat" where
  "free_slots m = unat (mcap m) - unat (mcount m)"

lemma sem_Drain_spec:
  assumes "wq_rel (waiters m) xs"
  shows "\<exists>q. sem_Drain m acc = Some (m\<lparr>waiters := q, mcount := mcount m + of_nat (min (free_slots m) (length xs))\<rparr>,
      acc @ take (free_slots m) xs) \<and> wq_rel q (drop (free_slots m) xs)"
  using assms
proof (induction xs arbitrary: m acc)
  case Nil
  then have "wq_empty (waiters m)" by (simp add: wq_empty_rel)
  then show ?case using Nil by (intro exI [of _ "waiters m"]) (simp add: sem_Drain.simps)
next
  case (Cons x xs)
  have ne: "\<not> wq_empty (waiters m)" using wq_empty_rel [OF Cons.prems] by simp
  show ?case
  proof (cases "mcount m < mcap m")
    case False
    then have "free_slots m = 0" by (simp add: free_slots_def word_less_nat_alt)
    then show ?thesis using Cons.prems False by (intro exI [of _ "waiters m"]) (simp add: sem_Drain.simps)
  next
    case True
    obtain q where q: "wq_popFront (waiters m) = Some (Some x, q)" "wq_rel q xs" using wq_pop_rel [OF Cons.prems] by blast
    let ?m = "m\<lparr>waiters := q, mcount := mcount m + 1\<rparr>"
    have fs: "free_slots m = Suc (free_slots ?m)"
      using True unat_inc [OF True] by (simp add: free_slots_def word_less_nat_alt)
    from Cons.IH [of ?m "acc @ [x]"] q(2) obtain q' where
      q': "sem_Drain ?m (acc @ [x]) = Some (?m\<lparr>waiters := q', mcount := mcount ?m + of_nat (min (free_slots ?m) (length xs))\<rparr>,
        acc @ x # take (free_slots ?m) xs)" "wq_rel q' (drop (free_slots ?m) xs)" by auto
    have "sem_Drain m acc = sem_Drain ?m (acc @ [x])" using True ne q(1) by (subst sem_Drain.simps) simp
    then show ?thesis using q' fs by (intro exI [of _ q']) (simp add: algebra_simps)
  qed
qed

section \<open>The invariant of every interleaving\<close>

text \<open>
  What the semaphore needs of its capacity controller: it returns, keeps its own state well-formed with a
  capacity between 1 and the maximum, and touches neither the count nor the queue.
\<close>

locale sem_capacity =
  fixes upd :: "'a msem_scheme \<Rightarrow> world \<Rightarrow> ('a msem_scheme \<times> world) option" and ok :: "'a msem_scheme \<Rightarrow> bool"
  assumes upd_ok: "ok m \<Longrightarrow> \<exists>m' w'. upd m w = Some (m', w') \<and> ok m' \<and> mcount m' = mcount m \<and> waiters m' = waiters m \<and> maxCap m' = maxCap m"
    and ok_cap: "ok m \<Longrightarrow> 1 \<le> unat (mcap m) \<and> unat (mcap m) \<le> unat (maxCap m)"
    and ok_count: "ok (m\<lparr>mcount := n\<rparr>) = ok m"
    and ok_waiters: "ok (m\<lparr>waiters := q\<rparr>) = ok m"
begin

definition sem_inv :: "u32 \<Rightarrow> 'a msem_scheme semConf \<Rightarrow> nat list \<Rightarrow> bool" where
  "sem_inv N c xs \<longleftrightarrow> ok (sem c) \<and> wq_rel (waiters (sem c)) xs \<and> sem_books (unat (mcount (sem c))) xs (chans c) (pc c) \<and>
     maxCap (sem c) = N \<and> unat (mcount (sem c)) \<le> unat N"

lemmas ok_frame = ok_count ok_waiters

lemma inv_upd:
  assumes "sem_inv N c xs"
  shows "\<exists>m w'. upd (sem c) w = Some (m, w') \<and> sem_inv N (c\<lparr>sem := m\<rparr>) xs \<and> mcount m = mcount (sem c) \<and>
    1 \<le> unat (mcap m) \<and> unat (mcap m) \<le> unat (maxCap m)"
proof -
  from upd_ok [of "sem c" w] assms obtain m w' where
    m: "upd (sem c) w = Some (m, w')" "ok m" "mcount m = mcount (sem c)" "waiters m = waiters (sem c)" "maxCap m = maxCap (sem c)"
    unfolding sem_inv_def by blast
  then show ?thesis using assms ok_cap [OF m(2)] unfolding sem_inv_def by simp
qed

lemma inv_acquire:
  assumes "sem_inv N c xs" "pc c t = Out" "mcount (sem c) < mcap (sem c)"
  shows "sem_inv N (c\<lparr>sem := (sem c)\<lparr>mcount := mcount (sem c) + 1\<rparr>, pc := (pc c)(t := Holding)\<rparr>) xs"
proof -
  have "unat (mcount (sem c)) < unat (maxCap (sem c))"
    using assms(1,3) ok_cap [of "sem c"] by (simp add: sem_inv_def word_less_nat_alt)
  then show ?thesis
    using assms(1) books_acquire [of _ xs "chans c" "pc c" t] assms(2) unat_inc [OF assms(3)] by (simp add: sem_inv_def ok_frame)
qed

lemma TryWait_ok:
  assumes "sem_inv N c xs" "pc c t = Out"
  shows "\<exists>got m w'. sem_TryWait upd (sem c) w = Some (got, m, w') \<and>
    sem_inv N (c\<lparr>sem := m, pc := (pc c)(t := if got then Holding else Out)\<rparr>) xs"
proof -
  from inv_upd [OF assms(1), of w] obtain m w' where
    m: "upd (sem c) w = Some (m, w')" "sem_inv N (c\<lparr>sem := m\<rparr>) xs" by blast
  have id: "(pc c)(t := Out) = pc c" using assms(2) by auto
  show ?thesis
  proof (cases "mcount m < mcap m")
    case True
    then show ?thesis using m(1) inv_acquire [OF m(2), of t] assms(2)
      by (intro exI [of _ True] exI [of _ "m\<lparr>mcount := mcount m + 1\<rparr>"] exI [of _ w']) (simp add: sem_TryWait_def)
  next
    case False
    then show ?thesis using m id by (intro exI [of _ False] exI [of _ m] exI [of _ w']) (simp add: sem_TryWait_def)
  qed
qed

text \<open>Serving the queue in \<open>Wait\<close>: afterwards the queue is empty or the semaphore is full.\<close>

lemma inv_drain:
  assumes "sem_inv N c xs"
  shows "\<exists>m. sem_Drain (sem c) [] = Some (m, take (free_slots (sem c)) xs) \<and> mcap m = mcap (sem c) \<and>
    sem_inv N (c\<lparr>sem := m, chans := (\<lambda>x. chans c x + count_list (take (free_slots (sem c)) xs) x)\<rparr>) (drop (free_slots (sem c)) xs)"
proof -
  let ?k = "min (free_slots (sem c)) (length xs)"
  from sem_Drain_spec [of "sem c" xs "[]"] assms obtain q where
    q: "sem_Drain (sem c) [] = Some ((sem c)\<lparr>waiters := q, mcount := mcount (sem c) + of_nat ?k\<rparr>, take (free_slots (sem c)) xs)"
      "wq_rel q (drop (free_slots (sem c)) xs)" unfolding sem_inv_def by auto
  have c: "unat (mcount (sem c)) + ?k \<le> unat (maxCap (sem c))"
    using assms ok_cap [of "sem c"] unfolding sem_inv_def free_slots_def by auto
  then have u: "unat (mcount (sem c) + of_nat ?k) = unat (mcount (sem c)) + ?k"
    using unat_bound [of "maxCap (sem c)"] by (intro unat_add_of_nat) (simp del: of_nat_min)
  have "sem_books (unat (mcount (sem c))) (take (free_slots (sem c)) xs @ drop (free_slots (sem c)) xs) (chans c) (pc c)"
    using assms unfolding sem_inv_def by simp
  from books_grant [OF this] show ?thesis
    using q u c assms unfolding sem_inv_def by (simp add: ok_frame min.commute del: of_nat_min)
qed

lemma Wait_ok:
  assumes "sem_inv N c xs" "pc c t = Out" "\<forall>u. pc c u \<noteq> Parked wid"
  shows "\<exists>woken got m w' ys. sem_Wait upd wid (sem c) w = Some (woken, got, m, w') \<and>
    sem_inv N (c\<lparr>sem := m, chans := (\<lambda>x. chans c x + count_list woken x), pc := (pc c)(t := if got then Holding else Parked wid)\<rparr>) ys"
proof -
  from inv_upd [OF assms(1), of w] obtain m w' where
    m: "upd (sem c) w = Some (m, w')" "sem_inv N (c\<lparr>sem := m\<rparr>) xs" "1 \<le> unat (mcap m)" by blast
  let ?ws = "take (free_slots m) xs" and ?ys = "drop (free_slots m) xs"
  from inv_drain [OF m(2)] obtain m2 where
    m2: "sem_Drain m [] = Some (m2, ?ws)" "mcap m2 = mcap m"
      "sem_inv N (c\<lparr>sem := m2, chans := (\<lambda>x. chans c x + count_list ?ws x)\<rparr>) ?ys" by auto
  show ?thesis
  proof (cases "mcount m2 < mcap m2")
    case True
    then show ?thesis using inv_acquire [OF m2(3), of t] m(1) m2(1) assms(2)
      by (intro exI [of _ ?ws] exI [of _ True] exI [of _ "m2\<lparr>mcount := mcount m2 + 1\<rparr>"] exI [of _ w'] exI [of _ ?ys])
        (simp add: sem_Wait_def sem_inv_def)
  next
    case False
    have b: "sem_books (unat (mcount m2)) ?ys (\<lambda>x. chans c x + count_list ?ws x) (pc c)" "wq_rel (waiters m2) ?ys"
      using m2(3) by (simp_all add: sem_inv_def)
    have "wid \<notin> set ?ys" using sem_booksD(4) [OF b(1)] assms(3) by blast
    from wq_push_rel [OF b(2) this] obtain q where q: "wq_pushBack wid (waiters m2) = Some q" "wq_rel q (?ys @ [wid])" by blast
    have "0 < unat (mcount m2)" using False m(3) m2(2) by (simp add: word_less_nat_alt)
    from books_park [OF b(1) assms(2,3) this] show ?thesis
      using q m(1) m2(1,3) False
      by (intro exI [of _ ?ws] exI [of _ False] exI [of _ "m2\<lparr>waiters := q\<rparr>"] exI [of _ w'] exI [of _ "?ys @ [wid]"])
        (simp add: sem_Wait_def sem_inv_def ok_frame)
  qed
qed

lemma Post_ok:
  assumes "sem_inv N c xs" "pc c t = Holding"
  shows "\<exists>ow m w' ys. sem_Post upd (sem c) w = Some (ow, m, w') \<and>
    sem_inv N (c\<lparr>sem := m, pc := (pc c)(t := case ow of None \<Rightarrow> Out | Some wid \<Rightarrow> HandOff wid)\<rparr>) ys"
proof -
  from inv_upd [OF assms(1), of w] obtain m w' where
    m: "upd (sem c) w = Some (m, w')" "sem_inv N (c\<lparr>sem := m\<rparr>) xs" "1 \<le> unat (mcap m)" by blast
  have b: "sem_books (unat (mcount m)) xs (chans c) (pc c)" "wq_rel (waiters m) xs" using m(2) by (simp_all add: sem_inv_def)
  show ?thesis
  proof (cases "mcount m > mcap m \<or> xs = []")
    case True
    then have "xs = [] \<or> 1 < unat (mcount m)" using m(3) by (auto simp: word_less_nat_alt)
    note r = books_release [OF b(1) assms(2) this]
    then have "unat (mcount m - 1) = unat (mcount m) - 1" by (intro unat_minus_one) auto
    then show ?thesis using r m(1,2) True wq_empty_rel [OF b(2)] unfolding sem_inv_def
      by (intro exI [of _ None] exI [of _ "m\<lparr>mcount := mcount m - 1\<rparr>"] exI [of _ w'] exI [of _ xs])
        (auto simp: sem_Post_def ok_frame)
  next
    case False
    then obtain wid ys where xs: "xs = wid # ys" by (cases xs) auto
    from wq_pop_rel [of "waiters m" wid ys] b(2) xs obtain q where q: "wq_popFront (waiters m) = Some (Some wid, q)" "wq_rel q ys" by blast
    from books_handoff [of "unat (mcount m)" wid ys "chans c" "pc c" t] b(1) xs assms(2) show ?thesis
      using q m(1,2) False wq_empty_rel [OF b(2)] unfolding sem_inv_def
      by (intro exI [of _ "Some wid"] exI [of _ "m\<lparr>waiters := q\<rparr>"] exI [of _ w'] exI [of _ ys])
        (simp add: sem_Post_def ok_frame)
  qed
qed

lemma step_inv: "sem_step upd c c' \<Longrightarrow> sem_inv N c xs \<Longrightarrow> \<exists>ys. sem_inv N c' ys"
proof (induction rule: sem_step.induct)
  case (try_wait c t w got m w')
  then show ?case using TryWait_ok [of N c xs t w] by auto
next
  case (wait c t wid w woken got m w')
  then show ?case using Wait_ok [of N c xs t wid w] by auto
next
  case (receive c t wid)
  then show ?case using books_receive [of _ xs "chans c" "pc c" t wid] by (auto simp: sem_inv_def)
next
  case (post c t w ow m w')
  then show ?case using Post_ok [of N c xs t w] by auto
next
  case (send c t wid)
  then show ?case using books_send [of _ xs "chans c" "pc c" t wid] by (auto simp: sem_inv_def)
qed

lemma reachable_inv:
  assumes "sem_reachable upd m0 c" "ok m0" "mcount m0 = 0" "wq_rel (waiters m0) []"
  shows "\<exists>xs. sem_inv (maxCap m0) c xs"
  using assms(1)
proof (induction rule: sem_reachable.induct)
  case sem_init
  then show ?case using assms(2-4) by (auto simp: sem_inv_def sem_books_def owners_def)
next
  case (sem_next c c')
  then show ?case using step_inv by blast
qed

text \<open>What the invariant says to the users of the semaphore.\<close>

definition sem_safe :: "u32 \<Rightarrow> 'a msem_scheme semConf \<Rightarrow> bool" where
  "sem_safe N c \<longleftrightarrow> 1 \<le> unat (mcap (sem c)) \<and> unat (mcap (sem c)) \<le> unat N \<and>
     card {t. pc c t = Holding} \<le> unat (mcount (sem c)) \<and> unat (mcount (sem c)) \<le> unat N \<and> (\<forall>wid. chans c wid \<le> 1) \<and>
     (\<forall>w t. pc c t = Out \<longrightarrow> sem_TryWait upd (sem c) w \<noteq> None) \<and>
     (\<forall>w t wid. pc c t = Out \<and> (\<forall>u. pc c u \<noteq> Parked wid) \<longrightarrow> sem_Wait upd wid (sem c) w \<noteq> None) \<and>
     (\<forall>w t. pc c t = Holding \<longrightarrow> sem_Post upd (sem c) w \<noteq> None)"

lemma inv_safe:
  assumes "sem_inv N c xs"
  shows "sem_safe N c"
proof -
  have b: "sem_books (unat (mcount (sem c))) xs (chans c) (pc c)" and ok: "ok (sem c)" "maxCap (sem c) = N" "unat (mcount (sem c)) \<le> unat N"
    using assms by (simp_all add: sem_inv_def)
  note d = sem_booksD [OF b]
  have "card {t. pc c t = Holding} \<le> unat (mcount (sem c))"
    unfolding d(6) by (rule card_mono [OF d(8)]) (auto simp: owners_def)
  moreover have "chans c wid \<le> 1" for wid using d(5) [of wid] by (simp split: if_splits)
  moreover have "sem_TryWait upd (sem c) w \<noteq> None" if "pc c t = Out" for w t using TryWait_ok [OF assms that, of w] by auto
  moreover have "sem_Wait upd wid (sem c) w \<noteq> None" if "pc c t = Out" "\<forall>u. pc c u \<noteq> Parked wid" for w t wid
    using Wait_ok [OF assms that, of w] by auto
  moreover have "sem_Post upd (sem c) w \<noteq> None" if "pc c t = Holding" for w t using Post_ok [OF assms that, of w] by auto
  ultimately show ?thesis using ok_cap [OF ok(1)] ok(2,3) unfolding sem_safe_def by blast
qed

text \<open>Nobody waits for nothing: an owner exists, and it can move.\<close>

lemma owner_moves:
  assumes "sem_inv N c xs" "pc c t = Parked wid"
  shows "0 < mcount (sem c) \<and> (\<exists>u c'. pc c u \<noteq> Out \<and> sem_step upd c c' \<and> pc c' u \<noteq> pc c u)"
proof -
  have b: "sem_books (unat (mcount (sem c))) xs (chans c) (pc c)" using assms(1) by (simp add: sem_inv_def)
  note d = sem_booksD [OF b]
  have "owners xs (pc c) \<noteq> {}"
  proof (cases "wid \<in> set xs")
    case True
    then have "xs \<noteq> []" by auto
    then have "0 < card (owners xs (pc c))" using d(6,7) by simp
    then show ?thesis by auto
  qed (use assms(2) in \<open>auto simp: owners_def\<close>)
  then have pos: "0 < mcount (sem c)" using d(6,8) by (simp add: word_less_nat_alt card_gt_0_iff)
  obtain u where u: "u \<in> owners xs (pc c)" using \<open>owners xs (pc c) \<noteq> {}\<close> by blast
  then consider "pc c u = Holding" | v where "pc c u = Parked v" "v \<notin> set xs" unfolding owners_def by blast
  then show ?thesis
  proof cases
    case 1
    from Post_ok [OF assms(1) 1, of undefined] obtain ow m w' where "sem_Post upd (sem c) undefined = Some (ow, m, w')" by blast
    from sem_step.post [OF 1 this] 1 show ?thesis by (intro conjI pos exI [of _ u]) (fastforce split: option.splits)
  next
    case 2
    then have "chans c v + card {s. pc c s = HandOff v} = 1" using d(5) [of v] by auto
    then consider "0 < chans c v" | "chans c v = 0" "card {s. pc c s = HandOff v} = 1" by linarith
    then show ?thesis
    proof cases
      assume "0 < chans c v"
      from sem_step.receive [OF 2(1) this] 2(1) show ?thesis by (intro conjI pos exI [of _ u]) fastforce
    next
      assume z: "chans c v = 0" "card {s. pc c s = HandOff v} = 1"
      then obtain s where "pc c s = HandOff v" by (auto simp: card_1_singleton_iff)
      from sem_step.send [OF this z(1)] this show ?thesis by (intro conjI pos exI [of _ s]) fastforce
    qed
  qed
qed

text \<open>
  The operations on the queue, as a list: \<open>Wait\<close> serves the oldest waiters first and only then itself;
  \<open>Post\<close> hands its slot to the oldest waiter unless the capacity has shrunk below the count.
\<close>

lemma Wait_fifo:
  assumes "ok m" "wq_rel (waiters m) xs" "wid \<notin> set xs" "upd m w = Some (m1, w1)" "unat (mcount m) \<le> unat (maxCap m)"
  shows "\<exists>m'. sem_Wait upd wid m w = Some (take (free_slots m1) xs, length xs < free_slots m1, m', w1) \<and>
    wq_rel (waiters m') (if length xs < free_slots m1 then [] else drop (free_slots m1) xs @ [wid]) \<and>
    unat (mcount m') = unat (mcount m) + min (free_slots m1) (Suc (length xs))"
proof -
  let ?k = "free_slots m1"
  have m1: "ok m1" "mcount m1 = mcount m" "waiters m1 = waiters m" "maxCap m1 = maxCap m" using upd_ok [OF assms(1), of w] assms(4) by auto
  from sem_Drain_spec [of m1 xs "[]"] assms(2) m1(3) obtain q where
    q: "sem_Drain m1 [] = Some (m1\<lparr>waiters := q, mcount := mcount m1 + of_nat (min ?k (length xs))\<rparr>, take ?k xs)" "wq_rel q (drop ?k xs)" by auto
  let ?n = "mcount m1 + of_nat (min ?k (length xs))"
  have "unat (mcount m1) + min ?k (length xs) \<le> unat (maxCap m1)" "unat (mcount m1) + ?k \<le> max (unat (mcap m1)) (unat (mcount m1))"
    using assms(5) ok_cap [OF m1(1)] m1(2,4) by (auto simp: free_slots_def)
  then have n: "unat ?n = unat (mcount m1) + min ?k (length xs)"
    using unat_bound [of "maxCap m1"] by (intro unat_add_of_nat) (simp del: of_nat_min)
  show ?thesis
  proof (cases "length xs < ?k")
    case True
    then have lt: "?n < mcap m1" using n by (auto simp: word_less_nat_alt free_slots_def simp del: of_nat_min)
    then show ?thesis using True q assms(4) n unat_inc [OF lt] m1(2) by (simp add: sem_Wait_def del: of_nat_min)
  next
    case False
    then have "\<not> ?n < mcap m1" using n by (auto simp: word_less_nat_alt free_slots_def simp del: of_nat_min)
    moreover obtain q' where "wq_pushBack wid q = Some q'" "wq_rel q' (drop ?k xs @ [wid])"
      using wq_push_rel [OF q(2), of wid] assms(3) by (meson in_set_dropD)
    ultimately show ?thesis using False q assms(4) n m1(2) by (simp add: sem_Wait_def del: of_nat_min)
  qed
qed

lemma Post_fifo:
  assumes "ok m" "wq_rel (waiters m) xs" "upd m w = Some (m1, w1)"
  shows "\<exists>m'. sem_Post upd m w = Some (if mcap m1 < mcount m \<or> xs = [] then None else Some (hd xs), m', w1) \<and>
    wq_rel (waiters m') (if mcap m1 < mcount m \<or> xs = [] then xs else tl xs) \<and>
    mcount m' = (if mcap m1 < mcount m \<or> xs = [] then mcount m - 1 else mcount m)"
proof -
  have m1: "mcount m1 = mcount m" "waiters m1 = waiters m" using upd_ok [OF assms(1), of w] assms(3) by auto
  have e: "wq_empty (waiters m) \<longleftrightarrow> xs = []" by (rule wq_empty_rel [OF assms(2)])
  show ?thesis
  proof (cases "mcap m1 < mcount m \<or> xs = []")
    case True
    then show ?thesis using assms(2,3) m1 e by (simp add: sem_Post_def)
  next
    case False
    then obtain v ys where xs: "xs = v # ys" by (cases xs) auto
    then obtain q where "wq_popFront (waiters m) = Some (Some v, q)" "wq_rel q ys" using wq_pop_rel assms(2) by blast
    then show ?thesis using False xs assms(3) m1 e by (simp add: sem_Post_def)
  qed
qed

end

end
