(* ===== verification/Msem_Properties.thy ===== *)
theory Msem_Properties
  imports Msem_System
begin

text \<open>
  Both capacity controllers of \<open>src/msemaphore\<close> keep their capacity in bounds, so the semaphore over
  either of them has the properties proved for any such controller.
\<close>

section \<open>The bandwidth window\<close>

definition window_ok :: "'a msem_scheme \<Rightarrow> bool" where
  "window_ok m \<longleftrightarrow> length (membwWindow m) = 50 \<and> membwWindowIdx m < 50 \<and> membwWindowCnt m \<le> 50"

lemma windowMax_ok:
  assumes "k \<le> length win" "win \<noteq> []"
  shows "\<exists>mx. windowMax win k = Some mx"
proof -
  have "\<exists>mx. for_each (\<lambda>i mx. do { x \<leftarrow> list_get win i; Some (if f_less mx x then x else mx) }) [1..<k] (win ! 0) = Some mx \<and> True"
    by (rule for_each_invariant) (use assms in \<open>auto simp: list_get_def\<close>)
  then show ?thesis using assms(2) by (simp add: windowMax_def list_get_def [of win 0])
qed

lemma sampleMembw_ok:
  assumes "window_ok m"
  shows "\<exists>win i k mx v. sampleMembw now nb m =
      Some (m\<lparr>membwWindow := win, membwWindowIdx := i, membwWindowCnt := k, maxMembw := mx\<rparr>, v) \<and>
    length win = 50 \<and> i < 50 \<and> k \<le> 50"
proof -
  define v where "v = f_div (f_of_u64 (nb - lastBytes m)) (f_of_u64 (now - lastTime m))"
  define win where "win = (membwWindow m)[membwWindowIdx m := v]"
  define k where "k = (if membwWindowCnt m < 50 then membwWindowCnt m + 1 else membwWindowCnt m)"
  have win: "list_put (membwWindow m) (membwWindowIdx m) v = Some win" "length win = 50" "k \<le> 50"
    using assms by (auto simp: window_ok_def list_put_def win_def k_def)
  obtain mx where "windowMax win k = Some mx" using windowMax_ok [of k win] win(2,3) by fastforce
  moreover have "(membwWindowIdx m + 1) mod 50 < 50" by simp
  ultimately show ?thesis using win unfolding sampleMembw_def egMembwWindowSz_def v_def [symmetric] Let_def k_def [symmetric]
    by (intro exI [of _ win] exI [of _ "(membwWindowIdx m + 1) mod 50"] exI [of _ k] exI [of _ mx] exI) (simp (no_asm_simp))
qed

section \<open>Epsilon-greedy\<close>

definition eg_ok :: "egSem \<Rightarrow> bool" where
  "eg_ok m \<longleftrightarrow> window_ok m \<and> length (ewmaRewards m) = Suc (unat (maxCap m)) \<and>
     1 \<le> unat (mcap m) \<and> unat (mcap m) \<le> unat (maxCap m) \<and> unat (maxCap m) < 2 ^ 31 - 1"

lemma bestArm_ok:
  assumes "n < length rewards" "1 \<le> n"
  shows "\<exists>b. bestArm rewards n = Some b \<and> 1 \<le> b \<and> b \<le> n"
  unfolding bestArm_def
  by (rule for_each_invariant) (use assms in \<open>auto simp: list_get_def\<close>)

lemma sint_u32: "- (2 ^ 31) \<le> x \<Longrightarrow> x < 2 ^ 31 \<Longrightarrow> sint (word_of_int x :: u32) = x"
  by (simp add: sint_sbintrunc' signed_take_bit_int_eq_self_iff)

lemma sint_small: "unat (w :: u32) = n \<Longrightarrow> n < 2 ^ 31 \<Longrightarrow> sint w = int n"
  using sint_u32 [of "int n"] by auto

lemma unat_u32: "0 \<le> x \<Longrightarrow> x < 2 ^ 32 \<Longrightarrow> unat (word_of_int x :: u32) = nat x"
  by (simp add: unat_eq_nat_uint uint_word_of_int_eq take_bit_int_eq_self)

text \<open>Exploring stays within one step of the best arm and within the arms.\<close>

lemma exploreArm_ok:
  assumes "1 \<le> b" "b \<le> n" "unat maxc = n" "n < 2 ^ 31 - 1"
  shows "unat (exploreArm up b maxc) = (if up then min (b + 1) n else max (b - 1) 1)"
proof -
  let ?d = "if up then 1 else - 1 :: int"
  have "int b + ?d < 2 ^ 31" "- (2 ^ 31) \<le> int b + ?d" using assms(1,2,4) by auto
  then have x: "sint (word_of_int (int b + ?d) :: u32) = int b + ?d" by (intro sint_u32)
  have sb: "sint (of_nat b :: u32) = int b" using sint_u32 [of "int b"] assms(2,4) by simp
  have sm: "sint maxc = int n" using assms(3,4) by (intro sint_small) simp_all
  let ?c = "if up then min (int b + 1) (int n) else max (int b - 1) 1"
  have "exploreArm up b maxc = word_of_int ?c"
    unfolding exploreArm_def Let_def sb x sm using assms(1,2) by (auto simp: min_def max_def)
  moreover have "unat (word_of_int ?c :: u32) = nat ?c"
    using assms(1,2,4) by (intro unat_u32) (auto simp: min_def max_def)
  ultimately show ?thesis using assms(1) by (auto simp: min_def max_def)
qed

lemma egUpdate_ok:
  assumes "eg_ok m"
  shows "\<exists>m' w'. egUpdateCapacity m w = Some (m', w') \<and> eg_ok m' \<and> mcount m' = mcount m \<and> waiters m' = waiters m \<and> maxCap m' = maxCap m"
proof (cases "MicroTime w - lastTime m < egCtlDelayUs")
  case True
  then show ?thesis using assms by (simp add: egUpdateCapacity_def Let_def)
next
  case False
  have ok: "window_ok m" "length (ewmaRewards m) = Suc (unat (maxCap m))" "1 \<le> unat (mcap m)" "unat (mcap m) \<le> unat (maxCap m)"
    "unat (maxCap m) < 2 ^ 31 - 1" using assms unfolding eg_ok_def by simp_all
  from sampleMembw_ok [OF ok(1), of "MicroTime w" "MemAccesses_of (step_world w)"] obtain win i k mx v where
    s: "sampleMembw (MicroTime w) (MemAccesses_of (step_world w)) m =
      Some (m\<lparr>membwWindow := win, membwWindowIdx := i, membwWindowCnt := k, maxMembw := mx\<rparr>, v)" "length win = 50" "i < 50" "k \<le> 50" by blast
  have put: "\<exists>rs. list_put (ewmaRewards m) (unat (mcap m)) x = Some rs \<and> length rs = Suc (unat (maxCap m))" for x
    using ok(2,4) by (simp add: list_put_def)
  have arm: "\<exists>b. bestArm rs (unat (maxCap m)) = Some b \<and> 1 \<le> b \<and> b \<le> unat (maxCap m)" if "length rs = Suc (unat (maxCap m))" for rs
    using that ok(3,4) by (intro bestArm_ok) auto
  have new: "1 \<le> unat c \<and> unat c \<le> unat (maxCap m)"
    if "1 \<le> b" "b \<le> unat (maxCap m)" "c = exploreArm up b (maxCap m) \<or> c = of_nat b" for b c up
  proof -
    have "b < 2 ^ 32" using that(2) ok(5) by simp
    then have "unat (of_nat b :: u32) = b" by (simp add: unat_of_nat take_bit_nat_eq_self)
    then show ?thesis using that exploreArm_ok [OF that(1,2) refl ok(5), of up] ok(3,4) by auto
  qed
  obtain old where old: "list_get (ewmaRewards m) (unat (mcap m)) = Some old" using ok(2,4) by (simp add: list_get_def)
  define nv where "nv = f_add (f_mul (f64_round (1 - egRewardEwmaWeight)) old) (f_mul (f64_round egRewardEwmaWeight)
    (f_sub (f_mul (f64_round egAlpha) v)
      (f_mul (f64_round (1 - egAlpha)) (f_div (f_of_u64 (ucast (mcap m))) (f_of_u64 (ucast (maxCap m)))))))"
  obtain rs where rs: "list_put (ewmaRewards m) (unat (mcap m)) nv = Some rs" "length rs = Suc (unat (maxCap m))" using put by blast
  obtain b where b: "bestArm rs (unat (maxCap m)) = Some b" "1 \<le> b" "b \<le> unat (maxCap m)" using arm [OF rs(2)] by blast
  let ?w3 = "step_world (step_world (step_world w))"
  define ex where "ex = f_less (Float64_of (step_world (step_world w))) (f64_round egExplrProb)"
  define c where "c = (if ex then exploreArm (coin_of ?w3) b (maxCap m) else of_nat b)"
  have "egUpdateCapacity m w = Some (m\<lparr>membwWindow := win, membwWindowIdx := i, membwWindowCnt := k, maxMembw := mx,
      ewmaRewards := rs, mcap := c, lastBytes := MemAccesses_of (step_world w), lastTime := MicroTime w\<rparr>,
      if ex then step_world ?w3 else ?w3)"
    using False s(1) old rs(1) b(1) by (simp add: egUpdateCapacity_def Let_def nv_def c_def ex_def)
  moreover have "1 \<le> unat c \<and> unat c \<le> unat (maxCap m)" using new [OF b(2,3), of c "coin_of ?w3"] by (simp add: c_def)
  ultimately show ?thesis using s(2-4) rs(2) ok(5) by (simp add: eg_ok_def window_ok_def)
qed

interpretation eg: sem_capacity egUpdateCapacity eg_ok
  by unfold_locales (use egUpdate_ok in \<open>auto simp: eg_ok_def window_ok_def\<close>)

section \<open>Thompson sampling\<close>

definition arms_ok :: "nat \<Rightarrow> tsSem \<Rightarrow> bool" where
  "arms_ok n m \<longleftrightarrow> length (samples m) = Suc n \<and> length (samplesIdx m) = Suc n \<and> length (counts m) = Suc n \<and>
     length (rsums m) = Suc n \<and> length (means m) = Suc n \<and> length (vars m) = Suc n \<and> length (stdDevs m) = Suc n \<and>
     length (softmaxProbs m) = Suc n \<and> (\<forall>i. 1 \<le> i \<and> i \<le> n \<longrightarrow> length (samples m ! i) = 10 \<and> samplesIdx m ! i < 10)"

definition ts_ok :: "tsSem \<Rightarrow> bool" where
  "ts_ok m \<longleftrightarrow> window_ok m \<and> arms_ok (unat (maxCap m)) m \<and> 1 \<le> unat (mcap m) \<and> unat (mcap m) \<le> unat (maxCap m) \<and>
     unat (maxCap m) < 2 ^ 31 - 1"

lemma tsPosterior_ok:
  assumes "arms_ok n m" "1 \<le> a" "a \<le> n"
  shows "\<exists>sa si cs rs vs ms sd. tsPosterior Sqrt a reward m =
      Some (m\<lparr>samples := sa, samplesIdx := si, counts := cs, rsums := rs, vars := vs, means := ms, stdDevs := sd\<rparr>) \<and>
    arms_ok n (m\<lparr>samples := sa, samplesIdx := si, counts := cs, rsums := rs, vars := vs, means := ms, stdDevs := sd\<rparr>)"
proof -
  let ?row = "samples m ! a" and ?idx = "samplesIdx m ! a"
  have len: "length (samples m) = Suc n" "length (samplesIdx m) = Suc n" "length (counts m) = Suc n" "length (rsums m) = Suc n"
    "length (means m) = Suc n" "length (vars m) = Suc n" "length (stdDevs m) = Suc n" "length (softmaxProbs m) = Suc n"
    and row: "length ?row = 10" "?idx < 10" using assms unfolding arms_ok_def by blast+
  define cnt where "cnt = (if counts m ! a + 1 > of_nat tsWindowSz then of_nat tsWindowSz else counts m ! a + 1)"
  define sm where "sm = f_add (rsums m ! a) (f_sub reward (?row ! ?idx))"
  define v where "v = f_div (FFin 1) (f_add (f64_round (1 / tsSigma0Sq)) (f_div (f_of_u64 cnt) (f64_round tsSigmaSq)))"
  define mu where "mu = f_mul v (f_add (f64_round (tsMu0 / tsSigma0Sq)) (f_div sm (f64_round tsSigmaSq)))"
  let ?m = "m\<lparr>samples := (samples m)[a := ?row[?idx := reward]], samplesIdx := (samplesIdx m)[a := (?idx + 1) mod tsWindowSz],
    counts := (counts m)[a := cnt], rsums := (rsums m)[a := sm], vars := (vars m)[a := v], means := (means m)[a := mu],
    stdDevs := (stdDevs m)[a := Sqrt v]\<rparr>"
  have "tsPosterior Sqrt a reward m = Some ?m"
    unfolding tsPosterior_def list_get_def list_put_def using len row assms(3)
    by (simp add: Let_def cnt_def [symmetric] sm_def [symmetric] v_def [symmetric] mu_def [symmetric])
  moreover have "arms_ok n ?m" unfolding arms_ok_def
    using len row assms by (auto simp: nth_list_update tsWindowSz_def arms_ok_def)
  ultimately show ?thesis by blast
qed

lemma tsExplore_ok:
  assumes "c < length ms" "length ms = length probs"
  shows "\<exists>mx. tsMaxMean ms c = Some mx" "\<exists>probs' tot. tsSoftmax Exp ms mx c probs = Some (probs', tot) \<and> length probs' = length probs"
    "\<exists>probs'. tsNormalise tot c probs = Some probs' \<and> length probs' = length probs"
proof -
  have "\<exists>mx. tsMaxMean ms c = Some mx \<and> True" unfolding tsMaxMean_def
    by (rule for_each_invariant) (use assms in \<open>auto simp: list_get_def\<close>)
  then show "\<exists>mx. tsMaxMean ms c = Some mx" by blast
  have "\<exists>s. tsSoftmax Exp ms mx c probs = Some s \<and> length (fst s) = length probs" unfolding tsSoftmax_def
    by (rule for_each_invariant) (use assms in \<open>auto simp: list_get_def list_put_def Let_def split: prod.splits\<close>)
  then show "\<exists>probs' tot. tsSoftmax Exp ms mx c probs = Some (probs', tot) \<and> length probs' = length probs" by auto
  show "\<exists>probs'. tsNormalise tot c probs = Some probs' \<and> length probs' = length probs" unfolding tsNormalise_def
    by (rule for_each_invariant) (use assms in \<open>auto simp: list_get_def list_put_def\<close>)
qed

lemma tsPick_ok:
  assumes "\<forall>i\<in>set is. i < length probs \<and> i < 2 ^ 32"
  shows "\<exists>c'. tsPick probs is r c = Some c' \<and> (c' = c \<or> unat c' \<in> set is)"
  using assms
proof (induction "is" arbitrary: r)
  case (Cons i "is")
  then have "unat (of_nat i :: u32) = i" by (simp add: unat_of_nat take_bit_nat_eq_self)
  moreover obtain c' where "tsPick probs is (f_sub r (probs ! i)) c = Some c'" "c' = c \<or> unat c' \<in> set is" using Cons by force
  ultimately show ?case using Cons.prems by (auto simp: list_get_def)
qed simp

lemma tsSampleBest_ok:
  assumes "length (means m) = Suc (unat (maxCap m))" "length (stdDevs m) = Suc (unat (maxCap m))" "1 \<le> unat (maxCap m)"
  shows "\<exists>b x w'. tsSampleBest m w = Some (b, x, w') \<and> 1 \<le> b \<and> b \<le> unat (maxCap m)"
proof -
  have "\<exists>s. tsSampleBest m w = Some s \<and> 1 \<le> fst s \<and> fst s \<le> unat (maxCap m)" unfolding tsSampleBest_def
    by (rule for_each_invariant) (use assms in \<open>auto simp: list_get_def Let_def split: prod.splits\<close>)
  then show ?thesis by auto
qed

text \<open>The choice of the next arm, after the posterior has been updated.\<close>

lemma tsChoose_ok:
  assumes "arms_ok (unat (maxCap m)) m" "1 \<le> unat (mcap m)" "unat (mcap m) \<le> unat (maxCap m)" "unat (maxCap m) < 2 ^ 31 - 1"
  shows "\<exists>ps c w'. tsChoose Exp explore m w = Some (m\<lparr>softmaxProbs := ps, mcap := c\<rparr>, w') \<and> length ps = Suc (unat (maxCap m)) \<and> 1 \<le> unat c \<and> unat c \<le> unat (maxCap m)"
proof (cases explore)
  case True
  let ?c = "unat (mcap m)"
  have l: "?c < length (means m)" "length (means m) = length (softmaxProbs m)" "length (softmaxProbs m) = Suc (unat (maxCap m))"
    using assms(1,3) by (simp_all add: arms_ok_def)
  obtain mx where mx: "tsMaxMean (means m) ?c = Some mx" using tsExplore_ok(1) [OF l(1,2)] by blast
  obtain p1 tot where p1: "tsSoftmax Exp (means m) mx ?c (softmaxProbs m) = Some (p1, tot)" "length p1 = length (softmaxProbs m)"
    using tsExplore_ok(2) [OF l(1,2)] by blast
  obtain p2 where p2: "tsNormalise tot ?c p1 = Some p2" "length p2 = length p1"
    using tsExplore_ok(3) [of ?c "means m" p1 tot] l p1(2) by auto
  have "\<forall>i\<in>set [1..<Suc ?c]. i < length p2 \<and> i < 2 ^ 32" using assms(3,4) l p1(2) p2(2) by auto
  from tsPick_ok [OF this, of "Float64_of w" "mcap m"] obtain c' where
    c': "tsPick p2 [1..<Suc ?c] (Float64_of w) (mcap m) = Some c'" "c' = mcap m \<or> unat c' \<in> set [1..<Suc ?c]" by blast
  have "1 \<le> unat c' \<and> unat c' \<le> unat (maxCap m)" using c'(2) assms(2,3) by auto
  then show ?thesis using True mx p1 p2 c'(1) l(3)
    by (intro exI [of _ p2] exI [of _ c'] exI [of _ "step_world w"]) (simp add: tsChoose_def Let_def del: upt_Suc)
next
  case False
  have "1 \<le> unat (maxCap m)" using assms(2,3) by simp
  then obtain b x w' where b: "tsSampleBest m w = Some (b, x, w')" "1 \<le> b" "b \<le> unat (maxCap m)"
    using tsSampleBest_ok [of m w] assms(1) unfolding arms_ok_def by blast
  have "b < 2 ^ 32" using b(3) assms(4) by simp
  then have "unat (of_nat b :: u32) = b" by (simp add: unat_of_nat take_bit_nat_eq_self)
  then show ?thesis using False b assms(1)
    by (intro exI [of _ "softmaxProbs m"] exI [of _ "of_nat b"] exI [of _ w']) (simp add: tsChoose_def arms_ok_def)
qed

lemma tsUpdate_ok:
  assumes "ts_ok m"
  shows "\<exists>m' w'. tsUpdateCapacity Exp Sqrt m w = Some (m', w') \<and> ts_ok m' \<and> mcount m' = mcount m \<and> waiters m' = waiters m \<and> maxCap m' = maxCap m"
proof (cases "MicroTime w - lastTime m < tsCtlDelayUs")
  case True
  then show ?thesis using assms by (simp add: tsUpdateCapacity_def Let_def)
next
  case False
  have ok: "window_ok m" "arms_ok (unat (maxCap m)) m" "1 \<le> unat (mcap m)" "unat (mcap m) \<le> unat (maxCap m)"
    "unat (maxCap m) < 2 ^ 31 - 1" using assms unfolding ts_ok_def by simp_all
  from sampleMembw_ok [OF ok(1), of "MicroTime w" "MemAccesses_of (step_world w)"] obtain win i k mx v where
    s: "sampleMembw (MicroTime w) (MemAccesses_of (step_world w)) m =
      Some (m\<lparr>membwWindow := win, membwWindowIdx := i, membwWindowCnt := k, maxMembw := mx\<rparr>, v)" "length win = 50" "i < 50" "k \<le> 50" by blast
  define m1 where "m1 = m\<lparr>membwWindow := win, membwWindowIdx := i, membwWindowCnt := k, maxMembw := mx\<rparr>"
  have m1: "arms_ok (unat (maxCap m)) m1" "window_ok m1" "mcap m1 = mcap m" "maxCap m1 = maxCap m" "mcount m1 = mcount m" "waiters m1 = waiters m"
    using ok(2) s(2-4) by (simp_all add: m1_def arms_ok_def window_ok_def)
  define reward where "reward = f_mul (f64_round tsMagnifyer) (f_sub (f_mul (f64_round tsAlpha) v)
    (f_mul (f64_round (1 - tsAlpha)) (f_div (f_of_u64 (ucast (mcap m))) (f_of_u64 (ucast (maxCap m))))))"
  from tsPosterior_ok [OF m1(1) ok(3,4), of Sqrt reward] obtain m2 where
    m2: "tsPosterior Sqrt (unat (mcap m)) reward m1 = Some m2" "arms_ok (unat (maxCap m)) m2"
      "window_ok m2" "mcap m2 = mcap m" "maxCap m2 = maxCap m" "mcount m2 = mcount m" "waiters m2 = waiters m"
    using m1 by (auto simp: window_ok_def)
  let ?w2 = "step_world (step_world w)"
  from tsChoose_ok [of m2 Exp "f_less (Float64_of ?w2) (f64_round tsExplrProb)" "step_world ?w2"] m2(2,4,5) ok(3-5)
  obtain ps c w' where ch: "tsChoose Exp (f_less (Float64_of ?w2) (f64_round tsExplrProb)) m2 (step_world ?w2) = Some (m2\<lparr>softmaxProbs := ps, mcap := c\<rparr>, w')" "length ps = Suc (unat (maxCap m))" "1 \<le> unat c" "unat c \<le> unat (maxCap m)"
    by auto
  have "tsUpdateCapacity Exp Sqrt m w = Some (m2\<lparr>softmaxProbs := ps, mcap := c, lastBytes := MemAccesses_of (step_world w), lastTime := MicroTime w\<rparr>, w')"
    using False s(1) m2(1) ch(1) unfolding tsUpdateCapacity_def tsSampleMembw_def m1_def [symmetric]
    by (simp add: Let_def reward_def m1(3,4))
  then show ?thesis using m2(2-7) ch(2-4) ok(5) by (simp add: ts_ok_def window_ok_def arms_ok_def)
qed

interpretation ts: sem_capacity "tsUpdateCapacity Exp Sqrt" ts_ok for Exp Sqrt
  by unfold_locales (use tsUpdate_ok in \<open>auto simp: ts_ok_def window_ok_def arms_ok_def\<close>)

section \<open>Properties\<close>

lemma eg_new_ok:
  fixes w :: world
  assumes "1 \<le> unat c0" "unat c0 \<le> unat maxc" "unat maxc < 2 ^ 31 - 1"
  defines "m \<equiv> fst (newMemSemaphoreMabEgImpl maxc c0 w)"
  shows "eg_ok m" "mcount m = 0" "wq_rel (waiters m) []" "maxCap m = maxc"
proof -
  have "unat (maxc + 1) = Suc (unat maxc)" using assms(3) by (simp add: unat_word_ariths(1))
  then show "eg_ok m" "mcount m = 0" "wq_rel (waiters m) []" "maxCap m = maxc"
    using assms(1-3)
    by (simp_all add: m_def eg_ok_def window_ok_def newMemSemaphoreMabEgImpl_def zero_msem_def msem.defs egSem.defs
        egMembwWindowSz_def wq_init_rel)
qed

lemma ts_new_ok:
  fixes w :: world and Sqrt :: "float64 \<Rightarrow> float64"
  assumes "1 \<le> unat c0" "unat c0 \<le> unat maxc" "unat maxc < 2 ^ 31 - 1"
  defines "m \<equiv> fst (newMemSemaphoreMabTsImpl Sqrt maxc c0 w)"
  shows "ts_ok m" "mcount m = 0" "wq_rel (waiters m) []" "maxCap m = maxc"
proof -
  have "unat (maxc + 1) = Suc (unat maxc)" using assms(3) by (simp add: unat_word_ariths(1))
  then show "ts_ok m" "mcount m = 0" "wq_rel (waiters m) []" "maxCap m = maxc"
    using assms(1-3)
    by (simp_all add: m_def ts_ok_def window_ok_def arms_ok_def newMemSemaphoreMabTsImpl_def zero_msem_def msem.defs tsSem.defs
        egMembwWindowSz_def tsWindowSz_def wq_init_rel Let_def nth_append del: upt_Suc replicate_Suc)
qed

text \<open>
  C25.  The memory semaphore is safe, with either controller and in every interleaving of its goroutines:
  the capacity stays between 1 and the maximum, never more goroutines hold the semaphore than the count,
  and never more are counted than the maximum capacity; no waiter's channel ever holds more than its one
  place, so no send under the lock blocks; and no operation panics.
\<close>

theorem msem_safe:
  assumes "1 \<le> unat c0" "unat c0 \<le> unat maxc" "unat maxc < 2 ^ 31 - 1"
  shows "(\<forall>c. sem_reachable egUpdateCapacity (fst (newMemSemaphoreMabEgImpl maxc c0 w0)) c \<longrightarrow>
      1 \<le> unat (mcap (sem c)) \<and> unat (mcap (sem c)) \<le> unat maxc \<and> card {t. pc c t = Holding} \<le> unat (mcount (sem c)) \<and>
      unat (mcount (sem c)) \<le> unat maxc \<and> (\<forall>wid. chans c wid \<le> 1) \<and>
      (\<forall>w t. pc c t = Out \<longrightarrow> egTryWait (sem c) w \<noteq> None) \<and>
      (\<forall>w t wid. pc c t = Out \<and> (\<forall>u. pc c u \<noteq> Parked wid) \<longrightarrow> egWait wid (sem c) w \<noteq> None) \<and>
      (\<forall>w t. pc c t = Holding \<longrightarrow> egPost (sem c) w \<noteq> None)) \<and>
    (\<forall>c. sem_reachable (tsUpdateCapacity Exp Sqrt) (fst (newMemSemaphoreMabTsImpl Sqrt maxc c0 w0)) c \<longrightarrow>
      1 \<le> unat (mcap (sem c)) \<and> unat (mcap (sem c)) \<le> unat maxc \<and> card {t. pc c t = Holding} \<le> unat (mcount (sem c)) \<and>
      unat (mcount (sem c)) \<le> unat maxc \<and> (\<forall>wid. chans c wid \<le> 1) \<and>
      (\<forall>w t. pc c t = Out \<longrightarrow> tsTryWait Exp Sqrt (sem c) w \<noteq> None) \<and>
      (\<forall>w t wid. pc c t = Out \<and> (\<forall>u. pc c u \<noteq> Parked wid) \<longrightarrow> tsWait Exp Sqrt wid (sem c) w \<noteq> None) \<and>
      (\<forall>w t. pc c t = Holding \<longrightarrow> tsPost Exp Sqrt (sem c) w \<noteq> None))"
proof -
  have "eg.sem_safe maxc c" if r: "sem_reachable egUpdateCapacity (fst (newMemSemaphoreMabEgImpl maxc c0 w0)) c" for c
    using eg.reachable_inv [OF r eg_new_ok(1-3) [OF assms, of w0]] eg.inv_safe unfolding eg_new_ok(4) [OF assms, of w0] by blast
  moreover have "ts.sem_safe Exp Sqrt maxc c" if r: "sem_reachable (tsUpdateCapacity Exp Sqrt) (fst (newMemSemaphoreMabTsImpl Sqrt maxc c0 w0)) c" for c
    using ts.reachable_inv [OF r ts_new_ok(1-3) [OF assms, of Sqrt w0]] ts.inv_safe unfolding ts_new_ok(4) [OF assms, of Sqrt w0] by blast
  ultimately show ?thesis
    unfolding eg.sem_safe_def ts.sem_safe_def egTryWait_def egWait_def egPost_def tsTryWait_def tsWait_def tsPost_def by blast
qed

text \<open>An example: with capacity 1, goroutine 7 holds the semaphore and goroutine 8 is parked on waiter 3.\<close>

definition demo_readings :: world where
  "demo_readings = \<lparr>clock = (\<lambda>_. 0), qdelay = (\<lambda>_. 0), memacc = (\<lambda>_. 0), energy = (\<lambda>_. FFin 0), procid = (\<lambda>_. 0),
     coin = (\<lambda>_. True), trylock = (\<lambda>_. True), rndf = (\<lambda>_. FFin 0), rndnorm = (\<lambda>_. FFin 0), tick = 0\<rparr>"

definition demo_sem :: egSem where
  "demo_sem = fst (newMemSemaphoreMabEgImpl 4 1 demo_readings)"

lemma demo_sem_ok: "eg_ok demo_sem" "mcount demo_sem = 0" "wq_rel (waiters demo_sem) []" "maxCap demo_sem = 4" "mcap demo_sem = 1"
  "egUpdateCapacity (demo_sem\<lparr>mcount := n\<rparr>) demo_readings = Some (demo_sem\<lparr>mcount := n\<rparr>, step_world demo_readings)"
proof -
  show "eg_ok demo_sem" "mcount demo_sem = 0" "wq_rel (waiters demo_sem) []" "maxCap demo_sem = 4"
    unfolding demo_sem_def using eg_new_ok [of 1 4 demo_readings] by simp_all
  have "lastTime demo_sem = 0" "mcap demo_sem = 1"
    by (simp_all add: demo_sem_def newMemSemaphoreMabEgImpl_def zero_msem_def msem.defs egSem.defs MicroTime_def demo_readings_def)
  then show "mcap demo_sem = 1"
    "egUpdateCapacity (demo_sem\<lparr>mcount := n\<rparr>) demo_readings = Some (demo_sem\<lparr>mcount := n\<rparr>, step_world demo_readings)"
    by (simp_all add: egUpdateCapacity_def Let_def MicroTime_def demo_readings_def egCtlDelayUs_def)
qed

lemma demo_parked:
  "\<exists>c. sem_reachable egUpdateCapacity demo_sem c \<and> pc c 7 = Holding \<and> pc c 8 = Parked 3 \<and> mcount (sem c) = 1"
proof -
  let ?c0 = "\<lparr>sem = demo_sem, chans = (\<lambda>_. 0), pc = (\<lambda>_. Out)\<rparr>"
  have d0: "sem_Drain demo_sem [] = Some (demo_sem, [])"
    using wq_empty_rel [OF demo_sem_ok(3)] by (simp add: sem_Drain.simps)
  have w1: "sem_Wait egUpdateCapacity 3 demo_sem demo_readings = Some ([], True, demo_sem\<lparr>mcount := 1\<rparr>, step_world demo_readings)"
    using d0 demo_sem_ok(2,5) demo_sem_ok(6) [of "mcount demo_sem", simplified] by (simp add: sem_Wait_def)
  let ?c1 = "?c0\<lparr>sem := demo_sem\<lparr>mcount := 1\<rparr>, chans := (\<lambda>x. chans ?c0 x + count_list [] x),
    pc := (pc ?c0)(7 := if True then Holding else Parked 3)\<rparr>"
  have "sem_step egUpdateCapacity ?c0 ?c1" using w1 by (intro sem_step.wait) simp_all
  then have r1: "sem_reachable egUpdateCapacity demo_sem ?c1" by (rule sem_next [OF sem_init])
  have d1: "sem_Drain (demo_sem\<lparr>mcount := 1\<rparr>) [] = Some (demo_sem\<lparr>mcount := 1\<rparr>, [])"
    using demo_sem_ok(5) by (simp add: sem_Drain.simps)
  obtain q where q: "wq_pushBack 3 (waiters demo_sem) = Some q" using wq_push_rel [OF demo_sem_ok(3), of 3] by auto
  have w2: "sem_Wait egUpdateCapacity 3 (demo_sem\<lparr>mcount := 1\<rparr>) demo_readings =
      Some ([], False, demo_sem\<lparr>mcount := 1, waiters := q\<rparr>, step_world demo_readings)"
    using d1 q demo_sem_ok(5) demo_sem_ok(6) [of 1] by (simp add: sem_Wait_def)
  let ?c2 = "?c1\<lparr>sem := demo_sem\<lparr>mcount := 1, waiters := q\<rparr>, chans := (\<lambda>x. chans ?c1 x + count_list [] x),
    pc := (pc ?c1)(8 := if False then Holding else Parked 3)\<rparr>"
  have "sem_step egUpdateCapacity ?c1 ?c2" using w2 by (intro sem_step.wait) simp_all
  then have "sem_reachable egUpdateCapacity demo_sem ?c2" by (rule sem_next [OF r1])
  then show ?thesis by (intro exI [of _ ?c2]) simp
qed

theorem msem_safe_witness:
  "\<exists>c. sem_reachable egUpdateCapacity demo_sem c \<and> pc c 7 = Holding \<and> card {t. pc c t = Holding} \<le> 1 \<and> egPost (sem c) demo_readings \<noteq> None"
proof -
  obtain c where c: "sem_reachable egUpdateCapacity demo_sem c" "pc c 7 = Holding" "mcount (sem c) = 1" using demo_parked by blast
  have "unat (1 :: u32) = 1" "unat (4 :: u32) < 2 ^ 31 - 1" by simp_all
  then show ?thesis using msem_safe [of 1 4 demo_readings "\<lambda>x. x" "\<lambda>x. x"] c unfolding demo_sem_def by (intro exI [of _ c]) auto
qed

text \<open>
  C26.  Nobody is stranded in the memory semaphore, with either controller: whenever a goroutine is parked,
  some goroutine owns a slot and can take a step that changes its state (post, receive or send); in
  particular a non-empty queue implies a positive count, so a waiter is never left with nobody to wake it.
\<close>

theorem msem_no_stranding:
  assumes "1 \<le> unat c0" "unat c0 \<le> unat maxc" "unat maxc < 2 ^ 31 - 1"
  shows "(\<forall>c t wid. sem_reachable egUpdateCapacity (fst (newMemSemaphoreMabEgImpl maxc c0 w0)) c \<and> pc c t = Parked wid \<longrightarrow>
      0 < mcount (sem c) \<and> (\<exists>u c'. pc c u \<noteq> Out \<and> sem_step egUpdateCapacity c c' \<and> pc c' u \<noteq> pc c u)) \<and>
    (\<forall>c t wid. sem_reachable (tsUpdateCapacity Exp Sqrt) (fst (newMemSemaphoreMabTsImpl Sqrt maxc c0 w0)) c \<and> pc c t = Parked wid \<longrightarrow>
      0 < mcount (sem c) \<and> (\<exists>u c'. pc c u \<noteq> Out \<and> sem_step (tsUpdateCapacity Exp Sqrt) c c' \<and> pc c' u \<noteq> pc c u))"
  using eg.reachable_inv [OF _ eg_new_ok(1-3) [OF assms, of w0]] eg.owner_moves
    ts.reachable_inv [OF _ ts_new_ok(1-3) [OF assms, of Sqrt w0], of Exp Sqrt] ts.owner_moves by meson

theorem msem_no_stranding_witness:
  "\<exists>c c'. sem_reachable egUpdateCapacity demo_sem c \<and> pc c 8 = Parked 3 \<and> 0 < mcount (sem c) \<and> sem_step egUpdateCapacity c c'"
proof -
  obtain c where c: "sem_reachable egUpdateCapacity demo_sem c" "pc c 8 = Parked 3" using demo_parked by blast
  have "1 \<le> unat (1 :: u32)" "unat (1 :: u32) \<le> unat (4 :: u32)" "unat (4 :: u32) < 2 ^ 31 - 1" by simp_all
  from msem_no_stranding [OF this, of demo_readings "\<lambda>x. x" "\<lambda>x. x"] c show ?thesis unfolding demo_sem_def by blast
qed

text \<open>
  C27.  The operations of the memory semaphore refine a first-in first-out semaphore whose capacity the
  controller has just chosen: \<open>Wait\<close> hands the free slots to the oldest waiters in their order, takes one itself
  only if one is left over, and queues last otherwise; \<open>Post\<close> passes its slot to the oldest waiter, or gives it
  back when nobody waits or more slots are out than the capacity allows; \<open>TryWait\<close> takes a free slot if there is one.
\<close>

theorem msem_fifo:
  assumes "eg_ok m" "wq_rel (waiters m) xs" "wid \<notin> set xs" "unat (mcount m) \<le> unat (maxCap m)"
  shows "\<exists>m1 w1 mw mp. egUpdateCapacity m w = Some (m1, w1) \<and>
    (let k = unat (mcap m1) - unat (mcount m); back = (mcap m1 < mcount m \<or> xs = []) in
      egWait wid m w = Some (take k xs, length xs < k, mw, w1) \<and>
      wq_rel (waiters mw) (if length xs < k then [] else drop k xs @ [wid]) \<and>
      unat (mcount mw) = unat (mcount m) + min k (length xs + 1) \<and>
      egPost m w = Some (if back then None else Some (hd xs), mp, w1) \<and>
      wq_rel (waiters mp) (if back then xs else tl xs) \<and> mcount mp = (if back then mcount m - 1 else mcount m) \<and>
      egTryWait m w = Some (if mcount m < mcap m1 then (True, m1\<lparr>mcount := mcount m + 1\<rparr>, w1) else (False, m1, w1)))"
proof -
  from egUpdate_ok [OF assms(1), of w] obtain m1 w1 where
    m1: "egUpdateCapacity m w = Some (m1, w1)" "mcount m1 = mcount m" by blast
  have k: "free_slots m1 = unat (mcap m1) - unat (mcount m)" using m1(2) by (simp add: free_slots_def)
  from eg.Wait_fifo [OF assms(1-3) m1(1) assms(4)] eg.Post_fifo [OF assms(1,2) m1(1)] m1 show ?thesis
    unfolding k egWait_def egPost_def egTryWait_def by (auto simp: Let_def sem_TryWait_def)
qed

theorem msem_fifo_witness:
  "\<exists>mw w1. egWait 3 demo_sem demo_readings = Some ([], True, mw, w1) \<and> unat (mcount mw) = 1"
proof -
  have "unat (mcount demo_sem) \<le> unat (maxCap demo_sem)" by (simp add: demo_sem_ok)
  from msem_fifo [OF demo_sem_ok(1,3) _ this, of 3 demo_readings] demo_sem_ok(6) [of "mcount demo_sem", simplified]
  show ?thesis by (auto simp: Let_def demo_sem_ok)
qed

end
