(* ===== verification/Seda_Server.thy ===== *)
theory Seda_Server
  imports Credit_Session
begin

text \<open>
  The server of the SEDA baseline, \<open>src/ovldctlrpc/seda/sd_server.go\<close>: the window of 64 request slots
  per client without credits, and a worker that drops a request when the queueing delay has reached a
  threshold.  The protocol is \<open>sd_proto.go\<close>.  As in theory \<open>Pcc_Server\<close>, an operation is the code
  between two points where another goroutine can interfere; sessions share only the atomic counters.

  Parameters: \<open>B\<close> the bitmap package, \<open>rd\<close> and \<open>wr\<close> the connection, \<open>handler\<close> the
  application's request handler, \<open>pooled\<close> the object a pool hands out.
\<close>

section \<open>Protocol (sd_proto.go)\<close>

definition SdReqMagic :: u32 where "SdReqMagic = 0x63727063"
definition SdRespMagic :: u32 where "SdRespMagic = 0x73727063"
definition SdOpCall :: u32 where "SdOpCall = 0"
definition SdOpWinUpdate :: u32 where "SdOpWinUpdate = 1"
definition SdOpMax :: u32 where "SdOpMax = 2"

text \<open>Both directions have the same layout, without padding.\<close>

record csdHdr =
  hMagic :: u32
  hOp :: u32
  hLen :: u64
  hId :: u64
  hTs :: u64

type_synonym ssdHdr = csdHdr

definition sd_hdr_size :: nat where "sd_hdr_size = 32"

definition CsdHdr_bytes :: "csdHdr \<Rightarrow> byte list" where
  "CsdHdr_bytes h = le_bytes 4 (unat (hMagic h)) @ le_bytes 4 (unat (hOp h)) @ le_bytes 8 (unat (hLen h)) @
     le_bytes 8 (unat (hId h)) @ le_bytes 8 (unat (hTs h))"

definition CsdHdr_of_bytes :: "byte list \<Rightarrow> csdHdr" where
  "CsdHdr_of_bytes bs = \<lparr>hMagic = of_nat (field 0 4 bs), hOp = of_nat (field 4 4 bs), hLen = of_nat (field 8 8 bs),
     hId = of_nat (field 16 8 bs), hTs = of_nat (field 24 8 bs)\<rparr>"

lemma CsdHdr_bytes_length [simp]: "length (CsdHdr_bytes h) = sd_hdr_size"
  by (simp add: CsdHdr_bytes_def sd_hdr_size_def)

lemma CsdHdr_roundtrip: "CsdHdr_of_bytes (CsdHdr_bytes h) = h"
  by (simp add: CsdHdr_of_bytes_def CsdHdr_bytes_def field_def le_nat_u32 le_nat_u64 del: le_nat.simps le_bytes.simps)

section \<open>State\<close>

definition SsdMaxWindowExp :: nat where "SsdMaxWindowExp = 6"
definition SsdMaxWindow :: nat where "SsdMaxWindow = 2 ^ SsdMaxWindowExp"

lemma SsdMaxWindow_64 [simp]: "SsdMaxWindow = 64"
  by (simp add: SsdMaxWindow_def SsdMaxWindowExp_def)

record ssdCtx =
  dCmn :: srpcCtx
  dTs :: u64

record ('b, 'k) ssdSession =
  dConn :: 'k
  dId :: int
  dNumPending :: int
  dClosed :: bool
  dAvail :: 'b
  dCompleted :: 'b
  dSlots :: "ssdCtx option list"
  dSignalled :: bool
  dSendDone :: bool

record ssdOps =
  oNumSess :: u64
  oNumActive :: u64
  oNumPending :: u64
  oReqRx :: u64
  oReqDropped :: u64
  oRespTx :: u64

section \<open>Slots\<close>

definition ssdGetSlot ::
  "'b bitmap_ops \<Rightarrow> ssdCtx \<Rightarrow> ('b, 'k) ssdSession \<Rightarrow> (int \<times> ('b, 'k) ssdSession) option" where
  "ssdGetSlot B pooled s = (
     let (slot, ok) = bmMin B (dAvail s) in
     if \<not> ok then Some (- 1, s)
     else if length (dSlots s) \<le> slot then None
     else Some (int slot, s\<lparr>dAvail := bmRemove B slot (dAvail s),
       dSlots := (dSlots s)[slot := Some (pooled\<lparr>dCmn := (dCmn pooled)\<lparr>Idx := int slot\<rparr>\<rparr>)]\<rparr>))"

definition dslot_at :: "('b, 'k) ssdSession \<Rightarrow> int \<Rightarrow> ssdCtx option option" where
  "dslot_at s i = (if 0 \<le> i \<and> nat i < length (dSlots s) then Some (dSlots s ! nat i) else None)"

definition ssdPutSlot :: "'b bitmap_ops \<Rightarrow> ('b, 'k) ssdSession \<Rightarrow> int \<Rightarrow> ('b, 'k) ssdSession option" where
  "ssdPutSlot B s slot = do {
     p \<leftarrow> dslot_at s slot;
     c \<leftarrow> p;
     Some (s\<lparr>dSlots := (dSlots s)[nat slot := None], dAvail := bmSet B (nat slot) (dAvail s)\<rparr>)
   }"

section \<open>The sender\<close>

definition sd_response_hdr :: "ssdCtx \<Rightarrow> ssdHdr" where
  "sd_response_hdr c = \<lparr>hMagic = SdRespMagic, hOp = SdOpCall, hLen = RespLen (dCmn c), hId = CtxId (dCmn c), hTs = dTs c\<rparr>"

text \<open>One response: header and payload, the counters, and the slot, which is freed even after a failed write.\<close>

definition ssdSendOne ::
  "'b bitmap_ops \<Rightarrow> 'k writer \<Rightarrow> nat \<Rightarrow> ssdOps \<Rightarrow> ('b, 'k) ssdSession \<Rightarrow> (ssdOps \<times> ('b, 'k) ssdSession) option" where
  "ssdSendOne B wr idx os s = do {
     p \<leftarrow> dslot_at s (int idx);
     c \<leftarrow> p;
     (n, err, k1) \<leftarrow> WriteFull wr (CsdHdr_bytes (sd_response_hdr c)) (dConn s);
     (sent, k2) \<leftarrow>
       (if err \<noteq> None then Some (False, k1)
        else if length (RespBuf (dCmn c)) < unat (RespLen (dCmn c)) then None
        else do {
          (n, err, k2) \<leftarrow> WriteFull wr (take (unat (RespLen (dCmn c))) (RespBuf (dCmn c))) k1;
          Some (err = None, k2)
        });
     let os1 = (if sent then os\<lparr>oRespTx := AtomicAddUint64 (oRespTx os) 1\<rparr> else os);
     let os2 = os1\<lparr>oNumPending := AtomicSubUint64 (oNumPending os1) 1\<rparr>;
     s1 \<leftarrow> ssdPutSlot B (s\<lparr>dConn := k2\<rparr>) (int idx);
     Some (os2, s1)
   }"

primrec ssdSendAll ::
  "'b bitmap_ops \<Rightarrow> 'k writer \<Rightarrow> nat list \<Rightarrow> ssdOps \<Rightarrow> ('b, 'k) ssdSession \<Rightarrow> (ssdOps \<times> ('b, 'k) ssdSession) option" where
  "ssdSendAll B wr [] os s = Some (os, s)"
| "ssdSendAll B wr (i # is) os s = do { (os1, s1) \<leftarrow> ssdSendOne B wr i os s; ssdSendAll B wr is os1 s1 }"

definition ssdSendCompletionVector ::
  "'b bitmap_ops \<Rightarrow> 'k writer \<Rightarrow> ssdOps \<Rightarrow> ('b, 'k) ssdSession \<Rightarrow> 'b \<Rightarrow> (ssdOps \<times> ('b, 'k) ssdSession) option" where
  "ssdSendCompletionVector B wr os s vec = ssdSendAll B wr (bmRange B vec) os s"

definition ssdSenderWaits :: "'b bitmap_ops \<Rightarrow> ('b, 'k) ssdSession \<Rightarrow> bool" where
  "ssdSenderWaits B s \<longleftrightarrow> \<not> dClosed s \<and> bmCount B (dCompleted s) = 0"

definition ssdSenderCollect :: "'b bitmap_ops \<Rightarrow> ('b, 'k) ssdSession \<Rightarrow> 'b \<times> ('b, 'k) ssdSession" where
  "ssdSenderCollect B s = (
     let tmp = bmClone B (dCompleted s)
     in (tmp, s\<lparr>dCompleted := bmXor B (dCompleted s) tmp, dNumPending := isub (dNumPending s) (int (bmCount B tmp))\<rparr>))"

definition ssdSenderDrainWaits :: "'b bitmap_ops \<Rightarrow> ('b, 'k) ssdSession \<Rightarrow> bool" where
  "ssdSenderDrainWaits B s \<longleftrightarrow> \<not> dClosed s \<or> bmCount B (dAvail s) + bmCount B (dCompleted s) < SsdMaxWindow"

primrec ssdPutAll :: "'b bitmap_ops \<Rightarrow> nat list \<Rightarrow> ('b, 'k) ssdSession \<Rightarrow> ('b, 'k) ssdSession option" where
  "ssdPutAll B [] s = Some s"
| "ssdPutAll B (i # is) s = do {
     p \<leftarrow> dslot_at s (int i);
     s' \<leftarrow> (if p \<noteq> None then ssdPutSlot B s (int i) else Some s);
     ssdPutAll B is s'
   }"

definition ssdSenderExit :: "'b bitmap_ops \<Rightarrow> ('b, 'k) ssdSession \<Rightarrow> ('b, 'k) ssdSession option" where
  "ssdSenderExit B s = do { s1 \<leftarrow> ssdPutAll B [0..<SsdMaxWindow] s; Some (s1\<lparr>dSendDone := True\<rparr>) }"

section \<open>The worker\<close>

text \<open>The threshold of \<open>sd_config.go\<close>, and the one of the evaluation.\<close>

definition SedaQdelayThresh :: u64 where "SedaQdelayThresh = 200"
definition SedaQdelayThresh_eval :: u64 where "SedaQdelayThresh_eval = 1500"

definition ssdComplete :: "'b bitmap_ops \<Rightarrow> int \<Rightarrow> ('b, 'k) ssdSession \<Rightarrow> ('b, 'k) ssdSession" where
  "ssdComplete B idx s = s\<lparr>dCompleted := bmSet B (unat (word_of_int idx :: u32)) (dCompleted s), dSignalled := True\<rparr>"

definition ssdWorker ::
  "'b bitmap_ops \<Rightarrow> u64 \<Rightarrow> (srpcCtx \<Rightarrow> srpcCtx) \<Rightarrow> nat \<Rightarrow> ssdOps \<Rightarrow> ('b, 'k) ssdSession \<Rightarrow> world \<Rightarrow>
   (ssdOps \<times> ('b, 'k) ssdSession) option" where
  "ssdWorker B thresh handler i os s w = do {
     p \<leftarrow> dslot_at s (int i);
     c \<leftarrow> p;
     let maxQueueDelay = QueueDelayMax_of w div 1000;
     let cmn = (dCmn c)\<lparr>Drop := (maxQueueDelay \<ge> thresh)\<rparr>;
     let cmn = (if \<not> Drop cmn then handler cmn else cmn);
     let os1 = (if Drop cmn then os\<lparr>oReqDropped := AtomicAddUint64 (oReqDropped os) 1\<rparr> else os);
     Some (os1, ssdComplete B (Idx cmn) (s\<lparr>dSlots := (dSlots s)[i := Some (c\<lparr>dCmn := cmn\<rparr>)]\<rparr>))
   }"

section \<open>The receiver\<close>

datatype sdOutcome = SdAgain | SdRet int | SdSpawn nat

definition ssdRecvHdr :: "'k reader \<Rightarrow> 'k \<Rightarrow> (csdHdr option \<times> 'k) option" where
  "ssdRecvHdr rd k = do {
     (n, err, buf, k1) \<leftarrow> ReadFull rd (replicate sd_hdr_size 0) k;
     let chdr = CsdHdr_of_bytes buf;
     Some (if err \<noteq> None then (None, k1)
           else if hMagic chdr \<noteq> SdReqMagic then (None, k1)
           else if unat (hLen chdr) > SrpcBufSize then (None, k1)
           else (Some chdr, k1))
   }"

definition ssdRecvCall ::
  "'b bitmap_ops \<Rightarrow> 'k reader \<Rightarrow> ssdCtx \<Rightarrow> csdHdr \<Rightarrow> ssdOps \<Rightarrow> ('b, 'k) ssdSession \<Rightarrow>
   (sdOutcome \<times> ssdOps \<times> ('b, 'k) ssdSession) option" where
  "ssdRecvCall B rd pooled chdr os s = do {
     let os1 = os\<lparr>oReqRx := AtomicAddUint64 (oReqRx os) 1\<rparr>;
     (idx, s1) \<leftarrow> ssdGetSlot B pooled s;
     if idx < 0 then do {
       (n, err, buf, k) \<leftarrow> ReadFull rd (replicate (unat (hLen chdr)) 0) (dConn s1);
       Some (SdAgain, os1\<lparr>oReqDropped := AtomicAddUint64 (oReqDropped os1) 1\<rparr>, s1\<lparr>dConn := k\<rparr>)
     } else do {
       p \<leftarrow> dslot_at s1 idx;
       ctx \<leftarrow> p;
       (n, err, buf, k) \<leftarrow> ReadFull rd (take (unat (hLen chdr)) (ReqBuf (dCmn ctx))) (dConn s1);
       let s2 = s1\<lparr>dConn := k\<rparr>;
       if err \<noteq> None then do {
         s3 \<leftarrow> ssdPutSlot B s2 idx;
         Some (SdRet (- 1), os1, s3)
       } else do {
         let ctx1 = ctx\<lparr>dCmn := (dCmn ctx)\<lparr>ReqBuf := buf @ drop (unat (hLen chdr)) (ReqBuf (dCmn ctx)),
                        ReqLen := hLen chdr, RespLen := 0, CtxId := hId chdr\<rparr>, dTs := hTs chdr\<rparr>;
         Some (SdSpawn (nat idx), os1\<lparr>oNumPending := AtomicAddUint64 (oNumPending os1) 1\<rparr>,
               s2\<lparr>dSlots := (dSlots s2)[nat idx := Some ctx1], dNumPending := iadd (dNumPending s2) 1\<rparr>)
       }
     }
   }"

definition ssdRecvMsg ::
  "'b bitmap_ops \<Rightarrow> 'k reader \<Rightarrow> ssdCtx \<Rightarrow> csdHdr \<Rightarrow> ssdOps \<Rightarrow> ('b, 'k) ssdSession \<Rightarrow>
   (sdOutcome \<times> ssdOps \<times> ('b, 'k) ssdSession) option" where
  "ssdRecvMsg B rd pooled chdr os s =
     (if hOp chdr = SdOpCall then ssdRecvCall B rd pooled chdr os s
      else if hOp chdr = SdOpWinUpdate then Some (SdRet (- 1), os, s)
      else Some (SdRet (- 1), os, s))"

definition ssdRecvPass ::
  "'b bitmap_ops \<Rightarrow> 'k reader \<Rightarrow> ssdCtx \<Rightarrow> ssdOps \<Rightarrow> ('b, 'k) ssdSession \<Rightarrow>
   (sdOutcome \<times> ssdOps \<times> ('b, 'k) ssdSession) option" where
  "ssdRecvPass B rd pooled os s = do {
     (h, k) \<leftarrow> ssdRecvHdr rd (dConn s);
     (case h of
        None \<Rightarrow> Some (SdRet (- 1), os, s\<lparr>dConn := k\<rparr>)
      | Some chdr \<Rightarrow> ssdRecvMsg B rd pooled chdr os (s\<lparr>dConn := k\<rparr>))
   }"

partial_function (option) ssdRecvOne ::
  "'b bitmap_ops \<Rightarrow> 'k reader \<Rightarrow> ssdCtx \<Rightarrow> ssdOps \<Rightarrow> ('b, 'k) ssdSession \<Rightarrow>
   (sdOutcome \<times> ssdOps \<times> ('b, 'k) ssdSession) option" where
  "ssdRecvOne B rd pooled os s =
     (case ssdRecvPass B rd pooled os s of
        None \<Rightarrow> None
      | Some (r, os1, s1) \<Rightarrow> (if r = SdAgain then ssdRecvOne B rd pooled os1 s1 else Some (r, os1, s1)))"

section \<open>Opening and closing a session\<close>

definition ssdNewSession :: "'b bitmap_ops \<Rightarrow> 'k \<Rightarrow> int \<Rightarrow> ('b, 'k) ssdSession" where
  "ssdNewSession B k ident = (
     let idxs = [0..<SsdMaxWindow]
     in \<lparr>dConn = k, dId = ident, dNumPending = 0, dClosed = False,
         dAvail = fold (bmSet B) idxs (bmGrow B SsdMaxWindow (bmZero B)),
         dCompleted = fold (bmRemove B) idxs (bmGrow B SsdMaxWindow (bmZero B)),
         dSlots = replicate SsdMaxWindow None, dSignalled = False, dSendDone = False\<rparr>)"

definition ssdServer_open :: "'b bitmap_ops \<Rightarrow> 'k \<Rightarrow> ssdOps \<Rightarrow> ssdOps \<times> ('b, 'k) ssdSession" where
  "ssdServer_open B k os = (
     let n = AtomicAddUint64 (oNumSess os) 1
     in (os\<lparr>oNumSess := n\<rparr>, ssdNewSession B k (u2i n)))"

definition ssdServer_close :: "ssdOps \<Rightarrow> ('b, 'k) ssdSession \<Rightarrow> ssdOps \<times> ('b, 'k) ssdSession" where
  "ssdServer_close os s = (
     let os1 = os\<lparr>oNumPending := AtomicSubUint64 (oNumPending os) (i2u (dNumPending s))\<rparr>;
         os2 = os1\<lparr>oNumSess := AtomicSubUint64 (oNumSess os1) 1\<rparr>
     in (os2, s\<lparr>dNumPending := 0, dClosed := True, dSignalled := True\<rparr>))"

definition ssdListener_init :: "ssdOps \<Rightarrow> ssdOps" where
  "ssdListener_init os = os\<lparr>oNumSess := 0, oNumActive := 0, oNumPending := 0, oReqRx := 0, oReqDropped := 0, oRespTx := 0\<rparr>"

definition ssdEnable :: "'h \<Rightarrow> 'h option \<Rightarrow> ssdOps \<Rightarrow> int \<times> 'h option \<times> ssdOps" where
  "ssdEnable handler current os =
     (case current of Some h \<Rightarrow> (- 1, current, os) | None \<Rightarrow> (0, Some handler, ssdListener_init os))"

definition ssdStatCUpdateRx :: "ssdOps \<Rightarrow> u64" where "ssdStatCUpdateRx os = 0"
definition ssdStatECreditTx :: "ssdOps \<Rightarrow> u64" where "ssdStatECreditTx os = 0"
definition ssdStatCreditTx :: "ssdOps \<Rightarrow> u64" where "ssdStatCreditTx os = 0"
definition ssdStatReqRx :: "ssdOps \<Rightarrow> u64" where "ssdStatReqRx os = AtomicGetUint64 (oReqRx os)"
definition ssdStatReqDropped :: "ssdOps \<Rightarrow> u64" where "ssdStatReqDropped os = AtomicGetUint64 (oReqDropped os)"
definition ssdStatRespTx :: "ssdOps \<Rightarrow> u64" where "ssdStatRespTx os = AtomicGetUint64 (oRespTx os)"

end
