(* ===== verification/Seda_System.thy ===== *)
theory Seda_System
  imports Seda_Server Pcc_System
begin

text \<open>
  The servers without credits, \<open>src/ovldctlrpc/seda/sd_server.go\<close> and
  \<open>src/ovldctlrpc/nocontrol/nc_server.go\<close>, as one transition system: they share the session, the sender
  and the closing of a session, and differ in the worker and in the receiver, which are parameters here.
  The locale \<open>plain_server\<close> states what these two have to do to a session; the invariant \<open>zok\<close> and
  the absence of panics follow once for both.
\<close>

section \<open>Configurations and steps\<close>

datatype 'b zPc = ZCheck | ZWait | ZSend 'b | ZDrain | ZDrainWait | ZDone

record ('b, 'k) plainEnv =
  pB :: "'b bitmap_ops"
  pWr :: "'k writer"
  pRecv :: "ssdCtx \<Rightarrow> ssdOps \<Rightarrow> ('b, 'k) ssdSession \<Rightarrow> world \<Rightarrow> (sdOutcome \<times> ssdOps \<times> ('b, 'k) ssdSession) option"
  pWork :: "nat \<Rightarrow> ssdOps \<Rightarrow> ('b, 'k) ssdSession \<Rightarrow> world \<Rightarrow> (ssdOps \<times> ('b, 'k) ssdSession) option"

record ('b, 'k) zConf =
  zops :: ssdOps
  zsess :: "nat \<Rightarrow> ('b, 'k) ssdSession option"
  zpc :: "nat \<Rightarrow> 'b zPc"
  zrun :: "nat \<Rightarrow> nat set"

definition dpooled_ok :: "ssdCtx \<Rightarrow> bool" where
  "dpooled_ok c \<longleftrightarrow> length (ReqBuf (dCmn c)) = SrpcBufSize \<and> length (RespBuf (dCmn c)) = SrpcBufSize \<and>
     unat (ReqLen (dCmn c)) \<le> SrpcBufSize \<and> unat (RespLen (dCmn c)) \<le> SrpcBufSize"

definition set_z ::
  "nat \<Rightarrow> ssdOps \<Rightarrow> ('b, 'k) ssdSession \<Rightarrow> 'b zPc \<Rightarrow> nat set \<Rightarrow> ('b, 'k) zConf \<Rightarrow> ('b, 'k) zConf" where
  "set_z p os s pc run c =
     c\<lparr>zops := os, zsess := (zsess c)(p \<mapsto> s), zpc := (zpc c)(p := pc), zrun := (zrun c)(p := run)\<rparr>"

definition sd_spawned :: "sdOutcome \<Rightarrow> nat set" where
  "sd_spawned r = (case r of SdSpawn i \<Rightarrow> {i} | _ \<Rightarrow> {})"

inductive plain_step :: "('b, 'k) plainEnv \<Rightarrow> ('b, 'k) zConf \<Rightarrow> ('b, 'k) zConf \<Rightarrow> bool"
  for E :: "('b, 'k) plainEnv" where
  Accept: "\<lbrakk>zsess c p = None; card (dom (zsess c)) < max_sessions; ssdServer_open (pB E) k (zops c) = (os, s)\<rbrakk>
    \<Longrightarrow> plain_step E c (set_z p os s ZCheck {} c)"
| Receive: "\<lbrakk>zsess c p = Some s; \<not> dClosed s; dpooled_ok pooled; pRecv E pooled (zops c) s w = Some (r, os, s')\<rbrakk>
    \<Longrightarrow> plain_step E c (set_z p os s' (zpc c p) (zrun c p \<union> sd_spawned r) c)"
| Work: "\<lbrakk>zsess c p = Some s; i \<in> zrun c p; pWork E i (zops c) s w = Some (os, s')\<rbrakk>
    \<Longrightarrow> plain_step E c (set_z p os s' (zpc c p) (zrun c p - {i}) c)"
| Wait: "\<lbrakk>zsess c p = Some s; zpc c p = ZCheck; ssdSenderWaits (pB E) s\<rbrakk>
    \<Longrightarrow> plain_step E c (set_z p (zops c) (s\<lparr>dSignalled := False\<rparr>) ZWait (zrun c p) c)"
| Wake: "\<lbrakk>zsess c p = Some s; zpc c p = ZWait; dSignalled s\<rbrakk>
    \<Longrightarrow> plain_step E c (set_z p (zops c) s ZCheck (zrun c p) c)"
| Leave: "\<lbrakk>zsess c p = Some s; zpc c p = ZCheck; \<not> ssdSenderWaits (pB E) s; dClosed s\<rbrakk>
    \<Longrightarrow> plain_step E c (set_z p (zops c) s ZDrain (zrun c p) c)"
| Collect: "\<lbrakk>zsess c p = Some s; zpc c p = ZCheck; \<not> ssdSenderWaits (pB E) s; \<not> dClosed s;
     ssdSenderCollect (pB E) s = (tmp, s')\<rbrakk>
    \<Longrightarrow> plain_step E c (set_z p (zops c) s' (ZSend tmp) (zrun c p) c)"
| Send: "\<lbrakk>zsess c p = Some s; zpc c p = ZSend tmp;
     ssdSendCompletionVector (pB E) (pWr E) (zops c) s tmp = Some (os, s')\<rbrakk>
    \<Longrightarrow> plain_step E c (set_z p os s' ZCheck (zrun c p) c)"
| DrainWait: "\<lbrakk>zsess c p = Some s; zpc c p = ZDrain; ssdSenderDrainWaits (pB E) s\<rbrakk>
    \<Longrightarrow> plain_step E c (set_z p (zops c) (s\<lparr>dSignalled := False\<rparr>) ZDrainWait (zrun c p) c)"
| DrainWake: "\<lbrakk>zsess c p = Some s; zpc c p = ZDrainWait; dSignalled s\<rbrakk>
    \<Longrightarrow> plain_step E c (set_z p (zops c) s ZDrain (zrun c p) c)"
| Exit: "\<lbrakk>zsess c p = Some s; zpc c p = ZDrain; \<not> ssdSenderDrainWaits (pB E) s; ssdSenderExit (pB E) s = Some s'\<rbrakk>
    \<Longrightarrow> plain_step E c (set_z p (zops c) s' ZDone (zrun c p) c)"
| CloseStep: "\<lbrakk>zsess c p = Some s; \<not> dClosed s; ssdServer_close (zops c) s = (os, s')\<rbrakk>
    \<Longrightarrow> plain_step E c (set_z p os s' (zpc c p) (zrun c p) c)"
| Finish: "\<lbrakk>zsess c p = Some s; zpc c p = ZDone; dClosed s; dSendDone s\<rbrakk>
    \<Longrightarrow> plain_step E c (c\<lparr>zsess := (zsess c)(p := None)\<rparr>)"

definition plain_start :: "ssdOps \<Rightarrow> ('b, 'k) zConf" where
  "plain_start os = \<lparr>zops = ssdListener_init os, zsess = (\<lambda>_. None), zpc = (\<lambda>_. ZCheck), zrun = (\<lambda>_. {})\<rparr>"

inductive plain_reachable :: "('b, 'k) plainEnv \<Rightarrow> ('b, 'k) zConf \<Rightarrow> bool" for E :: "('b, 'k) plainEnv" where
  start: "plain_reachable E (plain_start os)"
| step: "\<lbrakk>plain_reachable E c; plain_step E c c'\<rbrakk> \<Longrightarrow> plain_reachable E c'"

section \<open>The invariant\<close>

definition doccupied :: "('b, 'k) ssdSession \<Rightarrow> nat set" where
  "doccupied s = {i. i < length (dSlots s) \<and> dSlots s ! i \<noteq> None}"

definition dslots_ok :: "('b \<Rightarrow> nat set) \<Rightarrow> ('b, 'k) ssdSession \<Rightarrow> bool" where
  "dslots_ok bits s \<longleftrightarrow> length (dSlots s) = SsdMaxWindow \<and>
     bits (dAvail s) = {i. i < SsdMaxWindow} - doccupied s \<and> bits (dCompleted s) \<subseteq> doccupied s \<and>
     (\<forall>i c. i < SsdMaxWindow \<longrightarrow> dSlots s ! i = Some c \<longrightarrow> cmn_ok i (dCmn c))"

definition zsending :: "('b \<Rightarrow> nat set) \<Rightarrow> 'b zPc \<Rightarrow> nat set" where
  "zsending bits pc = (case pc of ZSend v \<Rightarrow> bits v | _ \<Rightarrow> {})"

definition zpc_ok :: "'b bitmap_ops \<Rightarrow> 'b zPc \<Rightarrow> ('b, 'k) ssdSession \<Rightarrow> bool" where
  "zpc_ok B pc s = (case pc of
     ZWait \<Rightarrow> dSignalled s \<or> ssdSenderWaits B s
   | ZDrain \<Rightarrow> dClosed s
   | ZDrainWait \<Rightarrow> dClosed s \<and> (dSignalled s \<or> ssdSenderDrainWaits B s)
   | ZDone \<Rightarrow> dClosed s \<and> dSendDone s \<and> doccupied s = {}
   | _ \<Rightarrow> True)"

definition zsess_ok :: "'b bitmap_ops \<Rightarrow> ('b \<Rightarrow> nat set) \<Rightarrow> 'b zPc \<Rightarrow> nat set \<Rightarrow> ('b, 'k) ssdSession \<Rightarrow> bool" where
  "zsess_ok B bits pc run s \<longleftrightarrow>
     (if pc = ZDone then run = {}
      else dslots_ok bits s \<and> run \<inter> bits (dCompleted s) = {} \<and> (run \<union> bits (dCompleted s)) \<inter> zsending bits pc = {} \<and>
        doccupied s = run \<union> bits (dCompleted s) \<union> zsending bits pc) \<and>
     dNumPending s = (if dClosed s then 0 else int (card (run \<union> bits (dCompleted s)))) \<and> zpc_ok B pc s"

definition zpend :: "('b \<Rightarrow> nat set) \<Rightarrow> 'b zPc \<Rightarrow> ('b, 'k) ssdSession \<Rightarrow> int" where
  "zpend bits pc s = dNumPending s + int (card (zsending bits pc))"

definition zpend_sum :: "('b \<Rightarrow> nat set) \<Rightarrow> ('b, 'k) zConf \<Rightarrow> int" where
  "zpend_sum bits c = (\<Sum>p\<in>dom (zsess c). zpend bits (zpc c p) (the (zsess c p)))"

definition zopen :: "('b, 'k) zConf \<Rightarrow> nat set" where
  "zopen c = {p. \<exists>s. zsess c p = Some s \<and> \<not> dClosed s}"

definition zok :: "'b bitmap_ops \<Rightarrow> ('b \<Rightarrow> nat set) \<Rightarrow> ('b, 'k) zConf \<Rightarrow> bool" where
  "zok B bits c \<longleftrightarrow> finite (dom (zsess c)) \<and> card (dom (zsess c)) \<le> max_sessions \<and>
     (\<forall>p s. zsess c p = Some s \<longrightarrow> zsess_ok B bits (zpc c p) (zrun c p) s) \<and>
     oNumSess (zops c) = of_nat (card (zopen c)) \<and> oNumPending (zops c) = i2u (zpend_sum bits c)"

lemma zokD:
  assumes "zok B bits c"
  shows "finite (dom (zsess c))" "card (dom (zsess c)) \<le> max_sessions"
    "\<And>p s. zsess c p = Some s \<Longrightarrow> zsess_ok B bits (zpc c p) (zrun c p) s"
    "oNumSess (zops c) = of_nat (card (zopen c))" "oNumPending (zops c) = i2u (zpend_sum bits c)"
  using assms unfolding zok_def by blast+

lemma set_z_sel [simp]:
  "zops (set_z p os s pc run c) = os" "zsess (set_z p os s pc run c) = (zsess c)(p \<mapsto> s)"
  "zpc (set_z p os s pc run c) = (zpc c)(p := pc)" "zrun (set_z p os s pc run c) = (zrun c)(p := run)"
  by (simp_all add: set_z_def)

lemma zopen_finite: "finite (dom (zsess c)) \<Longrightarrow> finite (zopen c)"
  by (rule finite_subset [of _ "dom (zsess c)"]) (auto simp: zopen_def)

lemma zpend_sum_upd:
  assumes "finite (dom (zsess c))" "zsess c p = Some s"
  shows "zpend_sum bits (set_z p os s' pc run c) = zpend_sum bits c - zpend bits (zpc c p) s + zpend bits pc s'"
proof -
  let ?f = "\<lambda>q. zpend bits (zpc c q) (the (zsess c q))"
  have "zpend_sum bits (set_z p os s' pc run c) = (\<Sum>q\<in>dom (zsess c). (?f(p := zpend bits pc s')) q)"
    unfolding zpend_sum_def using assms(2) by (intro sum.cong) (auto simp: insert_absorb)
  also have "\<dots> = zpend_sum bits c - zpend bits (zpc c p) s + zpend bits pc s'"
    using assms unfolding zpend_sum_def by (subst sum_fun_upd_int) auto
  finally show ?thesis .
qed

lemma zok_upd:
  assumes ok: "zok B bits c" and p: "zsess c p = Some s" and s': "zsess_ok B bits pc run s'"
    and cl: "if dClosed s' \<and> \<not> dClosed s then oNumSess os = oNumSess (zops c) - 1
             else dClosed s' = dClosed s \<and> oNumSess os = oNumSess (zops c)"
    and np: "oNumPending os = oNumPending (zops c) + i2u (zpend bits pc s' - zpend bits (zpc c p) s)"
  shows "zok B bits (set_z p os s' pc run c)"
proof -
  note d = zokD [OF ok]
  let ?c = "set_z p os s' pc run c"
  have dom: "dom (zsess ?c) = dom (zsess c)" using p by auto
  have fo: "finite (zopen c)" using d(1) by (rule zopen_finite)
  have num: "oNumSess os = of_nat (card (zopen ?c))"
  proof (cases "dClosed s' \<and> \<not> dClosed s")
    case True
    have po: "p \<in> zopen c" using p True by (simp add: zopen_def)
    then have "card (zopen c) = Suc (card (zopen c - {p}))" using fo by (metis card_Suc_Diff1)
    moreover have "zopen ?c = zopen c - {p}" using True by (auto simp: zopen_def)
    ultimately show ?thesis using True cl d(4) by simp
  next
    case False
    then have "zopen ?c = zopen c" using cl p by (auto simp: zopen_def)
    then show ?thesis using False cl d(4) by simp
  qed
  have "oNumPending os = i2u (zpend_sum bits ?c)"
    unfolding zpend_sum_upd [OF d(1) p] np d(5) by (simp add: i2u_def)
  moreover have "\<forall>q t. zsess ?c q = Some t \<longrightarrow> zsess_ok B bits (zpc ?c q) (zrun ?c q) t"
    using d(3) s' by simp
  ultimately show ?thesis unfolding zok_def using num dom d(1,2) by simp
qed

text \<open>Only three fields of a session matter for the window.\<close>

lemma doccupied_cong: "dSlots s' = dSlots s \<Longrightarrow> doccupied s' = doccupied s"
  by (simp add: doccupied_def)

lemma dslots_ok_cong:
  "\<lbrakk>dSlots s' = dSlots s; dAvail s' = dAvail s; dCompleted s' = dCompleted s\<rbrakk> \<Longrightarrow> dslots_ok bits s' = dslots_ok bits s"
  by (simp add: dslots_ok_def doccupied_def)

lemma doccupied_finite [simp]: "finite (doccupied s)"
  by (simp add: doccupied_def)

lemma doccupied_card: "dslots_ok bits s \<Longrightarrow> card (doccupied s) \<le> 64"
proof -
  assume "dslots_ok bits s"
  then have "doccupied s \<subseteq> {i. i < 64}" by (auto simp: dslots_ok_def doccupied_def)
  then have "card (doccupied s) \<le> card {i. i < (64::nat)}" by (intro card_mono) simp_all
  then show ?thesis by simp
qed

section \<open>The operations on one session\<close>

context credit_server
begin

lemma dGetSlot_spec:
  assumes ok: "dslots_ok bits s" and p: "dpooled_ok pooled"
  shows "ssdGetSlot B pooled s = Some (- 1, s) \<or>
    (\<exists>i c. ssdGetSlot B pooled s =
         Some (int i, s\<lparr>dAvail := bmRemove B i (dAvail s), dSlots := (dSlots s)[i := Some c]\<rparr>) \<and>
       i < 64 \<and> i \<notin> doccupied s \<and> c = pooled\<lparr>dCmn := (dCmn pooled)\<lparr>Idx := int i\<rparr>\<rparr> \<and> cmn_ok i (dCmn c) \<and>
       dslots_ok bits (s\<lparr>dAvail := bmRemove B i (dAvail s), dSlots := (dSlots s)[i := Some c]\<rparr>) \<and>
       doccupied (s\<lparr>dAvail := bmRemove B i (dAvail s), dSlots := (dSlots s)[i := Some c]\<rparr>) = insert i (doccupied s))"
proof (cases "bits (dAvail s) = {}")
  case True
  then show ?thesis by (simp add: ssdGetSlot_def bits_min)
next
  case False
  then obtain i where m: "bmMin B (dAvail s) = (i, True)" and i: "i \<in> bits (dAvail s)" by (simp add: bits_min)
  have len: "length (dSlots s) = 64" using ok by (simp add: dslots_ok_def)
  have i64: "i < 64" "i \<notin> doccupied s" using i ok by (auto simp: dslots_ok_def)
  let ?c = "pooled\<lparr>dCmn := (dCmn pooled)\<lparr>Idx := int i\<rparr>\<rparr>"
  let ?s = "s\<lparr>dAvail := bmRemove B i (dAvail s), dSlots := (dSlots s)[i := Some ?c]\<rparr>"
  have occ: "doccupied ?s = insert i (doccupied s)" using i64 len by (auto simp: doccupied_def nth_list_update)
  have cok: "cmn_ok i (dCmn ?c)" using p by (simp add: cmn_ok_def dpooled_ok_def)
  have "dslots_ok bits ?s"
    using ok i64 occ cok len by (auto simp: dslots_ok_def bits_remove nth_list_update)
  then show ?thesis using m i64 len occ cok by (intro disjI2 exI [of _ i] exI [of _ ?c]) (simp add: ssdGetSlot_def)
qed

lemma dPutSlot_occupied:
  assumes ok: "dslots_ok bits s" and i: "i \<in> doccupied s" "i \<notin> bits (dCompleted s)"
  shows "\<exists>s'. ssdPutSlot B s (int i) = Some s' \<and>
     s' = s\<lparr>dSlots := (dSlots s)[i := None], dAvail := bmSet B i (dAvail s)\<rparr> \<and>
     dslots_ok bits s' \<and> doccupied s' = doccupied s - {i}"
proof -
  let ?s = "s\<lparr>dSlots := (dSlots s)[i := None], dAvail := bmSet B i (dAvail s)\<rparr>"
  have len: "length (dSlots s) = 64" and i64: "i < 64" using ok i by (auto simp: dslots_ok_def doccupied_def)
  obtain c where c: "dSlots s ! i = Some c" using i by (auto simp: doccupied_def)
  have occ: "doccupied ?s = doccupied s - {i}"
    using i64 len by (auto simp: doccupied_def nth_list_update split: if_splits)
  have "dslots_ok bits ?s"
    using ok i i64 occ len by (auto simp: dslots_ok_def bits_set nth_list_update split: if_splits)
  then show ?thesis using c i64 len occ by (simp add: ssdPutSlot_def dslot_at_def)
qed

lemma dSendOne_ok:
  assumes ok: "dslots_ok bits s" and i: "i \<in> doccupied s" "i \<notin> bits (dCompleted s)"
  shows "\<exists>os' s' k rt. ssdSendOne B wr i os s = Some (os', s') \<and>
     os' = os\<lparr>oNumPending := oNumPending os - 1, oRespTx := rt\<rparr> \<and>
     s' = s\<lparr>dConn := k, dSlots := (dSlots s)[i := None], dAvail := bmSet B i (dAvail s)\<rparr> \<and>
     dslots_ok bits s' \<and> doccupied s' = doccupied s - {i}"
proof -
  have len: "length (dSlots s) = 64" and i64: "i < 64" using ok i by (auto simp: dslots_ok_def doccupied_def)
  obtain c where c: "dSlots s ! i = Some c" using i by (auto simp: doccupied_def)
  have bl: "\<not> length (RespBuf (dCmn c)) < unat (RespLen (dCmn c))"
    using ok c i64 by (auto simp: dslots_ok_def cmn_ok_def not_less)
  obtain n err k where w: "WriteFull wr (CsdHdr_bytes (sd_response_hdr c)) (dConn s) = Some (n, err, k)"
    using WriteFull_sink by blast
  obtain n2 err2 k2 where
    w2: "WriteFull wr (take (unat (RespLen (dCmn c))) (RespBuf (dCmn c))) k = Some (n2, err2, k2)"
    using WriteFull_sink by blast
  let ?k = "if err \<noteq> None then k else k2"
  let ?s = "s\<lparr>dConn := ?k\<rparr>"
  have "dslots_ok bits ?s" "i \<in> doccupied ?s" "i \<notin> bits (dCompleted ?s)" "doccupied ?s = doccupied s"
    using ok i dslots_ok_cong [of ?s s bits] doccupied_cong [of ?s s] by simp_all
  from dPutSlot_occupied [OF this(1-3)] this(4) obtain s' where
    s': "ssdPutSlot B ?s (int i) = Some s'"
      "s' = s\<lparr>dConn := ?k, dSlots := (dSlots s)[i := None], dAvail := bmSet B i (dAvail s)\<rparr>"
      "dslots_ok bits s'" "doccupied s' = doccupied s - {i}"
    by auto
  have sl: "dslot_at s (int i) = Some (Some c)" using i64 len c by (simp add: dslot_at_def)
  let ?n = "if err = None \<and> err2 = None then oRespTx os + 1 else oRespTx os"
  have "ssdSendOne B wr i os s = Some (os\<lparr>oNumPending := oNumPending os - 1, oRespTx := ?n\<rparr>, s')"
    using s'(1) by (cases err; cases err2) (simp_all add: ssdSendOne_def sl w w2 bl Let_def)
  then show ?thesis using s' by (intro exI [of _ "os\<lparr>oNumPending := oNumPending os - 1, oRespTx := ?n\<rparr>"]
      exI [of _ s'] exI [of _ ?k] exI [of _ ?n]) simp
qed

lemma dSendAll_ok:
  assumes "dslots_ok bits s" "distinct is" "set is \<subseteq> doccupied s" "set is \<inter> bits (dCompleted s) = {}"
  shows "\<exists>os' s' k rt av sl. ssdSendAll B wr is os s = Some (os', s') \<and>
     os' = os\<lparr>oNumPending := oNumPending os - of_nat (length is), oRespTx := rt\<rparr> \<and>
     s' = s\<lparr>dConn := k, dSlots := sl, dAvail := av\<rparr> \<and> dslots_ok bits s' \<and> doccupied s' = doccupied s - set is"
  using assms
proof (induction "is" arbitrary: os s)
  case Nil
  show ?case
    by (rule exI [of _ os], rule exI [of _ s], rule exI [of _ "dConn s"], rule exI [of _ "oRespTx os"],
        rule exI [of _ "dAvail s"], rule exI [of _ "dSlots s"]) (use Nil in simp)
next
  case (Cons i rest)
  from dSendOne_ok [of s i os] Cons.prems obtain os1 s1 k1 n1 where
    1: "ssdSendOne B wr i os s = Some (os1, s1)"
      "os1 = os\<lparr>oNumPending := oNumPending os - 1, oRespTx := n1\<rparr>"
      "s1 = s\<lparr>dConn := k1, dSlots := (dSlots s)[i := None], dAvail := bmSet B i (dAvail s)\<rparr>"
      "dslots_ok bits s1" "doccupied s1 = doccupied s - {i}"
    by auto
  have cs: "dCompleted s1 = dCompleted s" using 1(3) by simp
  have "distinct rest" "set rest \<subseteq> doccupied s1" "set rest \<inter> bits (dCompleted s1) = {}"
    using Cons.prems 1(5) cs by auto
  from Cons.IH [OF 1(4) this, of os1] obtain os2 s2 k2 n2 av2 sl2 where
    2: "ssdSendAll B wr rest os1 s1 = Some (os2, s2)"
      "os2 = os1\<lparr>oNumPending := oNumPending os1 - of_nat (length rest), oRespTx := n2\<rparr>"
      "s2 = s1\<lparr>dConn := k2, dSlots := sl2, dAvail := av2\<rparr>" "dslots_ok bits s2" "doccupied s2 = doccupied s1 - set rest"
    by blast
  have o: "os2 = os\<lparr>oNumPending := oNumPending os - of_nat (length (i # rest)), oRespTx := n2\<rparr>"
    by (simp add: 2(2) 1(2) algebra_simps)
  have s: "s2 = s\<lparr>dConn := k2, dSlots := sl2, dAvail := av2\<rparr>" by (simp add: 2(3) 1(3))
  have "ssdSendAll B wr (i # rest) os s = Some (os2, s2)" using 1(1) 2(1) by simp
  moreover have "doccupied s2 = doccupied s - set (i # rest)" using 1(5) 2(5) by auto
  ultimately show ?case using o s 2(4) by blast
qed

lemma dPutAll_total:
  assumes "length (dSlots s) = 64" "set is \<subseteq> {..<64}"
  shows "\<exists>sl av. ssdPutAll B is s = Some (s\<lparr>dSlots := sl, dAvail := av\<rparr>) \<and> length sl = 64 \<and>
     (\<forall>i<64. i \<in> set is \<or> dSlots s ! i = None \<longrightarrow> sl ! i = None)"
  using assms
proof (induction "is" arbitrary: s)
  case Nil
  then show ?case by (intro exI [of _ "dSlots s"] exI [of _ "dAvail s"]) simp
next
  case (Cons i rest)
  have i: "i < 64" "set rest \<subseteq> {..<64}" using Cons.prems by auto
  have sl: "dslot_at s (int i) = Some (dSlots s ! i)" using i Cons.prems(1) by (simp add: dslot_at_def)
  let ?s = "if dSlots s ! i \<noteq> None
    then s\<lparr>dSlots := (dSlots s)[i := None], dAvail := bmSet B i (dAvail s)\<rparr> else s"
  have st: "(if dSlots s ! i \<noteq> None then ssdPutSlot B s (int i) else Some s) = Some ?s"
    using sl by (auto simp: ssdPutSlot_def)
  have "length (dSlots ?s) = 64" using Cons.prems(1) by simp
  from Cons.IH [OF this i(2)] obtain sl' av where
    r: "ssdPutAll B rest ?s = Some (?s\<lparr>dSlots := sl', dAvail := av\<rparr>)" "length sl' = 64"
      "\<forall>j<64. j \<in> set rest \<or> dSlots ?s ! j = None \<longrightarrow> sl' ! j = None" by blast
  have "\<forall>j<64. j \<in> set (i # rest) \<or> dSlots s ! j = None \<longrightarrow> sl' ! j = None"
    using r(3) i Cons.prems(1) by (auto simp: nth_list_update split: if_splits)
  moreover have "ssdPutAll B (i # rest) s = Some (s\<lparr>dSlots := sl', dAvail := av\<rparr>)"
    using sl st r(1) by (simp split: if_splits)
  ultimately show ?case using r(2) by blast
qed

end

section \<open>What a receiver and a worker do to a session\<close>

text \<open>
  A pass of the receiver takes at most one slot: for the request it starts a worker for, or for a request
  it completes itself.  The request counts as pending, and a completion signals the sender.
\<close>

definition recv_effect ::
  "('b \<Rightarrow> nat set) \<Rightarrow> sdOutcome \<Rightarrow> ssdOps \<Rightarrow> ('b, 'k) ssdSession \<Rightarrow> ssdOps \<Rightarrow> ('b, 'k) ssdSession \<Rightarrow> bool" where
  "recv_effect bits r os s os' s' \<longleftrightarrow>
     (\<exists>new. finite new \<and> card new \<le> 1 \<and> new \<inter> doccupied s = {} \<and> sd_spawned r \<subseteq> new \<and>
        dslots_ok bits s' \<and> doccupied s' = doccupied s \<union> new \<and>
        bits (dCompleted s') = bits (dCompleted s) \<union> (new - sd_spawned r) \<and>
        (dSignalled s \<or> new - sd_spawned r \<noteq> {} \<longrightarrow> dSignalled s') \<and> dClosed s' = dClosed s \<and>
        dNumPending s' = dNumPending s + int (card new) \<and>
        oNumPending os' = oNumPending os + of_nat (card new) \<and> oNumSess os' = oNumSess os)"

definition work_effect ::
  "('b \<Rightarrow> nat set) \<Rightarrow> nat \<Rightarrow> ssdOps \<Rightarrow> ('b, 'k) ssdSession \<Rightarrow> ssdOps \<Rightarrow> ('b, 'k) ssdSession \<Rightarrow> bool" where
  "work_effect bits i os s os' s' \<longleftrightarrow> dslots_ok bits s' \<and> doccupied s' = doccupied s \<and> dAvail s' = dAvail s \<and>
     bits (dCompleted s') = insert i (bits (dCompleted s)) \<and> dSignalled s' \<and> dClosed s' = dClosed s \<and>
     dNumPending s' = dNumPending s \<and> oNumPending os' = oNumPending os \<and> oNumSess os' = oNumSess os"

locale plain_server = credit_server "pB E" bits "pWr E" sent
  for E :: "('b, 'k) plainEnv" and bits :: "'b \<Rightarrow> nat set" and sent :: "'k \<Rightarrow> byte list" +
  assumes recv_ok: "\<lbrakk>dslots_ok bits s; 0 \<le> dNumPending s; dNumPending s \<le> 64; dpooled_ok pooled\<rbrakk>
      \<Longrightarrow> \<exists>r os' s'. pRecv E pooled os s w = Some (r, os', s') \<and> recv_effect bits r os s os' s'"
    and work_ok: "\<lbrakk>dslots_ok bits s; i \<in> doccupied s\<rbrakk>
      \<Longrightarrow> \<exists>os' s'. pWork E i os s w = Some (os', s') \<and> work_effect bits i os s os' s'"
begin

abbreviation "B \<equiv> pB E"

text \<open>The window of a session that is not finished.\<close>

lemma live:
  assumes "zsess_ok B bits pc run s" "pc \<noteq> ZDone"
  shows "dslots_ok bits s" "run \<inter> bits (dCompleted s) = {}" "(run \<union> bits (dCompleted s)) \<inter> zsending bits pc = {}"
    "doccupied s = run \<union> bits (dCompleted s) \<union> zsending bits pc" "finite run" "finite (zsending bits pc)"
    "dNumPending s = (if dClosed s then 0 else int (card (run \<union> bits (dCompleted s))))"
    "0 \<le> dNumPending s" "dNumPending s \<le> 64"
proof -
  show 1: "dslots_ok bits s" "run \<inter> bits (dCompleted s) = {}" "(run \<union> bits (dCompleted s)) \<inter> zsending bits pc = {}"
    "doccupied s = run \<union> bits (dCompleted s) \<union> zsending bits pc"
    "dNumPending s = (if dClosed s then 0 else int (card (run \<union> bits (dCompleted s))))"
    using assms by (auto simp: zsess_ok_def)
  show "finite run" "finite (zsending bits pc)"
    using doccupied_finite [of s] unfolding 1(4) by simp_all
  have "card (run \<union> bits (dCompleted s)) \<le> card (doccupied s)"
    by (rule card_mono) (simp, use 1(4) in blast)
  then show "0 \<le> dNumPending s" "dNumPending s \<le> 64" using 1(5) doccupied_card [OF 1(1)] by auto
qed

lemma open_live: "zsess_ok B bits pc run s \<Longrightarrow> \<not> dClosed s \<Longrightarrow> pc \<notin> {ZDone, ZDrain, ZDrainWait}"
  by (auto simp: zsess_ok_def zpc_ok_def)

lemma run_live: "zsess_ok B bits pc run s \<Longrightarrow> i \<in> run \<Longrightarrow> pc \<noteq> ZDone"
  by (auto simp: zsess_ok_def)

lemma drain_waits: "dslots_ok bits s \<Longrightarrow> ssdSenderDrainWaits B s \<longleftrightarrow> \<not> dClosed s \<or> bits (dCompleted s) \<noteq> doccupied s"
proof -
  assume ok: "dslots_ok bits s"
  have av: "bits (dAvail s) = {i. i < 64} - doccupied s" and co: "bits (dCompleted s) \<subseteq> doccupied s"
    and o64: "doccupied s \<subseteq> {i. i < 64}" using ok by (auto simp: dslots_ok_def doccupied_def)
  have "card (bits (dAvail s)) = 64 - card (doccupied s)"
    unfolding av using o64 by (subst card_Diff_subset) simp_all
  moreover have "card (bits (dCompleted s)) < card (doccupied s) \<longleftrightarrow> bits (dCompleted s) \<noteq> doccupied s"
    using co by (metis doccupied_finite order_le_less psubset_card_mono less_irrefl)
  ultimately show ?thesis using doccupied_card [OF ok] by (auto simp: ssdSenderDrainWaits_def bits_count)
qed

section \<open>Every step preserves the invariant\<close>

lemma Receive_ok:
  assumes ok: "zok B bits c" and p: "zsess c p = Some s" and op: "\<not> dClosed s" and pool: "dpooled_ok pooled"
  shows "\<exists>r os' s'. pRecv E pooled (zops c) s w = Some (r, os', s') \<and>
    zok B bits (set_z p os' s' (zpc c p) (zrun c p \<union> sd_spawned r) c)"
proof -
  note s = zokD(3) [OF ok p]
  note nd = open_live [OF s op]
  note l = live [OF s] nd
  have "dslots_ok bits s" "0 \<le> dNumPending s" "dNumPending s \<le> 64" using l nd by auto
  from recv_ok [OF this pool, of "zops c" w] obtain r os' s' new where
    r: "pRecv E pooled (zops c) s w = Some (r, os', s')"
    and e: "finite new" "card new \<le> 1" "new \<inter> doccupied s = {}" "sd_spawned r \<subseteq> new" "dslots_ok bits s'"
      "doccupied s' = doccupied s \<union> new" "bits (dCompleted s') = bits (dCompleted s) \<union> (new - sd_spawned r)"
      "dSignalled s \<or> new - sd_spawned r \<noteq> {} \<longrightarrow> dSignalled s'" "dClosed s' = dClosed s"
      "dNumPending s' = dNumPending s + int (card new)" "oNumPending os' = oNumPending (zops c) + of_nat (card new)"
      "oNumSess os' = oNumSess (zops c)"
    unfolding recv_effect_def by blast
  let ?pc = "zpc c p" and ?run = "zrun c p"
  have oc: "doccupied s = ?run \<union> bits (dCompleted s) \<union> zsending bits ?pc" using l nd by blast
  have un: "?run \<union> sd_spawned r \<union> bits (dCompleted s') = ?run \<union> bits (dCompleted s) \<union> new"
    using e(4,7) by auto
  have "card (?run \<union> bits (dCompleted s) \<union> new) = card (?run \<union> bits (dCompleted s)) + card new"
    using l(5) nd e(1,3) oc by (intro card_Un_disjoint) auto
  then have np: "dNumPending s' = int (card (?run \<union> sd_spawned r \<union> bits (dCompleted s')))"
    using l(7) nd op e(10) un by simp
  have "zpc_ok B ?pc s'"
  proof (cases "?pc")
    case ZWait
    then have "dSignalled s \<or> bits (dCompleted s) = {}"
      using s by (auto simp: zsess_ok_def zpc_ok_def ssdSenderWaits_def count_0)
    then show ?thesis using ZWait e(7-9) op by (auto simp: zpc_ok_def ssdSenderWaits_def count_0)
  qed (use nd in \<open>auto simp: zpc_ok_def\<close>)
  moreover have "(?run \<union> sd_spawned r) \<inter> bits (dCompleted s') = {}"
    "(?run \<union> sd_spawned r \<union> bits (dCompleted s')) \<inter> zsending bits ?pc = {}"
    "doccupied s' = ?run \<union> sd_spawned r \<union> bits (dCompleted s') \<union> zsending bits ?pc"
    using l(2,3) nd oc e(3,4,6,7) by auto
  ultimately have "zsess_ok B bits ?pc (?run \<union> sd_spawned r) s'"
    using nd e(5,9) op np by (simp add: zsess_ok_def)
  then have "zok B bits (set_z p os' s' ?pc (?run \<union> sd_spawned r) c)"
    by (rule zok_upd [OF ok p]) (simp_all add: e(9-12) zpend_def i2u_def)
  then show ?thesis using r by blast
qed

lemma Work_ok:
  assumes ok: "zok B bits c" and p: "zsess c p = Some s" and i: "i \<in> zrun c p"
  shows "\<exists>os' s'. pWork E i (zops c) s w = Some (os', s') \<and>
    zok B bits (set_z p os' s' (zpc c p) (zrun c p - {i}) c)"
proof -
  note s = zokD(3) [OF ok p]
  note nd = run_live [OF s i]
  note l = live [OF s nd]
  have "i \<in> doccupied s" using l(4) i by blast
  from work_ok [OF l(1) this, of "zops c" w] obtain os' s' where
    r: "pWork E i (zops c) s w = Some (os', s')"
    and e: "dslots_ok bits s'" "doccupied s' = doccupied s" "dAvail s' = dAvail s"
      "bits (dCompleted s') = insert i (bits (dCompleted s))"
      "dSignalled s'" "dClosed s' = dClosed s" "dNumPending s' = dNumPending s" "oNumPending os' = oNumPending (zops c)"
      "oNumSess os' = oNumSess (zops c)"
    unfolding work_effect_def by blast
  have un: "zrun c p - {i} \<union> bits (dCompleted s') = zrun c p \<union> bits (dCompleted s)" using i e(4) by auto
  have "zpc_ok B (zpc c p) s'" using s nd e(5,6) by (cases "zpc c p") (auto simp: zsess_ok_def zpc_ok_def)
  then have "zsess_ok B bits (zpc c p) (zrun c p - {i}) s'"
    using nd e(1,6,7) un l(7) l(2,3,4) e(2,4) i by (auto simp: zsess_ok_def)
  then have "zok B bits (set_z p os' s' (zpc c p) (zrun c p - {i}) c)"
    by (rule zok_upd [OF ok p]) (simp_all add: e zpend_def)
  then show ?thesis using r by blast
qed

text \<open>Steps in which the sender only moves on, or clears the flag before it waits.\<close>

lemma sender_move_ok:
  assumes ok: "zok B bits c" and p: "zsess c p = Some s" and pc: "zpc c p \<noteq> ZDone" "pc' \<noteq> ZDone"
    and se: "zsending bits pc' = zsending bits (zpc c p)" and pk: "zpc_ok B pc' (s\<lparr>dSignalled := b\<rparr>)"
  shows "zok B bits (set_z p (zops c) (s\<lparr>dSignalled := b\<rparr>) pc' (zrun c p) c)"
proof -
  let ?s = "s\<lparr>dSignalled := b\<rparr>"
  have "dslots_ok bits ?s = dslots_ok bits s" "doccupied ?s = doccupied s"
    by (rule dslots_ok_cong doccupied_cong; simp)+
  then have "zsess_ok B bits pc' (zrun c p) ?s"
    using zokD(3) [OF ok p] pc pk se by (simp add: zsess_ok_def)
  then show ?thesis by (rule zok_upd [OF ok p]) (simp_all add: zpend_def se)
qed

lemma sender_goto_ok:
  assumes "zok B bits c" "zsess c p = Some s" "zpc c p \<noteq> ZDone" "pc' \<noteq> ZDone"
    "zsending bits pc' = zsending bits (zpc c p)" "zpc_ok B pc' s"
  shows "zok B bits (set_z p (zops c) s pc' (zrun c p) c)"
  using sender_move_ok [OF assms(1-5), of "dSignalled s"] assms(6) by simp

lemma Collect_ok:
  assumes ok: "zok B bits c" and p: "zsess c p = Some s" and pc: "zpc c p = ZCheck" and op: "\<not> dClosed s"
    and co: "ssdSenderCollect B s = (tmp, s')"
  shows "zok B bits (set_z p (zops c) s' (ZSend tmp) (zrun c p) c)"
proof -
  note s = zokD(3) [OF ok p]
  have nd: "zpc c p \<noteq> ZDone" using pc by simp
  note l = live [OF s nd]
  let ?co = "bits (dCompleted s)" and ?run = "zrun c p"
  have tb: "bits tmp = ?co" using co by (auto simp: ssdSenderCollect_def Let_def bits_clone)
  have nn: "int (card ?co) \<le> dNumPending s" using l(7) op l(5) by (auto intro!: card_mono)
  have s': "s' = s\<lparr>dCompleted := bmXor B (dCompleted s) tmp, dNumPending := dNumPending s - int (card ?co)\<rparr>"
    using co nn l(9) by (auto simp: ssdSenderCollect_def Let_def bits_count bits_clone isub_def)
  have xb: "bits (dCompleted s') = {}" using co xor_clone by (auto simp: ssdSenderCollect_def Let_def)
  have "card (?run \<union> ?co) = card ?run + card ?co" using l(2,5) by (intro card_Un_disjoint) auto
  then have np: "dNumPending s' = int (card ?run)" using l(7) op s' by simp
  have occ: "doccupied s' = doccupied s" using s' by (intro doccupied_cong) simp
  have "dslots_ok bits s'" using l(1) occ xb s' by (simp add: dslots_ok_def)
  then have "zsess_ok B bits (ZSend tmp) ?run s'"
    using np xb occ l(2,3,4) pc op s' tb by (auto simp: zsess_ok_def zsending_def zpc_ok_def)
  then show ?thesis
    by (rule zok_upd [OF ok p]) (simp_all add: s' zpend_def zsending_def tb pc)
qed

lemma Send_ok:
  assumes ok: "zok B bits c" and p: "zsess c p = Some s" and pc: "zpc c p = ZSend tmp"
  shows "\<exists>os' s'. ssdSendCompletionVector B (pWr E) (zops c) s tmp = Some (os', s') \<and>
    zok B bits (set_z p os' s' ZCheck (zrun c p) c)"
proof -
  note s = zokD(3) [OF ok p]
  have nd: "zpc c p \<noteq> ZDone" using pc by simp
  note l = live [OF s nd]
  have se: "zsending bits (zpc c p) = bits tmp" by (simp add: pc zsending_def)
  have "set (bmRange B tmp) \<subseteq> doccupied s" "set (bmRange B tmp) \<inter> bits (dCompleted s) = {}"
    using l(3,4) se by (auto simp: bits_range)
  from dSendAll_ok [OF l(1) bits_range(1) this, of "zops c"] obtain os' s' k rt av sl where
    e: "ssdSendAll B (pWr E) (bmRange B tmp) (zops c) s = Some (os', s')"
      "os' = (zops c)\<lparr>oNumPending := oNumPending (zops c) - of_nat (length (bmRange B tmp)), oRespTx := rt\<rparr>"
      "s' = s\<lparr>dConn := k, dSlots := sl, dAvail := av\<rparr>" "dslots_ok bits s'"
      "doccupied s' = doccupied s - set (bmRange B tmp)" by blast
  have "zsess_ok B bits ZCheck (zrun c p) s'"
    using e(3,4,5) l(2,3,4,7) se by (auto simp: zsess_ok_def zsending_def zpc_ok_def bits_range)
  then have "zok B bits (set_z p os' s' ZCheck (zrun c p) c)"
    by (rule zok_upd [OF ok p])
      (simp_all add: e(2,3) zpend_def zsending_def pc length_range i2u_def)
  then show ?thesis using e(1) by (auto simp: ssdSendCompletionVector_def)
qed

lemma Exit_ok:
  assumes ok: "zok B bits c" and p: "zsess c p = Some s" and pc: "zpc c p = ZDrain" and dw: "\<not> ssdSenderDrainWaits B s"
  shows "\<exists>s'. ssdSenderExit B s = Some s' \<and> doccupied s' = {} \<and> zok B bits (set_z p (zops c) s' ZDone (zrun c p) c)"
proof -
  note s = zokD(3) [OF ok p]
  have nd: "zpc c p \<noteq> ZDone" using pc by simp
  note l = live [OF s nd]
  have co: "dClosed s" "bits (dCompleted s) = doccupied s" using drain_waits [OF l(1)] dw by auto
  then have run: "zrun c p = {}" using l(2,4) by auto
  have len: "length (dSlots s) = 64" using l(1) by (simp add: dslots_ok_def)
  have "set [0..<64] \<subseteq> {..<64::nat}" by auto
  from dPutAll_total [OF len this] obtain sl av where
    e: "ssdPutAll B [0..<64] s = Some (s\<lparr>dSlots := sl, dAvail := av\<rparr>)" "length sl = 64" "\<forall>i<64. sl ! i = None" by auto
  let ?s = "s\<lparr>dSlots := sl, dAvail := av, dSendDone := True\<rparr>"
  have ex: "ssdSenderExit B s = Some ?s" using e(1) by (simp add: ssdSenderExit_def)
  have oc: "doccupied ?s = {}" using e by (auto simp: doccupied_def)
  have "zsess_ok B bits ZDone (zrun c p) ?s"
    using run co(1) l(7) oc by (simp add: zsess_ok_def zpc_ok_def)
  then have "zok B bits (set_z p (zops c) ?s ZDone (zrun c p) c)"
    by (rule zok_upd [OF ok p]) (simp_all add: zpend_def zsending_def pc)
  then show ?thesis using ex oc by blast
qed

lemma Close_ok:
  assumes ok: "zok B bits c" and p: "zsess c p = Some s" and op: "\<not> dClosed s"
    and cl: "ssdServer_close (zops c) s = (os, s')"
  shows "zok B bits (set_z p os s' (zpc c p) (zrun c p) c)"
proof -
  note s = zokD(3) [OF ok p]
  note nd = open_live [OF s op]
  have s': "s' = s\<lparr>dNumPending := 0, dClosed := True, dSignalled := True\<rparr>"
    and os: "oNumPending os = oNumPending (zops c) - i2u (dNumPending s)" "oNumSess os = oNumSess (zops c) - 1"
    using cl by (auto simp: ssdServer_close_def Let_def)
  have "dslots_ok bits s' = dslots_ok bits s" "doccupied s' = doccupied s"
    by (rule dslots_ok_cong doccupied_cong; simp add: s')+
  then have "zsess_ok B bits (zpc c p) (zrun c p) s'"
    using s nd by (cases "zpc c p") (auto simp: zsess_ok_def zpc_ok_def s')
  then show ?thesis
    by (rule zok_upd [OF ok p]) (use op in \<open>simp_all add: s' os zpend_def i2u_def\<close>)
qed

lemma open_session_ok: "ssdServer_open B k os0 = (os, s) \<Longrightarrow>
    zsess_ok B bits ZCheck {} s \<and> dNumPending s = 0 \<and> \<not> dClosed s \<and> os = os0\<lparr>oNumSess := oNumSess os0 + 1\<rparr>"
proof -
  assume o: "ssdServer_open B k os0 = (os, s)"
  have "bits (fold (bmSet B) is b) = bits b \<union> set is" "bits (fold (bmRemove B) is b) = bits b - set is" for "is" b
    by (induction "is" arbitrary: b) (auto simp: bits_set bits_remove)
  then show ?thesis using o
    by (auto simp: ssdServer_open_def ssdNewSession_def Let_def zsess_ok_def zpc_ok_def zsending_def dslots_ok_def
        doccupied_def bits_grow bits_zero)
qed

lemma Accept_ok:
  assumes ok: "zok B bits c" and p: "zsess c p = None" and room: "card (dom (zsess c)) < max_sessions"
    and o: "ssdServer_open B k (zops c) = (os, s)"
  shows "zok B bits (set_z p os s ZCheck {} c)"
proof -
  note d = zokD [OF ok] and n = open_session_ok [OF o]
  let ?c = "set_z p os s ZCheck {} c"
  have pd: "p \<notin> dom (zsess c)" "p \<notin> zopen c" using p by (auto simp: zopen_def)
  have "zopen ?c = insert p (zopen c)" using n by (auto simp: zopen_def)
  then have "card (zopen ?c) = Suc (card (zopen c))" using zopen_finite [OF d(1)] pd(2) by simp
  moreover have "zpend_sum bits ?c = zpend bits ZCheck s + zpend_sum bits c"
    unfolding zpend_sum_def using pd(1) d(1)
    by (simp add: sum.insert [OF d(1) pd(1)]) (rule sum.cong, auto)
  then have "zpend_sum bits ?c = zpend_sum bits c" using n by (simp add: zpend_def zsending_def)
  ultimately show ?thesis using d n room pd(1) by (simp add: zok_def)
qed

lemma Forget_ok:
  assumes ok: "zok B bits c" and p: "zsess c p = Some s" and pc: "zpc c p = ZDone"
  shows "zok B bits (c\<lparr>zsess := (zsess c)(p := None)\<rparr>)"
proof -
  note d = zokD [OF ok] and s = zokD(3) [OF ok p]
  let ?c = "c\<lparr>zsess := (zsess c)(p := None)\<rparr>"
  have cl: "dClosed s" "dNumPending s = 0" using s pc by (auto simp: zsess_ok_def zpc_ok_def)
  have "zopen ?c = zopen c" using cl p by (auto simp: zopen_def)
  moreover have "zpend_sum bits ?c = (\<Sum>q\<in>dom (zsess c) - {p}. zpend bits (zpc c q) (the (zsess c q)))"
    unfolding zpend_sum_def by (rule sum.cong) auto
  moreover have "zpend_sum bits c = \<dots> + zpend bits (zpc c p) s"
    unfolding zpend_sum_def using d(1) p by (subst sum.remove [of _ p]) auto
  then have "zpend_sum bits c = (\<Sum>q\<in>dom (zsess c) - {p}. zpend bits (zpc c q) (the (zsess c q)))"
    using cl pc by (simp add: zpend_def zsending_def)
  moreover have "card (dom (zsess ?c)) \<le> max_sessions"
    using d(2) card_Diff1_le [of "dom (zsess c)" p] by simp
  ultimately show ?thesis using d by (simp add: zok_def)
qed

lemma step_ok:
  assumes "plain_step E c c'" "zok B bits c"
  shows "zok B bits c'"
  using assms(1)
proof cases
  case (Receive p s pooled w r os s')
  from Receive_ok [OF assms(2) Receive(2-4), of w] Receive(1,5) show ?thesis by auto
next
  case (Work p s i w os s')
  from Work_ok [OF assms(2) Work(2,3), of w] Work(1,4) show ?thesis by auto
next
  case (Send p s tmp os s')
  from Send_ok [OF assms(2) Send(2,3)] Send(1,4) show ?thesis by auto
next
  case (Exit p s s')
  from Exit_ok [OF assms(2) Exit(2-4)] Exit(1,5) show ?thesis by auto
next
  case (Wait p s)
  show ?thesis unfolding Wait(1)
    by (rule sender_move_ok [OF assms(2) Wait(2)]) (use Wait in \<open>auto simp: zsending_def zpc_ok_def ssdSenderWaits_def\<close>)
next
  case (Wake p s)
  show ?thesis unfolding Wake(1)
    by (rule sender_goto_ok [OF assms(2) Wake(2)]) (use Wake in \<open>auto simp: zsending_def zpc_ok_def\<close>)
next
  case (Leave p s)
  show ?thesis unfolding Leave(1)
    by (rule sender_goto_ok [OF assms(2) Leave(2)]) (use Leave in \<open>auto simp: zsending_def zpc_ok_def\<close>)
next
  case (DrainWait p s)
  have "dClosed s" using zokD(3) [OF assms(2) DrainWait(2)] DrainWait(3) by (simp add: zsess_ok_def zpc_ok_def)
  then show ?thesis unfolding DrainWait(1)
    by (intro sender_move_ok [OF assms(2) DrainWait(2)])
      (use DrainWait in \<open>auto simp: zsending_def zpc_ok_def ssdSenderDrainWaits_def\<close>)
next
  case (DrainWake p s)
  have "dClosed s" using zokD(3) [OF assms(2) DrainWake(2)] DrainWake(3) by (simp add: zsess_ok_def zpc_ok_def)
  then show ?thesis unfolding DrainWake(1)
    by (intro sender_goto_ok [OF assms(2) DrainWake(2)]) (use DrainWake in \<open>auto simp: zsending_def zpc_ok_def\<close>)
qed (use assms(2) in \<open>auto intro: Accept_ok Collect_ok Close_ok Forget_ok\<close>)

lemma reachable_ok: "plain_reachable E c \<Longrightarrow> zok B bits c"
proof (induction rule: plain_reachable.induct)
  case (start os)
  then show ?case by (simp add: plain_start_def zok_def zopen_def zpend_sum_def ssdListener_init_def)
qed (rule step_ok)

text \<open>The global counters do not wrap around.\<close>

lemma counters_exact:
  assumes ok: "zok B bits c"
  shows "unat (oNumSess (zops c)) = card (zopen c)" "uint (oNumPending (zops c)) = zpend_sum bits c"
proof -
  note d = zokD [OF ok]
  have "card (zopen c) \<le> card (dom (zsess c))" using d(1) by (intro card_mono) (auto simp: zopen_def)
  then have "card (zopen c) < 2 ^ 64" using d(2) by (simp add: max_sessions_def)
  then show "unat (oNumSess (zops c)) = card (zopen c)" unfolding d(4) by (rule unat_of_nat_64)
  have one: "0 \<le> zpend bits (zpc c p) (the (zsess c p)) \<and> zpend bits (zpc c p) (the (zsess c p)) \<le> 64"
    if "p \<in> dom (zsess c)" for p
  proof -
    from that obtain s where p: "zsess c p = Some s" by blast
    note s = d(3) [OF p]
    show ?thesis
    proof (cases "zpc c p = ZDone")
      case True
      then show ?thesis using s p by (simp add: zsess_ok_def zpc_ok_def zpend_def zsending_def)
    next
      case False
      note l = live [OF s False]
      have "card (zrun c p \<union> bits (dCompleted s)) + card (zsending bits (zpc c p)) = card (doccupied s)"
        unfolding l(4) using l(3,5,6) by (intro card_Un_disjoint [symmetric]) auto
      then show ?thesis using l(7,8) doccupied_card [OF l(1)] p by (auto simp: zpend_def)
    qed
  qed
  have "0 \<le> zpend_sum bits c" unfolding zpend_sum_def by (rule sum_nonneg) (use one in blast)
  moreover have "zpend_sum bits c \<le> of_nat (card (dom (zsess c))) * 64"
    unfolding zpend_sum_def by (rule sum_bounded_above) (use one in blast)
  moreover have "int (card (dom (zsess c))) \<le> 2 ^ 50" using d(2) by (simp add: max_sessions_def)
  ultimately have "0 \<le> zpend_sum bits c" "zpend_sum bits c < 2 ^ 64" by simp_all
  then show "uint (oNumPending (zops c)) = zpend_sum bits c"
    unfolding d(5) i2u_def by (simp add: uint_word_of_int)
qed

end

end
