(* ===== verification/Nocontrol.thy ===== *)
theory Nocontrol
  imports Seda_Server Pcc_Client
begin

text \<open>
  The baseline without overload control: \<open>src/ovldctlrpc/nocontrol/nc_server.go\<close>,
  \<open>nc_client.go\<close>, \<open>nc_proto.go\<close> and \<open>nc_config.go\<close>.  The server's session, its sender and its
  bookkeeping are the ones of the SEDA server under other names; the worker never drops a request, and
  the receiver has an optional active queue management.  The client writes every request at once and
  balances over its connections.
\<close>

section \<open>Protocol and configuration\<close>

definition NcReqMagic :: u32 where "NcReqMagic = 0x63727063"
definition NcRespMagic :: u32 where "NcRespMagic = 0x73727063"
definition NcOpCall :: u32 where "NcOpCall = 0"
definition NcOpWinUpdate :: u32 where "NcOpWinUpdate = 1"
definition NcOpMax :: u32 where "NcOpMax = 2"

type_synonym cncHdr = csdHdr
type_synonym sncHdr = csdHdr

definition CncHdr_bytes :: "cncHdr \<Rightarrow> byte list" where "CncHdr_bytes = CsdHdr_bytes"
definition CncHdr_of_bytes :: "byte list \<Rightarrow> cncHdr" where "CncHdr_of_bytes = CsdHdr_of_bytes"

definition SncAqmOn :: bool where "SncAqmOn = False"
definition SncAqmThresh :: u64 where "SncAqmThresh = 2000"

definition CncLbRR :: u64 where "CncLbRR = 0"
definition CncLbRand :: u64 where "CncLbRand = 1"
definition CncLbPolicy :: u64 where "CncLbPolicy = CncLbRR"

section \<open>The server\<close>

definition SncMaxWindowExp :: nat where "SncMaxWindowExp = 6"
definition SncMaxWindow :: nat where "SncMaxWindow = 2 ^ SncMaxWindowExp"

type_synonym sncCtx = ssdCtx
type_synonym ('b, 'k) sncSession = "('b, 'k) ssdSession"
type_synonym sncOps = ssdOps

definition sncGetSlot ::
  "'b bitmap_ops \<Rightarrow> sncCtx \<Rightarrow> ('b, 'k) sncSession \<Rightarrow> (int \<times> ('b, 'k) sncSession) option" where
  "sncGetSlot = ssdGetSlot"

definition sncPutSlot :: "'b bitmap_ops \<Rightarrow> ('b, 'k) sncSession \<Rightarrow> int \<Rightarrow> ('b, 'k) sncSession option" where
  "sncPutSlot = ssdPutSlot"

definition sncSendCompletionVector ::
  "'b bitmap_ops \<Rightarrow> 'k writer \<Rightarrow> sncOps \<Rightarrow> ('b, 'k) sncSession \<Rightarrow> 'b \<Rightarrow> (sncOps \<times> ('b, 'k) sncSession) option" where
  "sncSendCompletionVector = ssdSendCompletionVector"

definition sncSenderWaits :: "'b bitmap_ops \<Rightarrow> ('b, 'k) sncSession \<Rightarrow> bool" where "sncSenderWaits = ssdSenderWaits"

definition sncSenderCollect :: "'b bitmap_ops \<Rightarrow> ('b, 'k) sncSession \<Rightarrow> 'b \<times> ('b, 'k) sncSession" where
  "sncSenderCollect = ssdSenderCollect"

definition sncSenderDrainWaits :: "'b bitmap_ops \<Rightarrow> ('b, 'k) sncSession \<Rightarrow> bool" where
  "sncSenderDrainWaits = ssdSenderDrainWaits"

definition sncSenderExit :: "'b bitmap_ops \<Rightarrow> ('b, 'k) sncSession \<Rightarrow> ('b, 'k) sncSession option" where
  "sncSenderExit = ssdSenderExit"

definition sncWorker ::
  "'b bitmap_ops \<Rightarrow> (srpcCtx \<Rightarrow> srpcCtx) \<Rightarrow> nat \<Rightarrow> sncOps \<Rightarrow> ('b, 'k) sncSession \<Rightarrow>
   (sncOps \<times> ('b, 'k) sncSession) option" where
  "sncWorker B handler i os s = do {
     p \<leftarrow> dslot_at s (int i);
     c \<leftarrow> p;
     let cmn = handler ((dCmn c)\<lparr>Drop := False\<rparr>);
     let os1 = (if Drop cmn then os\<lparr>oReqDropped := AtomicAddUint64 (oReqDropped os) 1\<rparr> else os);
     Some (os1, ssdComplete B (Idx cmn) (s\<lparr>dSlots := (dSlots s)[i := Some (c\<lparr>dCmn := cmn\<rparr>)]\<rparr>))
   }"

definition sncRecvHdr :: "'k reader \<Rightarrow> 'k \<Rightarrow> (cncHdr option \<times> 'k) option" where
  "sncRecvHdr rd k = do {
     (n, err, buf, k1) \<leftarrow> ReadFull rd (replicate sd_hdr_size 0) k;
     let chdr = CncHdr_of_bytes buf;
     Some (if err \<noteq> None then (None, k1)
           else if hMagic chdr \<noteq> NcReqMagic then (None, k1)
           else if unat (hLen chdr) > SrpcBufSize then (None, k1)
           else (Some chdr, k1))
   }"

text \<open>
  The active queue management looks at the queueing delay once the request counts as pending: a dropped
  request is completed by the receiver itself, which goes on to the next request.
\<close>

definition sncDropOne :: "'b bitmap_ops \<Rightarrow> nat \<Rightarrow> ('b, 'k) sncSession \<Rightarrow> ('b, 'k) sncSession option" where
  "sncDropOne B i s = do {
     p \<leftarrow> dslot_at s (int i);
     c \<leftarrow> p;
     Some (ssdComplete B (int i) (s\<lparr>dSlots := (dSlots s)[i := Some (c\<lparr>dCmn := (dCmn c)\<lparr>Drop := True\<rparr>\<rparr>)]\<rparr>))
   }"

definition sncRecvCall ::
  "'b bitmap_ops \<Rightarrow> 'k reader \<Rightarrow> bool \<Rightarrow> u64 \<Rightarrow> sncCtx \<Rightarrow> cncHdr \<Rightarrow> sncOps \<Rightarrow> ('b, 'k) sncSession \<Rightarrow> world \<Rightarrow>
   (sdOutcome \<times> sncOps \<times> ('b, 'k) sncSession) option" where
  "sncRecvCall B rd aqm thresh pooled chdr os s w = do {
     (r, os1, s1) \<leftarrow> ssdRecvCall B rd pooled chdr os s;
     (case r of
        SdSpawn i \<Rightarrow>
          if aqm \<and> QueueDelayMax_of w div 1000 \<ge> thresh then do {
            s2 \<leftarrow> sncDropOne B i s1;
            Some (SdAgain, os1\<lparr>oReqDropped := AtomicAddUint64 (oReqDropped os1) 1\<rparr>, s2)
          } else Some (SdSpawn i, os1, s1)
      | _ \<Rightarrow> Some (r, os1, s1))
   }"

definition sncRecvPass ::
  "'b bitmap_ops \<Rightarrow> 'k reader \<Rightarrow> bool \<Rightarrow> u64 \<Rightarrow> sncCtx \<Rightarrow> sncOps \<Rightarrow> ('b, 'k) sncSession \<Rightarrow> world \<Rightarrow>
   (sdOutcome \<times> sncOps \<times> ('b, 'k) sncSession) option" where
  "sncRecvPass B rd aqm thresh pooled os s w = do {
     (h, k) \<leftarrow> sncRecvHdr rd (dConn s);
     (case h of
        None \<Rightarrow> Some (SdRet (- 1), os, s\<lparr>dConn := k\<rparr>)
      | Some chdr \<Rightarrow>
          if hOp chdr = NcOpCall then sncRecvCall B rd aqm thresh pooled chdr os (s\<lparr>dConn := k\<rparr>) w
          else if hOp chdr = NcOpWinUpdate then Some (SdRet (- 1), os, s\<lparr>dConn := k\<rparr>)
          else Some (SdRet (- 1), os, s\<lparr>dConn := k\<rparr>))
   }"

partial_function (option) sncRecvOne ::
  "'b bitmap_ops \<Rightarrow> 'k reader \<Rightarrow> bool \<Rightarrow> u64 \<Rightarrow> sncCtx \<Rightarrow> sncOps \<Rightarrow> ('b, 'k) sncSession \<Rightarrow> world \<Rightarrow>
   (sdOutcome \<times> sncOps \<times> ('b, 'k) sncSession) option" where
  "sncRecvOne B rd aqm thresh pooled os s w =
     (case sncRecvPass B rd aqm thresh pooled os s w of
        None \<Rightarrow> None
      | Some (r, os1, s1) \<Rightarrow>
          (if r = SdAgain then sncRecvOne B rd aqm thresh pooled os1 s1 (step_world w) else Some (r, os1, s1)))"

definition sncServer_open :: "'b bitmap_ops \<Rightarrow> 'k \<Rightarrow> sncOps \<Rightarrow> sncOps \<times> ('b, 'k) sncSession" where
  "sncServer_open = ssdServer_open"

definition sncServer_close :: "sncOps \<Rightarrow> ('b, 'k) sncSession \<Rightarrow> sncOps \<times> ('b, 'k) sncSession" where
  "sncServer_close = ssdServer_close"

definition sncListener_init :: "sncOps \<Rightarrow> sncOps" where
  "sncListener_init = ssdListener_init"

definition sncEnable :: "'h \<Rightarrow> 'h option \<Rightarrow> sncOps \<Rightarrow> int \<times> 'h option \<times> sncOps" where
  "sncEnable = ssdEnable"

definition sncStatCUpdateRx :: "sncOps \<Rightarrow> u64" where "sncStatCUpdateRx os = 0"
definition sncStatECreditTx :: "sncOps \<Rightarrow> u64" where "sncStatECreditTx os = 0"
definition sncStatCreditTx :: "sncOps \<Rightarrow> u64" where "sncStatCreditTx os = 0"
definition sncStatReqRx :: "sncOps \<Rightarrow> u64" where "sncStatReqRx os = AtomicGetUint64 (oReqRx os)"
definition sncStatReqDropped :: "sncOps \<Rightarrow> u64" where "sncStatReqDropped os = AtomicGetUint64 (oReqDropped os)"
definition sncStatRespTx :: "sncOps \<Rightarrow> u64" where "sncStatRespTx os = AtomicGetUint64 (oRespTx os)"

section \<open>The client\<close>

record 'k cncConn =
  ncC :: 'k
  ncRespRx :: u64
  ncReqTx :: u64

record 'k cncSession =
  nsReqId :: u64
  nsId :: u64
  nsNextConnIdx :: int
  nsConns :: "'k cncConn list"

definition nc_new_conn :: "'k \<Rightarrow> 'k cncConn" where
  "nc_new_conn k = \<lparr>ncC = k, ncRespRx = 0, ncReqTx = 0\<rparr>"

definition cncAddConnection :: "nat \<Rightarrow> 'k option \<Rightarrow> 'k cncSession \<Rightarrow> int \<times> 'k cncSession" where
  "cncAddConnection port dial s =
     (if CrpcMaxReplica \<le> length (nsConns s) then (- 1, s)
      else if port \<noteq> SrpcPort then (- 1, s)
      else case dial of None \<Rightarrow> (- 1, s) | Some k \<Rightarrow> (0, s\<lparr>nsConns := nsConns s @ [nc_new_conn k]\<rparr>))"

definition cnc_call_hdr :: "u64 \<Rightarrow> u64 \<Rightarrow> u64 \<Rightarrow> cncHdr" where
  "cnc_call_hdr ident len now = \<lparr>hMagic = NcReqMagic, hOp = NcOpCall, hLen = len, hId = ident, hTs = now\<rparr>"

definition cncSendRaw ::
  "'k writer \<Rightarrow> byte list \<Rightarrow> u64 \<Rightarrow> u64 \<Rightarrow> 'k cncConn \<Rightarrow> world \<Rightarrow> (int \<times> 'k cncConn \<times> world) option" where
  "cncSendRaw wr buf len ident cc w = do {
     let w1 = step_world w;
     (n, err, k1) \<leftarrow> WriteFull wr (CncHdr_bytes (cnc_call_hdr ident len (MicroTime w))) (ncC cc);
     if err \<noteq> None then Some (- 1, cc\<lparr>ncC := k1\<rparr>, w1)
     else if length buf < unat len then None
     else do {
       (n, err, k2) \<leftarrow> WriteFull wr (take (unat len) buf) k1;
       Some (if err \<noteq> None then (- 1, cc\<lparr>ncC := k2\<rparr>, w1)
             else (int n, cc\<lparr>ncC := k2, ncReqTx := ncReqTx cc + 1\<rparr>, w1))
     }
   }"

text \<open>
  The choice of the connection: the index and the session with its next index.  The inner \<open>None\<close> is
  the invalid policy; the division by \<open>NConns\<close> panics when there is no connection.
\<close>

definition cncChoose :: "u64 \<Rightarrow> int \<Rightarrow> 'k cncSession \<Rightarrow> (int \<times> 'k cncSession) option option" where
  "cncChoose policy hash s = (
     let n = int (length (nsConns s)) in
     if policy = CncLbRR then
       (if n = 0 then None
        else Some (Some (nsNextConnIdx s, s\<lparr>nsNextConnIdx := iadd (nsNextConnIdx s) 1 smod n\<rparr>)))
     else if policy = CncLbRand then (if n = 0 then None else Some (Some (hash smod n, s)))
     else Some None)"

definition cncSendOne ::
  "'k writer \<Rightarrow> u64 \<Rightarrow> byte list \<Rightarrow> u64 \<Rightarrow> int \<Rightarrow> 'k cncSession \<Rightarrow> world \<Rightarrow> (int \<times> 'k cncSession \<times> world) option" where
  "cncSendOne wr policy buf len hash s w =
     (if SrpcBufSize < unat len then Some (- 1, s, w)
      else do {
        ch \<leftarrow> cncChoose policy hash s;
        (case ch of
           None \<Rightarrow> Some (- 1, s, w)
         | Some (connIdx, s1) \<Rightarrow>
             if connIdx < 0 then None
             else do {
               cc \<leftarrow> list_get (nsConns s1) (nat connIdx);
               (ret, cc1, w1) \<leftarrow> cncSendRaw wr buf len (nsReqId s1) cc w;
               Some (ret, s1\<lparr>nsConns := (nsConns s1)[nat connIdx := cc1], nsReqId := nsReqId s1 + 1\<rparr>, w1)
             })
      })"

definition cncRecvHdr :: "'k reader \<Rightarrow> nat \<Rightarrow> 'k \<Rightarrow> (sncHdr option \<times> 'k) option" where
  "cncRecvHdr rd len k = do {
     (n, err, bs, k1) \<leftarrow> ReadFull rd (replicate sd_hdr_size 0) k;
     let shdr = CncHdr_of_bytes bs;
     Some (if err \<noteq> None then (None, k1)
           else if hMagic shdr \<noteq> NcRespMagic then (None, k1)
           else if Min_go SrpcBufSize len < unat (hLen shdr) then (None, k1)
           else (Some shdr, k1))
   }"

definition cncRecvPass ::
  "'k reader \<Rightarrow> nat \<Rightarrow> byte list \<Rightarrow> 'k cncConn \<Rightarrow> (clientOutcome \<times> byte list \<times> 'k cncConn) option" where
  "cncRecvPass rd len buf cc = do {
     (h, k) \<leftarrow> cncRecvHdr rd len (ncC cc);
     let cc1 = cc\<lparr>ncC := k\<rparr>;
     (case h of
        None \<Rightarrow> Some (ClientRet (- 1), buf, cc1)
      | Some shdr \<Rightarrow>
          if hOp shdr = NcOpCall then
            if hLen shdr = 0 then Some (ClientAgain, buf, cc1)
            else if length buf < unat (hLen shdr) then None
            else do {
              (n, err, bs, k) \<leftarrow> ReadFull rd (take (unat (hLen shdr)) buf) (ncC cc1);
              let buf1 = bs @ drop (unat (hLen shdr)) buf;
              Some (if err \<noteq> None then (ClientRet (- 1), buf1, cc1\<lparr>ncC := k\<rparr>)
                    else (ClientRet (u2i (hLen shdr)), buf1, cc1\<lparr>ncC := k, ncRespRx := ncRespRx cc1 + 1\<rparr>))
            }
          else Some (ClientRet (- 1), buf, cc1))
   }"

partial_function (option) cncRecvOne ::
  "'k reader \<Rightarrow> nat \<Rightarrow> byte list \<Rightarrow> 'k cncConn \<Rightarrow> (int \<times> byte list \<times> 'k cncConn) option" where
  "cncRecvOne rd len buf cc =
     (case cncRecvPass rd len buf cc of
        None \<Rightarrow> None
      | Some (r, buf1, cc1) \<Rightarrow>
          (case r of ClientAgain \<Rightarrow> cncRecvOne rd len buf1 cc1 | ClientRet n \<Rightarrow> Some (n, buf1, cc1)))"

definition cncOpen :: "nat \<Rightarrow> 'k option \<Rightarrow> u64 \<Rightarrow> 'k cncSession option \<times> int" where
  "cncOpen port dial ident =
     (if port \<noteq> SrpcPort then (None, - 1)
      else case dial of
        None \<Rightarrow> (None, - 1)
      | Some k \<Rightarrow> (Some \<lparr>nsReqId = 1, nsId = ident, nsNextConnIdx = 0, nsConns = [nc_new_conn k]\<rparr>, 0))"

definition cncClose :: "('k \<Rightarrow> 'k) \<Rightarrow> 'k cncSession \<Rightarrow> 'k list \<times> 'k cncSession" where
  "cncClose cl s = (map (\<lambda>cc. cl (ncC cc)) (nsConns s), s\<lparr>nsConns := []\<rparr>)"

definition cncCredit :: "'k cncSession \<Rightarrow> u64" where "cncCredit s = 0"
definition cncStatClear :: "'k cncSession \<Rightarrow> 'k cncSession" where "cncStatClear s = s"
definition cncStatECreditRx :: "'k cncSession \<Rightarrow> u64" where "cncStatECreditRx s = 0"
definition cncStatCreditExpired :: "'k cncSession \<Rightarrow> u64" where "cncStatCreditExpired s = 0"
definition cncStatCUpdateTx :: "'k cncSession \<Rightarrow> u64" where "cncStatCUpdateTx s = 0"

definition cncStatRespRx :: "'k cncSession \<Rightarrow> u64" where
  "cncStatRespRx s = foldl (\<lambda>ret c. ret + ncRespRx c) 0 (nsConns s)"

definition cncStatReqTx :: "'k cncSession \<Rightarrow> u64" where
  "cncStatReqTx s = foldl (\<lambda>ret c. ret + ncReqTx c) 0 (nsConns s)"

definition cncStatReqDropped :: "'k cncSession \<Rightarrow> u64" where "cncStatReqDropped s = 0"

end
