(* ===== verification/Plain_Servers.thy ===== *)
theory Plain_Servers
  imports Seda_System Nocontrol Netbench
begin

text \<open>
  The two servers without credits satisfy the contract \<open>plain_server\<close>: the receivers and the workers
  of \<open>sd_server.go\<close> and \<open>nc_server.go\<close>, over any connection, bitmap and handler that respect their
  own contracts.
\<close>

definition seda_env ::
  "'b bitmap_ops \<Rightarrow> 'k reader \<Rightarrow> 'k writer \<Rightarrow> (srpcCtx \<Rightarrow> srpcCtx) \<Rightarrow> u64 \<Rightarrow> ('b, 'k) plainEnv" where
  "seda_env B rd wr handler thresh = \<lparr>pB = B, pWr = wr, pRecv = (\<lambda>pooled os s w. ssdRecvPass B rd pooled os s),
     pWork = ssdWorker B thresh handler\<rparr>"

definition nocontrol_env ::
  "'b bitmap_ops \<Rightarrow> 'k reader \<Rightarrow> 'k writer \<Rightarrow> (srpcCtx \<Rightarrow> srpcCtx) \<Rightarrow> bool \<Rightarrow> u64 \<Rightarrow> ('b, 'k) plainEnv" where
  "nocontrol_env B rd wr handler aqm thresh = \<lparr>pB = B, pWr = wr, pRecv = sncRecvPass B rd aqm thresh,
     pWork = (\<lambda>i os s w. sncWorker B handler i os s)\<rparr>"

lemma env_sel [simp]:
  "pB (seda_env B rd wr handler thresh) = B" "pWr (seda_env B rd wr handler thresh) = wr"
  "pRecv (seda_env B rd wr handler thresh) = (\<lambda>pooled os s w. ssdRecvPass B rd pooled os s)"
  "pWork (seda_env B rd wr handler thresh) = ssdWorker B thresh handler"
  "pB (nocontrol_env B rd wr handler aqm thresh) = B" "pWr (nocontrol_env B rd wr handler aqm thresh) = wr"
  "pRecv (nocontrol_env B rd wr handler aqm thresh) = sncRecvPass B rd aqm thresh"
  "pWork (nocontrol_env B rd wr handler aqm thresh) = (\<lambda>i os s w. sncWorker B handler i os s)"
  by (simp_all add: seda_env_def nocontrol_env_def)

locale plain_parts = credit_server B bits wr sent + byte_stream rd pending
  for B :: "'b bitmap_ops" and bits :: "'b \<Rightarrow> nat set" and wr :: "'k writer" and sent :: "'k \<Rightarrow> byte list"
    and rd :: "'k reader" and pending :: "'k \<Rightarrow> byte list" +
  fixes handler :: "srpcCtx \<Rightarrow> srpcCtx"
  assumes handler: "handler_ok handler"
begin

section \<open>Workers\<close>

text \<open>Replacing the context of an occupied slot and completing it.\<close>

lemma complete_effect:
  assumes ok: "dslots_ok bits s" and i: "i \<in> doccupied s" and c: "cmn_ok i (dCmn c)" "Idx (dCmn c) = int i"
    and os: "oNumPending os' = oNumPending os" "oNumSess os' = oNumSess os"
  shows "work_effect bits i os s os' (ssdComplete B (int i) (s\<lparr>dSlots := (dSlots s)[i := Some c]\<rparr>))"
proof -
  let ?s = "ssdComplete B (int i) (s\<lparr>dSlots := (dSlots s)[i := Some c]\<rparr>)"
  have len: "length (dSlots s) = 64" and i64: "i < 64" using ok i by (auto simp: dslots_ok_def doccupied_def)
  have idx: "unat (word_of_int (int i) :: u32) = i"
    using i64 by (simp add: unat_of_nat take_bit_nat_eq_self_iff)
  have occ: "doccupied ?s = doccupied s" using i len by (auto simp: doccupied_def ssdComplete_def nth_list_update)
  have "dslots_ok bits ?s"
    using ok i c len occ idx i64
    by (auto simp: dslots_ok_def ssdComplete_def nth_list_update bits_set split: if_splits)
  then show ?thesis using occ idx os by (simp add: work_effect_def ssdComplete_def bits_set)
qed

lemma occupied_slot:
  assumes "dslots_ok bits s" "i \<in> doccupied s"
  obtains c where "dslot_at s (int i) = Some (Some c)" "cmn_ok i (dCmn c)" "i < 64"
proof -
  from assms obtain c where c: "dSlots s ! i = Some c" "i < length (dSlots s)" by (auto simp: doccupied_def)
  moreover have "i < 64" "cmn_ok i (dCmn c)" using assms c by (auto simp: dslots_ok_def)
  ultimately show ?thesis using that [of c] by (simp add: dslot_at_def)
qed

lemma ssdWorker_effect:
  assumes ok: "dslots_ok bits s" and i: "i \<in> doccupied s"
  shows "\<exists>os' s'. ssdWorker B thresh handler i os s w = Some (os', s') \<and> work_effect bits i os s os' s'"
proof -
  from occupied_slot [OF ok i] obtain c where
    c: "dslot_at s (int i) = Some (Some c)" "cmn_ok i (dCmn c)" "i < 64" by blast
  define cmn where "cmn = (let m = (dCmn c)\<lparr>Drop := (QueueDelayMax_of w div 1000 \<ge> thresh)\<rparr>
     in if \<not> Drop m then handler m else m)"
  have "cmn_ok i ((dCmn c)\<lparr>Drop := b\<rparr>)" for b using c(2) by (simp add: cmn_ok_def)
  then have k: "cmn_ok i cmn" using handler by (simp add: cmn_def handler_ok_def Let_def)
  then have idx: "Idx cmn = int i" by (simp add: cmn_ok_def)
  let ?os = "if Drop cmn then os\<lparr>oReqDropped := AtomicAddUint64 (oReqDropped os) 1\<rparr> else os"
  have "ssdWorker B thresh handler i os s w =
      Some (?os, ssdComplete B (Idx cmn) (s\<lparr>dSlots := (dSlots s)[i := Some (c\<lparr>dCmn := cmn\<rparr>)]\<rparr>))"
    by (simp add: ssdWorker_def c(1) cmn_def Let_def)
  then have "ssdWorker B thresh handler i os s w =
      Some (?os, ssdComplete B (int i) (s\<lparr>dSlots := (dSlots s)[i := Some (c\<lparr>dCmn := cmn\<rparr>)]\<rparr>))"
    unfolding idx .
  moreover have "work_effect bits i os s ?os (ssdComplete B (int i) (s\<lparr>dSlots := (dSlots s)[i := Some (c\<lparr>dCmn := cmn\<rparr>)]\<rparr>))"
    by (rule complete_effect [OF ok i]) (simp_all add: k idx)
  ultimately show ?thesis by blast
qed

lemma sncWorker_effect:
  assumes ok: "dslots_ok bits s" and i: "i \<in> doccupied s"
  shows "\<exists>os' s'. sncWorker B handler i os s = Some (os', s') \<and> work_effect bits i os s os' s'"
proof -
  from occupied_slot [OF ok i] obtain c where
    c: "dslot_at s (int i) = Some (Some c)" "cmn_ok i (dCmn c)" "i < 64" by blast
  let ?cmn = "handler ((dCmn c)\<lparr>Drop := False\<rparr>)"
  have "cmn_ok i ((dCmn c)\<lparr>Drop := False\<rparr>)" using c(2) by (simp add: cmn_ok_def)
  then have k: "cmn_ok i ?cmn" using handler by (simp add: handler_ok_def)
  then have idx: "Idx ?cmn = int i" by (simp add: cmn_ok_def)
  let ?os = "if Drop ?cmn then os\<lparr>oReqDropped := AtomicAddUint64 (oReqDropped os) 1\<rparr> else os"
  have "sncWorker B handler i os s =
      Some (?os, ssdComplete B (int i) (s\<lparr>dSlots := (dSlots s)[i := Some (c\<lparr>dCmn := ?cmn\<rparr>)]\<rparr>))"
    using idx by (simp add: sncWorker_def c(1) Let_def)
  moreover have "work_effect bits i os s ?os (ssdComplete B (int i) (s\<lparr>dSlots := (dSlots s)[i := Some (c\<lparr>dCmn := ?cmn\<rparr>)]\<rparr>))"
    by (rule complete_effect [OF ok i]) (simp_all add: k idx)
  ultimately show ?thesis by blast
qed

section \<open>Receivers\<close>

lemma recv_nothing:
  assumes "dslots_ok bits s" "dSlots s' = dSlots s" "dAvail s' = dAvail s" "dCompleted s' = dCompleted s"
    "dSignalled s' = dSignalled s" "dClosed s' = dClosed s" "dNumPending s' = dNumPending s"
    "oNumPending os' = oNumPending os" "oNumSess os' = oNumSess os" "sd_spawned r = {}"
  shows "recv_effect bits r os s os' s'"
  unfolding recv_effect_def using assms dslots_ok_cong [of s' s bits] doccupied_cong [of s' s]
  by (intro exI [of _ "{}"]) simp

lemma ssdRecvCall_effect:
  assumes ok: "dslots_ok bits s" and np: "0 \<le> dNumPending s" "dNumPending s \<le> 64" and pool: "dpooled_ok pooled"
    and len: "unat (hLen chdr) \<le> SrpcBufSize"
  shows "\<exists>r os' s'. ssdRecvCall B rd pooled chdr os s = Some (r, os', s') \<and> recv_effect bits r os s os' s'"
proof -
  let ?os = "os\<lparr>oReqRx := oReqRx os + 1\<rparr>"
  from dGetSlot_spec [OF ok pool] show ?thesis
  proof (elim disjE exE conjE)
    assume g: "ssdGetSlot B pooled s = Some (- 1, s)"
    obtain n err buf k where "ReadFull rd (replicate (unat (hLen chdr)) 0) (dConn s) = Some (n, err, buf, k)"
      using ReadFull_total by blast
    then have "ssdRecvCall B rd pooled chdr os s =
        Some (SdAgain, ?os\<lparr>oReqDropped := oReqDropped os + 1\<rparr>, s\<lparr>dConn := k\<rparr>)"
      using g by (simp add: ssdRecvCall_def Let_def)
    moreover have "recv_effect bits SdAgain os s (?os\<lparr>oReqDropped := oReqDropped os + 1\<rparr>) (s\<lparr>dConn := k\<rparr>)"
      by (rule recv_nothing [OF ok]) (simp_all add: sd_spawned_def)
    ultimately show ?thesis by blast
  next
    fix i c
    let ?s = "s\<lparr>dAvail := bmRemove B i (dAvail s), dSlots := (dSlots s)[i := Some c]\<rparr>"
    assume g: "ssdGetSlot B pooled s = Some (int i, ?s)" and i: "i < 64" "i \<notin> doccupied s"
      and c: "c = pooled\<lparr>dCmn := (dCmn pooled)\<lparr>Idx := int i\<rparr>\<rparr>" "cmn_ok i (dCmn c)"
      and sok: "dslots_ok bits ?s" and occ: "doccupied ?s = insert i (doccupied s)"
    have ln: "length (dSlots s) = 64" using ok by (simp add: dslots_ok_def)
    then have sl: "dslot_at ?s (int i) = Some (Some c)" using i by (simp add: dslot_at_def)
    obtain n err buf k where
      rd: "ReadFull rd (take (unat (hLen chdr)) (ReqBuf (dCmn c))) (dConn s) = Some (n, err, buf, k)"
        "length buf = length (take (unat (hLen chdr)) (ReqBuf (dCmn c)))"
      using ReadFull_total by blast
    let ?s2 = "?s\<lparr>dConn := k\<rparr>"
    have s2: "dslots_ok bits ?s2" "doccupied ?s2 = insert i (doccupied s)" "i \<notin> bits (dCompleted ?s2)"
      using sok occ dslots_ok_cong [of ?s2 ?s bits] doccupied_cong [of ?s2 ?s] ok i by (auto simp: dslots_ok_def)
    show ?thesis
    proof (cases "err = None")
      case False
      from dPutSlot_occupied [OF s2(1) _ s2(3)] s2(2) obtain s3 where
        p: "ssdPutSlot B ?s2 (int i) = Some s3" "dslots_ok bits s3" "doccupied s3 = insert i (doccupied s) - {i}"
          "s3 = ?s2\<lparr>dSlots := (dSlots ?s2)[i := None], dAvail := bmSet B i (dAvail ?s2)\<rparr>" by auto
      have "ssdRecvCall B rd pooled chdr os s = Some (SdRet (- 1), ?os, s3)"
        using g sl rd False p(1) by (simp add: ssdRecvCall_def Let_def)
      moreover have "recv_effect bits (SdRet (- 1)) os s ?os s3"
        unfolding recv_effect_def using p(2,3) i(2)
        by (intro exI [of _ "{}"]) (simp add: sd_spawned_def p(4))
      ultimately show ?thesis by blast
    next
      case True
      let ?c = "c\<lparr>dCmn := (dCmn c)\<lparr>ReqBuf := buf @ drop (unat (hLen chdr)) (ReqBuf (dCmn c)),
                        ReqLen := hLen chdr, RespLen := 0, CtxId := hId chdr\<rparr>, dTs := hTs chdr\<rparr>"
      let ?s3 = "?s2\<lparr>dSlots := (dSlots ?s2)[i := Some ?c], dNumPending := dNumPending s + 1\<rparr>"
      have r: "ssdRecvCall B rd pooled chdr os s =
          Some (SdSpawn i, ?os\<lparr>oNumPending := oNumPending os + 1\<rparr>, ?s3)"
        using g sl rd True np by (simp add: ssdRecvCall_def Let_def iadd_def)
      have ck: "cmn_ok i (dCmn ?c)" using c(2) rd(2) len by (auto simp: cmn_ok_def)
      have oc3: "doccupied ?s3 = insert i (doccupied s)"
        using i(1) ln by (auto simp: doccupied_def nth_list_update)
      have "dslots_ok bits ?s3"
        using s2(1,2) oc3 ck i(1) ln by (auto simp: dslots_ok_def nth_list_update)
      then have "recv_effect bits (SdSpawn i) os s (?os\<lparr>oNumPending := oNumPending os + 1\<rparr>) ?s3"
        unfolding recv_effect_def using oc3 i(2) by (intro exI [of _ "{i}"]) (simp add: sd_spawned_def)
      then show ?thesis using r by blast
    qed
  qed
qed

lemma recv_effect_conn:
  "recv_effect bits r os (s\<lparr>dConn := k\<rparr>) os' s' = recv_effect bits r os s os' s'"
  using doccupied_cong [of "s\<lparr>dConn := k\<rparr>" s] by (simp add: recv_effect_def)

lemma recv_hdr_total:
  "\<exists>h k. ssdRecvHdr rd c = Some (h, k) \<and> (\<forall>chdr. h = Some chdr \<longrightarrow> unat (hLen chdr) \<le> SrpcBufSize)"
  "\<exists>h k. sncRecvHdr rd c = Some (h, k) \<and> (\<forall>chdr. h = Some chdr \<longrightarrow> unat (hLen chdr) \<le> SrpcBufSize)"
proof -
  obtain n err buf k where "ReadFull rd (replicate sd_hdr_size 0) c = Some (n, err, buf, k)"
    using ReadFull_total by blast
  then show "\<exists>h k. ssdRecvHdr rd c = Some (h, k) \<and> (\<forall>chdr. h = Some chdr \<longrightarrow> unat (hLen chdr) \<le> SrpcBufSize)"
    "\<exists>h k. sncRecvHdr rd c = Some (h, k) \<and> (\<forall>chdr. h = Some chdr \<longrightarrow> unat (hLen chdr) \<le> SrpcBufSize)"
    by (simp_all add: ssdRecvHdr_def sncRecvHdr_def Let_def)
qed

lemma ssdRecvPass_effect:
  assumes ok: "dslots_ok bits s" and np: "0 \<le> dNumPending s" "dNumPending s \<le> 64" and pool: "dpooled_ok pooled"
  shows "\<exists>r os' s'. ssdRecvPass B rd pooled os s = Some (r, os', s') \<and> recv_effect bits r os s os' s'"
proof -
  obtain h k where h: "ssdRecvHdr rd (dConn s) = Some (h, k)"
      "\<And>chdr. h = Some chdr \<Longrightarrow> unat (hLen chdr) \<le> SrpcBufSize"
    using recv_hdr_total(1) [of "dConn s"] by blast
  let ?s = "s\<lparr>dConn := k\<rparr>"
  have sok: "dslots_ok bits ?s" "0 \<le> dNumPending ?s" "dNumPending ?s \<le> 64" using ok np dslots_ok_cong [of ?s s bits] by simp_all
  have fail: "recv_effect bits (SdRet (- 1)) os s os ?s" by (rule recv_nothing [OF ok]) (simp_all add: sd_spawned_def)
  show ?thesis
  proof (cases "\<exists>chdr. h = Some chdr \<and> hOp chdr = SdOpCall")
    case True
    then obtain chdr where c: "h = Some chdr" "hOp chdr = SdOpCall" by blast
    from ssdRecvCall_effect [OF sok pool h(2) [OF c(1)], of os]
    show ?thesis using h(1) c by (simp add: ssdRecvPass_def ssdRecvMsg_def recv_effect_conn)
  next
    case False
    then have "ssdRecvPass B rd pooled os s = Some (SdRet (- 1), os, ?s)"
      using h(1) by (auto simp: ssdRecvPass_def ssdRecvMsg_def split: option.split)
    then show ?thesis using fail by blast
  qed
qed

text \<open>The drop by the active queue management turns the started request into a completed one.\<close>

lemma drop_effect:
  assumes e: "recv_effect bits (SdSpawn i) os s os1 s1"
  shows "\<exists>s2. sncDropOne B i s1 = Some s2 \<and>
    recv_effect bits SdAgain os s (os1\<lparr>oReqDropped := oReqDropped os1 + 1\<rparr>) s2"
proof -
  from e obtain new where n: "finite new" "card new \<le> 1" "new \<inter> doccupied s = {}" "{i} \<subseteq> new" "dslots_ok bits s1"
      "doccupied s1 = doccupied s \<union> new" "bits (dCompleted s1) = bits (dCompleted s) \<union> (new - {i})"
      "dClosed s1 = dClosed s" "dNumPending s1 = dNumPending s + int (card new)"
      "oNumPending os1 = oNumPending os + of_nat (card new)" "oNumSess os1 = oNumSess os"
    unfolding recv_effect_def by (auto simp: sd_spawned_def)
  have new: "new = {i}" using n(1,2,4) by (metis card_1_singletonE card_gt_0_iff insert_not_empty le_antisym less_eq_Suc_le One_nat_def subset_empty subset_singletonD singleton_iff insert_subset)
  from occupied_slot [OF n(5), of i] n(6) new obtain c where
    c: "dslot_at s1 (int i) = Some (Some c)" "cmn_ok i (dCmn c)" by auto
  let ?c = "c\<lparr>dCmn := (dCmn c)\<lparr>Drop := True\<rparr>\<rparr>"
  let ?s = "ssdComplete B (int i) (s1\<lparr>dSlots := (dSlots s1)[i := Some ?c]\<rparr>)"
  have "cmn_ok i (dCmn ?c)" "Idx (dCmn ?c) = int i" using c(2) by (simp_all add: cmn_ok_def)
  then have "work_effect bits i os1 s1 os1 ?s" using n(5,6) new by (intro complete_effect) auto
  then have "recv_effect bits SdAgain os s (os1\<lparr>oReqDropped := oReqDropped os1 + 1\<rparr>) ?s"
    unfolding recv_effect_def work_effect_def using n new
    by (intro exI [of _ "{i}"]) (simp add: sd_spawned_def)
  then show ?thesis using c(1) by (simp add: sncDropOne_def)
qed

lemma sncRecvPass_effect:
  assumes ok: "dslots_ok bits s" and np: "0 \<le> dNumPending s" "dNumPending s \<le> 64" and pool: "dpooled_ok pooled"
  shows "\<exists>r os' s'. sncRecvPass B rd aqm thresh pooled os s w = Some (r, os', s') \<and> recv_effect bits r os s os' s'"
proof -
  obtain h k where h: "sncRecvHdr rd (dConn s) = Some (h, k)"
      "\<And>chdr. h = Some chdr \<Longrightarrow> unat (hLen chdr) \<le> SrpcBufSize"
    using recv_hdr_total(2) [of "dConn s"] by blast
  let ?s = "s\<lparr>dConn := k\<rparr>"
  have sok: "dslots_ok bits ?s" "0 \<le> dNumPending ?s" "dNumPending ?s \<le> 64" using ok np dslots_ok_cong [of ?s s bits] by simp_all
  have fail: "recv_effect bits (SdRet (- 1)) os s os ?s" by (rule recv_nothing [OF ok]) (simp_all add: sd_spawned_def)
  show ?thesis
  proof (cases "\<exists>chdr. h = Some chdr \<and> hOp chdr = NcOpCall")
    case True
    then obtain chdr where c: "h = Some chdr" "hOp chdr = NcOpCall" by blast
    from ssdRecvCall_effect [OF sok pool h(2) [OF c(1)], of os] obtain r os1 s1 where
      r: "ssdRecvCall B rd pooled chdr os ?s = Some (r, os1, s1)" "recv_effect bits r os s os1 s1"
      by (auto simp: recv_effect_conn)
    have "\<exists>r' os' s'. sncRecvCall B rd aqm thresh pooled chdr os ?s w = Some (r', os', s') \<and> recv_effect bits r' os s os' s'"
    proof (cases "\<exists>i. r = SdSpawn i \<and> aqm \<and> QueueDelayMax_of w div 1000 \<ge> thresh")
      case True
      then obtain i where i: "r = SdSpawn i" "aqm" "QueueDelayMax_of w div 1000 \<ge> thresh" by blast
      then show ?thesis using drop_effect [of i os s os1 s1] r by (auto simp: sncRecvCall_def)
    next
      case False
      then have "sncRecvCall B rd aqm thresh pooled chdr os ?s w = Some (r, os1, s1)"
        using r(1) by (cases r) (auto simp: sncRecvCall_def)
      then show ?thesis using r(2) by blast
    qed
    then show ?thesis using h(1) c by (simp add: sncRecvPass_def)
  next
    case False
    then have "sncRecvPass B rd aqm thresh pooled os s w = Some (SdRet (- 1), os, ?s)"
      using h(1) by (auto simp: sncRecvPass_def split: option.split)
    then show ?thesis using fail by blast
  qed
qed

lemma seda_server: "plain_server (seda_env B rd wr handler thresh) bits sent"
  by unfold_locales (simp_all add: ssdRecvPass_effect ssdWorker_effect bits_simps bits_min bits_range wr_all)

lemma nocontrol_server: "plain_server (nocontrol_env B rd wr handler aqm thresh) bits sent"
  by unfold_locales (simp_all add: sncRecvPass_effect sncWorker_effect bits_simps bits_min bits_range wr_all)

end

section \<open>The instances\<close>

sublocale plain_parts \<subseteq> sd: plain_server "seda_env B rd wr handler thresh" bits sent for thresh
  by (rule seda_server)

sublocale plain_parts \<subseteq> nc: plain_server "nocontrol_env B rd wr handler aqm thresh" bits sent for aqm thresh
  by (rule nocontrol_server)

interpretation nbp: plain_parts boolmap bools mem_write written mem_read "\<lambda>c. concat (segments c)"
  "NetbenchReqHandler useMsem tryWait workUs" for useMsem tryWait workUs
  by unfold_locales (rule NetbenchReqHandler_ok)

end
