(* ===== verification/Plain_Properties.thy ===== *)
theory Plain_Properties
  imports Plain_Servers
begin

text \<open>
  What the invariant of theory \<open>Seda_System\<close> gives for the two servers without credits,
  \<open>src/ovldctlrpc/seda/sd_server.go\<close> and \<open>src/ovldctlrpc/nocontrol/nc_server.go\<close>, with any
  threshold and with the active queue management on or off.  The witnesses run the benchmark's handler.
\<close>

definition plain_env ::
  "'b bitmap_ops \<Rightarrow> 'k reader \<Rightarrow> 'k writer \<Rightarrow> (srpcCtx \<Rightarrow> srpcCtx) \<Rightarrow> ('b, 'k) plainEnv \<Rightarrow> bool" where
  "plain_env B rd wr handler E \<longleftrightarrow>
     (\<exists>thresh. E = seda_env B rd wr handler thresh) \<or> (\<exists>aqm thresh. E = nocontrol_env B rd wr handler aqm thresh)"

lemma plain_env_server:
  assumes "plain_parts B bits wr sent rd pending handler" "plain_env B rd wr handler E"
  shows "plain_server E bits sent" "pB E = B" "pWr E = wr"
  using assms(2) plain_parts.seda_server [OF assms(1)] plain_parts.nocontrol_server [OF assms(1)]
  by (auto simp: plain_env_def)

lemma plain_ok:
  assumes "plain_parts B bits wr sent rd pending handler" "plain_env B rd wr handler E" "plain_reachable E c"
  shows "zok B bits c"
  using plain_server.reachable_ok [OF plain_env_server(1) [OF assms(1,2)] assms(3)] plain_env_server(2) [OF assms(1,2)]
  by simp

section \<open>A small execution\<close>

definition demo_handler :: "srpcCtx \<Rightarrow> srpcCtx" where
  "demo_handler = NetbenchReqHandler False False 5"

definition demo_plain :: "(bool list, mem_conn) plainEnv" where
  "demo_plain = seda_env boolmap mem_read mem_write demo_handler SedaQdelayThresh"

definition demo_kconn :: mem_conn where
  "demo_kconn = \<lparr>segments = [], written = []\<rparr>"

definition demo_zops :: ssdOps where
  "demo_zops = \<lparr>oNumSess = 0, oNumActive = 0, oNumPending = 0, oReqRx = 0, oReqDropped = 0, oRespTx = 0\<rparr>"

definition demo_zsession :: "(bool list, mem_conn) ssdSession" where
  "demo_zsession = ssdNewSession boolmap demo_kconn 1"

definition demo_zone :: "(bool list, mem_conn) zConf" where
  "demo_zone = set_z 7 (demo_zops\<lparr>oNumSess := 1\<rparr>) demo_zsession ZCheck {} (plain_start demo_zops)"

lemmas demo_parts = nbp.plain_parts_axioms [of False False 5, folded demo_handler_def]

lemma demo_plain_env: "plain_env boolmap mem_read mem_write demo_handler demo_plain"
  by (auto simp: plain_env_def demo_plain_def)

lemma demo_zone_reachable: "plain_reachable demo_plain demo_zone"
  unfolding demo_zone_def
proof (rule plain_reachable.step [OF plain_reachable.start], rule plain_step.Accept)
  show "ssdServer_open (pB demo_plain) demo_kconn (zops (plain_start demo_zops)) = (demo_zops\<lparr>oNumSess := 1\<rparr>, demo_zsession)"
    by (simp add: ssdServer_open_def Let_def plain_start_def ssdListener_init_def demo_zops_def demo_plain_def
        demo_zsession_def u2i_def)
qed (simp_all add: plain_start_def max_sessions_def)

lemma demo_zone_session [simp]: "zsess demo_zone 7 = Some demo_zsession" "zpc demo_zone 7 = ZCheck" "zrun demo_zone 7 = {}"
  by (simp_all add: demo_zone_def)

lemma demo_zsession_sel [simp]: "\<not> dClosed demo_zsession" "bools (dCompleted demo_zsession) = {}"
  by (simp_all add: demo_zsession_def ssdNewSession_def Let_def bm.fold_remove bm.bits_grow bm.bits_zero)

section \<open>Properties\<close>



text \<open>
  C29.  The global counters of both servers are exact without wrap-around: \<open>SsdNumSess\<close>
  (\<open>SncNumSess\<close>) is the number of open sessions, and \<open>SsdNumPending\<close> (\<open>SncNumPending\<close>) the sum over
  the sessions of the requests pending or being answered, also when clients leave in the middle of a
  transmission.
\<close>

theorem plain_counters_exact:
  assumes "plain_parts B bits wr sent rd pending handler" "plain_env B rd wr handler E" "plain_reachable E c"
  shows "unat (oNumSess (zops c)) = card (zopen c) \<and> uint (oNumPending (zops c)) = zpend_sum bits c"
  using plain_server.counters_exact [OF plain_env_server(1) [OF assms(1,2)], of c] plain_ok [OF assms]
    plain_env_server(2) [OF assms(1,2)] by simp

theorem plain_counters_exact_witness:
  "unat (oNumSess (zops demo_zone)) = card (zopen demo_zone) \<and> uint (oNumPending (zops demo_zone)) = zpend_sum bools demo_zone"
  by (rule plain_counters_exact [OF demo_parts demo_plain_env demo_zone_reachable])

text \<open>
  C30.  No panic in the servers without credits: in every reachable configuration a pass of the receiver,
  a worker, a transmission and the sender's exit return; in particular the sender never meets a nil slot
  and never slices a response buffer out of range.
\<close>

theorem plain_no_panic:
  assumes "plain_parts B bits wr sent rd pending handler" "plain_env B rd wr handler E" "plain_reachable E c"
    and "zsess c p = Some s"
  shows "(\<forall>pooled w. \<not> dClosed s \<longrightarrow> dpooled_ok pooled \<longrightarrow> pRecv E pooled (zops c) s w \<noteq> None) \<and>
    (\<forall>i w. i \<in> zrun c p \<longrightarrow> pWork E i (zops c) s w \<noteq> None) \<and>
    (\<forall>tmp. zpc c p = ZSend tmp \<longrightarrow> ssdSendCompletionVector B wr (zops c) s tmp \<noteq> None) \<and>
    (zpc c p = ZDrain \<longrightarrow> \<not> ssdSenderDrainWaits B s \<longrightarrow> ssdSenderExit B s \<noteq> None)"
proof -
  note P = plain_env_server(1) [OF assms(1,2)] and e = plain_env_server(2,3) [OF assms(1,2)]
  have ok: "zok (pB E) bits c" using plain_ok [OF assms(1-3)] e(1) by simp
  show ?thesis
    using plain_server.Receive_ok [OF P ok assms(4)] plain_server.Work_ok [OF P ok assms(4)]
      plain_server.Send_ok [OF P ok assms(4)] plain_server.Exit_ok [OF P ok assms(4)] e
    by (intro conjI allI impI) (metis option.distinct(1))+
qed

theorem plain_no_panic_witness:
  "dpooled_ok \<lparr>dCmn = \<lparr>Idx = 0, CtxId = 0, ReqLen = 0, RespLen = 0, ReqBuf = replicate SrpcBufSize 0,
      RespBuf = replicate SrpcBufSize 0, Drop = False, Track = False, DsCredit = 0, ShouldPut = False\<rparr>, dTs = 0\<rparr> \<and>
   ssdRecvPass boolmap mem_read \<lparr>dCmn = \<lparr>Idx = 0, CtxId = 0, ReqLen = 0, RespLen = 0, ReqBuf = replicate SrpcBufSize 0,
      RespBuf = replicate SrpcBufSize 0, Drop = False, Track = False, DsCredit = 0, ShouldPut = False\<rparr>, dTs = 0\<rparr>
     (zops demo_zone) demo_zsession \<noteq> None" (is "dpooled_ok ?x \<and> _")
proof -
  have "dpooled_ok ?x" by (simp add: dpooled_ok_def)
  then show ?thesis
    using plain_no_panic [OF demo_parts demo_plain_env demo_zone_reachable demo_zone_session(1)]
    by (simp add: demo_plain_def)
qed

text \<open>
  C31.  No lost wake-up in either wait of the sender: if it waits without a signal since it went to
  sleep, then in its main loop the session is open and nothing is completed, and in the final wait some
  worker of the session is still running (whose completion will signal).
\<close>

theorem plain_no_lost_wakeup:
  assumes "plain_parts B bits wr sent rd pending handler" "plain_env B rd wr handler E" "plain_reachable E c"
    and "zsess c p = Some s" "\<not> dSignalled s"
  shows "(zpc c p = ZWait \<longrightarrow> \<not> dClosed s \<and> bits (dCompleted s) = {}) \<and>
    (zpc c p = ZDrainWait \<longrightarrow> dClosed s \<and> zrun c p \<noteq> {})"
proof -
  note P = plain_env_server(1) [OF assms(1,2)] and e = plain_env_server(2) [OF assms(1,2)]
  have s: "zsess_ok (pB E) bits (zpc c p) (zrun c p) s" using zokD(3) [OF plain_ok [OF assms(1-3)] assms(4)] e by simp
  have bm: "bitmap B bits" using assms(1) by (simp add: plain_parts_def credit_server_def)
  have "\<not> dClosed s \<and> bits (dCompleted s) = {}" if "zpc c p = ZWait"
    using s that assms(5) e bitmap.count_0 [OF bm] by (auto simp: zsess_ok_def zpc_ok_def ssdSenderWaits_def)
  moreover have "dClosed s \<and> zrun c p \<noteq> {}" if pc: "zpc c p = ZDrainWait"
  proof -
    have live: "zpc c p \<noteq> ZDone" using pc by simp
    note l = plain_server.live [OF P s live]
    have "dClosed s" "ssdSenderDrainWaits (pB E) s" using s pc assms(5) by (auto simp: zsess_ok_def zpc_ok_def)
    then show ?thesis using plain_server.drain_waits [OF P l(1)] l(4) pc by (auto simp: zsending_def)
  qed
  ultimately show ?thesis by blast
qed

definition demo_zwait :: "(bool list, mem_conn) zConf" where
  "demo_zwait = set_z 7 (zops demo_zone) (demo_zsession\<lparr>dSignalled := False\<rparr>) ZWait {} demo_zone"

theorem plain_no_lost_wakeup_witness:
  "zpc demo_zwait 7 = ZWait \<and> bools (dCompleted (demo_zsession\<lparr>dSignalled := False\<rparr>)) = {}"
proof -
  have "plain_step demo_plain demo_zone (set_z 7 (zops demo_zone) (demo_zsession\<lparr>dSignalled := False\<rparr>) ZWait (zrun demo_zone 7) demo_zone)"
    by (rule plain_step.Wait) (simp_all add: ssdSenderWaits_def demo_plain_def bm.count_0)
  then have "plain_reachable demo_plain demo_zwait"
    using plain_reachable.step [OF demo_zone_reachable] by (simp add: demo_zwait_def)
  from plain_no_lost_wakeup [OF demo_parts demo_plain_env this, of 7] show ?thesis by (simp add: demo_zwait_def)
qed

end
