(* ===== verification/Seda_Client.thy ===== *)
theory Seda_Client
  imports Seda_Server Pcc_Client
begin

text \<open>
  The client of the SEDA baseline, \<open>src/ovldctlrpc/seda/sd_client.go\<close>: every connection has its own
  queue of at most 16 requests and a token bucket whose rate follows the 99th percentile of the response
  times.  Each definition is the code between taking and releasing a connection's lock.  The timer and
  the sender of a connection are given by their rounds between two releases of the lock.

  \<open>scTimerSignal\<close> and \<open>scSenderSignal\<close> record a \<open>Signal()\<close> on the two condition variables.  The
  configuration \<open>sdCfg\<close> has the constants of \<open>sd_config.go\<close>.  Floating point operations are not
  fused, as on amd64.
\<close>

section \<open>Configuration and state\<close>

record sdCfg =
  gAlpha :: float64
  gTarget :: u64
  gTimeout :: u64
  gErrD :: float64
  gErrI :: float64
  gAdjI :: float64
  gAdjD :: float64
  gCi :: float64
  gQdelayThresh :: u64

definition sd_config :: sdCfg where
  "sd_config = \<lparr>gAlpha = f64_round (7/10), gTarget = 80, gTimeout = 1000, gErrD = FFin 0, gErrI = f64_round (- 1/2),
     gAdjI = FFin 4, gAdjD = f64_round (11/10), gCi = f64_round (- 1/10), gQdelayThresh = SedaQdelayThresh\<rparr>"

definition sd_eval_config :: sdCfg where
  "sd_eval_config = sd_config\<lparr>gTarget := 2500, gTimeout := 5000, gAdjI := FFin 2, gAdjD := f64_round (13/10),
     gQdelayThresh := SedaQdelayThresh_eval\<rparr>"

definition CsdMaxClientDelayUs :: u64 where "CsdMaxClientDelayUs = 100"
definition CsdTbInitRate :: u64 where "CsdTbInitRate = 4"
definition CsdTbMinRate :: u64 where "CsdTbMinRate = 2"
definition CsdTbMaxToken :: u64 where "CsdTbMaxToken = 4"
definition SedaNReq :: nat where "SedaNReq = 100"

record ('a, 'k) csdConn =
  scC :: 'k
  scRunning :: bool
  scTimerSignal :: bool
  scSenderSignal :: bool
  scHead :: u32
  scTail :: u32
  scQReq :: "'a crpcCtx option list"
  scTbToken :: float64
  scTbRefreshRate :: float64
  scTbLastRefresh :: u64
  scResTs :: "int list"
  scResIdx :: int
  scCur :: float64
  scSedaLastUpdate :: u64
  scRespRx :: u64
  scReqTx :: u64
  scReqDropped :: u64

record ('a, 'k) csdSession =
  seReqId :: u64
  seId :: u64
  seNextConnIdx :: nat
  seReqDropped :: u64
  seConns :: "('a, 'k) csdConn list"

section \<open>The token bucket\<close>

definition tbRefillToken :: "('a, 'k) csdConn \<Rightarrow> world \<Rightarrow> ('a, 'k) csdConn \<times> world" where
  "tbRefillToken cc w = (
     let now = MicroTime w; w1 = step_world w in
     if scTbLastRefresh cc = 0 then (cc\<lparr>scTbLastRefresh := now, scTbToken := FFin 0\<rparr>, w1)
     else
       let newToken = f_div (f_mul (f_of_u64 (now - scTbLastRefresh cc)) (scTbRefreshRate cc)) (FFin 1000000);
           token = f_add (scTbToken cc) newToken
       in (cc\<lparr>scTbToken := f_min token (f_of_u64 CsdTbMaxToken), scTbLastRefresh := now\<rparr>, w1))"

definition tbSetRate :: "float64 \<Rightarrow> ('a, 'k) csdConn \<Rightarrow> world \<Rightarrow> ('a, 'k) csdConn \<times> world" where
  "tbSetRate new_rate cc w = (
     let (cc1, w1) = tbRefillToken cc w
     in (cc1\<lparr>scTbRefreshRate := f_max new_rate (f_of_u64 CsdTbMinRate)\<rparr>, w1))"

text \<open>
  \<open>tbSleepUntilNextToken\<close> computes the time to sleep, in microseconds, before it releases the lock; it
  refills the bucket when it has the lock again.  The conversion to \<open>uint64\<close> outside its range is the
  parameter \<open>oor\<close>.
\<close>

definition tbSleepTime :: "(float64 \<Rightarrow> u64) \<Rightarrow> ('a, 'k) csdConn \<Rightarrow> world \<Rightarrow> u64 \<times> world" where
  "tbSleepTime oor cc w = (
     let sleepUntil = scTbLastRefresh cc +
           f_to_u64 oor (f_div (f_mul (f_sub (FFin 1) (scTbToken cc)) (FFin 1000000)) (scTbRefreshRate cc)) + 1;
         now = MicroTime w
     in (if now < sleepUntil then sleepUntil - now else 0, step_world w))"

section \<open>Sending\<close>

definition csd_ctx_at :: "('a, 'k) csdConn \<Rightarrow> u32 \<Rightarrow> 'a crpcCtx option" where
  "csd_ctx_at cc pos = (if ring_pos pos < length (scQReq cc) then scQReq cc ! ring_pos pos else None)"

definition csd_call_hdr :: "u64 \<Rightarrow> u64 \<Rightarrow> u64 \<Rightarrow> csdHdr" where
  "csd_call_hdr ident len now = \<lparr>hMagic = SdReqMagic, hOp = SdOpCall, hLen = len, hId = ident, hTs = now\<rparr>"

text \<open>Header and payload of a call; the flag says whether both writes succeeded.\<close>

definition csd_write ::
  "'k writer \<Rightarrow> csdHdr \<Rightarrow> byte list \<Rightarrow> 'k \<Rightarrow> (bool \<times> nat \<times> 'k) option" where
  "csd_write wr h buf k = do {
     (n, err, k1) \<leftarrow> WriteFull wr (CsdHdr_bytes h) k;
     if err \<noteq> None then Some (False, n, k1)
     else if length buf < unat (hLen h) then None
     else do {
       (n, err, k2) \<leftarrow> WriteFull wr (take (unat (hLen h)) buf) k1;
       Some (err = None, n, k2)
     }
   }"

definition csd_send_tail :: "'k writer \<Rightarrow> u64 \<Rightarrow> ('a, 'k) csdConn \<Rightarrow> (bool \<times> ('a, 'k) csdConn) option" where
  "csd_send_tail wr now cc = do {
     c \<leftarrow> csd_ctx_at cc (scTail cc);
     let cc1 = cc\<lparr>scTail := scTail cc + 1\<rparr>;
     (ok, n, k) \<leftarrow> csd_write wr (csd_call_hdr (rId c) (rLen c) now) (rBuf c) (scC cc1);
     let cc2 = cc1\<lparr>scC := k\<rparr>;
     Some (if \<not> ok then (False, cc2)
           else (True, cc2\<lparr>scTbToken := f_sub (scTbToken cc2) (FFin 1), scReqTx := scReqTx cc2 + 1\<rparr>))
   }"

lemma csd_send_tail_counters:
  assumes "csd_send_tail wr now cc = Some (b, cc')"
  shows "scHead cc' = scHead cc" "scTail cc' = scTail cc + 1" "scQReq cc' = scQReq cc"
  using assms by (auto simp: csd_send_tail_def Let_def split: Option.bind_splits if_splits)

function csdVectorLoop :: "'k writer \<Rightarrow> u64 \<Rightarrow> ('a, 'k) csdConn \<Rightarrow> (bool \<times> ('a, 'k) csdConn) option" where
  "csdVectorLoop wr now cc =
     (if scHead cc \<noteq> scTail cc \<and> f_leq (FFin 1) (scTbToken cc) then
        (case csd_send_tail wr now cc of
           None \<Rightarrow> None
         | Some (ok, cc1) \<Rightarrow> if ok then csdVectorLoop wr now cc1 else Some (False, cc1))
      else Some (True, cc))"
  by pat_completeness auto
termination
proof (relation "measure (\<lambda>(wr, now, cc). unat (scHead cc - scTail cc))", goal_cases)
  case 1
  show ?case by simp
next
  case (2 wr now cc p ok cc1)
  then have "scHead cc1 = scHead cc" "scTail cc1 = scTail cc + 1" using csd_send_tail_counters(1,2) [of wr now cc] by auto
  then show ?case using 2 queue_shrinks [of "scHead cc" "scTail cc"] by simp
qed

declare csdVectorLoop.simps [simp del]

definition csdSendRequestVector ::
  "'k writer \<Rightarrow> ('a, 'k) csdConn \<Rightarrow> world \<Rightarrow> (int \<times> ('a, 'k) csdConn \<times> world) option" where
  "csdSendRequestVector wr cc w = (
     let now = MicroTime w; w1 = step_world w in
     if scHead cc = scTail cc \<or> f_less (scTbToken cc) (FFin 1) then Some (0, cc, w1)
     else do {
       (ok, cc1) \<leftarrow> csdVectorLoop wr now cc;
       Some (if \<not> ok then (- 1, cc1, w1)
             else if scHead cc1 = scTail cc1 then (0, cc1\<lparr>scHead := 0, scTail := 0\<rparr>, w1)
             else (0, cc1, w1))
     })"

definition csdSendRaw ::
  "'k writer \<Rightarrow> byte list \<Rightarrow> u64 \<Rightarrow> u64 \<Rightarrow> ('a, 'k) csdConn \<Rightarrow> world \<Rightarrow> (int \<times> ('a, 'k) csdConn \<times> world) option" where
  "csdSendRaw wr buf len ident cc w = do {
     (ok, n, k) \<leftarrow> csd_write wr (csd_call_hdr ident len (MicroTime w)) buf (scC cc);
     Some (if \<not> ok then (- 1, cc\<lparr>scC := k\<rparr>, step_world w)
           else (int n, cc\<lparr>scC := k, scReqTx := scReqTx cc + 1\<rparr>, step_world w))
   }"

section \<open>The queue\<close>

text \<open>
  The scan of \<open>csdEnqueueOne\<close> for a connection whose queue has room, over the offsets not yet tried; it
  reads the queues without their locks.
\<close>

fun csdPick :: "nat list \<Rightarrow> ('a, 'k) csdSession \<Rightarrow> (nat option \<times> ('a, 'k) csdSession) option" where
  "csdPick [] ss = Some (None, ss)"
| "csdPick (i # is) ss = (
     let connIdx = (seNextConnIdx ss + i) mod length (seConns ss) in
     case list_get (seConns ss) connIdx of
       None \<Rightarrow> None
     | Some cc \<Rightarrow>
         if scHead cc - scTail cc < of_nat CrpcQlen
         then Some (Some connIdx, ss\<lparr>seNextConnIdx := (connIdx + 1) mod length (seConns ss)\<rparr>)
         else csdPick is ss)"

definition csd_fill :: "byte list \<Rightarrow> u64 \<Rightarrow> u64 \<Rightarrow> u64 \<Rightarrow> 'a crpcCtx \<Rightarrow> 'a crpcCtx" where
  "csd_fill buf len ident now c =
     c\<lparr>rBuf := put_at 0 (take (length (rBuf c)) (take (unat len) buf)) (rBuf c), rId := ident, rTs := now, rLen := len\<rparr>"

text \<open>The part of \<open>csdEnqueueOne\<close> under the lock of the chosen connection.\<close>

definition csdEnqueueAt ::
  "byte list \<Rightarrow> u64 \<Rightarrow> u64 \<Rightarrow> nat \<Rightarrow> ('a, 'k) csdSession \<Rightarrow> (bool \<times> ('a, 'k) csdSession) option" where
  "csdEnqueueAt buf len now j ss = do {
     cc \<leftarrow> list_get (seConns ss) j;
     if of_nat CrpcQlen \<le> scHead cc - scTail cc then Some (False, ss\<lparr>seReqDropped := seReqDropped ss + 1\<rparr>)
     else do {
       c \<leftarrow> csd_ctx_at cc (scHead cc);
       if length buf < unat len then None
       else do {
         let cc1 = cc\<lparr>scQReq := (scQReq cc)[ring_pos (scHead cc) := Some (csd_fill buf len (seReqId ss) now c)],
                      scHead := scHead cc + 1\<rparr>;
         let cc2 = (if scHead cc1 - scTail cc1 = 1 then cc1\<lparr>scTimerSignal := True, scSenderSignal := True\<rparr> else cc1);
         Some (True, ss\<lparr>seConns := (seConns ss)[j := cc2], seReqId := seReqId ss + 1\<rparr>)
       }
     }
   }"

definition csdEnqueueOne ::
  "byte list \<Rightarrow> u64 \<Rightarrow> ('a, 'k) csdSession \<Rightarrow> world \<Rightarrow> (bool \<times> ('a, 'k) csdSession \<times> world) option" where
  "csdEnqueueOne buf len ss w = do {
     (j, ss1) \<leftarrow> csdPick [0..<length (seConns ss)] ss;
     (case j of
        None \<Rightarrow> Some (False, ss1\<lparr>seReqDropped := seReqDropped ss1 + 1\<rparr>, step_world w)
      | Some j \<Rightarrow> do { (b, ss2) \<leftarrow> csdEnqueueAt buf len (MicroTime w) j ss1; Some (b, ss2, step_world w) })
   }"

text \<open>The loop that drops old requests, in the timer and in the sender.\<close>

function csdDropOld :: "u64 \<Rightarrow> ('a, 'k) csdConn \<Rightarrow> ('a, 'k) csdConn option" where
  "csdDropOld now cc =
     (if scHead cc \<noteq> scTail cc then
        (case csd_ctx_at cc (scTail cc) of
           None \<Rightarrow> None
         | Some c \<Rightarrow>
             if now - rTs c \<le> CsdMaxClientDelayUs then Some cc
             else csdDropOld now (cc\<lparr>scTail := scTail cc + 1, scReqDropped := scReqDropped cc + 1\<rparr>))
      else Some cc)"
  by pat_completeness auto
termination
  by (relation "measure (\<lambda>(now, cc). unat (scHead cc - scTail cc))")
    (auto simp: queue_shrinks simp del: add_uminus_conv_diff)

declare csdDropOld.simps [simp del]

section \<open>The timer and the sender of a connection\<close>

definition csdTimer :: "('a, 'k) csdConn \<Rightarrow> world \<Rightarrow> (timerNext \<times> ('a, 'k) csdConn \<times> world) option" where
  "csdTimer cc w =
     (if scRunning cc \<and> scHead cc = scTail cc then Some (TimerWait, cc\<lparr>scTimerSignal := False\<rparr>, w)
      else if \<not> scRunning cc then Some (TimerExit, cc, w)
      else do {
        let now = MicroTime w;
        let w1 = step_world w;
        cc1 \<leftarrow> csdDropOld now cc;
        if scHead cc1 = scTail cc1 then Some (TimerAgain, cc1\<lparr>scHead := 0, scTail := 0\<rparr>, w1)
        else do {
          c \<leftarrow> csd_ctx_at cc1 (scHead cc1 - 1);
          let now = MicroTime w1;
          Some (TimerSleep (if now < rTs c + CsdMaxClientDelayUs then rTs c + CsdMaxClientDelayUs - now else 0),
                cc1, step_world w1)
        }
      })"

text \<open>
  The sender either waits, exits, sleeps for the next token or has sent what it could.  The loop that
  waits for a token tests neither \<open>Running\<close> nor the queue; \<open>csdSenderTokens\<close> is its test, entered
  again by \<open>csdSenderWake\<close> after the sleep.
\<close>

datatype senderNext = SenderWait | SenderExit | SenderSleep u64 | SenderAgain

definition csdSenderTokens ::
  "'k writer \<Rightarrow> (float64 \<Rightarrow> u64) \<Rightarrow> ('a, 'k) csdConn \<Rightarrow> world \<Rightarrow> (senderNext \<times> ('a, 'k) csdConn \<times> world) option" where
  "csdSenderTokens wr oor cc w =
     (if f_less (scTbToken cc) (FFin 1) then (let (d, w1) = tbSleepTime oor cc w in Some (SenderSleep d, cc, w1))
      else do {
        cc1 \<leftarrow> csdDropOld (MicroTime w) cc;
        (ret, cc2, w2) \<leftarrow> csdSendRequestVector wr cc1 (step_world w);
        Some (SenderAgain, cc2, w2)
      })"

definition csdSenderWake ::
  "'k writer \<Rightarrow> (float64 \<Rightarrow> u64) \<Rightarrow> ('a, 'k) csdConn \<Rightarrow> world \<Rightarrow> (senderNext \<times> ('a, 'k) csdConn \<times> world) option" where
  "csdSenderWake wr oor cc w = (let (cc1, w1) = tbRefillToken cc w in csdSenderTokens wr oor cc1 w1)"

definition csdSender ::
  "'k writer \<Rightarrow> (float64 \<Rightarrow> u64) \<Rightarrow> ('a, 'k) csdConn \<Rightarrow> world \<Rightarrow> (senderNext \<times> ('a, 'k) csdConn \<times> world) option" where
  "csdSender wr oor cc w =
     (if scRunning cc \<and> scHead cc = scTail cc then Some (SenderWait, cc\<lparr>scSenderSignal := False\<rparr>, w)
      else if \<not> scRunning cc then Some (SenderExit, cc, w)
      else csdSenderTokens wr oor cc w)"

section \<open>The rate controller\<close>

text \<open>The new rate for a sample of the response time.\<close>

definition csdAdjust :: "sdCfg \<Rightarrow> int \<Rightarrow> float64 \<Rightarrow> ('a, 'k) csdConn \<Rightarrow> world \<Rightarrow> ('a, 'k) csdConn \<times> world" where
  "csdAdjust g samp rate cc w = (
     let cur = f_add (f_mul (gAlpha g) (scCur cc)) (f_mul (f_sub (FFin 1) (gAlpha g)) (f_of_int samp));
         err = f_div (f_sub cur (f_of_u64 (gTarget g))) (f_of_u64 (gTarget g));
         rate1 = (if f_less (gErrD g) err then f_div rate (gAdjD g)
                  else if f_less err (gErrI g) then f_add rate (f_mul (f_neg (f_sub err (gCi g))) (gAdjI g))
                  else rate)
     in tbSetRate rate1 (cc\<lparr>scCur := cur\<rparr>) w)"

text \<open>\<open>int(float64(len - 1) * 0.99)\<close>; the value is always in range.\<close>

definition csdPercentile :: "int \<Rightarrow> int" where
  "csdPercentile len = (case f_trunc (f_mul (f_of_int (len - 1)) (f64_round (99/100))) of Some k \<Rightarrow> k | None \<Rightarrow> 0)"

definition int_get :: "int list \<Rightarrow> int \<Rightarrow> int option" where
  "int_get xs i = (if i < 0 then None else list_get xs (nat i))"

definition csdUpdateTbRate ::
  "sdCfg \<Rightarrow> u64 \<Rightarrow> ('a, 'k) csdConn \<Rightarrow> world \<Rightarrow> (('a, 'k) csdConn \<times> world) option" where
  "csdUpdateTbRate g us cc w = do {
     let rate = scTbRefreshRate cc;
     let now = MicroTime w;
     let w1 = step_world w;
     let pos = scResIdx cc smod int SedaNReq;
     ts \<leftarrow> (if pos < 0 then None else list_put (scResTs cc) (nat pos) (u2i us));
     let cc1 = cc\<lparr>scResTs := ts, scResIdx := iadd (scResIdx cc) 1\<rparr>;
     if now - scSedaLastUpdate cc1 > gTimeout g then do {
       let len = scResIdx cc1 smod int SedaNReq;
       ts1 \<leftarrow> (if len < 0 then None else Some (sort (take (nat len) (scResTs cc1)) @ drop (nat len) (scResTs cc1)));
       samp \<leftarrow> int_get ts1 (csdPercentile len);
       let (cc2, w2) = csdAdjust g samp rate (cc1\<lparr>scResTs := ts1\<rparr>) w1;
       Some (cc2\<lparr>scSedaLastUpdate := MicroTime w2, scResIdx := 0\<rparr>, step_world w2)
     } else if scResIdx cc1 smod int SedaNReq > 0 then Some (cc1, w1)
     else do {
       let ts1 = sort (take SedaNReq (scResTs cc1)) @ drop SedaNReq (scResTs cc1);
       samp \<leftarrow> int_get ts1 99;
       let (cc2, w2) = csdAdjust g samp rate (cc1\<lparr>scResTs := ts1\<rparr>) w1;
       Some (cc2\<lparr>scSedaLastUpdate := MicroTime w2\<rparr>, step_world w2)
     }
   }"

section \<open>The client interface\<close>

text \<open>A new connection; the initial rate is random between the minimal and the initial rate.\<close>

definition csd_new_conn :: "'k \<Rightarrow> world \<Rightarrow> ('a, 'k) csdConn \<times> world" where
  "csd_new_conn k w = (\<lparr>scC = k, scRunning = True, scTimerSignal = False, scSenderSignal = False, scHead = 0, scTail = 0,
     scQReq = replicate CrpcQlen (Some \<lparr>rLen = 0, rId = 0, rTs = 0, rBuf = replicate SrpcBufSize 0, rArg = None\<rparr>),
     scTbToken = FFin 0,
     scTbRefreshRate = f_add (f_mul (Float64_of w) (f_of_u64 (CsdTbInitRate - CsdTbMinRate))) (f_of_u64 CsdTbMinRate),
     scTbLastRefresh = 0, scResTs = replicate SedaNReq 0, scResIdx = 0, scCur = FFin 0, scSedaLastUpdate = 0,
     scRespRx = 0, scReqTx = 0, scReqDropped = 0\<rparr>, step_world w)"

definition csdAddConnection :: "nat \<Rightarrow> 'k option \<Rightarrow> ('a, 'k) csdSession \<Rightarrow> world \<Rightarrow> int \<times> ('a, 'k) csdSession \<times> world" where
  "csdAddConnection port dial ss w =
     (if CrpcMaxReplica \<le> length (seConns ss) then (- 1, ss, w)
      else if port \<noteq> SrpcPort then (- 1, ss, w)
      else case dial of
        None \<Rightarrow> (- 1, ss, w)
      | Some k \<Rightarrow> (let (cc, w1) = csd_new_conn k w in (0, ss\<lparr>seConns := seConns ss @ [cc]\<rparr>, w1)))"

fun csdRefillAll :: "('a, 'k) csdConn list \<Rightarrow> world \<Rightarrow> ('a, 'k) csdConn list \<times> world" where
  "csdRefillAll [] w = ([], w)"
| "csdRefillAll (cc # ccs) w = (
     let (cc1, w1) = tbRefillToken cc w; (ccs1, w2) = csdRefillAll ccs w1 in (cc1 # ccs1, w2))"

text \<open>The hot path: the first connection with an empty queue and a token, over the offsets not yet tried.\<close>

fun csdHotPath ::
  "'k writer \<Rightarrow> byte list \<Rightarrow> u64 \<Rightarrow> nat list \<Rightarrow> ('a, 'k) csdSession \<Rightarrow> world \<Rightarrow>
   (int option \<times> ('a, 'k) csdSession \<times> world) option" where
  "csdHotPath wr buf len [] ss w = Some (None, ss, w)"
| "csdHotPath wr buf len (i # is) ss w = (
     let connIdx = (seNextConnIdx ss + i) mod length (seConns ss) in
     case list_get (seConns ss) connIdx of
       None \<Rightarrow> None
     | Some cc \<Rightarrow>
         if scHead cc = scTail cc \<and> f_leq (FFin 1) (scTbToken cc) then do {
           (ret, cc1, w1) \<leftarrow> csdSendRaw wr buf len (seReqId ss) (cc\<lparr>scTbToken := f_sub (scTbToken cc) (FFin 1)\<rparr>) w;
           Some (Some ret, ss\<lparr>seConns := (seConns ss)[connIdx := cc1], seReqId := seReqId ss + 1,
                   seNextConnIdx := (seNextConnIdx ss + 1) mod length (seConns ss)\<rparr>, w1)
         } else csdHotPath wr buf len is ss w)"

definition csdSendOne ::
  "'k writer \<Rightarrow> byte list \<Rightarrow> u64 \<Rightarrow> ('a, 'k) csdSession \<Rightarrow> world \<Rightarrow> (int \<times> ('a, 'k) csdSession \<times> world) option" where
  "csdSendOne wr buf len ss w =
     (if SrpcBufSize < unat len then Some (- 1, ss, w)
      else do {
        let (ccs, w1) = csdRefillAll (seConns ss) w;
        let ss1 = ss\<lparr>seConns := ccs\<rparr>;
        (sent, ss2, w2) \<leftarrow> csdHotPath wr buf len [0..<length ccs] ss1 w1;
        (case sent of
           Some ret \<Rightarrow> Some (ret, ss2, w2)
         | None \<Rightarrow> do { (queued, ss3, w3) \<leftarrow> csdEnqueueOne buf len ss2 w2; Some (u2i len, ss3, w3) })
      })"

definition csdRecvHdr :: "'k reader \<Rightarrow> nat \<Rightarrow> 'k \<Rightarrow> (ssdHdr option \<times> 'k) option" where
  "csdRecvHdr rd len k = do {
     (n, err, bs, k1) \<leftarrow> ReadFull rd (replicate sd_hdr_size 0) k;
     let shdr = CsdHdr_of_bytes bs;
     Some (if err \<noteq> None then (None, k1)
           else if hMagic shdr \<noteq> SdRespMagic then (None, k1)
           else if Min_go SrpcBufSize len < unat (hLen shdr) then (None, k1)
           else (Some shdr, k1))
   }"

definition csdRecvPass ::
  "sdCfg \<Rightarrow> 'k reader \<Rightarrow> nat \<Rightarrow> byte list \<Rightarrow> ('a, 'k) csdConn \<Rightarrow> world \<Rightarrow>
   (clientOutcome \<times> byte list \<times> ('a, 'k) csdConn \<times> world) option" where
  "csdRecvPass g rd len buf cc w = do {
     (h, k) \<leftarrow> csdRecvHdr rd len (scC cc);
     let cc1 = cc\<lparr>scC := k\<rparr>;
     (case h of
        None \<Rightarrow> Some (ClientRet (- 1), buf, cc1, w)
      | Some shdr \<Rightarrow>
          if hOp shdr = SdOpCall then
            if hLen shdr = 0 then Some (ClientAgain, buf, cc1, w)
            else if length buf < unat (hLen shdr) then None
            else do {
              (n, err, bs, k) \<leftarrow> ReadFull rd (take (unat (hLen shdr)) buf) (scC cc1);
              let buf1 = bs @ drop (unat (hLen shdr)) buf;
              if err \<noteq> None then Some (ClientRet (- 1), buf1, cc1\<lparr>scC := k\<rparr>, w)
              else do {
                let us = MicroTime w - hTs shdr;
                (cc2, w2) \<leftarrow> csdUpdateTbRate g us (cc1\<lparr>scC := k, scRespRx := scRespRx cc1 + 1\<rparr>) (step_world w);
                Some (ClientRet (u2i (hLen shdr)), buf1, cc2, w2)
              }
            }
          else Some (ClientRet (- 1), buf, cc1, w))
   }"

partial_function (option) csdRecvOne ::
  "sdCfg \<Rightarrow> 'k reader \<Rightarrow> nat \<Rightarrow> byte list \<Rightarrow> ('a, 'k) csdConn \<Rightarrow> world \<Rightarrow>
   (int \<times> byte list \<times> ('a, 'k) csdConn \<times> world) option" where
  "csdRecvOne g rd len buf cc w =
     (case csdRecvPass g rd len buf cc w of
        None \<Rightarrow> None
      | Some (r, buf1, cc1, w1) \<Rightarrow>
          (case r of ClientAgain \<Rightarrow> csdRecvOne g rd len buf1 cc1 w1 | ClientRet n \<Rightarrow> Some (n, buf1, cc1, w1)))"

definition csdOpen :: "nat \<Rightarrow> 'k option \<Rightarrow> u64 \<Rightarrow> world \<Rightarrow> ('a, 'k) csdSession option \<times> int \<times> world" where
  "csdOpen port dial ident w =
     (if port \<noteq> SrpcPort then (None, - 1, w)
      else case dial of
        None \<Rightarrow> (None, - 1, w)
      | Some k \<Rightarrow> (let (cc, w1) = csd_new_conn k w
                  in (Some \<lparr>seReqId = 1, seId = ident, seNextConnIdx = 0, seReqDropped = 0, seConns = [cc]\<rparr>, 0, w1)))"

text \<open>Closing: every timer and sender is stopped; when they have exited, the connections are closed and dropped.\<close>

definition csdClose_stop :: "('a, 'k) csdSession \<Rightarrow> ('a, 'k) csdSession" where
  "csdClose_stop ss = ss\<lparr>seConns := map (\<lambda>c. c\<lparr>scRunning := False, scTimerSignal := True, scSenderSignal := True\<rparr>) (seConns ss)\<rparr>"

definition csdClose_free :: "('k \<Rightarrow> 'k) \<Rightarrow> ('a, 'k) csdSession \<Rightarrow> 'k list \<times> ('a, 'k) csdSession" where
  "csdClose_free cl ss = (map (\<lambda>c. cl (scC c)) (seConns ss), ss\<lparr>seConns := []\<rparr>)"

definition csdCredit :: "('a, 'k) csdSession \<Rightarrow> u64" where "csdCredit ss = 0"
definition csdStatClear :: "('a, 'k) csdSession \<Rightarrow> ('a, 'k) csdSession" where "csdStatClear ss = ss"
definition csdStatECreditRx :: "('a, 'k) csdSession \<Rightarrow> u64" where "csdStatECreditRx ss = 0"
definition csdStatCreditExpired :: "('a, 'k) csdSession \<Rightarrow> u64" where "csdStatCreditExpired ss = 0"
definition csdStatCUpdateTx :: "('a, 'k) csdSession \<Rightarrow> u64" where "csdStatCUpdateTx ss = 0"

definition csdStatRespRx :: "('a, 'k) csdSession \<Rightarrow> u64" where
  "csdStatRespRx ss = foldl (\<lambda>ret c. ret + scRespRx c) 0 (seConns ss)"

definition csdStatReqTx :: "('a, 'k) csdSession \<Rightarrow> u64" where
  "csdStatReqTx ss = foldl (\<lambda>ret c. ret + scReqTx c) 0 (seConns ss)"

definition csdStatReqDropped :: "('a, 'k) csdSession \<Rightarrow> u64" where
  "csdStatReqDropped ss = foldl (\<lambda>ret c. ret + scReqDropped c) (seReqDropped ss) (seConns ss)"

end
