(* ===== verification/Float_Sign.thy ===== *)
theory Float_Sign
  imports Float64
begin

text \<open>
  Further facts on \<open>float64\<close>: small integers are represented exactly, rounding does not cross an
  integer from above, and the values that are not negative are closed under the operations of the token
  bucket.
\<close>

lemma rne_of_int [simp]: "rne (of_int k) = k"
  by (simp add: rne_def)

lemma rne_ge_floor: "\<lfloor>x\<rfloor> \<le> rne x"
  by (simp add: rne_def Let_def)

lemma ilog2_less: "0 < x \<Longrightarrow> x < 2 ^ n \<Longrightarrow> ilog2 x < int n"
proof (rule ccontr)
  assume x: "0 < x" "x < 2 ^ n" and "\<not> ilog2 x < int n"
  then have "(2 :: rat) powi int n \<le> 2 powi ilog2 x" by (intro power_int_increasing) simp_all
  also have "\<dots> \<le> x" by (rule ilog2_le [OF x(1)])
  finally show False using x(2) by simp
qed

text \<open>A multiple of the last place is not changed by rounding, and is a lower bound for the results above it.\<close>

lemma round_pos_ge:
  assumes "0 < x" "of_int k * 2 powi ulp_exp x \<le> x" "round_pos x = FFin v"
  shows "of_int k * 2 powi ulp_exp x \<le> v"
proof -
  let ?u = "2 powi ulp_exp x :: rat"
  have u: "0 < ?u" by simp
  have "of_int k \<le> x / ?u" using assms(2) u by (simp add: pos_le_divide_eq)
  then have "k \<le> \<lfloor>x / ?u\<rfloor>" by (simp add: le_floor_iff)
  then have "k \<le> rne (x / ?u)" using rne_ge_floor order_trans by blast
  then have "of_int k * ?u \<le> of_int (rne (x / ?u)) * ?u" using u by (intro mult_right_mono) simp_all
  also have "of_int (rne (x / ?u)) * ?u = v"
    using assms(3) unfolding round_pos_def Let_def by (metis float64.distinct(9) float64.inject(2))
  finally show ?thesis .
qed

lemma int_on_grid:
  assumes "0 < x" "x < 2 ^ 52"
  shows "\<exists>k. of_int n = of_int k * (2 :: rat) powi ulp_exp x"
proof -
  have "ilog2 x < 52" using ilog2_less [OF assms] by simp
  then have e: "ulp_exp x \<le> 0" by (simp add: ulp_exp_def)
  have "(2 :: rat) ^ nat (- ulp_exp x) * 2 powi ulp_exp x = 1"
    using e by (auto simp: power_int_def power_inverse power_mult_distrib [symmetric])
  then have "of_int n = of_int (n * 2 ^ nat (- ulp_exp x)) * (2 :: rat) powi ulp_exp x"
    by (simp add: mult.assoc)
  then show ?thesis by blast
qed

lemma f64_round_int: "0 \<le> n \<Longrightarrow> n < 2 ^ 52 \<Longrightarrow> f64_round (of_int n) = FFin (of_int n)"
proof (cases "n = 0")
  case False
  assume n: "0 \<le> n" "n < 2 ^ 52"
  let ?x = "of_int n :: rat"
  have x: "0 < ?x" using n False by simp
  have x52: "?x < 2 ^ 52" using n(2) by (metis of_int_less_iff of_int_numeral of_int_power)
  from int_on_grid [OF x x52, of n] obtain k where k: "?x = of_int k * 2 powi ulp_exp ?x" by blast
  then have "?x / 2 powi ulp_exp ?x = of_int k" by (simp add: divide_eq_eq)
  moreover have "?x < 2 powi 1024" using x52 by (rule less_trans) simp
  ultimately have "round_pos ?x = FFin ?x" using k by (simp add: round_pos_def Let_def)
  then show ?thesis using x by (simp add: f64_round_def)
qed (simp add: f64_round_def)

lemma f_of_u64_small: "uint n < 2 ^ 52 \<Longrightarrow> f_of_u64 n = FFin (of_int (uint n))"
  unfolding f_of_u64_def by (intro f64_round_int) simp_all

text \<open>Rounding stays above a small integer.\<close>

lemma f64_round_ge:
  assumes "of_int n \<le> x" "0 < n" "x < 2 ^ 52"
  shows "\<exists>v. f64_round x = FFin v \<and> of_int n \<le> v"
proof -
  have n0: "(0 :: rat) < of_int n" using assms(2) by simp
  have x: "0 < x" using n0 assms(1) by (rule less_le_trans)
  have "(2 :: rat) ^ 52 \<le> 2 ^ 1000" by (rule power_increasing) simp_all
  then have "x \<le> 2 ^ 1000" by (rule order_trans [OF less_imp_le [OF assms(3)]])
  from round_pos_bounds [OF x this] obtain v where v: "round_pos x = FFin v" by blast
  from int_on_grid [OF x assms(3), of n] obtain k where k: "of_int n = of_int k * (2 :: rat) powi ulp_exp x" by blast
  then have "of_int n \<le> v" using round_pos_ge [OF x _ v, of k] assms(1) by simp
  then show ?thesis using v x by (simp add: f64_round_def)
qed

section \<open>Values that are not negative\<close>

definition f_nonneg :: "float64 \<Rightarrow> bool" where
  "f_nonneg a = (case a of FNaN \<Rightarrow> True | FInf s \<Rightarrow> \<not> s | FNegZero \<Rightarrow> False | FFin r \<Rightarrow> 0 \<le> r)"

lemma round_nonneg: "0 \<le> x \<Longrightarrow> f_nonneg (f64_round x)"
proof -
  assume x: "0 \<le> x"
  have "0 \<le> rne y" if "0 \<le> y" for y
    using rne_ge_floor [of y] that by (meson order_trans zero_le_floor)
  then have "0 \<le> rne (x / 2 powi ulp_exp x)" using x by simp
  then show ?thesis using x by (auto simp: f_nonneg_def f64_round_def round_pos_def Let_def)
qed

lemma f_nonneg_of_u64: "f_nonneg (f_of_u64 n)"
  unfolding f_of_u64_def by (rule round_nonneg) (simp only: of_int_0_le_iff uint_ge_0)

lemma f_nonneg_add: "f_nonneg a \<Longrightarrow> f_nonneg b \<Longrightarrow> f_nonneg (f_add a b)"
  by (cases a; cases b) (auto simp: f_nonneg_def f_add_def f_val_def intro!: round_nonneg [unfolded f_nonneg_def])

lemma f_nonneg_mul: "f_nonneg a \<Longrightarrow> f_nonneg b \<Longrightarrow> f_nonneg (f_mul a b)"
  by (cases a; cases b) (auto simp: f_nonneg_def f_mul_def f_val_def f_inf_def f_zero_def f_sign_def signed_zero_def
      Let_def intro!: round_nonneg [unfolded f_nonneg_def])

lemma f_nonneg_div: "f_nonneg a \<Longrightarrow> 0 < r \<Longrightarrow> f_nonneg (f_div a (FFin r))"
  by (cases a) (auto simp: f_nonneg_def f_div_def f_val_def f_inf_def f_zero_def f_sign_def signed_zero_def
      Let_def intro!: round_nonneg [unfolded f_nonneg_def])

lemma f_min_range: "f_nonneg a \<Longrightarrow> 0 \<le> m \<Longrightarrow> \<exists>v. f_min a (FFin m) = FFin v \<and> 0 \<le> v \<and> v \<le> m"
  by (cases a) (auto simp: f_nonneg_def f_min_def f_less_def f_val_def)

lemma f_max_range: "(\<exists>v. f_max a (FFin m) = FFin v \<and> m \<le> v) \<or> f_max a (FFin m) = FInf False" if "0 \<le> m" for m
  using that by (cases a) (auto simp: f_max_def f_less_def f_val_def)

end
