(* ===== verification/Seda_Client_Safety.thy ===== *)
theory Seda_Client_Safety
  imports Seda_Client Client_Queue Float_Sign
begin

text \<open>
  Invariants of the SEDA client (theory \<open>Seda_Client\<close>): the token bucket of a connection holds between
  0 and 4 tokens, its rate is at least the minimal rate and never NaN, the queue has at most 16 requests,
  and no operation panics.
\<close>

section \<open>Well-formed connections\<close>

definition token_ok :: "float64 \<Rightarrow> bool" where
  "token_ok t \<longleftrightarrow> (\<exists>v. t = FFin v \<and> 0 \<le> v \<and> v \<le> 4)"

definition rate_ok :: "float64 \<Rightarrow> bool" where
  "rate_ok r \<longleftrightarrow> (\<exists>v. r = FFin v \<and> 2 \<le> v) \<or> r = FInf False"

definition csd_queue_ok :: "('a, 'k) csdConn \<Rightarrow> bool" where
  "csd_queue_ok cc \<longleftrightarrow> length (scQReq cc) = CrpcQlen \<and>
     (\<forall>i<CrpcQlen. \<exists>c. scQReq cc ! i = Some c \<and> Client_Queue.ctx_ok c) \<and> unat (scHead cc - scTail cc) \<le> CrpcQlen"

definition csd_conn_ok :: "('a, 'k) csdConn \<Rightarrow> bool" where
  "csd_conn_ok cc \<longleftrightarrow> csd_queue_ok cc \<and> token_ok (scTbToken cc) \<and> rate_ok (scTbRefreshRate cc) \<and>
     length (scResTs cc) = SedaNReq \<and> 0 \<le> scResIdx cc"

lemma csd_queue_cong:
  "scQReq cc' = scQReq cc \<Longrightarrow> scHead cc' = scHead cc \<Longrightarrow> scTail cc' = scTail cc \<Longrightarrow> csd_queue_ok cc' = csd_queue_ok cc"
  by (simp add: csd_queue_ok_def)

lemma csd_ctx_Some: "csd_queue_ok cc \<Longrightarrow> \<exists>c. csd_ctx_at cc pos = Some c \<and> Client_Queue.ctx_ok c"
  using ring_pos_less [of pos] by (simp add: csd_queue_ok_def csd_ctx_at_def CrpcQlen_def)

lemma csd_queue_pop:
  assumes "csd_queue_ok cc" "scHead cc \<noteq> scTail cc" "scQReq cc' = scQReq cc" "scHead cc' = scHead cc"
    "scTail cc' = scTail cc + 1"
  shows "csd_queue_ok cc'" "unat (scHead cc - scTail cc) = Suc (unat (scHead cc' - scTail cc'))"
proof -
  have nz: "scHead cc - scTail cc \<noteq> 0" using assms(2) by simp
  have e: "scHead cc' - scTail cc' = scHead cc - scTail cc - 1" using assms(4,5) by simp
  show n: "unat (scHead cc - scTail cc) = Suc (unat (scHead cc' - scTail cc'))"
    unfolding e by (rule unat_minus_one [OF nz, THEN arg_cong [of _ _ Suc], THEN trans, symmetric])
      (use nz in \<open>simp add: unat_gt_0 word_neq_0_conv [symmetric]\<close>)
  then show "csd_queue_ok cc'" using assms(1,3) by (simp add: csd_queue_ok_def)
qed

section \<open>The token bucket\<close>

lemma rate_nonneg: "rate_ok r \<Longrightarrow> f_nonneg r"
  by (auto simp: rate_ok_def f_nonneg_def)

lemma token_nonneg: "token_ok t \<Longrightarrow> f_nonneg t"
  by (auto simp: token_ok_def f_nonneg_def)

lemma max_token [simp]: "f_of_u64 CsdTbMaxToken = FFin 4" "f_of_u64 CsdTbMinRate = FFin 2"
  by (simp_all add: f_of_u64_small CsdTbMaxToken_def CsdTbMinRate_def)

lemma refill_ok:
  assumes "token_ok (scTbToken cc)" "rate_ok (scTbRefreshRate cc)" "tbRefillToken cc w = (cc', w')"
  shows "token_ok (scTbToken cc') \<and> (\<exists>t l. cc' = cc\<lparr>scTbToken := t, scTbLastRefresh := l\<rparr>)"
proof (cases "scTbLastRefresh cc = 0")
  case True
  then have "cc' = cc\<lparr>scTbToken := FFin 0, scTbLastRefresh := MicroTime w\<rparr>"
    using assms(3) by (auto simp: tbRefillToken_def Let_def)
  then show ?thesis by (auto simp: token_ok_def)
next
  case False
  let ?t = "f_add (scTbToken cc)
    (f_div (f_mul (f_of_u64 (MicroTime w - scTbLastRefresh cc)) (scTbRefreshRate cc)) (FFin 1000000))"
  have "f_nonneg ?t"
    by (intro f_nonneg_add f_nonneg_div f_nonneg_mul f_nonneg_of_u64 token_nonneg rate_nonneg assms(1,2)) simp
  then have "token_ok (f_min ?t (FFin 4))" using f_min_range [of ?t 4] by (simp add: token_ok_def)
  moreover have "cc' = cc\<lparr>scTbToken := f_min ?t (FFin 4), scTbLastRefresh := MicroTime w\<rparr>"
    using assms(3) False by (simp add: tbRefillToken_def Let_def)
  ultimately show ?thesis by auto
qed

lemma refill_conn_ok: "csd_conn_ok cc \<Longrightarrow> tbRefillToken cc w = (cc', w') \<Longrightarrow> csd_conn_ok cc'"
  using refill_ok [of cc w cc' w'] csd_queue_cong [of cc' cc] by (auto simp: csd_conn_ok_def)

lemma set_rate_ok: "rate_ok (f_max r (FFin 2))"
  using f_max_range [of 2 r] by (auto simp: rate_ok_def)

text \<open>Taking a token: the subtraction keeps the token count in range and lowers it by one, up to rounding.\<close>

lemma take_token:
  assumes "token_ok t" "f_leq (FFin 1) t" "f_val t \<le> b + 1"
  shows "token_ok (f_sub t (FFin 1))" "f_val (f_sub t (FFin 1)) \<le> b + 1/100"
proof -
  obtain v where v: "t = FFin v" "0 \<le> v" "v \<le> 4" using assms(1) by (auto simp: token_ok_def)
  have v1: "1 \<le> v" using assms(2) by (auto simp: f_leq_def f_less_def f_val_def v not_less)
  have s: "f_sub t (FFin 1) = f64_round (v - 1)" by (simp add: f_sub_def f_neg_def f_add_def f_val_def v)
  have "v - 1 \<le> 3" using v(3) by simp
  also have "(3 :: rat) \<le> 2 ^ 1000" by simp
  finally have "v - 1 \<le> 2 ^ 1000" .
  from f64_round_nonneg [OF _ this] v1 obtain r where
    r: "f64_round (v - 1) = FFin r" "0 \<le> r" "r \<le> (v - 1) + (v - 1) / 2 ^ 53 + 1 / 2 ^ 1075" by auto
  have "(v - 1) / 2 ^ 53 \<le> 1 / 200" using v(3) by (simp add: field_simps)
  moreover have "(1 :: rat) / 2 ^ 1075 \<le> 1 / 200" by simp
  ultimately have "r \<le> (v - 1) + 1/100" using r(3) by linarith
  then show "token_ok (f_sub t (FFin 1))" "f_val (f_sub t (FFin 1)) \<le> b + 1/100"
    using r(2) v(3) assms(3) unfolding s r(1) by (simp_all add: token_ok_def f_val_def v(1))
qed

section \<open>The rate controller\<close>

lemma percentile_range:
  assumes "0 \<le> len" "len \<le> 99"
  shows "0 \<le> csdPercentile len" "csdPercentile len < max 1 len"
proof -
  obtain b where b: "f64_round (99/100) = FFin b" "0 \<le> b" "b \<le> 99/100 + 99/100 / 2 ^ 53 + 1 / 2 ^ 1075"
    using f64_round_nonneg [of "99/100"] by auto
  have tiny: "(1 :: rat) / 2 ^ 1075 \<le> 1 / 1000" by simp
  have "(99/100 :: rat) / 2 ^ 53 \<le> 1 / 1000" by simp
  then have b1: "b \<le> 992/1000" using b(3) tiny by linarith
  let ?x = "of_int (len - 1) :: rat"
  have prod: "\<exists>r. f64_round (y * b) = FFin r \<and> 0 \<le> r \<and> r \<le> y * b + 1/1000 + y * b / 1000" if "0 \<le> y" "y \<le> 99" for y
  proof -
    have yb: "0 \<le> y * b" "y * b \<le> 99" using that b(2) b1 mult_mono [of y 99 b 1] by auto
    have "(99 :: rat) \<le> 2 ^ 1000" by simp
    with yb(2) have "y * b \<le> 2 ^ 1000" by (rule order_trans)
    from f64_round_nonneg [OF yb(1) this] obtain r where
      r: "f64_round (y * b) = FFin r" "0 \<le> r" "r \<le> y * b + y * b / 2 ^ 53 + 1 / 2 ^ 1075" by blast
    have "y * b / 2 ^ 53 \<le> y * b / 1000" using yb(1) by (intro divide_left_mono) simp_all
    then show ?thesis using r tiny by (intro exI [of _ r]) linarith
  qed
  have "0 \<le> csdPercentile len \<and> csdPercentile len < max 1 len"
  proof (cases "len = 0")
    case True
    have "round_pos 1 = FFin 1" using f64_round_int [of 1] by (simp add: f64_round_def)
    then have m1: "f_of_int (len - 1) = FFin (- 1)" using True by (simp add: f_of_int_def f64_round_def f_neg_def)
    obtain r where r: "f64_round b = FFin r" "0 \<le> r" "r \<le> b + 1/1000 + b / 1000" using prod [of 1] by auto
    have "r < 1" using r(3) b1 by linarith
    then have "\<lfloor>r\<rfloor> = 0" using r(2) by (simp add: floor_eq_iff)
    then show ?thesis using True m1 b(1,2) r(1,2)
      by (auto simp: csdPercentile_def f_mul_def Let_def f_inf_def f_zero_def f_sign_def signed_zero_def f_trunc_def
          f_val_def f64_round_def f_neg_def split: if_splits)
  next
    case False
    then have len: "1 \<le> len" using assms(1) by simp
    have m: "f_of_int (len - 1) = FFin ?x" using len assms(2) by (simp only: f_of_int_def) (rule f64_round_int; simp)
    have x0: "0 \<le> ?x" using len by (simp only: of_int_0_le_iff)
    have x99: "?x \<le> 99" using assms(2) by simp
    obtain r where r: "f64_round (?x * b) = FFin r" "0 \<le> r" "r \<le> ?x * b + 1/1000 + ?x * b / 1000"
      using prod [OF x0 x99] by blast
    define z where "z = ?x * b"
    have z: "z \<le> ?x * (992/1000)" unfolding z_def using b1 x0 by (intro mult_left_mono)
    have lin: "r < x + 1" if "r \<le> z + 1/1000 + z / 1000" "z \<le> x * (992/1000)" "0 \<le> x" for x :: rat
      using that by simp
    have "r < ?x + 1" by (rule lin [OF r(3) [folded z_def] z x0])
    then have "r < of_int len" by simp
    then have fl: "0 \<le> \<lfloor>r\<rfloor>" "\<lfloor>r\<rfloor> < len" using r(2) by (simp_all add: floor_less_iff)
    have "csdPercentile len = (if ?x = 0 \<or> b = 0 then 0 else \<lfloor>r\<rfloor>)"
      unfolding csdPercentile_def m b(1) using x0 b(2) r(1,2)
      by (auto simp: f_mul_def Let_def f_inf_def f_zero_def f_sign_def signed_zero_def f_trunc_def f_val_def)
    then show ?thesis using fl len by auto
  qed
  then show "0 \<le> csdPercentile len" "csdPercentile len < max 1 len" by auto
qed

lemma smod_nonneg: "0 \<le> a \<Longrightarrow> 0 < b \<Longrightarrow> a smod b = a mod (b :: int)"
  by (cases "a = 0") (simp_all add: signed_modulo_int_def)

lemma adjust_ok:
  assumes "csd_conn_ok cc" "csdAdjust g samp rate cc w = (cc', w')"
  shows "csd_conn_ok cc'" "scResTs cc' = scResTs cc" "scResIdx cc' = scResIdx cc" "scHead cc' = scHead cc"
proof -
  let ?cur = "f_add (f_mul (gAlpha g) (scCur cc)) (f_mul (f_sub (FFin 1) (gAlpha g)) (f_of_int samp))"
  let ?cc = "cc\<lparr>scCur := ?cur\<rparr>"
  obtain cc1 w1 where r: "tbRefillToken ?cc w = (cc1, w1)" by (cases "tbRefillToken ?cc w")
  have ok: "csd_conn_ok ?cc" using assms(1) by (simp add: csd_conn_ok_def csd_queue_ok_def)
  obtain rr where c: "cc' = cc1\<lparr>scTbRefreshRate := f_max rr (FFin 2)\<rparr>"
    using assms(2) r by (auto simp: csdAdjust_def tbSetRate_def Let_def)
  have "csd_conn_ok cc1" by (rule refill_conn_ok [OF ok r])
  then show "csd_conn_ok cc'" unfolding c using set_rate_ok by (simp add: csd_conn_ok_def csd_queue_ok_def)
  from refill_ok [OF _ _ r] ok obtain t l where "cc1 = ?cc\<lparr>scTbToken := t, scTbLastRefresh := l\<rparr>"
    by (auto simp: csd_conn_ok_def)
  then show "scResTs cc' = scResTs cc" "scResIdx cc' = scResIdx cc" "scHead cc' = scHead cc" by (simp_all add: c)
qed

text \<open>\<open>csdUpdateTbRate\<close> without its bound checks; \<open>n\<close> is the position of the new sample in the window.\<close>

definition window_after :: "u64 \<Rightarrow> ('a, 'k) csdConn \<Rightarrow> ('a, 'k) csdConn" where
  "window_after us cc = cc\<lparr>scResTs := (scResTs cc)[nat (scResIdx cc mod 100) := u2i us], scResIdx := scResIdx cc + 1\<rparr>"

definition sort_front :: "int \<Rightarrow> ('a, 'k) csdConn \<Rightarrow> ('a, 'k) csdConn" where
  "sort_front len cc = cc\<lparr>scResTs := sort (take (nat len) (scResTs cc)) @ drop (nat len) (scResTs cc)\<rparr>"

lemma UpdateTbRate_eq:
  fixes us :: u64
  assumes ok: "csd_conn_ok cc" and idx: "scResIdx cc < 2 ^ 62"
  defines "len \<equiv> (scResIdx cc + 1) mod 100" and "c1 \<equiv> window_after us cc"
  shows "csdUpdateTbRate g us cc w =
    (if gTimeout g < MicroTime w - scSedaLastUpdate cc then
       (case csdAdjust g (scResTs (sort_front len c1) ! nat (csdPercentile len)) (scTbRefreshRate cc)
               (sort_front len c1) (step_world w) of
          (cc2, w2) \<Rightarrow> Some (cc2\<lparr>scSedaLastUpdate := MicroTime w2, scResIdx := 0\<rparr>, step_world w2))
     else if len > 0 then Some (c1, step_world w)
     else (case csdAdjust g (scResTs (sort_front 100 c1) ! 99) (scTbRefreshRate cc) (sort_front 100 c1) (step_world w) of
             (cc2, w2) \<Rightarrow> Some (cc2\<lparr>scSedaLastUpdate := MicroTime w2\<rparr>, step_world w2)))"
proof -
  have i0: "0 \<le> scResIdx cc" and ln: "length (scResTs cc) = 100" using ok by (auto simp: csd_conn_ok_def SedaNReq_def)
  let ?pos = "scResIdx cc mod 100" let ?ts = "(scResTs cc)[nat ?pos := u2i us]"
  have pos: "scResIdx cc smod 100 = ?pos" "0 \<le> ?pos" "?pos < 100" using i0 by (simp_all add: smod_nonneg)
  have inc: "iadd (scResIdx cc) 1 = scResIdx cc + 1" using i0 idx by (simp add: iadd_def goint_id in_int64_def)
  have l: "(scResIdx cc + 1) smod 100 = len" "0 \<le> len" "len \<le> 99"
    using i0 pos_mod_bound [of 100 "scResIdx cc + 1"] by (simp_all add: smod_nonneg len_def)
  define ts where "ts = ?ts"
  have np: "\<not> ?pos < 0" "nat ?pos < 100" using pos(2,3) by linarith+
  then have put: "list_put (scResTs cc) (nat ?pos) (u2i us) = Some ts" using ln by (simp add: list_put_def ts_def)
  have ln1: "length (sort (take k ts) @ drop k ts) = 100" if "k \<le> 100" for k using ln that by (simp add: ts_def)
  have "csdPercentile len < 100" using percentile_range(2) [OF l(2,3)] l(3) by (simp add: max_def split: if_splits)
  then have get: "int_get (sort (take (nat len) ts) @ drop (nat len) ts) (csdPercentile len) =
      Some ((sort (take (nat len) ts) @ drop (nat len) ts) ! nat (csdPercentile len))"
    using percentile_range(1) [OF l(2,3)] ln1 [of "nat len"] l(2,3) unfolding int_get_def list_get_def by simp
  have get2: "int_get (sort (take 100 ts) @ drop 100 ts) 99 = Some ((sort (take 100 ts) @ drop 100 ts) ! 99)"
    using ln1 [of 100] unfolding int_get_def list_get_def by simp
  have c: "c1 = cc\<lparr>scResTs := ts, scResIdx := scResIdx cc + 1\<rparr>" by (simp add: c1_def window_after_def ts_def)
  have nl: "\<not> len < 0" using l(2) by simp
  show ?thesis
  proof (cases "gTimeout g < MicroTime w - scSedaLastUpdate cc")
    case True
    then show ?thesis using np(1) put inc l(1) nl get
      by (simp add: csdUpdateTbRate_def SedaNReq_def Let_def pos(1) c sort_front_def del: pos_mod_sign)
  next
    case False
    then show ?thesis using np(1) put inc l(1) get2
      by (simp add: csdUpdateTbRate_def SedaNReq_def Let_def pos(1) c sort_front_def)
  qed
qed

lemma window_ok:
  assumes "csd_conn_ok cc" "0 \<le> len" "len \<le> 100"
  shows "csd_conn_ok (window_after us cc)" "csd_conn_ok (sort_front len (window_after us cc))"
  using assms by (simp_all add: csd_conn_ok_def csd_queue_ok_def window_after_def sort_front_def SedaNReq_def)

lemma UpdateTbRate_ok:
  assumes ok: "csd_conn_ok cc" and idx: "scResIdx cc < 2 ^ 62"
  shows "\<exists>cc' w'. csdUpdateTbRate g us cc w = Some (cc', w') \<and> csd_conn_ok cc'"
proof -
  define len where "len = (scResIdx cc + 1) mod 100"
  have len: "0 \<le> len" "len \<le> 100" using pos_mod_bound [of 100 "scResIdx cc + 1"] by (simp_all add: len_def)
  let ?c = "window_after us cc"
  obtain c2 w2 where 2: "csdAdjust g (scResTs (sort_front len ?c) ! nat (csdPercentile len)) (scTbRefreshRate cc)
      (sort_front len ?c) (step_world w) = (c2, w2)" by fastforce
  obtain c3 w3 where 3: "csdAdjust g (scResTs (sort_front 100 ?c) ! 99) (scTbRefreshRate cc)
      (sort_front 100 ?c) (step_world w) = (c3, w3)" by fastforce
  have "csd_conn_ok c2" by (rule adjust_ok(1) [OF window_ok(2) [OF ok len] 2])
  then have k2: "csd_conn_ok (c2\<lparr>scSedaLastUpdate := MicroTime w2, scResIdx := 0\<rparr>)"
    by (simp add: csd_conn_ok_def csd_queue_ok_def)
  have "csd_conn_ok c3" by (rule adjust_ok(1) [OF window_ok(2) [OF ok] 3]) simp_all
  then have k3: "csd_conn_ok (c3\<lparr>scSedaLastUpdate := MicroTime w3\<rparr>)" by (simp add: csd_conn_ok_def csd_queue_ok_def)
  show ?thesis
    unfolding UpdateTbRate_eq [OF ok idx] len_def [symmetric] 2 3 prod.case
    using k2 k3 window_ok(1) [OF ok len, of us] by (simp only: if_distrib split: if_split) blast
qed

section \<open>Sending\<close>

locale csd_client = byte_sink wr sent + byte_stream rd pending
  for wr :: "'k writer" and sent :: "'k \<Rightarrow> byte list" and rd :: "'k reader" and pending :: "'k \<Rightarrow> byte list"
begin

lemma write_total:
  assumes "unat (hLen h) \<le> length buf"
  shows "\<exists>ok n k'. csd_write wr h buf k = Some (ok, n, k')"
proof -
  obtain n err k1 where 1: "WriteFull wr (CsdHdr_bytes h) k = Some (n, err, k1)" using WriteFull_sink by blast
  obtain n2 err2 k2 where 2: "WriteFull wr (take (unat (hLen h)) buf) k1 = Some (n2, err2, k2)" using WriteFull_sink by blast
  show ?thesis using 1 2 assms by (cases err) (auto simp: csd_write_def)
qed

lemma send_tail_ok:
  assumes ok: "csd_conn_ok cc" and ne: "scHead cc \<noteq> scTail cc" and t: "f_leq (FFin 1) (scTbToken cc)"
  shows "\<exists>b cc'. csd_send_tail wr now cc = Some (b, cc') \<and> csd_conn_ok cc' \<and> scHead cc' = scHead cc \<and>
    scTail cc' = scTail cc + 1 \<and>
    (if b then scReqTx cc' = scReqTx cc + 1 \<and> scTbToken cc' = f_sub (scTbToken cc) (FFin 1)
     else scReqTx cc' = scReqTx cc \<and> scTbToken cc' = scTbToken cc)"
proof -
  have q: "csd_queue_ok cc" and tok: "token_ok (scTbToken cc)" using ok by (simp_all add: csd_conn_ok_def)
  from csd_ctx_Some [OF q] obtain c where c: "csd_ctx_at cc (scTail cc) = Some c" "Client_Queue.ctx_ok c" by blast
  have "unat (hLen (csd_call_hdr (rId c) (rLen c) now)) \<le> length (rBuf c)"
    using c(2) by (simp add: csd_call_hdr_def Client_Queue.ctx_ok_def)
  from write_total [OF this, of "scC cc"] obtain b n k where
    w: "csd_write wr (csd_call_hdr (rId c) (rLen c) now) (rBuf c) (scC cc) = Some (b, n, k)" by blast
  let ?cc = "cc\<lparr>scTail := scTail cc + 1, scC := k\<rparr>"
  let ?cc' = "if b then ?cc\<lparr>scTbToken := f_sub (scTbToken cc) (FFin 1), scReqTx := scReqTx cc + 1\<rparr> else ?cc"
  have "csd_queue_ok ?cc'" by (rule csd_queue_pop(1) [OF q ne]) simp_all
  moreover have "token_ok (scTbToken ?cc')" using take_token(1) [OF tok t, of 3] tok by (auto simp: token_ok_def f_val_def)
  ultimately have "csd_conn_ok ?cc'" using ok by (simp add: csd_conn_ok_def)
  moreover have "csd_send_tail wr now cc = Some (b, ?cc')" using c(1) w by (simp add: csd_send_tail_def Let_def)
  ultimately show ?thesis by (intro exI [of _ b] exI [of _ ?cc']) simp
qed

text \<open>
  The burst: with \<open>t\<close> tokens, up to rounding, at most \<open>t\<close> requests are sent.
\<close>

lemma VectorLoop_ok:
  assumes "csd_conn_ok cc" "f_val (scTbToken cc) \<le> of_nat t + of_nat (4 - t) / 100" "t \<le> 4"
  shows "\<exists>b cc' n. csdVectorLoop wr now cc = Some (b, cc') \<and> csd_conn_ok cc' \<and> n \<le> t \<and>
    n \<le> unat (scHead cc - scTail cc) \<and> scReqTx cc' = scReqTx cc + of_nat n"
  using assms
proof (induction t arbitrary: cc)
  case 0
  have "token_ok (scTbToken cc)" using 0(1) by (simp add: csd_conn_ok_def)
  then have "\<not> f_leq (FFin 1) (scTbToken cc)" using 0(2) by (auto simp: token_ok_def f_leq_def f_less_def f_val_def)
  then have "csdVectorLoop wr now cc = Some (True, cc)" by (subst csdVectorLoop.simps) simp
  then show ?case using 0(1) by (intro exI [of _ True] exI [of _ cc] exI [of _ 0]) simp
next
  case (Suc t)
  show ?case
  proof (cases "scHead cc \<noteq> scTail cc \<and> f_leq (FFin 1) (scTbToken cc)")
    case False
    then have "csdVectorLoop wr now cc = Some (True, cc)" by (subst csdVectorLoop.simps) auto
    then show ?thesis using Suc.prems(1) by (intro exI [of _ True] exI [of _ cc] exI [of _ 0]) simp
  next
    case True
    then have ne: "scHead cc \<noteq> scTail cc" and t: "f_leq (FFin 1) (scTbToken cc)" by auto
    from send_tail_ok [OF Suc.prems(1) ne t, of now] obtain b cc1 where
      1: "csd_send_tail wr now cc = Some (b, cc1)" "csd_conn_ok cc1" "scHead cc1 = scHead cc" "scTail cc1 = scTail cc + 1"
        "if b then scReqTx cc1 = scReqTx cc + 1 \<and> scTbToken cc1 = f_sub (scTbToken cc) (FFin 1)
         else scReqTx cc1 = scReqTx cc \<and> scTbToken cc1 = scTbToken cc" by blast
    have q: "unat (scHead cc - scTail cc) = Suc (unat (scHead cc1 - scTail cc1))"
      by (rule csd_queue_pop(2) [OF _ ne]) (use Suc.prems(1) csd_send_tail_counters(3) [OF 1(1)] 1(3,4) in \<open>simp_all add: csd_conn_ok_def\<close>)
    show ?thesis
    proof (cases b)
      case False
      then have "csdVectorLoop wr now cc = Some (False, cc1)" using 1(1) True by (subst csdVectorLoop.simps) simp
      then show ?thesis using 1(2,5) False by (intro exI [of _ False] exI [of _ cc1] exI [of _ 0]) simp
    next
      case b: True
      have tok: "token_ok (scTbToken cc)" using Suc.prems(1) by (simp add: csd_conn_ok_def)
      have e: "of_nat (Suc t) + of_nat (4 - Suc t) / 100 = (of_nat t + of_nat (4 - Suc t) / 100) + (1 :: rat)" by simp
      have "f_val (scTbToken cc1) \<le> (of_nat t + of_nat (4 - Suc t) / 100) + 1/100"
        using take_token(2) [OF tok t Suc.prems(2) [unfolded e]] 1(5) b by simp
      also have "\<dots> = of_nat t + of_nat (4 - t) / 100"
      proof -
        have "4 - t = Suc (4 - Suc t)" using Suc.prems(3) by simp
        then show ?thesis by (simp add: add_divide_distrib)
      qed
      finally have "f_val (scTbToken cc1) \<le> of_nat t + of_nat (4 - t) / 100" .
      from Suc.IH [OF 1(2) this] Suc.prems(3) obtain b2 cc2 n where
        2: "csdVectorLoop wr now cc1 = Some (b2, cc2)" "csd_conn_ok cc2" "n \<le> t" "n \<le> unat (scHead cc1 - scTail cc1)"
          "scReqTx cc2 = scReqTx cc1 + of_nat n" by auto
      have "csdVectorLoop wr now cc = Some (b2, cc2)" using 1(1) 2(1) True b by (subst csdVectorLoop.simps) simp
      then show ?thesis using 1(5) 2 b q by (intro exI [of _ b2] exI [of _ cc2] exI [of _ "Suc n"]) simp
    qed
  qed
qed

lemma SendRequestVector_ok:
  assumes ok: "csd_conn_ok cc"
  shows "\<exists>r cc' n w'. csdSendRequestVector wr cc w = Some (r, cc', w') \<and> csd_conn_ok cc' \<and> n \<le> 4 \<and>
    n \<le> unat (scHead cc - scTail cc) \<and> scReqTx cc' = scReqTx cc + of_nat n"
proof (cases "scHead cc = scTail cc \<or> f_less (scTbToken cc) (FFin 1)")
  case True
  then show ?thesis using ok
    by (intro exI [of _ 0] exI [of _ cc] exI [of _ "step_world w"]) (simp add: csdSendRequestVector_def Let_def)
next
  case False
  have "f_val (scTbToken cc) \<le> of_nat 4 + of_nat (4 - 4) / 100" using ok by (auto simp: csd_conn_ok_def token_ok_def f_val_def)
  from VectorLoop_ok [OF ok this] obtain b cc1 n where
    1: "csdVectorLoop wr (MicroTime w) cc = Some (b, cc1)" "csd_conn_ok cc1" "n \<le> 4"
      "n \<le> unat (scHead cc - scTail cc)" "scReqTx cc1 = scReqTx cc + of_nat n" by blast
  let ?cc = "if b \<and> scHead cc1 = scTail cc1 then cc1\<lparr>scHead := 0, scTail := 0\<rparr> else cc1"
  have "csdSendRequestVector wr cc w = Some (if b then 0 else - 1, ?cc, step_world w)"
    using False 1(1) by (simp add: csdSendRequestVector_def Let_def)
  moreover have "csd_conn_ok ?cc" using 1(2) by (simp add: csd_conn_ok_def csd_queue_ok_def)
  ultimately show ?thesis using 1(3-5)
    by (intro exI [of _ "if b then 0 else - 1"] exI [of _ ?cc] exI [of _ n] exI [of _ "step_world w"]) simp
qed

section \<open>Timer and sender\<close>

lemma DropOld_ok:
  assumes "csd_conn_ok cc"
  shows "\<exists>cc' n. csdDropOld now cc = Some cc' \<and> csd_conn_ok cc' \<and> scReqTx cc' = scReqTx cc \<and>
    scReqDropped cc' = scReqDropped cc + of_nat n \<and> n + unat (scHead cc' - scTail cc') = unat (scHead cc - scTail cc)"
  using assms
proof (induction now cc rule: csdDropOld.induct)
  case (1 now cc)
  have q: "csd_queue_ok cc" using 1(2) by (simp add: csd_conn_ok_def)
  from csd_ctx_Some [OF q] obtain c where c: "csd_ctx_at cc (scTail cc) = Some c" by blast
  show ?case
  proof (cases "scHead cc \<noteq> scTail cc \<and> \<not> now - rTs c \<le> CsdMaxClientDelayUs")
    case False
    then have "csdDropOld now cc = Some cc" using c by (subst csdDropOld.simps) auto
    then show ?thesis using 1(2) by (intro exI [of _ cc] exI [of _ 0]) simp
  next
    case True
    let ?cc = "cc\<lparr>scTail := scTail cc + 1, scReqDropped := scReqDropped cc + 1\<rparr>"
    have p: "csd_queue_ok ?cc" "unat (scHead cc - scTail cc) = Suc (unat (scHead ?cc - scTail ?cc))"
      by (rule csd_queue_pop [OF q]; use True in simp)+
    have "csd_conn_ok ?cc" using 1(2) p(1) by (simp add: csd_conn_ok_def)
    from 1(1) [OF _ c _ this] True obtain cc' n where
      r: "csdDropOld now ?cc = Some cc'" "csd_conn_ok cc'" "scReqTx cc' = scReqTx ?cc"
        "scReqDropped cc' = scReqDropped ?cc + of_nat n" "n + unat (scHead cc' - scTail cc') = unat (scHead ?cc - scTail ?cc)"
      by blast
    have "csdDropOld now cc = Some cc'" using True c r(1) by (subst csdDropOld.simps) simp
    then show ?thesis using r(2-5) p(2) by (intro exI [of _ cc'] exI [of _ "Suc n"]) simp
  qed
qed

lemma reset_ok: "csd_conn_ok cc \<Longrightarrow> csd_conn_ok (cc\<lparr>scHead := 0, scTail := 0\<rparr>)"
  by (simp add: csd_conn_ok_def csd_queue_ok_def)

lemma Timer_ok:
  assumes ok: "csd_conn_ok cc"
  shows "\<exists>r cc' w'. csdTimer cc w = Some (r, cc', w') \<and> csd_conn_ok cc'"
proof (cases "scRunning cc \<and> scHead cc \<noteq> scTail cc")
  case False
  have "csd_conn_ok (cc\<lparr>scTimerSignal := False\<rparr>)" using ok by (simp add: csd_conn_ok_def csd_queue_ok_def)
  then show ?thesis using False ok by (auto simp: csdTimer_def)
next
  case True
  from DropOld_ok [OF ok, of "MicroTime w"] obtain cc1 where d: "csdDropOld (MicroTime w) cc = Some cc1" "csd_conn_ok cc1" by blast
  from csd_ctx_Some [of cc1 "scHead cc1 - 1"] d(2) obtain c where "csd_ctx_at cc1 (scHead cc1 - 1) = Some c"
    by (auto simp: csd_conn_ok_def)
  then show ?thesis using True d reset_ok [OF d(2)] by (auto simp: csdTimer_def Let_def)
qed

lemma SenderTokens_ok:
  assumes ok: "csd_conn_ok cc"
  shows "\<exists>r cc' w' n. csdSenderTokens wr oor cc w = Some (r, cc', w') \<and> csd_conn_ok cc' \<and> n \<le> 4 \<and>
    scReqTx cc' = scReqTx cc + of_nat n"
proof (cases "f_less (scTbToken cc) (FFin 1)")
  case True
  obtain d w1 where "tbSleepTime oor cc w = (d, w1)" by fastforce
  then show ?thesis using True ok
    by (intro exI [of _ "SenderSleep d"] exI [of _ cc] exI [of _ w1] exI [of _ 0]) (simp add: csdSenderTokens_def)
next
  case False
  from DropOld_ok [OF ok, of "MicroTime w"] obtain cc1 where
    d: "csdDropOld (MicroTime w) cc = Some cc1" "csd_conn_ok cc1" "scReqTx cc1 = scReqTx cc" by blast
  from SendRequestVector_ok [OF d(2), of "step_world w"] obtain r cc2 n w2 where
    v: "csdSendRequestVector wr cc1 (step_world w) = Some (r, cc2, w2)" "csd_conn_ok cc2" "n \<le> 4"
      "scReqTx cc2 = scReqTx cc1 + of_nat n" by blast
  show ?thesis using False d v
    by (intro exI [of _ SenderAgain] exI [of _ cc2] exI [of _ w2] exI [of _ n]) (simp add: csdSenderTokens_def)
qed

lemma SenderWake_ok:
  assumes "csd_conn_ok cc"
  shows "\<exists>r cc' w'. csdSenderWake wr oor cc w = Some (r, cc', w') \<and> csd_conn_ok cc'"
proof -
  obtain cc1 w1 where r: "tbRefillToken cc w = (cc1, w1)" by fastforce
  from SenderTokens_ok [OF refill_conn_ok [OF assms r], of oor w1] show ?thesis using r by (auto simp: csdSenderWake_def)
qed

lemma Sender_ok:
  assumes ok: "csd_conn_ok cc"
  shows "\<exists>r cc' w'. csdSender wr oor cc w = Some (r, cc', w') \<and> csd_conn_ok cc'"
proof (cases "scRunning cc \<and> scHead cc \<noteq> scTail cc")
  case False
  have "csd_conn_ok (cc\<lparr>scSenderSignal := False\<rparr>)" using ok by (simp add: csd_conn_ok_def csd_queue_ok_def)
  then show ?thesis using False ok by (auto simp: csdSender_def)
next
  case True
  then show ?thesis using SenderTokens_ok [OF ok, of oor w] by (auto simp: csdSender_def)
qed

section \<open>Receiving\<close>

lemma RecvPass_ok:
  assumes ok: "csd_conn_ok cc" and idx: "scResIdx cc < 2 ^ 62" and len: "len \<le> length buf"
  shows "\<exists>r buf' cc' w'. csdRecvPass g rd len buf cc w = Some (r, buf', cc', w') \<and> csd_conn_ok cc' \<and> length buf' = length buf"
proof -
  obtain n err bs k where h: "ReadFull rd (replicate sd_hdr_size 0) (scC cc) = Some (n, err, bs, k)" using ReadFull_total by blast
  let ?h = "CsdHdr_of_bytes bs" let ?n = "unat (hLen ?h)" let ?cc = "cc\<lparr>scC := k\<rparr>"
  have cok: "csd_conn_ok ?cc" "csd_conn_ok (?cc\<lparr>scC := k2\<rparr>)" "csd_conn_ok (?cc\<lparr>scC := k2, scRespRx := m\<rparr>)" for k2 m
    using ok by (simp_all add: csd_conn_ok_def csd_queue_ok_def)
  have "csdRecvHdr rd len (scC cc) = Some (None, k) \<or> csdRecvHdr rd len (scC cc) = Some (Some ?h, k) \<and> ?n \<le> len"
    using h by (cases "err = None \<and> hMagic ?h = SdRespMagic \<and> ?n \<le> min SrpcBufSize len")
      (auto simp: csdRecvHdr_def Let_def)
  then consider (bad) "csdRecvHdr rd len (scC cc) = Some (None, k)"
    | (good) "csdRecvHdr rd len (scC cc) = Some (Some ?h, k)" "?n \<le> len" by blast
  then show ?thesis
  proof cases
    case bad
    then show ?thesis using cok(1) by (simp add: csdRecvPass_def)
  next
    case good
    have sl: "\<not> length buf < ?n" using good(2) len by simp
    obtain n2 err2 bs2 k2 where r: "ReadFull rd (take ?n buf) k = Some (n2, err2, bs2, k2)" "length bs2 = length (take ?n buf)"
      using ReadFull_total by blast
    let ?cc2 = "?cc\<lparr>scC := k2, scRespRx := scRespRx cc + 1\<rparr>"
    have "scResIdx ?cc2 < 2 ^ 62" using idx by simp
    from UpdateTbRate_ok [OF cok(3) this, of g "MicroTime w - hTs ?h" "step_world w"] obtain cc3 w3 where
      u: "csdUpdateTbRate g (MicroTime w - hTs ?h) ?cc2 (step_world w) = Some (cc3, w3)" "csd_conn_ok cc3" by blast
    have lb: "length (bs2 @ drop ?n buf) = length buf" using r(2) sl by simp
    show ?thesis
      using good(1) sl r(1) u cok(1) cok(2) [of k2] lb
      by (cases "hOp ?h = SdOpCall"; cases "hLen ?h = 0"; cases err2) (simp_all add: csdRecvPass_def Let_def)
  qed
qed

section \<open>The session\<close>

abbreviation sess_fine :: "('a, 'k) csdSession \<Rightarrow> bool" where
  "sess_fine ss \<equiv> seConns ss \<noteq> [] \<and> (\<forall>cc\<in>set (seConns ss). csd_conn_ok cc)"

lemma RefillAll_ok:
  "csdRefillAll ccs w = (ccs', w') \<Longrightarrow> \<forall>cc\<in>set ccs. csd_conn_ok cc \<Longrightarrow>
     length ccs' = length ccs \<and> (\<forall>cc\<in>set ccs'. csd_conn_ok cc)"
proof (induction ccs arbitrary: w ccs' w')
  case (Cons cc ccs)
  obtain cc1 w1 where 1: "tbRefillToken cc w = (cc1, w1)" by fastforce
  obtain ccs1 w2 where 2: "csdRefillAll ccs w1 = (ccs1, w2)" by fastforce
  show ?case using Cons.prems Cons.IH [OF 2] refill_conn_ok [OF _ 1] 1 2 by auto
qed simp

lemma set_update_ok: "\<forall>x\<in>set xs. P x \<Longrightarrow> P y \<Longrightarrow> \<forall>x\<in>set (xs[i := y]). P x"
  using set_update_subset_insert [of xs i y] by blast

lemma HotPath_ok:
  assumes "sess_fine ss" "unat len \<le> length buf"
  shows "\<exists>r ss' w'. csdHotPath wr buf len is ss w = Some (r, ss', w') \<and> sess_fine ss' \<and>
    length (seConns ss') = length (seConns ss)"
  using assms(1)
proof (induction "is")
  case (Cons i rest)
  let ?j = "(seNextConnIdx ss + i) mod length (seConns ss)"
  have j: "?j < length (seConns ss)" using Cons.prems by simp
  let ?cc = "seConns ss ! ?j"
  have ok: "csd_conn_ok ?cc" using Cons.prems j by simp
  show ?case
  proof (cases "scHead ?cc = scTail ?cc \<and> f_leq (FFin 1) (scTbToken ?cc)")
    case False
    then have "csdHotPath wr buf len (i # rest) ss w = csdHotPath wr buf len rest ss w"
      using j by (auto simp: Let_def list_get_def)
    then show ?thesis using Cons.IH [OF Cons.prems] by simp
  next
    case True
    let ?cc1 = "?cc\<lparr>scTbToken := f_sub (scTbToken ?cc) (FFin 1)\<rparr>"
    have "unat (hLen (csd_call_hdr (seReqId ss) len (MicroTime w))) \<le> length buf" using assms(2) by (simp add: csd_call_hdr_def)
    from write_total [OF this, of "scC ?cc"] obtain b n k where
      w: "csd_write wr (csd_call_hdr (seReqId ss) len (MicroTime w)) buf (scC ?cc) = Some (b, n, k)" by blast
    have "token_ok (f_sub (scTbToken ?cc) (FFin 1))"
      using take_token(1) [of "scTbToken ?cc" 3] ok True by (auto simp: csd_conn_ok_def token_ok_def f_val_def)
    then have ok1: "csd_conn_ok (?cc1\<lparr>scC := k, scReqTx := m\<rparr>)" "csd_conn_ok (?cc1\<lparr>scC := k\<rparr>)" for m
      using ok by (simp_all add: csd_conn_ok_def csd_queue_ok_def)
    let ?cc2 = "if b then ?cc1\<lparr>scC := k, scReqTx := scReqTx ?cc + 1\<rparr> else ?cc1\<lparr>scC := k\<rparr>"
    let ?ss = "ss\<lparr>seConns := (seConns ss)[?j := ?cc2], seReqId := seReqId ss + 1,
                   seNextConnIdx := (seNextConnIdx ss + 1) mod length (seConns ss)\<rparr>"
    have "csdSendRaw wr buf len (seReqId ss) ?cc1 w = Some (if b then int n else - 1, ?cc2, step_world w)"
      using w by (simp add: csdSendRaw_def)
    then have "csdHotPath wr buf len (i # rest) ss w = Some (Some (if b then int n else - 1), ?ss, step_world w)"
      using True j by (simp only: csdHotPath.simps Let_def list_get_def) simp
    moreover have "csd_conn_ok ?cc2" using ok1 by simp
    then have "\<forall>x\<in>set ((seConns ss)[?j := ?cc2]). csd_conn_ok x" using Cons.prems by (intro set_update_ok) simp_all
    then have "sess_fine ?ss \<and> length (seConns ?ss) = length (seConns ss)" using Cons.prems by simp
    ultimately show ?thesis by blast
  qed
qed (use assms(1) in simp)

lemma Pick_ok:
  assumes "seConns ss \<noteq> []"
  shows "\<exists>j n. csdPick is ss = Some (j, ss\<lparr>seNextConnIdx := n\<rparr>) \<and> (\<forall>i. j = Some i \<longrightarrow> i < length (seConns ss) \<and>
    scHead (seConns ss ! i) - scTail (seConns ss ! i) < of_nat CrpcQlen)"
proof (induction "is")
  case Nil
  then show ?case by (intro exI [of _ None] exI [of _ "seNextConnIdx ss"]) simp
next
  case (Cons i rest)
  let ?j = "(seNextConnIdx ss + i) mod length (seConns ss)"
  have j: "?j < length (seConns ss)" using assms by simp
  show ?case
  proof (cases "scHead (seConns ss ! ?j) - scTail (seConns ss ! ?j) < of_nat CrpcQlen")
    case True
    then show ?thesis using j
      by (intro exI [of _ "Some ?j"] exI [of _ "(?j + 1) mod length (seConns ss)"]) (simp add: Let_def list_get_def)
  next
    case False
    then have "csdPick (i # rest) ss = csdPick rest ss" using j by (simp add: Let_def list_get_def)
    then show ?thesis using Cons.IH by simp
  qed
qed

text \<open>Room in a queue is looked at again under the lock, so the request is lost when it has gone.\<close>

lemma EnqueueAt_ok:
  assumes ok: "sess_fine ss" and j: "j < length (seConns ss)" and len: "unat len \<le> length buf" "unat len \<le> SrpcBufSize"
  shows "\<exists>b ss'. csdEnqueueAt buf len now j ss = Some (b, ss') \<and> sess_fine ss' \<and> length (seConns ss') = length (seConns ss)"
proof -
  let ?cc = "seConns ss ! j"
  have cok: "csd_conn_ok ?cc" using ok j by simp
  then have q: "csd_queue_ok ?cc" by (simp add: csd_conn_ok_def)
  show ?thesis
  proof (cases "of_nat CrpcQlen \<le> scHead ?cc - scTail ?cc")
    case True
    then show ?thesis using ok j by (intro exI [of _ False]) (simp add: csdEnqueueAt_def list_get_def)
  next
    case False
    from csd_ctx_Some [OF q] obtain c where c: "csd_ctx_at ?cc (scHead ?cc) = Some c" "Client_Queue.ctx_ok c" by blast
    let ?c = "csd_fill buf len (seReqId ss) now c"
    let ?cc1 = "?cc\<lparr>scQReq := (scQReq ?cc)[ring_pos (scHead ?cc) := Some ?c], scHead := scHead ?cc + 1\<rparr>"
    let ?cc2 = "if scHead ?cc1 - scTail ?cc1 = 1 then ?cc1\<lparr>scTimerSignal := True, scSenderSignal := True\<rparr> else ?cc1"
    have "length (rBuf c) = SrpcBufSize" using c(2) by (simp add: Client_Queue.ctx_ok_def)
    then have "length (put_at 0 (take (length (rBuf c)) (take (unat len) buf)) (rBuf c)) = SrpcBufSize"
      using len by (simp add: put_at_def min_def)
    then have ck: "Client_Queue.ctx_ok ?c" using len(2) by (simp add: csd_fill_def Client_Queue.ctx_ok_def)
    have "unat (scHead ?cc - scTail ?cc) < 16"
      using False by (simp add: CrpcQlen_def word_le_nat_alt not_le)
    then have "unat ((scHead ?cc - scTail ?cc) + 1) = Suc (unat (scHead ?cc - scTail ?cc))"
      by (intro unat_inc [of _ 16]) (simp add: word_less_nat_alt)
    moreover have "scHead ?cc1 - scTail ?cc1 = (scHead ?cc - scTail ?cc) + 1" by simp
    ultimately have "unat (scHead ?cc1 - scTail ?cc1) \<le> 16" using \<open>unat (scHead ?cc - scTail ?cc) < 16\<close> by presburger
    moreover have "\<exists>x. (scQReq ?cc)[ring_pos (scHead ?cc) := Some ?c] ! i = Some x \<and> Client_Queue.ctx_ok x"
      if "i < 16" for i
      using q ck that by (cases "i = ring_pos (scHead ?cc)") (auto simp: csd_queue_ok_def CrpcQlen_def)
    ultimately have q1: "csd_queue_ok ?cc1" using q by (simp add: csd_queue_ok_def CrpcQlen_def)
    have "csd_queue_ok ?cc2 = csd_queue_ok ?cc1" by (rule csd_queue_cong) simp_all
    then have "csd_queue_ok ?cc2" using q1 by (rule iffD2)
    moreover have "scTbToken ?cc2 = scTbToken ?cc" "scTbRefreshRate ?cc2 = scTbRefreshRate ?cc"
      "scResTs ?cc2 = scResTs ?cc" "scResIdx ?cc2 = scResIdx ?cc" by simp_all
    ultimately have "csd_conn_ok ?cc2" using cok unfolding csd_conn_ok_def by metis
    then have fine: "\<forall>x\<in>set ((seConns ss)[j := ?cc2]). csd_conn_ok x" using ok by (intro set_update_ok) simp_all
    have "csdEnqueueAt buf len now j ss = Some (True, ss\<lparr>seConns := (seConns ss)[j := ?cc2], seReqId := seReqId ss + 1\<rparr>)"
      using False c(1) j len(1) by (simp add: csdEnqueueAt_def list_get_def Let_def)
    then show ?thesis using fine ok
      by (intro exI [of _ True] exI [of _ "ss\<lparr>seConns := (seConns ss)[j := ?cc2], seReqId := seReqId ss + 1\<rparr>"])
        (simp add: list_update_nonempty)
  qed
qed

lemma EnqueueOne_ok:
  assumes ok: "sess_fine ss" and len: "unat len \<le> length buf" "unat len \<le> SrpcBufSize"
  shows "\<exists>b ss' w'. csdEnqueueOne buf len ss w = Some (b, ss', w') \<and> sess_fine ss' \<and> length (seConns ss') = length (seConns ss)"
proof -
  from Pick_ok [of ss "[0..<length (seConns ss)]"] ok obtain j n where
    p: "csdPick [0..<length (seConns ss)] ss = Some (j, ss\<lparr>seNextConnIdx := n\<rparr>)"
      "\<And>i. j = Some i \<Longrightarrow> i < length (seConns ss)" by auto
  show ?thesis
  proof (cases j)
    case None
    then show ?thesis using p(1) ok by (intro exI [of _ False]) (simp add: csdEnqueueOne_def)
  next
    case (Some i)
    have "sess_fine (ss\<lparr>seNextConnIdx := n\<rparr>)" using ok by simp
    from EnqueueAt_ok [OF this _ len, of i "MicroTime w"] p(2) [OF Some]
    show ?thesis using p(1) Some by (auto simp: csdEnqueueOne_def)
  qed
qed

lemma SendOne_ok:
  assumes ok: "sess_fine ss" and len: "unat len \<le> length buf"
  shows "\<exists>r ss' w'. csdSendOne wr buf len ss w = Some (r, ss', w') \<and> sess_fine ss' \<and> length (seConns ss') = length (seConns ss)"
proof (cases "SrpcBufSize < unat len")
  case True
  then show ?thesis using ok by (simp add: csdSendOne_def)
next
  case False
  obtain ccs w1 where r: "csdRefillAll (seConns ss) w = (ccs, w1)" by fastforce
  let ?ss = "ss\<lparr>seConns := ccs\<rparr>"
  have rl: "length ccs = length (seConns ss)" "\<forall>cc\<in>set ccs. csd_conn_ok cc" using RefillAll_ok [OF r] ok by auto
  then have fine: "sess_fine ?ss" using ok by auto
  from HotPath_ok [OF fine len] obtain s ss2 w2 where
    h: "csdHotPath wr buf len [0..<length ccs] ?ss w1 = Some (s, ss2, w2)" "sess_fine ss2"
      "length (seConns ss2) = length (seConns ss)" using rl(1) by fastforce
  show ?thesis
  proof (cases s)
    case None
    from EnqueueOne_ok [OF h(2) len, of w2] False obtain b ss3 w3 where
      "csdEnqueueOne buf len ss2 w2 = Some (b, ss3, w3)" "sess_fine ss3" "length (seConns ss3) = length (seConns ss)"
      using h(3) by auto
    then show ?thesis using False r h(1) None by (simp add: csdSendOne_def Let_def)
  next
    case (Some x)
    then show ?thesis using False r h by (simp add: csdSendOne_def Let_def)
  qed
qed

end

end
