(* ===== verification/Seda_Client_Properties.thy ===== *)
theory Seda_Client_Properties
  imports Seda_Client_Safety Nocontrol
begin

text \<open>
  Executions of a SEDA client session (\<open>src/ovldctlrpc/seda/sd_client.go\<close>) and what holds in them, and
  the load balancing of the client without control (\<open>src/ovldctlrpc/nocontrol/nc_client.go\<close>).
\<close>

section \<open>Executions\<close>

text \<open>\<open>rand.Float64\<close> yields a number in the half-open unit interval.\<close>

definition rnd_ok :: "world \<Rightarrow> bool" where
  "rnd_ok w \<longleftrightarrow> (\<forall>i. \<exists>v. rndf w i = FFin v \<and> 0 \<le> v \<and> v < 1)"

text \<open>
  A step is a call of \<open>CrpcSendOne\<close>, one pass of \<open>CrpcRecvOne\<close>, one round of a timer or sender, a new
  connection or the first half of closing.  The last argument of a read is the size of the caller's
  buffer, and the number of responses of a connection stays below the range of \<open>int\<close>.
\<close>

inductive csd_step :: "sdCfg \<Rightarrow> 'k writer \<Rightarrow> 'k reader \<Rightarrow> (float64 \<Rightarrow> u64) \<Rightarrow> ('a, 'k) csdSession \<Rightarrow> ('a, 'k) csdSession \<Rightarrow> bool"
  for g wr rd oor where
  Send: "\<lbrakk>unat len \<le> length buf; csdSendOne wr buf len ss w = Some (r, ss', w')\<rbrakk> \<Longrightarrow> csd_step g wr rd oor ss ss'"
| Recv: "\<lbrakk>i < length (seConns ss); len \<le> length buf; scResIdx (seConns ss ! i) < 2 ^ 62;
     csdRecvPass g rd len buf (seConns ss ! i) w = Some (r, buf', cc, w')\<rbrakk>
    \<Longrightarrow> csd_step g wr rd oor ss (ss\<lparr>seConns := (seConns ss)[i := cc]\<rparr>)"
| Timer: "\<lbrakk>i < length (seConns ss); csdTimer (seConns ss ! i) w = Some (r, cc, w')\<rbrakk>
    \<Longrightarrow> csd_step g wr rd oor ss (ss\<lparr>seConns := (seConns ss)[i := cc]\<rparr>)"
| Sender: "\<lbrakk>i < length (seConns ss); csdSender wr oor (seConns ss ! i) w = Some (r, cc, w')\<rbrakk>
    \<Longrightarrow> csd_step g wr rd oor ss (ss\<lparr>seConns := (seConns ss)[i := cc]\<rparr>)"
| Wake: "\<lbrakk>i < length (seConns ss); csdSenderWake wr oor (seConns ss ! i) w = Some (r, cc, w')\<rbrakk>
    \<Longrightarrow> csd_step g wr rd oor ss (ss\<lparr>seConns := (seConns ss)[i := cc]\<rparr>)"
| Add: "\<lbrakk>rnd_ok w; csdAddConnection port dial ss w = (r, ss', w')\<rbrakk> \<Longrightarrow> csd_step g wr rd oor ss ss'"
| Stop: "csd_step g wr rd oor ss (csdClose_stop ss)"

inductive csd_reachable :: "sdCfg \<Rightarrow> 'k writer \<Rightarrow> 'k reader \<Rightarrow> (float64 \<Rightarrow> u64) \<Rightarrow> ('a, 'k) csdSession \<Rightarrow> bool"
  for g wr rd oor where
  start: "\<lbrakk>rnd_ok w; csdOpen port dial ident w = (Some ss, r, w')\<rbrakk> \<Longrightarrow> csd_reachable g wr rd oor ss"
| step: "\<lbrakk>csd_reachable g wr rd oor ss; csd_step g wr rd oor ss ss'\<rbrakk> \<Longrightarrow> csd_reachable g wr rd oor ss'"

lemma new_conn_ok:
  assumes "rnd_ok w"
  shows "csd_conn_ok (fst (csd_new_conn k w))"
proof -
  obtain v where v: "Float64_of w = FFin v" "0 \<le> v" "v < 1" using assms by (auto simp: rnd_ok_def Float64_of_def)
  have two: "f_of_u64 (CsdTbInitRate - CsdTbMinRate) = FFin 2"
    by (simp add: f_of_u64_small CsdTbInitRate_def CsdTbMinRate_def)
  have "v * 2 \<le> 2" using v(3) by simp
  also have "(2 :: rat) \<le> 2 ^ 1000" by simp
  finally obtain r where r: "f64_round (v * 2) = FFin r" "0 \<le> r" "r \<le> v * 2 + v * 2 / 2 ^ 53 + 1 / 2 ^ 1075"
    using f64_round_nonneg [of "v * 2"] v(2) by auto
  have "(1 :: rat) / 2 ^ 1075 \<le> 1" by simp
  then have r4: "r \<le> 5" using r(3) v(2,3) by (simp add: field_simps)
  have m: "\<exists>q. f_mul (FFin v) (FFin 2) = FFin q \<and> 0 \<le> q \<and> q \<le> 5"
    using r r4 v(2) by (auto simp: f_mul_def Let_def f_zero_def f_inf_def f_sign_def signed_zero_def f_val_def)
  then obtain q where q: "f_mul (FFin v) (FFin 2) = FFin q" "0 \<le> q" "q \<le> 5" by blast
  have "q + 2 \<le> 7" using q(3) by simp
  also have "(7 :: rat) < 2 ^ 52" by simp
  finally have "q + 2 < 2 ^ 52" .
  with q(2) obtain p where p: "f64_round (q + 2) = FFin p" "2 \<le> p" using f64_round_ge [of 2 "q + 2"] by auto
  then have "rate_ok (f_add (f_mul (FFin v) (FFin 2)) (FFin 2))"
    unfolding q(1) by (simp add: f_add_def f_val_def rate_ok_def)
  then show ?thesis
    by (simp add: csd_new_conn_def csd_conn_ok_def csd_queue_ok_def token_ok_def two v(1) Client_Queue.ctx_ok_def)
qed

lemma new_conn_fine: "rnd_ok w \<Longrightarrow> csd_new_conn k w = (cc, w') \<Longrightarrow> csd_conn_ok cc"
  by (metis fst_conv new_conn_ok)

context csd_client
begin

lemma step_fine:
  assumes "csd_step g wr rd oor ss ss'" "sess_fine ss" "length (seConns ss) \<le> CrpcMaxReplica"
  shows "sess_fine ss' \<and> length (seConns ss') \<le> CrpcMaxReplica"
proof -
  have put: "sess_fine (ss\<lparr>seConns := (seConns ss)[i := cc]\<rparr>)" if "csd_conn_ok cc" for i cc
    using set_update_ok [of "seConns ss" csd_conn_ok cc i] assms(2) that by simp
  show ?thesis using assms(1)
  proof cases
    case (Send len buf w r w')
    from SendOne_ok [OF assms(2) Send(1), of w] Send(2) assms(3) show ?thesis by auto
  next
    case (Recv i len buf w r buf' cc w')
    have "csd_conn_ok (seConns ss ! i)" using assms(2) Recv(2) by simp
    from RecvPass_ok [OF this Recv(4,3), of g w] Recv(5) put [of cc i] assms(3) show ?thesis by (auto simp: Recv(1))
  next
    case (Timer i w r cc w')
    have "csd_conn_ok (seConns ss ! i)" using assms(2) Timer(2) by simp
    from Timer_ok [OF this, of w] Timer(3) put [of cc i] assms(3) show ?thesis by (auto simp: Timer(1))
  next
    case (Sender i w r cc w')
    have "csd_conn_ok (seConns ss ! i)" using assms(2) Sender(2) by simp
    from Sender_ok [OF this, of oor w] Sender(3) put [of cc i] assms(3) show ?thesis by (auto simp: Sender(1))
  next
    case (Wake i w r cc w')
    have "csd_conn_ok (seConns ss ! i)" using assms(2) Wake(2) by simp
    from SenderWake_ok [OF this, of oor w] Wake(3) put [of cc i] assms(3) show ?thesis by (auto simp: Wake(1))
  next
    case (Add w port dial r w')
    then show ?thesis using assms(2,3) new_conn_fine [OF Add(1)]
      by (auto simp: csdAddConnection_def Let_def split: if_splits option.splits prod.splits)
  next
    case Stop
    then show ?thesis using assms(2,3) by (auto simp: csdClose_stop_def csd_conn_ok_def csd_queue_ok_def)
  qed
qed

lemma reachable_fine: "csd_reachable g wr rd oor ss \<Longrightarrow> sess_fine ss \<and> length (seConns ss) \<le> CrpcMaxReplica"
proof (induction rule: csd_reachable.induct)
  case (start w port dial ident ss r w')
  then show ?case using new_conn_fine [OF start(1)]
    by (auto simp: csdOpen_def Let_def CrpcMaxReplica_def split: if_splits option.splits prod.splits)
next
  case (step ss ss')
  then show ?case using step_fine by blast
qed

end

interpretation mc: csd_client mem_write written mem_read "\<lambda>c. concat (segments c)"
  by unfold_locales

section \<open>A small execution\<close>

definition demo_sworld :: world where
  "demo_sworld = \<lparr>clock = (\<lambda>n. of_nat n), qdelay = (\<lambda>_. 0), memacc = (\<lambda>_. 0), energy = (\<lambda>_. FFin 0),
     procid = (\<lambda>_. 0), coin = (\<lambda>_. True), trylock = (\<lambda>_. True), rndf = (\<lambda>_. FFin 0), rndnorm = (\<lambda>_. FFin 0), tick = 0\<rparr>"

definition demo_sconn :: "(unit, mem_conn) csdConn" where
  "demo_sconn = fst (csd_new_conn \<lparr>segments = [], written = []\<rparr> demo_sworld)"

definition demo_ssession :: "(unit, mem_conn) csdSession" where
  "demo_ssession = \<lparr>seReqId = 1, seId = 3, seNextConnIdx = 0, seReqDropped = 0, seConns = [demo_sconn]\<rparr>"

lemma demo_rnd: "rnd_ok demo_sworld"
  by (simp add: rnd_ok_def demo_sworld_def)

lemma demo_sconn_ok: "csd_conn_ok demo_sconn"
  unfolding demo_sconn_def by (rule new_conn_ok [OF demo_rnd])

lemma demo_ssession_reachable: "csd_reachable g mem_write mem_read oor demo_ssession"
proof (rule csd_reachable.start [OF demo_rnd])
  show "csdOpen SrpcPort (Some \<lparr>segments = [], written = []\<rparr>) 3 demo_sworld = (Some demo_ssession, 0, step_world demo_sworld)"
    by (simp add: csdOpen_def demo_ssession_def demo_sconn_def csd_new_conn_def)
qed

section \<open>The SEDA client\<close>

text \<open>
  C32.  The SEDA client is safe in every interleaving of its callers, receivers, timers and senders: a
  connection's bucket holds between 0 and 4 tokens and is never NaN, its rate is never NaN and at least
  \<open>CsdTbMinRate\<close>, its queue has at most 16 requests, a session has between 1 and 256 connections, and
  no operation panics.
\<close>

theorem csd_client_safe:
  assumes "csd_client wr sent rd pending" "csd_reachable g wr rd oor ss"
  shows "(\<forall>cc\<in>set (seConns ss). (\<exists>t. scTbToken cc = FFin t \<and> 0 \<le> t \<and> t \<le> 4) \<and>
        ((\<exists>r. scTbRefreshRate cc = FFin r \<and> 2 \<le> r) \<or> scTbRefreshRate cc = FInf False) \<and>
        unat (scHead cc - scTail cc) \<le> 16) \<and>
    0 < length (seConns ss) \<and> length (seConns ss) \<le> 256 \<and>
    (\<forall>buf len w. unat len \<le> length buf \<longrightarrow> csdSendOne wr buf len ss w \<noteq> None) \<and>
    (\<forall>cc\<in>set (seConns ss). \<forall>w. csdTimer cc w \<noteq> None \<and> csdSender wr oor cc w \<noteq> None \<and>
        csdSenderWake wr oor cc w \<noteq> None \<and>
        (\<forall>buf len. len \<le> length buf \<longrightarrow> scResIdx cc < 2 ^ 62 \<longrightarrow> csdRecvPass g rd len buf cc w \<noteq> None))"
proof -
  note C = assms(1)
  have fine: "seConns ss \<noteq> [] \<and> (\<forall>cc\<in>set (seConns ss). csd_conn_ok cc)" and n: "length (seConns ss) \<le> CrpcMaxReplica"
    using csd_client.reachable_fine [OF assms] by auto
  have "csdTimer cc w \<noteq> None \<and> csdSender wr oor cc w \<noteq> None \<and> csdSenderWake wr oor cc w \<noteq> None"
    "len \<le> length buf \<Longrightarrow> scResIdx cc < 2 ^ 62 \<Longrightarrow> csdRecvPass g rd len buf cc w \<noteq> None"
    if "cc \<in> set (seConns ss)" for cc w buf len
    using fine that csd_client.Timer_ok [OF C, of cc w] csd_client.Sender_ok [OF C, of cc oor w]
      csd_client.SenderWake_ok [OF C, of cc oor w] csd_client.RecvPass_ok [OF C, of cc len buf g w]
    by fastforce+
  moreover have "csdSendOne wr buf len ss w \<noteq> None" if "unat len \<le> length buf" for buf len w
    using csd_client.SendOne_ok [OF C fine that, of w] by auto
  ultimately show ?thesis
    using fine n by (auto simp: csd_conn_ok_def token_ok_def rate_ok_def csd_queue_ok_def CrpcQlen_def CrpcMaxReplica_def)
qed

theorem csd_client_safe_witness:
  "csdSendOne mem_write (replicate 8 0) 8 demo_ssession demo_sworld \<noteq> None \<and>
   unat (scHead demo_sconn - scTail demo_sconn) \<le> 16"
  using csd_client_safe [OF mc.csd_client_axioms demo_ssession_reachable [of sd_config "\<lambda>_. 0"]]
  by (simp add: demo_ssession_def)



section \<open>The sample of the rate controller\<close>

definition smoothed :: "sdCfg \<Rightarrow> float64 \<Rightarrow> int \<Rightarrow> float64" where
  "smoothed g cur samp = f_add (f_mul (gAlpha g) cur) (f_mul (f_sub (FFin 1) (gAlpha g)) (f_of_int samp))"

lemma adjust_cur: "csdAdjust g samp rate cc w = (cc', w') \<Longrightarrow> scCur cc' = smoothed g (scCur cc) samp"
  by (auto simp: csdAdjust_def tbSetRate_def tbRefillToken_def Let_def smoothed_def split: if_splits prod.splits)

lemma last_of_sorted:
  assumes "xs \<noteq> []"
  shows "sort xs ! (length xs - 1) = Max (set (xs :: int list))"
proof (rule Max_eqI [symmetric])
  fix y assume "y \<in> set xs"
  then have "y \<in> set (sort xs)" by simp
  then obtain i where i: "i < length (sort xs)" "y = sort xs ! i" by (metis in_set_conv_nth)
  then have "sort xs ! i \<le> sort xs ! (length xs - 1)"
    by (intro sorted_nth_mono) (auto simp: less_Suc_eq_le [symmetric])
  then show "y \<le> sort xs ! (length xs - 1)" by (simp add: i(2))
next
  have "length xs - 1 < length (sort xs)" using assms by simp
  then show "sort xs ! (length xs - 1) \<in> set xs" by (metis nth_mem set_sort)
qed simp

text \<open>
  C34.  Which response time feeds the rate controller.  With the new sample stored as the n-th of the
  window: if the timeout has passed in a window that is not full, it is the entry at 99 per cent of the
  sorted samples; if the window just filled up in time, it is the largest of the hundred samples, not
  their 99th percentile; and if the window fills up exactly when the timeout has passed, the length is
  taken modulo the window, nothing is sorted and the oldest sample is used, whatever the others are.
\<close>

theorem csd_sample_choice:
  assumes "csd_conn_ok cc" "scResIdx cc < 2 ^ 62" "csdUpdateTbRate g us cc w = Some (cc', w')"
  defines "n \<equiv> nat (scResIdx cc mod 100)" and "late \<equiv> gTimeout g < MicroTime w - scSedaLastUpdate cc"
  shows "(late \<and> n < 99 \<longrightarrow> scCur cc' = smoothed g (scCur cc)
        (sort (take (Suc n) ((scResTs cc)[n := u2i us])) ! nat (csdPercentile (int (Suc n))))) \<and>
    (late \<and> n = 99 \<longrightarrow> scCur cc' = smoothed g (scCur cc) (scResTs cc ! 0)) \<and>
    (\<not> late \<and> n < 99 \<longrightarrow> scCur cc' = scCur cc) \<and>
    (\<not> late \<and> n = 99 \<longrightarrow> scCur cc' = smoothed g (scCur cc) (Max (set ((scResTs cc)[99 := u2i us]))))"
proof -
  have i0: "0 \<le> scResIdx cc" and ln: "length (scResTs cc) = 100" using assms(1) by (auto simp: csd_conn_ok_def SedaNReq_def)
  have n: "scResIdx cc mod 100 = int n" "n < 100" using i0 by (simp_all add: n_def)
  have "(scResIdx cc + 1) mod 100 = (int n + 1) mod 100" using n(1) by (metis mod_add_left_eq)
  then have l: "(scResIdx cc + 1) mod 100 = (if n = 99 then 0 else int (Suc n))" using n(2) by simp
  let ?c = "window_after us cc"
  have ts: "scResTs ?c = (scResTs cc)[n := u2i us]" "scCur ?c = scCur cc" "length (scResTs ?c) = 100"
    using ln by (simp_all add: window_after_def n_def)
  have p1: "nat (csdPercentile (int (Suc n))) < Suc n" if "n < 99"
    using percentile_range [of "int (Suc n)"] that by (simp add: max_def split: if_splits)
  have p0: "csdPercentile 0 = 0" using percentile_range [of 0] by simp
  note u = assms(3) [unfolded UpdateTbRate_eq [OF assms(1,2)] l]
  show ?thesis
  proof (cases "n = 99")
    case True
    have "sort (scResTs ?c) ! 99 = Max (set (scResTs ?c))" using last_of_sorted [of "scResTs ?c"] ts(3) by force
    then show ?thesis using True u ts ln p0
      by (auto simp: late_def sort_front_def split: if_splits prod.splits dest!: adjust_cur)
  next
    case False
    then have "n < 99" using n(2) by simp
    moreover have "nat (1 + int n) = Suc n" by simp
    ultimately show ?thesis using u ts(1,2) p1 ln
      by (auto simp: late_def sort_front_def nth_append split: if_splits prod.splits dest!: adjust_cur)
  qed
qed

theorem csd_sample_choice_witness:
  "\<exists>cc' w'. csdUpdateTbRate sd_config 7 demo_sconn demo_sworld = Some (cc', w') \<and> scCur cc' = scCur demo_sconn"
proof -
  have i: "scResIdx demo_sconn = 0" "scSedaLastUpdate demo_sconn = 0" by (simp_all add: demo_sconn_def csd_new_conn_def)
  then have r: "scResIdx demo_sconn < 2 ^ 62" by simp
  from UpdateTbRate_ok [OF demo_sconn_ok r] obtain cc' w' where
    u: "csdUpdateTbRate sd_config 7 demo_sconn demo_sworld = Some (cc', w')" by blast
  have "\<not> gTimeout sd_config < MicroTime demo_sworld - scSedaLastUpdate demo_sconn"
    by (simp add: i sd_config_def MicroTime_def demo_sworld_def)
  then have "scCur cc' = scCur demo_sconn" using csd_sample_choice [OF demo_sconn_ok r u] i by simp
  then show ?thesis using u by blast
qed

section \<open>Load balancing without control\<close>

text \<open>A sequence of calls of \<open>CrpcSendOne\<close> with the configured policy.\<close>

primrec cncSendSeq ::
  "'k writer \<Rightarrow> (byte list \<times> u64) list \<Rightarrow> 'k cncSession \<Rightarrow> world \<Rightarrow> ('k cncSession \<times> world) option" where
  "cncSendSeq wr [] s w = Some (s, w)"
| "cncSendSeq wr (q # qs) s w = do {
     (ret, s1, w1) \<leftarrow> cncSendOne wr CncLbPolicy (fst q) (snd q) 0 s w;
     cncSendSeq wr qs s1 w1
   }"

definition turns :: "nat \<Rightarrow> nat \<Rightarrow> nat \<Rightarrow> nat \<Rightarrow> nat" where
  "turns a m n i = card {j. j < m \<and> (a + j) mod n = i}"

lemma residue_once:
  fixes i n m a :: nat
  assumes "i < n"
  shows "\<exists>k. {j. m \<le> j \<and> j < m + n \<and> (a + j) mod n = i} = {k}"
proof -
  define k where "k = m + (i + (n - (a + m) mod n)) mod n"
  have n: "0 < n" using assms by simp
  have le: "(a + m) mod n \<le> n" using n by (simp add: less_imp_le)
  have g: "(x + d mod n) mod n = (x mod n + d) mod n" for x d :: nat by (simp add: mod_simps)
  have ak: "a + k = (a + m) + (i + (n - (a + m) mod n)) mod n" unfolding k_def by (rule add.assoc [symmetric])
  have "(a + k) mod n = ((a + m) mod n + (i + (n - (a + m) mod n))) mod n" unfolding ak by (rule g)
  also have "\<dots> = (i + n) mod n" using le by (simp add: algebra_simps)
  finally have k: "(a + k) mod n = i" "m \<le> k" "k < m + n" using assms n by (simp_all add: k_def)
  have same: "x = y" if "x \<le> y" "y < m + n" "m \<le> x" "(a + x) mod n = (a + y) mod n" for x y
  proof -
    have "n dvd (a + y) - (a + x)" using that(1,4) by (metis mod_eq_dvd_iff_nat add_le_mono1 add.commute)
    then have "n dvd y - x" by simp
    then show ?thesis using that(1-3) by (auto dest!: dvd_imp_le)
  qed
  have "j = k" if "m \<le> j" "j < m + n" "(a + j) mod n = i" for j
    using same [of j k] same [of k j] that k by (cases "j \<le> k") auto
  then have "{j. m \<le> j \<and> j < m + n \<and> (a + j) mod n = i} = {k}" using k by blast
  then show ?thesis by blast
qed

text \<open>Fairness of a round robin: the shares differ by at most one.\<close>

lemma turns_fair: "i < n \<Longrightarrow> m div n \<le> turns a m n i \<and> turns a m n i \<le> m div n + 1"
proof (induction m rule: less_induct)
  case (less m)
  let ?S = "\<lambda>m. {j. j < m \<and> (a + j) mod n = i}"
  show ?case
  proof (cases "m < n")
    case True
    from residue_once [OF less.prems, of 0 a] obtain k where
      k: "{j. 0 \<le> j \<and> j < 0 + n \<and> (a + j) mod n = i} = {k}" by blast
    have "?S m \<subseteq> {j. 0 \<le> j \<and> j < 0 + n \<and> (a + j) mod n = i}" using True by force
    then have "?S m \<subseteq> {k}" unfolding k .
    then have "card (?S m) \<le> card {k}" by (intro card_mono) simp_all
    then show ?thesis using True by (simp add: turns_def)
  next
    case False
    from residue_once [OF less.prems, of "m - n" a] False obtain k where
      k: "{j. m - n \<le> j \<and> j < m \<and> (a + j) mod n = i} = {k}" by auto
    have km: "m - n \<le> k" using k by blast
    have "j < m \<longleftrightarrow> j < m - n \<or> m - n \<le> j \<and> j < m" for j using False by arith
    then have "?S m = ?S (m - n) \<union> {j. m - n \<le> j \<and> j < m \<and> (a + j) mod n = i}" by blast
    then have "?S m = insert k (?S (m - n))" unfolding k by simp
    moreover have "k \<notin> ?S (m - n)" using km by simp
    ultimately have S: "?S m = insert k (?S (m - n))" "k \<notin> ?S (m - n)" by blast+
    have "turns a m n i = Suc (turns a (m - n) n i)" unfolding turns_def S(1) using S(2) by (subst card_insert_disjoint) simp_all
    moreover have "m div n = Suc ((m - n) div n)" using False less.prems by (simp add: le_div_geq)
    ultimately show ?thesis using less.IH [of "m - n"] less.prems False by simp
  qed
qed

lemma turns_Suc: "turns a (Suc m) n i = (if a mod n = i then 1 else 0) + turns (Suc a) m n i"
proof -
  have "{j. j < Suc m \<and> (a + j) mod n = i} = (if a mod n = i then {0} else {}) \<union> Suc ` {j. j < m \<and> (Suc a + j) mod n = i}"
    by (auto simp: image_iff less_Suc_eq_0_disj)
  moreover have "card (Suc ` {j. j < m \<and> (Suc a + j) mod n = i}) = turns (Suc a) m n i"
    by (simp add: turns_def card_image)
  ultimately show ?thesis by (simp add: turns_def card_insert_if)
qed

lemma turns_mod: "turns (a mod n) m n i = turns a m n i"
  by (simp add: turns_def mod_add_left_eq)

lemma WriteFull_accepted:
  assumes "byte_sink wr sent" "\<forall>bs k. fst (snd (wr bs k)) = None"
  shows "\<exists>k'. WriteFull wr buf k = Some (length buf, None, k') \<and> sent k' = sent k @ buf"
proof (cases "buf = []")
  case True
  then show ?thesis by (simp add: WriteFull_def WriteFull_loop.simps)
next
  case False
  obtain n k' where r: "wr buf k = (n, None, k')" using assms(2) by (metis prod.collapse)
  have "n = length buf" "sent k' = sent k @ buf" using byte_sink.wr_all [OF assms(1) r] by auto
  then show ?thesis using False r by (simp add: WriteFull_def WriteFull_loop.simps)
qed

lemma cncSendOne_rr:
  assumes S: "byte_sink wr sent" "\<forall>bs k. fst (snd (wr bs k)) = None"
    and a: "nsNextConnIdx s = int a" "a < length (nsConns s)" "length (nsConns s) \<le> 256"
    and q: "unat len \<le> SrpcBufSize" "unat len \<le> length buf"
  shows "\<exists>k. cncSendOne wr CncLbPolicy buf len h s w = Some (u2i len,
      s\<lparr>nsConns := (nsConns s)[a := (nsConns s ! a)\<lparr>ncC := k, ncReqTx := ncReqTx (nsConns s ! a) + 1\<rparr>],
        nsReqId := nsReqId s + 1, nsNextConnIdx := int (Suc a mod length (nsConns s))\<rparr>, step_world w)"
proof -
  let ?n = "length (nsConns s)" let ?cc = "nsConns s ! a"
  let ?h = "CncHdr_bytes (cnc_call_hdr (nsReqId s) len (MicroTime w))"
  obtain k1 where w1: "WriteFull wr ?h (ncC ?cc) = Some (length ?h, None, k1)" using WriteFull_accepted [OF S] by blast
  obtain k2 where w2: "WriteFull wr (take (unat len) buf) k1 = Some (length (take (unat len) buf), None, k2)"
    using WriteFull_accepted [OF S] by blast
  have ln: "int (length (take (unat len) buf)) = u2i len"
  proof -
    define m where "m = unat len"
    have m: "uint len = int m" "m \<le> 2048" using q(1) by (simp_all add: m_def SrpcBufSize_def)
    then have "u2i len = int m" by (simp add: u2i_small)
    then show ?thesis using q(2) by (simp add: m_def min_def)
  qed
  have ne: "nsConns s \<noteq> []" using a(2) by auto
  have "iadd (int a) 1 smod int ?n = int (Suc a mod ?n)"
    using a(2,3) ne smod_nonneg [of "1 + int a" "int ?n"]
    by (simp add: iadd_def goint_id in_int64_def zmod_int add.commute)
  then have ch: "cncChoose CncLbPolicy h s = Some (Some (int a, s\<lparr>nsNextConnIdx := int (Suc a mod ?n)\<rparr>))"
    using a ne by (simp add: cncChoose_def CncLbPolicy_def Let_def)
  show ?thesis
    using q w1 w2 ch a(2) ln by (intro exI [of _ k2]) (simp add: cncSendOne_def cncSendRaw_def Let_def list_get_def)
qed

lemma cncSendSeq_turns:
  assumes "byte_sink wr sent" "\<forall>bs k. fst (snd (wr bs k)) = None"
    and "nsNextConnIdx s = int a" "a < length (nsConns s)" "length (nsConns s) \<le> 256"
    and "\<forall>(buf, len)\<in>set qs. unat len \<le> SrpcBufSize \<and> unat len \<le> length buf"
  shows "\<exists>s' w'. cncSendSeq wr qs s w = Some (s', w') \<and> nsNextConnIdx s' = int ((a + length qs) mod length (nsConns s)) \<and>
      nsReqId s' = nsReqId s + of_nat (length qs) \<and> length (nsConns s') = length (nsConns s) \<and>
      (\<forall>i<length (nsConns s). ncReqTx (nsConns s' ! i) = ncReqTx (nsConns s ! i) + of_nat (turns a (length qs) (length (nsConns s)) i))"
  using assms(3-6)
proof (induction qs arbitrary: s a w)
  case Nil
  then show ?case by (simp add: turns_def)
next
  case (Cons q qs)
  obtain buf len where q: "q = (buf, len)" by (cases q)
  have "unat len \<le> SrpcBufSize" "unat len \<le> length buf" using Cons.prems(4) q by auto
  from cncSendOne_rr [OF assms(1,2) Cons.prems(1-3) this, of 0 w] obtain k where
    k: "cncSendOne wr CncLbPolicy buf len 0 s w = Some (u2i len,
      s\<lparr>nsConns := (nsConns s)[a := (nsConns s ! a)\<lparr>ncC := k, ncReqTx := ncReqTx (nsConns s ! a) + 1\<rparr>],
      nsReqId := nsReqId s + 1, nsNextConnIdx := int (Suc a mod length (nsConns s))\<rparr>, step_world w)" by blast
  let ?s = "s\<lparr>nsConns := (nsConns s)[a := (nsConns s ! a)\<lparr>ncC := k, ncReqTx := ncReqTx (nsConns s ! a) + 1\<rparr>],
      nsReqId := nsReqId s + 1, nsNextConnIdx := int (Suc a mod length (nsConns s))\<rparr>"
  have "Suc a mod length (nsConns s) < length (nsConns ?s)"
  proof -
    have "nsConns s \<noteq> []" using Cons.prems(2) by auto
    then show ?thesis by simp
  qed
  from Cons.IH [of ?s "Suc a mod length (nsConns s)" "step_world w", OF _ this] Cons.prems obtain s' w' where
    r: "cncSendSeq wr qs ?s (step_world w) = Some (s', w')"
      "nsNextConnIdx s' = int ((Suc a mod length (nsConns s) + length qs) mod length (nsConns s))"
      "nsReqId s' = nsReqId s + 1 + of_nat (length qs)" "length (nsConns s') = length (nsConns s)"
      "\<forall>i<length (nsConns s). ncReqTx (nsConns s' ! i) =
         ncReqTx (nsConns ?s ! i) + of_nat (turns (Suc a) (length qs) (length (nsConns s)) i)"
    by (auto simp: turns_mod)
  have e: "cncSendSeq wr (q # qs) s w = Some (s', w')" using k r(1) q by simp
  have nx: "(Suc a mod length (nsConns s) + length qs) mod length (nsConns s) = (a + length (q # qs)) mod length (nsConns s)"
    by (simp add: mod_simps)
  have "\<forall>i<length (nsConns s). ncReqTx (nsConns s' ! i) =
      ncReqTx (nsConns s ! i) + of_nat (turns a (length (q # qs)) (length (nsConns s)) i)"
    using r(5) Cons.prems(2) by (auto simp: turns_Suc nth_list_update algebra_simps)
  then show ?case using e r(2-4) nx by (intro exI [of _ s'] exI [of _ w']) simp
qed

text \<open>
  C35.  Round robin of the client without control: over connections that accept everything, a sequence
  of calls of \<open>CrpcSendOne\<close> serves the connections cyclically from \<open>NextConnIdx\<close>, numbers the requests
  consecutively and counts each on its connection; with \<open>m\<close> calls on \<open>n\<close> connections every connection
  gets \<open>m div n\<close> or one more.
\<close>

theorem cnc_round_robin:
  assumes "byte_sink wr sent" "\<forall>bs k. fst (snd (wr bs k)) = None"
    and "nsNextConnIdx s = int a" "a < length (nsConns s)" "length (nsConns s) \<le> 256"
    and "\<forall>(buf, len)\<in>set qs. unat len \<le> SrpcBufSize \<and> unat len \<le> length buf"
  defines "n \<equiv> length (nsConns s)" and "m \<equiv> length qs"
  shows "\<exists>s' w'. cncSendSeq wr qs s w = Some (s', w') \<and> nsNextConnIdx s' = int ((a + m) mod n) \<and>
    nsReqId s' = nsReqId s + of_nat m \<and> length (nsConns s') = n \<and>
    (\<forall>i<n. ncReqTx (nsConns s' ! i) = ncReqTx (nsConns s ! i) + of_nat (turns a m n i) \<and>
       m div n \<le> turns a m n i \<and> turns a m n i \<le> m div n + 1)"
  using cncSendSeq_turns [OF assms(1-6), of w] turns_fair [of _ n m a] by (simp add: n_def m_def)

definition demo_ncsession :: "mem_conn cncSession" where
  "demo_ncsession = \<lparr>nsReqId = 1, nsId = 3, nsNextConnIdx = 1,
     nsConns = map nc_new_conn [\<lparr>segments = [], written = []\<rparr>, \<lparr>segments = [], written = []\<rparr>]\<rparr>"

theorem cnc_round_robin_witness:
  "\<exists>s' w'. cncSendSeq mem_write [([1, 2], 2), ([], 0), ([5], 1)] demo_ncsession demo_sworld = Some (s', w') \<and>
     nsNextConnIdx s' = 0 \<and> nsReqId s' = 4"
proof -
  have r: "\<forall>bs k. fst (snd (mem_write bs k)) = None" by (simp add: mem_write_def)
  from cnc_round_robin [OF memw.byte_sink_axioms r, of demo_ncsession 1 "[([1, 2], 2), ([], 0), ([5], 1)]" demo_sworld]
  show ?thesis by (auto simp: demo_ncsession_def SrpcBufSize_def mod_Suc)
qed

end
