(* ===== verification/Perf.thy ===== *)
theory Perf
  imports Env
begin

text \<open>
  The cached performance counters, \<open>src/perf/perf.go\<close>, and the queueing delay the modified runtime
  exports (\<open>runtime.QueueDelay\<close>, \<open>src/go/src/runtime/debug.go\<close>).  A single goroutine refreshes the
  cache; every reader goes through the getters.  What a tick reads from the cgo package \<open>pmc\<close>, from the
  eBPF package \<open>netdelay\<close> and from the processors of the runtime is the argument \<open>perfReadings\<close>.  The energy is
  stored as the bit pattern of a \<open>float64\<close>; storing and loading it is the identity, so the model keeps the
  value.  A nil state is \<open>None\<close>.  Points in time are nanoseconds.
\<close>

section \<open>The runtime's queueing delay\<close>

text \<open>The loop over \<open>allp\<close>, with the maximum, the total and the number of processors seen so far.\<close>

fun queueDelayLoop :: "int option list \<Rightarrow> int \<Rightarrow> int \<Rightarrow> int \<Rightarrow> int \<times> int \<times> int" where
  "queueDelayLoop [] mx tot nps = (mx, tot, nps)"
| "queueDelayLoop (None # pps) mx tot nps = queueDelayLoop pps mx tot nps"
| "queueDelayLoop (Some delay # pps) mx tot nps =
     queueDelayLoop pps (if delay > mx then delay else mx) (iadd tot delay) (iadd nps 1)"

definition QueueDelay :: "int option list \<Rightarrow> (u64 \<times> u64) option" where
  "QueueDelay allp = (case queueDelayLoop allp 0 0 0 of (mx, tot, nps) \<Rightarrow> do {
     avg \<leftarrow> (if nps > 0 then idiv tot nps else Some 0);
     Some (i2u mx, i2u avg)
   })"

section \<open>The cache\<close>

definition perfRefreshPeriod :: int where "perfRefreshPeriod = 20000"
definition perfUseTotalOnly :: bool where "perfUseTotalOnly = True"
definition includeNetDelay :: bool where "includeNetDelay = True"

record perfState =
  psMaxMemChan :: u64
  psActiveMemChan :: u64
  psChanAccesses :: "u64 list"
  psTotAccesses :: u64
  psEnergy :: float64
  psQDelayMax :: u64
  psQDelayAvg :: u64
  psNetStackDelay :: u64
  psStop :: bool

record perfReadings =
  rdMemAccesses :: u64
  rdChanAccesses :: "nat \<Rightarrow> u64"
  rdEnergy :: float64
  rdAllp :: "int option list"
  rdNetDelay :: u64

definition PerfInit :: "u64 \<Rightarrow> u64 \<Rightarrow> perfState option \<Rightarrow> perfState option" where
  "PerfInit maxCh actCh cur = (case cur of
     Some st \<Rightarrow> Some st
   | None \<Rightarrow> Some \<lparr>psMaxMemChan = maxCh, psActiveMemChan = actCh, psChanAccesses = replicate (unat maxCh) 0,
       psTotAccesses = 0, psEnergy = FFin 0, psQDelayMax = 0, psQDelayAvg = 0, psNetStackDelay = 0, psStop = False\<rparr>)"

text \<open>\<open>PerfDeInit\<close> stops the refresher (first part) and, once it has exited, drops the state.\<close>

definition PerfDeInit_stop :: "perfState option \<Rightarrow> perfState option" where
  "PerfDeInit_stop cur = map_option (\<lambda>st. st\<lparr>psStop := True\<rparr>) cur"

definition PerfDeInit_free :: "perfState option \<Rightarrow> perfState option" where
  "PerfDeInit_free cur = None"

text \<open>The next deadline: one period later, or one period after now if that has already passed.\<close>

definition perfDeadline :: "int \<Rightarrow> int \<Rightarrow> int" where
  "perfDeadline deadline now = (
     let d = deadline + perfRefreshPeriod in if d < now then now + perfRefreshPeriod else d)"

fun refreshChannels :: "perfReadings \<Rightarrow> nat list \<Rightarrow> u64 \<Rightarrow> u64 list \<Rightarrow> (u64 \<times> u64 list) option" where
  "refreshChannels r [] acc ch = Some (acc, ch)"
| "refreshChannels r (i # is) acc ch = do {
     ch1 \<leftarrow> list_put ch i (rdChanAccesses r i);
     refreshChannels r is (acc + rdChanAccesses r i) ch1
   }"

text \<open>One tick of \<open>perfRefresher\<close> after the wait.\<close>

definition perfRefresh :: "bool \<Rightarrow> perfReadings \<Rightarrow> perfState \<Rightarrow> perfState option" where
  "perfRefresh totalOnly r st = do {
     st1 \<leftarrow> (if totalOnly then Some (st\<lparr>psTotAccesses := rdMemAccesses r\<rparr>)
            else do {
              (tot, ch) \<leftarrow> refreshChannels r [0..<unat (psActiveMemChan st)] 0 (psChanAccesses st);
              Some (st\<lparr>psChanAccesses := ch, psTotAccesses := tot\<rparr>)
            });
     let st2 = st1\<lparr>psEnergy := rdEnergy r\<rparr>;
     (qMax, qAvg) \<leftarrow> QueueDelay (rdAllp r);
     Some (st2\<lparr>psQDelayMax := qMax, psQDelayAvg := qAvg, psNetStackDelay := rdNetDelay r\<rparr>)
   }"

text \<open>
  One round of the refresher's inner loop and, when the deadline is reached, the tick; \<open>None\<close> for the
  state is the exit.
\<close>

definition perfRefresher :: "bool \<Rightarrow> perfReadings \<Rightarrow> int \<Rightarrow> int \<Rightarrow> int \<Rightarrow> perfState \<Rightarrow> (int \<times> perfState option) option" where
  "perfRefresher totalOnly r now1 now2 deadline st =
     (if psStop st then Some (deadline, None)
      else if now1 < deadline then Some (deadline, Some st)
      else do { st1 \<leftarrow> perfRefresh totalOnly r st; Some (perfDeadline deadline now2, Some st1) })"

section \<open>Readers\<close>

definition MemPmcGetMaxMemChan :: "perfState option \<Rightarrow> u64" where
  "MemPmcGetMaxMemChan p = (case p of None \<Rightarrow> 0 | Some st \<Rightarrow> psMaxMemChan st)"

definition MemPmcGetActiveMemChan :: "perfState option \<Rightarrow> u64" where
  "MemPmcGetActiveMemChan p = (case p of None \<Rightarrow> 0 | Some st \<Rightarrow> psActiveMemChan st)"

definition MemPmcGetMemChanAccesses :: "int \<Rightarrow> perfState option \<Rightarrow> u64 option" where
  "MemPmcGetMemChanAccesses chann p = (case p of
     None \<Rightarrow> Some 0
   | Some st \<Rightarrow> if chann < 0 \<or> psMaxMemChan st \<le> i2u chann then Some 0
                else list_get (psChanAccesses st) (nat chann))"

definition MemPmcGetMemAccesses :: "perfState option \<Rightarrow> u64" where
  "MemPmcGetMemAccesses p = (case p of None \<Rightarrow> 0 | Some st \<Rightarrow> psTotAccesses st)"

definition PowPmcGetEnergyConsumed :: "perfState option \<Rightarrow> float64" where
  "PowPmcGetEnergyConsumed p = (case p of None \<Rightarrow> FFin 0 | Some st \<Rightarrow> psEnergy st)"

definition GetQueueDelayMax :: "perfState option \<Rightarrow> u64" where
  "GetQueueDelayMax p = (case p of
     None \<Rightarrow> 0
   | Some st \<Rightarrow> if includeNetDelay then psQDelayMax st + psNetStackDelay st else psQDelayMax st)"

definition GetQueueDelayAvg :: "perfState option \<Rightarrow> u64" where
  "GetQueueDelayAvg p = (case p of
     None \<Rightarrow> 0
   | Some st \<Rightarrow> if includeNetDelay then psQDelayAvg st + psNetStackDelay st else psQDelayAvg st)"

section \<open>Correctness\<close>

definition delays :: "int option list \<Rightarrow> int list" where
  "delays allp = List.map_filter (\<lambda>p. p) allp"

lemma delays_simps [simp]: "delays [] = []" "delays (None # ps) = delays ps" "delays (Some d # ps) = d # delays ps"
  by (simp_all add: delays_def List.map_filter_simps)

text \<open>Bounds of the loop variables that rule out a wrap-around: delays below 2^40 ns, at most 2^20 processors.\<close>

lemma queueDelayLoop_exact:
  assumes "\<forall>d\<in>set (delays ps). 0 \<le> d \<and> d < 2 ^ 40" "0 \<le> tot" "tot \<le> nps * 2 ^ 40" "0 \<le> nps"
    "nps + int (length (delays ps)) \<le> 2 ^ 20"
  shows "queueDelayLoop ps mx tot nps =
    (fold max (delays ps) mx, tot + sum_list (delays ps), nps + int (length (delays ps)))"
  using assms
proof (induction ps mx tot nps rule: queueDelayLoop.induct)
  case (3 d ps mx tot nps)
  have d: "0 \<le> d" "d < 2 ^ 40" using 3(2) by auto
  have "(nps + 1) * 2 ^ 40 \<le> (2 ^ 20 * 2 ^ 40 :: int)" using 3(6) by (intro mult_right_mono) simp_all
  then have t: "tot + d \<le> 2 ^ 60" "tot + d \<le> (nps + 1) * 2 ^ 40" using 3(4) d by (simp_all add: algebra_simps)
  have e: "iadd tot d = tot + d" "iadd nps 1 = nps + 1"
    using 3(3,5,6) d t by (simp_all add: iadd_def goint_id in_int64_def)
  have "queueDelayLoop ps (if d > mx then d else mx) (tot + d) (nps + 1) =
      (fold max (delays ps) (if d > mx then d else mx), (tot + d) + sum_list (delays ps), (nps + 1) + int (length (delays ps)))"
    using 3(1)[unfolded e] 3(2-6) d t(2) by simp
  moreover have "(if d > mx then d else mx) = max d mx" by simp
  ultimately show ?case using e by simp
qed simp_all

lemma sum_le_max:
  assumes "\<forall>d\<in>set ds. d \<le> m"
  shows "sum_list ds \<le> int (length ds) * m"
  using assms by (induction ds) (auto simp: algebra_simps)

lemma fold_max_ge: "m \<le> fold max ds m \<and> (\<forall>d\<in>set ds. (d :: int) \<le> fold max ds m)"
proof (induction ds arbitrary: m)
  case (Cons d ds)
  from Cons.IH [of "max d m"] show ?case by auto
qed simp

lemma fold_max_in: "fold max ds m = m \<or> fold max ds (m :: int) \<in> set ds"
proof (induction ds arbitrary: m)
  case (Cons d ds)
  from Cons.IH [of "max d m"] show ?case by (auto simp: max_def split: if_splits)
qed simp

lemma QueueDelay_exact:
  assumes "\<forall>d\<in>set (delays allp). 0 \<le> d \<and> d < 2 ^ 40" "length (delays allp) \<le> 2 ^ 20"
  defines "ds \<equiv> delays allp"
  shows "\<exists>avg. QueueDelay allp = Some (i2u (Max (insert 0 (set ds))), i2u avg) \<and>
    0 \<le> avg \<and> avg \<le> Max (insert 0 (set ds)) \<and>
    avg * int (length ds) \<le> sum_list ds \<and> (ds \<noteq> [] \<longrightarrow> sum_list ds < (avg + 1) * int (length ds))"
proof -
  define n where "n = int (length ds)"
  have "n \<le> 2 ^ 20" using assms(2) by (simp add: n_def ds_def)
  then have lp: "queueDelayLoop (allp) 0 0 0 = (fold max ds 0, sum_list ds, n)"
    using queueDelayLoop_exact [of "allp" 0 0 0] assms(1) by (simp add: ds_def n_def)
  have mx: "fold max ds 0 = Max (insert 0 (set ds))"
    using fold_max_ge [of 0 ds] fold_max_in [of ds 0] by (intro Max_eqI [symmetric]) auto
  have s0: "0 \<le> sum_list ds" using assms(1) by (intro sum_list_nonneg) (simp add: ds_def)
  have "sum_list ds \<le> n * 2 ^ 40" unfolding n_def using assms(1) by (intro sum_le_max) (auto simp: ds_def)
  also have "\<dots> \<le> 2 ^ 20 * 2 ^ 40" using \<open>n \<le> 2 ^ 20\<close> by (intro mult_right_mono) simp_all
  finally have s60: "sum_list ds \<le> 2 ^ 60" by simp
  let ?avg = "if n > 0 then sum_list ds div n else 0"
  have sm: "sum_list ds \<le> n * Max (insert 0 (set ds))" unfolding n_def by (intro sum_le_max) auto
  have av: "(if n > 0 then idiv (sum_list ds) n else Some 0) = Some ?avg"
  proof (cases "n > 0")
    case True
    have "sum_list ds div n \<le> sum_list ds" using zdiv_mono2 [of "sum_list ds" 1 n] s0 True by simp
    moreover have "0 \<le> sum_list ds div n" using s0 True by (simp add: pos_imp_zdiv_nonneg_iff)
    ultimately have "in_int64 (sum_list ds div n)" using s60 unfolding in_int64_def by simp
    then show ?thesis using True s0 by (auto simp: idiv_def goint_id signed_divide_int_def sgn_if in_int64_def)
  qed simp
  have q: "QueueDelay (allp) = Some (i2u (Max (insert 0 (set ds))), i2u ?avg)"
    using av by (simp add: QueueDelay_def lp mx)
  have "sum_list ds = 0" if "\<not> n > 0" using that by (simp add: n_def)
  moreover have "sum_list ds div n * n \<le> sum_list ds \<and> sum_list ds < (sum_list ds div n + 1) * n" if "n > 0"
  proof -
    have "sum_list ds div n * n + sum_list ds mod n = sum_list ds" by (rule div_mult_mod_eq)
    moreover have "0 \<le> sum_list ds mod n" using that by (rule pos_mod_sign)
    moreover have "sum_list ds mod n < n" using that by (rule pos_mod_bound)
    ultimately show ?thesis unfolding distrib_right by linarith
  qed
  moreover have "n > 0 \<Longrightarrow> 0 \<le> sum_list ds div n \<and> sum_list ds div n \<le> Max (insert 0 (set ds))"
    using s0 sm by (auto simp: pos_imp_zdiv_nonneg_iff intro: zdiv_mono1 [of _ "n * Max (insert 0 (set ds))" n, THEN order_trans])
  moreover have "0 \<le> Max (insert 0 (set ds))" by simp
  ultimately show ?thesis using q by (intro exI [of _ ?avg]) (auto simp: n_def)
qed



end
