(* ===== verification/End_To_End.thy ===== *)
theory End_To_End
  imports Plain_Servers Seda_Client_Properties
begin

text \<open>
  One request through the whole SEDA stack: the bytes the client writes
  (\<open>src/ovldctlrpc/seda/sd_client.go\<close>), the receiver, the worker with the benchmark's handler
  (\<open>src/apps/netbench/server/netbench_server.go\<close>) and the sender of \<open>src/ovldctlrpc/seda/sd_server.go\<close>,
  and the response as the client reads it.
\<close>

text \<open>A request of the benchmark on the wire: a Go \<open>bool\<close> is one byte, followed by seven bytes of padding.\<close>

definition NetbenchReq_bytes :: "byte list \<Rightarrow> netbenchReq \<Rightarrow> byte list" where
  "NetbenchReq_bytes pad q = le_bytes 8 (unat (nqMagic q)) @ le_bytes 8 (unat (nqOpaque q)) @
     [if nqIsCpuBoundReq q then 1 else 0] @ pad @ le_bytes 8 (unat (nqHash q))"

lemma NetbenchReq_length: "length pad = 7 \<Longrightarrow> length (NetbenchReq_bytes pad q) = 32"
  by (simp add: NetbenchReq_bytes_def)

lemma NetbenchReq_roundtrip: "length pad = 7 \<Longrightarrow> NetbenchReq_of_bytes (NetbenchReq_bytes pad q @ rest) = q"
  by (simp add: NetbenchReq_of_bytes_def NetbenchReq_bytes_def field_def le_nat_u64 nth_append
      del: le_nat.simps le_bytes.simps)

context plain_parts
begin

text \<open>A well-formed call at the front of the stream ends up in a free slot, with its payload and its identity.\<close>

lemma RecvHdr_call:
  assumes "pending k = CsdHdr_bytes h @ rest" "hMagic h = SdReqMagic" "unat (hLen h) \<le> SrpcBufSize"
  shows "\<exists>k'. ssdRecvHdr rd k = Some (Some h, k') \<and> pending k' = rest"
proof -
  have "length (replicate sd_hdr_size (0 :: byte)) \<le> length (pending k)" using assms(1) by simp
  from ReadFull_stream [OF this] obtain k' where
    "ReadFull rd (replicate sd_hdr_size 0) k = Some (sd_hdr_size, None, take sd_hdr_size (pending k), k')"
    "pending k' = drop sd_hdr_size (pending k)" by auto
  then show ?thesis using assms by (simp add: ssdRecvHdr_def CsdHdr_roundtrip)
qed

lemma RecvPass_call:
  assumes ok: "dslots_ok bits s" and free: "card (doccupied s) < 64" and np: "0 \<le> dNumPending s" "dNumPending s \<le> 64"
    and pool: "dpooled_ok pooled" and wire: "pending (dConn s) = CsdHdr_bytes h @ payload @ rest"
    and h: "hMagic h = SdReqMagic" "hOp h = SdOpCall" "unat (hLen h) \<le> SrpcBufSize" "length payload = unat (hLen h)"
  shows "\<exists>i os1 s1 c. ssdRecvPass B rd pooled os s = Some (SdSpawn i, os1, s1) \<and> pending (dConn s1) = rest \<and>
    dslot_at s1 (int i) = Some (Some c) \<and> cmn_ok i (dCmn c) \<and> take (unat (hLen h)) (ReqBuf (dCmn c)) = payload \<and>
    ReqLen (dCmn c) = hLen h \<and> CtxId (dCmn c) = hId h \<and> RespLen (dCmn c) = 0 \<and> dTs c = hTs h \<and> i < 64 \<and>
    length (dSlots s1) = 64 \<and> dslots_ok bits s1 \<and> i \<in> doccupied s1"
proof -
  from RecvHdr_call [OF wire h(1,3)] obtain k where k: "ssdRecvHdr rd (dConn s) = Some (Some h, k)" "pending k = payload @ rest" by blast
  let ?s = "s\<lparr>dConn := k\<rparr>"
  have sok: "dslots_ok bits ?s" "doccupied ?s = doccupied s"
    using ok dslots_ok_cong [of ?s s bits] doccupied_cong [of ?s s] by simp_all
  have o64: "doccupied s \<subseteq> {i. i < 64}" using ok by (auto simp: dslots_ok_def doccupied_def)
  have "bits (dAvail s) \<noteq> {}"
  proof
    assume "bits (dAvail s) = {}"
    then have "{i. i < 64} \<subseteq> doccupied s" using ok by (auto simp: dslots_ok_def)
    then have "card {i. i < (64 :: nat)} \<le> card (doccupied s)" by (intro card_mono) simp_all
    then show False using free by simp
  qed
  then have "ssdGetSlot B pooled ?s \<noteq> Some (- 1, ?s)" using ok o64
    by (auto simp: ssdGetSlot_def bits_min dslots_ok_def split: if_splits)
  with dGetSlot_spec [OF sok(1) pool] sok(2) obtain i c where
    g: "ssdGetSlot B pooled ?s = Some (int i, ?s\<lparr>dAvail := bmRemove B i (dAvail s), dSlots := (dSlots s)[i := Some c]\<rparr>)"
      "i < 64" "cmn_ok i (dCmn c)"
      "dslots_ok bits (?s\<lparr>dAvail := bmRemove B i (dAvail s), dSlots := (dSlots s)[i := Some c]\<rparr>)" by auto
  have ln: "length (dSlots s) = 64" using ok by (simp add: dslots_ok_def)
  have rb: "length (take (unat (hLen h)) (ReqBuf (dCmn c))) = unat (hLen h)" using g(3) h(3) by (simp add: cmn_ok_def)
  then have "length (take (unat (hLen h)) (ReqBuf (dCmn c))) \<le> length (pending k)" using k(2) h(4) by simp
  from ReadFull_stream [OF this] rb obtain k2 where
    r: "ReadFull rd (take (unat (hLen h)) (ReqBuf (dCmn c))) k = Some (unat (hLen h), None, payload, k2)" "pending k2 = rest"
    using k(2) h(4) by auto
  let ?c = "c\<lparr>dCmn := (dCmn c)\<lparr>ReqBuf := payload @ drop (unat (hLen h)) (ReqBuf (dCmn c)),
                        ReqLen := hLen h, RespLen := 0, CtxId := hId h\<rparr>, dTs := hTs h\<rparr>"
  let ?s3 = "?s\<lparr>dAvail := bmRemove B i (dAvail s), dSlots := (dSlots s)[i := Some ?c], dConn := k2, dNumPending := dNumPending s + 1\<rparr>"
  let ?os = "os\<lparr>oReqRx := oReqRx os + 1, oNumPending := oNumPending os + 1\<rparr>"
  have e: "ssdRecvPass B rd pooled os s = Some (SdSpawn i, ?os, ?s3)"
    using k(1) g(1,2) h(2) r(1) ln np by (simp add: ssdRecvPass_def ssdRecvMsg_def ssdRecvCall_def Let_def dslot_at_def iadd_def)
  have ck: "cmn_ok i (dCmn ?c)" using g(3) h(3,4) by (simp add: cmn_ok_def)
  have "dslots_ok bits ?s3"
    using g(2,4) ck ln by (auto simp: dslots_ok_def doccupied_def nth_list_update)
  moreover have "i \<in> doccupied ?s3" using g(2) ln by (simp add: doccupied_def)
  ultimately show ?thesis using e ck r(2) g(2) ln h(4)
    by (intro exI [of _ i] exI [of _ ?os] exI [of _ ?s3] exI [of _ ?c]) (simp add: dslot_at_def)
qed

text \<open>The worker below the threshold: the handler's result waits in the slot, and the sender is signalled.\<close>

lemma Worker_call:
  assumes "dslot_at s (int i) = Some (Some c)" "i < 64" "length (dSlots s) = 64" "cmn_ok i (dCmn c)"
    and "QueueDelayMax_of w div 1000 < thresh"
  shows "\<exists>os2 s2. ssdWorker B thresh handler i os s w = Some (os2, s2) \<and> dSignalled s2 \<and> i \<in> bits (dCompleted s2) \<and>
    dConn s2 = dConn s \<and> length (dSlots s2) = 64 \<and>
    dslot_at s2 (int i) = Some (Some (c\<lparr>dCmn := handler ((dCmn c)\<lparr>Drop := False\<rparr>)\<rparr>))"
proof -
  let ?m = "handler ((dCmn c)\<lparr>Drop := False\<rparr>)"
  have late: "(thresh \<le> QueueDelayMax_of w div 1000) = False" using assms(5) by simp
  have "cmn_ok i ((dCmn c)\<lparr>Drop := False\<rparr>)" using assms(4) by (simp add: cmn_ok_def)
  then have "Idx ?m = int i" using handler by (simp add: handler_ok_def cmn_ok_def)
  then have ix: "unat (word_of_int (Idx ?m) :: u32) = i" using assms(2) by (simp add: unat_of_nat take_bit_nat_eq_self_iff)
  let ?s = "ssdComplete B (Idx ?m) (s\<lparr>dSlots := (dSlots s)[i := Some (c\<lparr>dCmn := ?m\<rparr>)]\<rparr>)"
  have "\<exists>os2. ssdWorker B thresh handler i os s w = Some (os2, ?s)"
    using assms(1) late by (simp add: ssdWorker_def Let_def)
  moreover have "dSignalled ?s" "i \<in> bits (dCompleted ?s)" "dConn ?s = dConn s" "length (dSlots ?s) = 64"
    "dslot_at ?s (int i) = Some (Some (c\<lparr>dCmn := ?m\<rparr>))"
    using ix assms(2,3) by (simp_all add: ssdComplete_def bits_set dslot_at_def)
  ultimately show ?thesis by blast
qed

text \<open>The sender writes header and payload of the completed slot.\<close>

lemma SendOne_bytes:
  assumes acc: "\<forall>bs k. fst (snd (wr bs k)) = None"
    and c: "dslot_at s (int i) = Some (Some c)" "unat (RespLen (dCmn c)) \<le> length (RespBuf (dCmn c))"
  shows "\<exists>os' s'. ssdSendOne B wr i os s = Some (os', s') \<and> oRespTx os' = oRespTx os + 1 \<and>
    sent (dConn s') = sent (dConn s) @ CsdHdr_bytes (sd_response_hdr c) @ take (unat (RespLen (dCmn c))) (RespBuf (dCmn c))"
proof -
  have S: "byte_sink wr sent" by (rule byte_sink_axioms)
  obtain k1 where k1: "WriteFull wr (CsdHdr_bytes (sd_response_hdr c)) (dConn s) = Some (sd_hdr_size, None, k1)"
      "sent k1 = sent (dConn s) @ CsdHdr_bytes (sd_response_hdr c)"
    using WriteFull_accepted [OF S acc, of "CsdHdr_bytes (sd_response_hdr c)" "dConn s"] by auto
  obtain k2 n where k2: "WriteFull wr (take (unat (RespLen (dCmn c))) (RespBuf (dCmn c))) k1 = Some (n, None, k2)"
      "sent k2 = sent k1 @ take (unat (RespLen (dCmn c))) (RespBuf (dCmn c))"
    using WriteFull_accepted [OF S acc] by blast
  have "dslot_at (s\<lparr>dConn := k2\<rparr>) (int i) = Some (Some c)" using c(1) by (auto simp: dslot_at_def split: if_splits)
  then show ?thesis using c k1 k2 by (simp add: ssdSendOne_def ssdPutSlot_def Let_def)
qed

text \<open>The way of a request through the server: receiver, worker, collection and transmission.\<close>

lemma Request_served:
  assumes ok: "dslots_ok bits s" and free: "card (doccupied s) < 64" and np: "0 \<le> dNumPending s" "dNumPending s \<le> 64"
    and pool: "dpooled_ok pooled" and wire: "pending (dConn s) = CsdHdr_bytes h @ payload @ rest"
    and h: "hMagic h = SdReqMagic" "hOp h = SdOpCall" "unat (hLen h) \<le> SrpcBufSize" "length payload = unat (hLen h)"
    and early: "QueueDelayMax_of w div 1000 < thresh"
    and acc: "\<forall>bs k. fst (snd (wr bs k)) = None"
    and reply: "\<And>m. take (unat (hLen h)) (ReqBuf m) = payload \<Longrightarrow> ReqLen m = hLen h \<Longrightarrow>
      length (ReqBuf m) = SrpcBufSize \<Longrightarrow> length (RespBuf m) = SrpcBufSize \<Longrightarrow>
      RespLen (handler m) = rl \<and> take (unat rl) (RespBuf (handler m)) = answer \<and> length answer = unat rl \<and>
      CtxId (handler m) = CtxId m"
  shows "\<exists>i os1 s1 os2 s2 os3 s3. ssdRecvPass B rd pooled os s = Some (SdSpawn i, os1, s1) \<and> pending (dConn s1) = rest \<and>
    ssdWorker B thresh handler i os1 s1 w = Some (os2, s2) \<and> dSignalled s2 \<and>
    i \<in> set (bmRange B (fst (ssdSenderCollect B s2))) \<and>
    ssdSendOne B wr i os2 (snd (ssdSenderCollect B s2)) = Some (os3, s3) \<and> oRespTx os3 = oRespTx os2 + 1 \<and>
    sent (dConn s3) = sent (dConn s2) @ CsdHdr_bytes \<lparr>hMagic = SdRespMagic, hOp = SdOpCall, hLen = rl, hId = hId h, hTs = hTs h\<rparr> @ answer"
proof -
  from RecvPass_call [OF ok free np pool wire h, of os] obtain i os1 s1 c where
    r: "ssdRecvPass B rd pooled os s = Some (SdSpawn i, os1, s1)" "pending (dConn s1) = rest"
    and c: "dslot_at s1 (int i) = Some (Some c)" "cmn_ok i (dCmn c)" "take (unat (hLen h)) (ReqBuf (dCmn c)) = payload"
      "ReqLen (dCmn c) = hLen h" "CtxId (dCmn c) = hId h" "dTs c = hTs h"
    and i: "i < 64" "length (dSlots s1) = 64" by blast
  let ?c = "c\<lparr>dCmn := handler ((dCmn c)\<lparr>Drop := False\<rparr>)\<rparr>"
  from Worker_call [OF c(1) i c(2) early, of os1] obtain os2 s2 where
    w: "ssdWorker B thresh handler i os1 s1 w = Some (os2, s2)" "dSignalled s2" "i \<in> bits (dCompleted s2)"
      "dslot_at s2 (int i) = Some (Some ?c)" by blast
  let ?s = "snd (ssdSenderCollect B s2)"
  have cl: "dslot_at ?s (int i) = Some (Some ?c)" "dConn ?s = dConn s2" "i \<in> set (bmRange B (fst (ssdSenderCollect B s2)))"
    using w(3,4) by (auto simp: ssdSenderCollect_def Let_def dslot_at_def bits_range bits_clone split: if_splits)
  have a: "RespLen (dCmn ?c) = rl" "take (unat rl) (RespBuf (dCmn ?c)) = answer" "length answer = unat rl" "CtxId (dCmn ?c) = hId h"
    using reply [of "(dCmn c)\<lparr>Drop := False\<rparr>"] c by (simp_all add: cmn_ok_def)
  have "unat (RespLen (dCmn ?c)) \<le> length (RespBuf (dCmn ?c))" using a by (metis length_take min.cobounded1)
  from SendOne_bytes [OF acc cl(1) this, of os2] obtain os3 s3 where
    "ssdSendOne B wr i os2 ?s = Some (os3, s3)" "oRespTx os3 = oRespTx os2 + 1"
    "sent (dConn s3) = sent (dConn ?s) @ CsdHdr_bytes (sd_response_hdr ?c) @ take (unat (RespLen (dCmn ?c))) (RespBuf (dCmn ?c))"
    by blast
  moreover have "sd_response_hdr ?c = \<lparr>hMagic = SdRespMagic, hOp = SdOpCall, hLen = rl, hId = hId h, hTs = hTs h\<rparr>"
    using a(1,4) c(6) by (simp add: sd_response_hdr_def)
  ultimately show ?thesis using r w(1,2) cl a(1,2) by (intro exI conjI) auto
qed

end

text \<open>The handler's answer to a well-formed request that needs no permission of the semaphore.\<close>

lemma Handler_answer:
  assumes "take 32 (ReqBuf m) = NetbenchReq_bytes pad q" "length pad = 7" "nqMagic q = NetbenchReqMagic" "ReqLen m = 32"
  shows "RespLen (NetbenchReqHandler False tw us m) = 24 \<and> CtxId (NetbenchReqHandler False tw us m) = CtxId m \<and>
    take 24 (RespBuf (NetbenchReqHandler False tw us m)) =
      NetbenchResp_bytes \<lparr>npMagic = NetbenchRespMagic, npOpaque = nqOpaque q, npWorkUs = us\<rparr>"
proof -
  have "ReqBuf m = NetbenchReq_bytes pad q @ drop 32 (ReqBuf m)" using assms(1) by (metis append_take_drop_id)
  then have "NetbenchReq_of_bytes (ReqBuf m) = q" using NetbenchReq_roundtrip [OF assms(2)] by metis
  then show ?thesis using assms(3,4)
    by (simp add: NetbenchReqHandler_def Let_def NetbenchReq_size_def NetbenchResp_size_def)
qed

text \<open>The client's side: a response at the front of the stream is handed to the caller.\<close>

context csd_client
begin

lemma write_call:
  assumes acc: "\<forall>bs k. fst (snd (wr bs k)) = None" and "unat (hLen h) \<le> length buf"
  shows "\<exists>n k'. csd_write wr h buf k = Some (True, n, k') \<and> sent k' = sent k @ CsdHdr_bytes h @ take (unat (hLen h)) buf"
proof -
  have S: "byte_sink wr sent" by (rule byte_sink_axioms)
  obtain n1 k1 where k1: "WriteFull wr (CsdHdr_bytes h) k = Some (n1, None, k1)" "sent k1 = sent k @ CsdHdr_bytes h"
    using WriteFull_accepted [OF S acc] by blast
  obtain n2 k2 where "WriteFull wr (take (unat (hLen h)) buf) k1 = Some (n2, None, k2)" "sent k2 = sent k1 @ take (unat (hLen h)) buf"
    using WriteFull_accepted [OF S acc] by blast
  then show ?thesis using k1 assms(2) by (simp add: csd_write_def)
qed

lemma RecvPass_response:
  assumes ok: "csd_conn_ok cc" "scResIdx cc < 2 ^ 62"
    and wire: "pending (scC cc) = CsdHdr_bytes h @ payload @ rest"
    and h: "hMagic h = SdRespMagic" "hOp h = SdOpCall" "0 < unat (hLen h)" "unat (hLen h) \<le> SrpcBufSize"
      "length payload = unat (hLen h)" "unat (hLen h) \<le> length buf"
  shows "\<exists>cc' w'. csdRecvPass g rd (length buf) buf cc w =
      Some (ClientRet (u2i (hLen h)), payload @ drop (unat (hLen h)) buf, cc', w')"
proof -
  have "length (replicate sd_hdr_size (0 :: byte)) \<le> length (pending (scC cc))" using wire by simp
  from ReadFull_stream [OF this] wire obtain k where
    k: "ReadFull rd (replicate sd_hdr_size 0) (scC cc) = Some (sd_hdr_size, None, CsdHdr_bytes h, k)" "pending k = payload @ rest"
    by auto
  have "length (take (unat (hLen h)) buf) \<le> length (pending k)" using k(2) h(5,6) by simp
  from ReadFull_stream [OF this] k(2) h(5,6) obtain k2 where
    k2: "ReadFull rd (take (unat (hLen h)) buf) k = Some (unat (hLen h), None, payload, k2)" by auto
  let ?cc = "cc\<lparr>scC := k2, scRespRx := scRespRx cc + 1\<rparr>"
  have "csd_conn_ok ?cc" "scResIdx ?cc < 2 ^ 62" using ok by (simp_all add: csd_conn_ok_def csd_queue_ok_def)
  from UpdateTbRate_ok [OF this, of g "MicroTime w - hTs h" "step_world w"] obtain cc' w' where
    u: "csdUpdateTbRate g (MicroTime w - hTs h) ?cc (step_world w) = Some (cc', w')" by blast
  have hd: "csdRecvHdr rd (length buf) (scC cc) = Some (Some h, k)"
    using k(1) h(1,4,6) by (simp add: csdRecvHdr_def CsdHdr_roundtrip)
  have nz: "hLen h \<noteq> 0" using h(3) by (simp add: unat_gt_0 word_neq_0_conv)
  show ?thesis using hd h(2,6) nz k2 u by (simp add: csdRecvPass_def Let_def)
qed

end

end
