(* ===== verification/Rpc.thy ===== *)
theory Rpc
  imports Nocontrol Seda_Server Seda_Client Breakwater Protego Pcc_Control Pcc_Server Pcc_Client Perf
begin

text \<open>
  The public interface, \<open>src/ovldctlrpc/rpc.go\<close>.  Every algorithm has one server and one client
  object shared by all users; a server or client points to the one its configuration names, and every
  operation is dispatched through the interfaces \<open>SrpcOps\<close> and \<open>CrpcOps\<close>.  Here the pointer of a server
  is a value of \<open>rpcServer\<close> and the five objects are the fields of \<open>rpcOps\<close>; a client carries the
  session of its algorithm.  A nil pointer is \<open>None\<close>.
\<close>

section \<open>Algorithms\<close>

type_synonym rpcOpsType = u8

definition RpcNoControlOps :: rpcOpsType where "RpcNoControlOps = 0"
definition RpcSedaOps :: rpcOpsType where "RpcSedaOps = 1"
definition RpcBreakwaterOps :: rpcOpsType where "RpcBreakwaterOps = 2"
definition RpcProtegoOps :: rpcOpsType where "RpcProtegoOps = 3"
definition RpcPccOps :: rpcOpsType where "RpcPccOps = 4"

definition RpcMaxBufferSize :: nat where "RpcMaxBufferSize = SrpcBufSize"

section \<open>Servers\<close>

datatype rpcServer = UseSnc | UseSsd | UseSbw | UseSpg | UseSpcc

text \<open>The shared server objects, each with the handler registered in its package.\<close>

record 'h rpcOps =
  opSnc :: sncOps
  opSsd :: ssdOps
  opSbw :: sbwOps
  opSpg :: spgOps
  opSpcc :: spccOps
  hSnc :: "'h option"
  hSsd :: "'h option"
  hSbw :: "'h option"
  hSpg :: "'h option"
  hSpcc :: "'h option"

text \<open>The constructor starts the performance counters, whatever the algorithm.\<close>

definition NewRpcServer :: "u64 \<Rightarrow> u64 \<Rightarrow> rpcOpsType \<Rightarrow> perfState option \<Rightarrow> rpcServer option \<times> perfState option" where
  "NewRpcServer maxCh actCh opsType perf = (
     let perf1 = PerfInit maxCh actCh perf in
     if opsType = RpcNoControlOps then (Some UseSnc, perf1)
     else if opsType = RpcSedaOps then (Some UseSsd, perf1)
     else if opsType = RpcBreakwaterOps then (Some UseSbw, perf1)
     else if opsType = RpcProtegoOps then (Some UseSpg, perf1)
     else if opsType = RpcPccOps then (Some UseSpcc, perf1)
     else (None, perf1))"

definition Enable :: "nat \<Rightarrow> 'h \<Rightarrow> rpcServer \<Rightarrow> 'h rpcOps \<Rightarrow> world \<Rightarrow> int \<times> 'h rpcOps \<times> world" where
  "Enable procs handler s all w = (case s of
     UseSnc \<Rightarrow> (case sncEnable handler (hSnc all) (opSnc all) of (r, h, os) \<Rightarrow> (r, all\<lparr>hSnc := h, opSnc := os\<rparr>, w))
   | UseSsd \<Rightarrow> (case ssdEnable handler (hSsd all) (opSsd all) of (r, h, os) \<Rightarrow> (r, all\<lparr>hSsd := h, opSsd := os\<rparr>, w))
   | UseSbw \<Rightarrow> (case sbwEnable procs handler (hSbw all) (opSbw all) w of (r, h, os, w') \<Rightarrow> (r, all\<lparr>hSbw := h, opSbw := os\<rparr>, w'))
   | UseSpg \<Rightarrow> (case spgEnable procs handler (hSpg all) (opSpg all) w of (r, h, os, w') \<Rightarrow> (r, all\<lparr>hSpg := h, opSpg := os\<rparr>, w'))
   | UseSpcc \<Rightarrow> (case SrpcEnable procs handler (hSpcc all) (opSpcc all) w of (r, h, os, w') \<Rightarrow> (r, all\<lparr>hSpcc := h, opSpcc := os\<rparr>, w')))"

definition RpcServer_Drop :: "rpcServer \<Rightarrow> 'h rpcOps \<Rightarrow> 'h rpcOps" where
  "RpcServer_Drop s all = all"

definition StatCUpdateRx_of :: "rpcServer \<Rightarrow> 'h rpcOps \<Rightarrow> u64" where
  "StatCUpdateRx_of s all = (case s of UseSnc \<Rightarrow> sncStatCUpdateRx (opSnc all) | UseSsd \<Rightarrow> ssdStatCUpdateRx (opSsd all)
     | UseSbw \<Rightarrow> sbwStatCUpdateRx (opSbw all) | UseSpg \<Rightarrow> spgStatCUpdateRx (opSpg all) | UseSpcc \<Rightarrow> SrpcStatCUpdateRx (opSpcc all))"

definition StatECreditTx_of :: "rpcServer \<Rightarrow> 'h rpcOps \<Rightarrow> u64" where
  "StatECreditTx_of s all = (case s of UseSnc \<Rightarrow> sncStatECreditTx (opSnc all) | UseSsd \<Rightarrow> ssdStatECreditTx (opSsd all)
     | UseSbw \<Rightarrow> sbwStatECreditTx (opSbw all) | UseSpg \<Rightarrow> spgStatECreditTx (opSpg all) | UseSpcc \<Rightarrow> SrpcStatECreditTx (opSpcc all))"

definition StatCreditTx_of :: "rpcServer \<Rightarrow> 'h rpcOps \<Rightarrow> u64" where
  "StatCreditTx_of s all = (case s of UseSnc \<Rightarrow> sncStatCreditTx (opSnc all) | UseSsd \<Rightarrow> ssdStatCreditTx (opSsd all)
     | UseSbw \<Rightarrow> sbwStatCreditTx (opSbw all) | UseSpg \<Rightarrow> spgStatCreditTx (opSpg all) | UseSpcc \<Rightarrow> SrpcStatCreditTx (opSpcc all))"

definition StatReqRx_of :: "rpcServer \<Rightarrow> 'h rpcOps \<Rightarrow> u64" where
  "StatReqRx_of s all = (case s of UseSnc \<Rightarrow> sncStatReqRx (opSnc all) | UseSsd \<Rightarrow> ssdStatReqRx (opSsd all)
     | UseSbw \<Rightarrow> sbwStatReqRx (opSbw all) | UseSpg \<Rightarrow> spgStatReqRx (opSpg all) | UseSpcc \<Rightarrow> SrpcStatReqRx (opSpcc all))"

definition StatReqDropped_of :: "rpcServer \<Rightarrow> 'h rpcOps \<Rightarrow> u64" where
  "StatReqDropped_of s all = (case s of UseSnc \<Rightarrow> sncStatReqDropped (opSnc all) | UseSsd \<Rightarrow> ssdStatReqDropped (opSsd all)
     | UseSbw \<Rightarrow> sbwStatReqDropped (opSbw all) | UseSpg \<Rightarrow> spgStatReqDropped (opSpg all) | UseSpcc \<Rightarrow> SrpcStatReqDropped (opSpcc all))"

definition StatRespTx_of :: "rpcServer \<Rightarrow> 'h rpcOps \<Rightarrow> u64" where
  "StatRespTx_of s all = (case s of UseSnc \<Rightarrow> sncStatRespTx (opSnc all) | UseSsd \<Rightarrow> ssdStatRespTx (opSsd all)
     | UseSbw \<Rightarrow> sbwStatRespTx (opSbw all) | UseSpg \<Rightarrow> spgStatRespTx (opSpg all) | UseSpcc \<Rightarrow> SrpcStatRespTx (opSpcc all))"

section \<open>Clients\<close>

datatype ('a, 'k) rpcClient =
    OnCnc "'k cncSession" | OnCsd "('a, 'k) csdSession" | OnCbw "('a, 'k) cbwSession"
  | OnCpg "('a, 'k) cpgSession" | OnCpcc "('a, 'k) cpccSession"

text \<open>The connections and the parameters of the algorithms.\<close>

record 'k rpcEnv =
  rpcBw :: "'k cpccEnv"
  rpcPg :: "'k cpccEnv"
  rpcPcc :: "'k cpccEnv"
  rpcSeda :: sdCfg
  rpcPolicy :: u64
  rpcRd :: "'k reader"
  rpcWr :: "'k writer"

text \<open>
  \<open>NewRpcClient\<close>: \<open>None\<close> for an invalid algorithm; a client whose session could not be opened has a nil
  session.  The port is set to \<open>SrpcPort\<close> before dialling.
\<close>

definition NewRpcClient ::
  "rpcOpsType \<Rightarrow> 'k option \<Rightarrow> u64 \<Rightarrow> bool \<Rightarrow> bool \<Rightarrow> world \<Rightarrow> ('a, 'k) rpcClient option option \<times> int \<times> world" where
  "NewRpcClient opsType dial ident ldrop rdrop w =
     (if opsType = RpcNoControlOps then
        (case cncOpen SrpcPort dial ident of (s, r) \<Rightarrow> (Some (map_option OnCnc s), r, w))
      else if opsType = RpcSedaOps then
        (case csdOpen SrpcPort dial ident w of (s, r, w') \<Rightarrow> (Some (map_option OnCsd s), r, w'))
      else if opsType = RpcBreakwaterOps then
        (case cbwOpen SrpcPort dial ident ldrop rdrop of (s, r) \<Rightarrow> (Some (map_option OnCbw s), r, w))
      else if opsType = RpcProtegoOps then
        (case cpgOpen SrpcPort dial ident ldrop rdrop of (s, r) \<Rightarrow> (Some (map_option OnCpg s), r, w))
      else if opsType = RpcPccOps then
        (case CrpcOpen SrpcPort dial ident ldrop rdrop of (s, r) \<Rightarrow> (Some (map_option OnCpcc s), r, w))
      else (None, - 1, w))"

definition RpcAddConnection :: "'k option \<Rightarrow> ('a, 'k) rpcClient \<Rightarrow> world \<Rightarrow> int \<times> ('a, 'k) rpcClient \<times> world" where
  "RpcAddConnection dial c w = (case c of
     OnCnc s \<Rightarrow> (case cncAddConnection SrpcPort dial s of (r, s') \<Rightarrow> (r, OnCnc s', w))
   | OnCsd s \<Rightarrow> (case csdAddConnection SrpcPort dial s w of (r, s', w') \<Rightarrow> (r, OnCsd s', w'))
   | OnCbw s \<Rightarrow> (case cbwAddConnection SrpcPort dial s of (r, s') \<Rightarrow> (r, OnCbw s', w))
   | OnCpg s \<Rightarrow> (case cpgAddConnection SrpcPort dial s of (r, s') \<Rightarrow> (r, OnCpg s', w))
   | OnCpcc s \<Rightarrow> (case CrpcAddConnection SrpcPort dial s of (r, s') \<Rightarrow> (r, OnCpcc s', w)))"

definition Send ::
  "'k rpcEnv \<Rightarrow> byte list \<Rightarrow> u64 \<Rightarrow> int \<Rightarrow> 'a option \<Rightarrow> ('a, 'k) rpcClient \<Rightarrow> world \<Rightarrow>
   (int \<times> ('a, 'k) rpcClient \<times> world) option" where
  "Send E buf len hash arg c w = (case c of
     OnCnc s \<Rightarrow> do { (r, s', w') \<leftarrow> cncSendOne (rpcWr E) (rpcPolicy E) buf len hash s w; Some (r, OnCnc s', w') }
   | OnCsd s \<Rightarrow> do { (r, s', w') \<leftarrow> csdSendOne (rpcWr E) buf len s w; Some (r, OnCsd s', w') }
   | OnCbw s \<Rightarrow> do { (r, s', w') \<leftarrow> cbwSendOne (rpcBw E) buf len arg s w; Some (r, OnCbw s', w') }
   | OnCpg s \<Rightarrow> do { (r, s', w') \<leftarrow> cpgSendOne (rpcPg E) buf len arg s w; Some (r, OnCpg s', w') }
   | OnCpcc s \<Rightarrow> do { (r, s', w') \<leftarrow> CrpcSendOne (rpcPcc E) buf len arg s w; Some (r, OnCpcc s', w') })"

text \<open>\<open>Recv\<close> from connection \<open>cidx\<close>; an index without a connection is a nil dereference or out of range.\<close>

definition Recv ::
  "'k rpcEnv \<Rightarrow> byte list \<Rightarrow> nat \<Rightarrow> nat \<Rightarrow> 'a option \<Rightarrow> ('a, 'k) rpcClient \<Rightarrow> world \<Rightarrow>
   (int \<times> byte list \<times> ('a, 'k) rpcClient \<times> world) option" where
  "Recv E buf len cidx arg c w = (case c of
     OnCnc s \<Rightarrow> do {
       cc \<leftarrow> list_get (nsConns s) cidx;
       (r, buf', cc') \<leftarrow> cncRecvOne (rpcRd E) len buf cc;
       Some (r, buf', OnCnc (s\<lparr>nsConns := (nsConns s)[cidx := cc']\<rparr>), w)
     }
   | OnCsd s \<Rightarrow> do {
       cc \<leftarrow> list_get (seConns s) cidx;
       (r, buf', cc', w') \<leftarrow> csdRecvOne (rpcSeda E) (rpcRd E) len buf cc w;
       Some (r, buf', OnCsd (s\<lparr>seConns := (seConns s)[cidx := cc']\<rparr>), w')
     }
   | OnCbw s \<Rightarrow> do { (r, buf', s', w') \<leftarrow> cbwRecvOne (rpcBw E) cidx len buf arg s w; Some (r, buf', OnCbw s', w') }
   | OnCpg s \<Rightarrow> do { (r, buf', s', w') \<leftarrow> cpgRecvOne (rpcPg E) cidx len buf arg s w; Some (r, buf', OnCpg s', w') }
   | OnCpcc s \<Rightarrow> do { (r, buf', s', w') \<leftarrow> CrpcRecvOne (rpcPcc E) cidx len buf arg s w; Some (r, buf', OnCpcc s', w') })"

definition NConns :: "('a, 'k) rpcClient \<Rightarrow> int" where
  "NConns c = (case c of OnCnc s \<Rightarrow> int (length (nsConns s)) | OnCsd s \<Rightarrow> int (length (seConns s))
     | OnCbw s \<Rightarrow> int (length (csConns s)) | OnCpg s \<Rightarrow> int (length (csConns s)) | OnCpcc s \<Rightarrow> int (length (csConns s)))"

definition RpcCredit :: "('a, 'k) rpcClient \<Rightarrow> u64" where
  "RpcCredit c = (case c of OnCnc s \<Rightarrow> cncCredit s | OnCsd s \<Rightarrow> csdCredit s | OnCbw s \<Rightarrow> cbwCredit s
     | OnCpg s \<Rightarrow> cpgCredit s | OnCpcc s \<Rightarrow> CrpcCredit s)"

definition RpcStatClear :: "('a, 'k) rpcClient \<Rightarrow> ('a, 'k) rpcClient" where
  "RpcStatClear c = (case c of OnCnc s \<Rightarrow> OnCnc (cncStatClear s) | OnCsd s \<Rightarrow> OnCsd (csdStatClear s)
     | OnCbw s \<Rightarrow> OnCbw (cbwStatClear s) | OnCpg s \<Rightarrow> OnCpg (cpgStatClear s) | OnCpcc s \<Rightarrow> OnCpcc (CrpcStatClear s))"

definition RpcStatECreditRx :: "('a, 'k) rpcClient \<Rightarrow> u64" where
  "RpcStatECreditRx c = (case c of OnCnc s \<Rightarrow> cncStatECreditRx s | OnCsd s \<Rightarrow> csdStatECreditRx s
     | OnCbw s \<Rightarrow> cbwStatECreditRx s | OnCpg s \<Rightarrow> cpgStatECreditRx s | OnCpcc s \<Rightarrow> CrpcStatECreditRx s)"

definition RpcStatCreditExpired :: "('a, 'k) rpcClient \<Rightarrow> u64" where
  "RpcStatCreditExpired c = (case c of OnCnc s \<Rightarrow> cncStatCreditExpired s | OnCsd s \<Rightarrow> csdStatCreditExpired s
     | OnCbw s \<Rightarrow> cbwStatCreditExpired s | OnCpg s \<Rightarrow> cpgStatCreditExpired s | OnCpcc s \<Rightarrow> CrpcStatCreditExpired s)"

definition RpcStatCUpdateTx :: "('a, 'k) rpcClient \<Rightarrow> u64" where
  "RpcStatCUpdateTx c = (case c of OnCnc s \<Rightarrow> cncStatCUpdateTx s | OnCsd s \<Rightarrow> csdStatCUpdateTx s
     | OnCbw s \<Rightarrow> cbwStatCUpdateTx s | OnCpg s \<Rightarrow> cpgStatCUpdateTx s | OnCpcc s \<Rightarrow> CrpcStatCUpdateTx s)"

definition RpcStatRespRx :: "('a, 'k) rpcClient \<Rightarrow> u64" where
  "RpcStatRespRx c = (case c of OnCnc s \<Rightarrow> cncStatRespRx s | OnCsd s \<Rightarrow> csdStatRespRx s
     | OnCbw s \<Rightarrow> cbwStatRespRx s | OnCpg s \<Rightarrow> cpgStatRespRx s | OnCpcc s \<Rightarrow> CrpcStatRespRx s)"

definition RpcStatReqTx :: "('a, 'k) rpcClient \<Rightarrow> u64" where
  "RpcStatReqTx c = (case c of OnCnc s \<Rightarrow> cncStatReqTx s | OnCsd s \<Rightarrow> csdStatReqTx s
     | OnCbw s \<Rightarrow> cbwStatReqTx s | OnCpg s \<Rightarrow> cpgStatReqTx s | OnCpcc s \<Rightarrow> CrpcStatReqTx s)"

definition RpcStatReqDropped :: "('a, 'k) rpcClient \<Rightarrow> u64" where
  "RpcStatReqDropped c = (case c of OnCnc s \<Rightarrow> cncStatReqDropped s | OnCsd s \<Rightarrow> csdStatReqDropped s
     | OnCbw s \<Rightarrow> cbwStatReqDropped s | OnCpg s \<Rightarrow> cpgStatReqDropped s | OnCpcc s \<Rightarrow> CrpcStatReqDropped s)"

text \<open>
  \<open>Close\<close>: the timers and senders of the session are told to stop and, once they have exited, the
  resources are freed.
\<close>

definition RpcClose_stop :: "('a, 'k) rpcClient \<Rightarrow> ('a, 'k) rpcClient" where
  "RpcClose_stop c = (case c of OnCnc s \<Rightarrow> OnCnc s | OnCsd s \<Rightarrow> OnCsd (csdClose_stop s)
     | OnCbw s \<Rightarrow> OnCbw (cbwClose_stop s) | OnCpg s \<Rightarrow> OnCpg (cpgClose_stop s) | OnCpcc s \<Rightarrow> OnCpcc (CrpcClose_stop s))"

definition RpcClose_free :: "('k \<Rightarrow> 'k) \<Rightarrow> ('a, 'k) rpcClient \<Rightarrow> 'k list \<times> ('a, 'k) rpcClient" where
  "RpcClose_free cl c = (case c of
     OnCnc s \<Rightarrow> (case cncClose cl s of (ks, s') \<Rightarrow> (ks, OnCnc s'))
   | OnCsd s \<Rightarrow> (case csdClose_free cl s of (ks, s') \<Rightarrow> (ks, OnCsd s'))
   | OnCbw s \<Rightarrow> (case cbwClose_free cl s of (ks, s') \<Rightarrow> (ks, OnCbw s'))
   | OnCpg s \<Rightarrow> (case cpgClose_free cl s of (ks, s') \<Rightarrow> (ks, OnCpg s'))
   | OnCpcc s \<Rightarrow> (case CrpcClose_free cl s of (ks, s') \<Rightarrow> (ks, OnCpcc s')))"

text \<open>\<open>Shutdown\<close> closes both directions of every connection and keeps the session.\<close>

definition Shutdown :: "('k \<Rightarrow> 'k) \<Rightarrow> ('k \<Rightarrow> 'k) \<Rightarrow> ('a, 'k) rpcClient \<Rightarrow> ('a, 'k) rpcClient" where
  "Shutdown closeRead closeWrite c = (let f = (\<lambda>k. closeWrite (closeRead k)) in case c of
     OnCnc s \<Rightarrow> OnCnc (s\<lparr>nsConns := map (\<lambda>cc. cc\<lparr>ncC := f (ncC cc)\<rparr>) (nsConns s)\<rparr>)
   | OnCsd s \<Rightarrow> OnCsd (s\<lparr>seConns := map (\<lambda>cc. cc\<lparr>scC := f (scC cc)\<rparr>) (seConns s)\<rparr>)
   | OnCbw s \<Rightarrow> OnCbw (s\<lparr>csConns := map (\<lambda>cc. cc\<lparr>ccC := f (ccC cc)\<rparr>) (csConns s)\<rparr>)
   | OnCpg s \<Rightarrow> OnCpg (s\<lparr>csConns := map (\<lambda>cc. cc\<lparr>ccC := f (ccC cc)\<rparr>) (csConns s)\<rparr>)
   | OnCpcc s \<Rightarrow> OnCpcc (s\<lparr>csConns := map (\<lambda>cc. cc\<lparr>ccC := f (ccC cc)\<rparr>) (csConns s)\<rparr>))"

section \<open>Registration\<close>

definition registered :: "rpcServer \<Rightarrow> 'h rpcOps \<Rightarrow> 'h option" where
  "registered s all = (case s of UseSnc \<Rightarrow> hSnc all | UseSsd \<Rightarrow> hSsd all | UseSbw \<Rightarrow> hSbw all | UseSpg \<Rightarrow> hSpg all | UseSpcc \<Rightarrow> hSpcc all)"

definition rpc_stats :: "rpcServer \<Rightarrow> 'h rpcOps \<Rightarrow> u64 list" where
  "rpc_stats s all = [StatCUpdateRx_of s all, StatECreditTx_of s all, StatCreditTx_of s all,
     StatReqRx_of s all, StatReqDropped_of s all, StatRespTx_of s all]"

lemmas rpc_stats_defs = rpc_stats_def StatCUpdateRx_of_def StatECreditTx_of_def StatCreditTx_of_def StatReqRx_of_def
  StatReqDropped_of_def StatRespTx_of_def

lemmas stat_defs = sncStatCUpdateRx_def sncStatECreditTx_def sncStatCreditTx_def sncStatReqRx_def sncStatReqDropped_def sncStatRespTx_def
  ssdStatCUpdateRx_def ssdStatECreditTx_def ssdStatCreditTx_def ssdStatReqRx_def ssdStatReqDropped_def ssdStatRespTx_def
  sbwStatCUpdateRx_def sbwStatECreditTx_def sbwStatCreditTx_def sbwStatReqRx_def sbwStatReqDropped_def sbwStatRespTx_def
  spgStatCUpdateRx_def spgStatECreditTx_def spgStatCreditTx_def spgStatReqRx_def spgStatReqDropped_def spgStatRespTx_def
  SrpcStatCUpdateRx_def SrpcStatECreditTx_def SrpcStatCreditTx_def SrpcStatReqRx_def SrpcStatReqDropped_def SrpcStatRespTx_def

text \<open>A fresh registration resets the statistics of its algorithm.\<close>

lemma Enable_fresh:
  assumes "registered s all = None"
  shows "\<exists>all' w'. Enable procs h s all w = (0, all', w') \<and> registered s all' = Some h \<and> rpc_stats s all' = [0, 0, 0, 0, 0, 0]"
  using assms
  by (cases s) (simp_all add: Enable_def registered_def sncEnable_def ssdEnable_def sbwEnable_def spgEnable_def SrpcEnable_def
      ssdListener_init_def sbwListener_init_def spgListener_init_def spccListener_init_def spccGenMicroExpDirs_def rpc_stats_defs stat_defs Let_def
      AtomicGetUint64_def split: prod.split)

lemma Enable_again: "registered s all \<noteq> None \<Longrightarrow> Enable procs h s all w = (- 1, all, w)"
  by (cases s) (auto simp: Enable_def registered_def sncEnable_def ssdEnable_def sbwEnable_def spgEnable_def SrpcEnable_def)

lemma Enable_other:
  assumes "Enable procs h s all w = (r, all', w')" "t \<noteq> s"
  shows "registered t all' = registered t all" "rpc_stats t all' = rpc_stats t all"
  using assms by (cases s; cases t; auto simp: Enable_def registered_def rpc_stats_defs split: prod.splits)+

text \<open>
  Registration through the public interface: \<open>NewRpcServer\<close> returns a server exactly for the five
  algorithm codes.  The first \<open>Enable\<close> of a server registers the handler and starts every statistic of
  its algorithm at 0, every later one returns -1 and changes nothing, and no registration touches the
  handler or the statistics of another algorithm.
\<close>

lemma NewRpcServer_valid: "fst (NewRpcServer maxCh actCh ty perf) = None \<longleftrightarrow> 4 < ty"
proof -
  have "ty \<le> 4 \<longleftrightarrow> ty = 0 \<or> ty = 1 \<or> ty = 2 \<or> ty = 3 \<or> ty = 4" by unat_arith
  then show ?thesis by (auto simp: NewRpcServer_def RpcNoControlOps_def RpcSedaOps_def RpcBreakwaterOps_def RpcProtegoOps_def
      RpcPccOps_def Let_def not_le [symmetric])
qed

theorem rpc_enable_once:
  assumes "Enable procs h s all w = (r, all', w')"
  shows "(if registered s all = None then r = 0 \<and> registered s all' = Some h \<and> rpc_stats s all' = [0, 0, 0, 0, 0, 0]
      else r = - 1 \<and> all' = all) \<and>
    (\<forall>t. t \<noteq> s \<longrightarrow> registered t all' = registered t all \<and> rpc_stats t all' = rpc_stats t all) \<and>
    (\<forall>h2 w2. Enable procs h2 s all' w2 = (- 1, all', w2))"
proof -
  have "Enable procs h2 s all' w2 = (- 1, all', w2)" for h2 w2
    using Enable_fresh [of s all procs h w] Enable_again [of s all procs h w] assms
    by (intro Enable_again) (cases "registered s all = None"; auto)
  then show ?thesis
    using Enable_fresh [of s all procs h w] Enable_again [of s all procs h w] Enable_other [OF assms] assms
    by (cases "registered s all = None") auto
qed

end
