(* ===== verification/Netbench_Server.thy ===== *)
theory Netbench_Server
  imports Netbench Msem_Properties Rpc
begin

text \<open>
  The benchmark server around its request handler: the synthetic workers
  (\<open>src/apps/netbench/server/synthetic_worker.go\<close>), the handler with the workers and the memory
  semaphore it uses, the statistics service and the start-up
  (\<open>src/apps/netbench/server/netbench_server.go\<close>).  \<open>None\<close> is a panic.  \<open>math.Sqrt\<close>, the addresses of
  allocated buffers and the contents of \<open>/proc\<close> are arguments.
\<close>

section \<open>Synthetic workers\<close>

definition cacheLineSize :: nat where "cacheLineSize = 64"

datatype sqrtWorker = SqrtWorker

definition NewSqrtWorker :: sqrtWorker where "NewSqrtWorker = SqrtWorker"

definition kNumber :: float64 where "kNumber = f64_round (2350845545 / 1000)"

text \<open>The work of a CPU-bound request; only the global sink keeps a result.\<close>

definition SqrtWorker_Work :: "(float64 \<Rightarrow> float64) \<Rightarrow> u64 \<Rightarrow> float64 \<Rightarrow> float64" where
  "SqrtWorker_Work Sqrt n sink = fold (\<lambda>i v. Sqrt (f_mul (f_of_u64 (of_nat i)) kNumber)) [0..<unat n] sink"

text \<open>
  A memory-bound worker: the slice \<open>buf\<close>, extended to its capacity since slicing may reach up to there,
  and \<open>size\<close>, its length.
\<close>

record memBWWorker =
  mwBuf :: "byte list"
  mwSize :: int

definition NewMemBWWorker :: "nat \<Rightarrow> int \<Rightarrow> memBWWorker option" where
  "NewMemBWWorker base sz = (
     if iadd sz (int cacheLineSize) \<le> 0 then None
     else let offset = (cacheLineSize - base mod cacheLineSize) mod cacheLineSize in
       if sz < 0 then None
       else Some \<lparr>mwBuf = replicate (nat sz + cacheLineSize - offset) 0, mwSize = sz\<rparr>)"

definition write_line :: "nat \<Rightarrow> byte list \<Rightarrow> byte list" where
  "write_line i buf = fold (\<lambda>d b. b[i + d := 0]) [0, 8, 16, 24, 32, 40, 48, 56] buf"

text \<open>One pass over the buffer; \<open>buf[i : i+cacheLineSize]\<close> panics beyond the capacity.\<close>

function memPass :: "nat \<Rightarrow> nat \<Rightarrow> byte list \<Rightarrow> byte list option" where
  "memPass sz i buf =
     (if i < sz then
        (if length buf < i + 64 then None else memPass sz (i + 64) (write_line i buf))
      else Some buf)"
  by pat_completeness auto
termination by (relation "measure (\<lambda>(sz, i, buf). sz - i)") auto

declare memPass.simps [simp del]

definition MemBWWorker_Work :: "u64 \<Rightarrow> memBWWorker \<Rightarrow> memBWWorker option" where
  "MemBWWorker_Work n wk = for_each (\<lambda>k wk. do {
       b \<leftarrow> memPass (nat (mwSize wk)) 0 (mwBuf wk);
       Some (wk\<lparr>mwBuf := b\<rparr>)
     }) [0..<unat n] wk"

text \<open>The last cache line touched ends at the next multiple of 64; the capacity has to reach it.\<close>

definition line_end :: "nat \<Rightarrow> nat" where "line_end sz = 64 * ((sz + 63) div 64)"

definition mem_worker_ok :: "memBWWorker \<Rightarrow> bool" where
  "mem_worker_ok wk \<longleftrightarrow> 0 \<le> mwSize wk \<and> line_end (nat (mwSize wk)) \<le> length (mwBuf wk)"

lemma write_line_length [simp]: "length (write_line i buf) = length buf"
  by (simp add: write_line_def)

lemma write_line_nth:
  assumes "i + 64 \<le> length buf" "j < length buf"
  shows "write_line i buf ! j = (if i \<le> j \<and> j < i + 64 \<and> 8 dvd j - i then 0 else buf ! j)"
proof -
  have "j \<in> {i, i + 8, i + 16, i + 24, i + 32, i + 40, i + 48, i + 56} \<longleftrightarrow> i \<le> j \<and> j < i + 64 \<and> 8 dvd j - i"
  proof
    assume "i \<le> j \<and> j < i + 64 \<and> 8 dvd j - i"
    then obtain d q where "j = i + d" "d < 64" "d = 8 * q" by (metis add_diff_cancel_left' le_iff_add dvdE nat_add_left_cancel_less)
    moreover then have "q < 8" by simp
    ultimately show "j \<in> {i, i + 8, i + 16, i + 24, i + 32, i + 40, i + 48, i + 56}" by auto
  qed auto
  then show ?thesis using assms by (auto simp: write_line_def nth_list_update)
qed

lemma line_end_step:
  assumes "i < sz" "64 dvd i"
  shows "i + 64 \<le> line_end sz" "sz \<le> i + 64 \<Longrightarrow> line_end sz = i + 64"
proof -
  from assms(2) obtain k where k: "i = 64 * k" by blast
  then have "k + 1 \<le> (sz + 63) div 64" using assms(1) by (simp add: less_eq_div_iff_mult_less_eq)
  then show "i + 64 \<le> line_end sz" unfolding line_end_def k by simp
  assume "sz \<le> i + 64"
  then have "(sz + 63) div 64 = k + 1" using assms(1) unfolding k by (intro div_nat_eqI) simp_all
  then show "line_end sz = i + 64" unfolding line_end_def k by simp
qed

lemma line_end_le: "sz \<le> line_end sz"
  unfolding line_end_def by presburger

text \<open>A pass clears every eighth byte up to the last line, or panics in the line that does not fit.\<close>

definition cleared :: "nat \<Rightarrow> nat \<Rightarrow> byte list \<Rightarrow> byte list" where
  "cleared i e buf = map (\<lambda>j. if i \<le> j \<and> j < e \<and> 8 dvd j then 0 else buf ! j) [0..<length buf]"

lemma cleared_length [simp]: "length (cleared i e buf) = length buf"
  by (simp add: cleared_def)

lemma cleared_none: "e \<le> i \<Longrightarrow> cleared i e buf = buf"
  by (rule nth_equalityI) (auto simp: cleared_def)

lemma cleared_twice: "cleared i e (cleared i e buf) = cleared i e buf"
  by (rule nth_equalityI) (auto simp: cleared_def)

lemma mod8_diff: "64 dvd i \<Longrightarrow> i \<le> j \<Longrightarrow> 8 dvd j - i \<longleftrightarrow> 8 dvd (j :: nat)"
  by presburger

lemma cleared_line:
  assumes "64 dvd i" "i + 64 \<le> e" "i + 64 \<le> length buf"
  shows "cleared (i + 64) e (write_line i buf) = cleared i e buf"
  using assms by (intro nth_equalityI) (auto simp: cleared_def write_line_nth mod8_diff)

lemma memPass_exact:
  assumes "64 dvd i"
  shows "memPass sz i buf =
    (if sz \<le> i \<or> line_end sz \<le> length buf then Some (cleared i (line_end sz) buf) else None)"
  using assms
proof (induction sz i buf rule: memPass.induct)
  case (1 sz i buf)
  show ?case
  proof (cases "i < sz")
    case False
    moreover have "line_end sz \<le> i" using False 1(2) by (auto simp: line_end_def dvd_def)
    ultimately show ?thesis by (subst memPass.simps) (simp add: cleared_none)
  next
    case True
    have le: "i + 64 \<le> line_end sz" and last: "sz \<le> i + 64 \<Longrightarrow> line_end sz = i + 64"
      using line_end_step [OF True 1(2)] by simp_all
    show ?thesis
    proof (cases "length buf < i + 64")
      case True
      then show ?thesis using le \<open>i < sz\<close> by (subst memPass.simps) simp
    next
      case False
      have "memPass sz i buf = memPass sz (i + 64) (write_line i buf)"
        using True False by (subst memPass.simps) simp
      then show ?thesis using 1(1) [OF True False] 1(2) True False last cleared_line [OF 1(2) le] by auto
    qed
  qed
qed

text \<open>The work of a memory-bound request returns exactly for the workers whose capacity suffices.\<close>

lemma for_each_stable: "(\<And>i. f i s = Some s) \<Longrightarrow> for_each f is s = Some s"
  by (induction "is") auto

lemma Work_exact:
  "MemBWWorker_Work n wk =
    (if n = 0 \<or> mwSize wk \<le> 0 then Some wk
     else if mem_worker_ok wk then Some (wk\<lparr>mwBuf := cleared 0 (line_end (nat (mwSize wk))) (mwBuf wk)\<rparr>)
     else None)"
proof (cases "n = 0")
  case True
  then show ?thesis by (simp add: MemBWWorker_Work_def)
next
  case False
  let ?e = "line_end (nat (mwSize wk))" and ?f = "\<lambda>(k :: nat) wk. do { b \<leftarrow> memPass (nat (mwSize wk)) 0 (mwBuf wk); Some (wk\<lparr>mwBuf := b\<rparr>) }"
  let ?wk = "wk\<lparr>mwBuf := cleared 0 ?e (mwBuf wk)\<rparr>"
  have e0: "cleared 0 ?e (mwBuf wk) = mwBuf wk" if "mwSize wk \<le> 0" using that by (simp add: line_end_def cleared_none)
  have once: "?f 0 wk = (if mwSize wk \<le> 0 \<or> ?e \<le> length (mwBuf wk) then Some ?wk else None)"
    using memPass_exact [of 0 "nat (mwSize wk)" "mwBuf wk"] by auto
  have again: "?f 0 ?wk = Some ?wk" if "mwSize wk \<le> 0 \<or> ?e \<le> length (mwBuf wk)"
    using that memPass_exact [of 0 "nat (mwSize wk)" "cleared 0 ?e (mwBuf wk)"] by (auto simp: cleared_twice)
  obtain m where "unat n = Suc m" using False by (metis not0_implies_Suc unat_eq_zero)
  then have "MemBWWorker_Work n wk = do { s \<leftarrow> ?f 0 wk; for_each ?f [1..<unat n] s }"
    by (simp add: MemBWWorker_Work_def upt_conv_Cons)
  then have "MemBWWorker_Work n wk = (if mwSize wk \<le> 0 \<or> ?e \<le> length (mwBuf wk) then Some ?wk else None)"
    using once for_each_stable [of ?f ?wk "[1..<unat n]"] again by auto
  then show ?thesis using False e0 by (auto simp: mem_worker_ok_def)
qed

lemma New_worker_ok:
  assumes "0 \<le> sz" "sz < 2 ^ 62"
  shows "\<exists>wk. NewMemBWWorker base sz = Some wk \<and> mwSize wk = sz \<and>
    (mem_worker_ok wk \<longleftrightarrow> line_end (nat sz) \<le> nat sz + 64 - (64 - base mod 64) mod 64)"
  using assms by (simp add: NewMemBWWorker_def Let_def cacheLineSize_def iadd_def goint_id in_int64_def mem_worker_ok_def)

lemma New_aligned_ok:
  assumes "0 \<le> sz" "sz < 2 ^ 62" "64 dvd sz"
  shows "\<exists>wk. NewMemBWWorker base sz = Some wk \<and> mem_worker_ok wk"
proof -
  have "line_end (nat sz) = nat sz" using assms by (auto simp: line_end_def dvd_def nat_mult_distrib)
  moreover have "(64 - base mod 64) mod 64 < 64" by simp
  ultimately have "line_end (nat sz) \<le> nat sz + 64 - (64 - base mod 64) mod 64" by linarith
  then show ?thesis using New_worker_ok [OF assms(1,2), of base] by auto
qed

section \<open>The request handler\<close>

record netbenchSettings =
  gUseMsem :: bool
  gNumCpuWorkers :: int
  gCpuWorkIters :: u64
  gNumMemBwWorkers :: int
  gMemBwWorkIters :: u64
  gMemBwBufSize :: int

text \<open>The global state of the application; \<open>nbWoken\<close> logs the waiters that a \<open>Post\<close> lets through.\<close>

record netbenchApp =
  gCpuBoundWorkers :: "sqrtWorker list"
  gMemBoundWorkers :: "memBWWorker list"
  gMemSem :: egSem
  sinkFloat64 :: float64
  nbWoken :: "nat list"

text \<open>\<open>req.Hash % uint64(n)\<close> panics for 0, and the slice is indexed by the result.\<close>

definition worker_index :: "u64 \<Rightarrow> int \<Rightarrow> nat option" where
  "worker_index hash n = (if i2u n = 0 then None else Some (unat (hash mod i2u n)))"

definition mem_work :: "netbenchSettings \<Rightarrow> nat \<Rightarrow> netbenchApp \<Rightarrow> netbenchApp option" where
  "mem_work g idx a = do {
     wk \<leftarrow> list_get (gMemBoundWorkers a) idx;
     wk1 \<leftarrow> MemBWWorker_Work (gMemBwWorkIters g) wk;
     Some (a\<lparr>gMemBoundWorkers := (gMemBoundWorkers a)[idx := wk1]\<rparr>)
   }"

definition netbench_work ::
  "(float64 \<Rightarrow> float64) \<Rightarrow> netbenchSettings \<Rightarrow> netbenchReq \<Rightarrow> netbenchApp \<Rightarrow> world \<Rightarrow> (bool \<times> netbenchApp \<times> world) option" where
  "netbench_work Sqrt g req a w =
     (if nqIsCpuBoundReq req then do {
        idx \<leftarrow> worker_index (nqHash req) (gNumCpuWorkers g);
        wk \<leftarrow> list_get (gCpuBoundWorkers a) idx;
        Some (True, a\<lparr>sinkFloat64 := SqrtWorker_Work Sqrt (gCpuWorkIters g) (sinkFloat64 a)\<rparr>, w)
      } else do {
        idx \<leftarrow> worker_index (nqHash req) (gNumMemBwWorkers g);
        if gUseMsem g then do {
          (got, m1, w1) \<leftarrow> egTryWait (gMemSem a) w;
          if got then do {
            a1 \<leftarrow> mem_work g idx (a\<lparr>gMemSem := m1\<rparr>);
            (woken, m2, w2) \<leftarrow> egPost (gMemSem a1) w1;
            Some (True, a1\<lparr>gMemSem := m2, nbWoken := nbWoken a1 @ (case woken of None \<Rightarrow> [] | Some x \<Rightarrow> [x])\<rparr>, w2)
          } else Some (False, a\<lparr>gMemSem := m1\<rparr>, w1)
        } else do { a1 \<leftarrow> mem_work g idx a; Some (True, a1, w) }
      })"

definition NetbenchReqHandler_run ::
  "(float64 \<Rightarrow> float64) \<Rightarrow> netbenchSettings \<Rightarrow> srpcCtx \<Rightarrow> netbenchApp \<Rightarrow> world \<Rightarrow> (srpcCtx \<times> netbenchApp \<times> world) option" where
  "NetbenchReqHandler_run Sqrt g ctx a w = (
     let req = NetbenchReq_of_bytes (ReqBuf ctx) in
     if ReqLen ctx \<noteq> of_nat NetbenchReq_size then Some (ctx, a, w)
     else if nqMagic req \<noteq> NetbenchReqMagic then Some (ctx, a, w)
     else do {
       let start = MicroTime w;
       (worked, a1, w1) \<leftarrow> netbench_work Sqrt g req a (step_world w);
       if \<not> worked then Some (ctx\<lparr>Drop := True\<rparr>, a1, w1)
       else
         let resp = \<lparr>npMagic = NetbenchRespMagic, npOpaque = nqOpaque req, npWorkUs = MicroTime w1 - start\<rparr>
         in Some (ctx\<lparr>RespBuf := NetbenchResp_bytes resp @ drop NetbenchResp_size (RespBuf ctx),
                      RespLen := of_nat NetbenchResp_size\<rparr>, a1, step_world w1)
     })"

text \<open>The application is well-formed: as many workers as configured, and a semaphore nobody is parked on.\<close>

definition app_ok :: "netbenchSettings \<Rightarrow> netbenchApp \<Rightarrow> bool" where
  "app_ok g a \<longleftrightarrow> 0 < gNumCpuWorkers g \<and> gNumCpuWorkers g < 2 ^ 63 \<and> length (gCpuBoundWorkers a) = nat (gNumCpuWorkers g) \<and>
     0 < gNumMemBwWorkers g \<and> gNumMemBwWorkers g < 2 ^ 63 \<and> length (gMemBoundWorkers a) = nat (gNumMemBwWorkers g) \<and>
     (\<forall>wk\<in>set (gMemBoundWorkers a). mem_worker_ok wk) \<and> eg_ok (gMemSem a) \<and> wq_empty (waiters (gMemSem a))"

lemma worker_index_ok:
  assumes "0 < n" "n < 2 ^ 63"
  shows "\<exists>i. worker_index hash n = Some i \<and> i < nat n"
proof -
  have u: "unat (i2u n) = nat n" using assms by (simp add: i2u_def unat_eq_nat_uint uint_word_of_int_eq take_bit_int_eq_self)
  then have "i2u n \<noteq> 0" using assms(1) by auto
  moreover have "unat (hash mod i2u n) < nat n" using u assms(1) by (simp add: unat_mod)
  ultimately show ?thesis by (simp add: worker_index_def)
qed

lemma mem_work_ok:
  assumes "app_ok g a" "idx < nat (gNumMemBwWorkers g)"
  shows "\<exists>ws. mem_work g idx (a\<lparr>gMemSem := m\<rparr>) = Some (a\<lparr>gMemSem := m, gMemBoundWorkers := ws\<rparr>) \<and>
    length ws = length (gMemBoundWorkers a) \<and> (\<forall>wk\<in>set ws. mem_worker_ok wk)"
proof -
  let ?wk = "gMemBoundWorkers a ! idx"
  have i: "idx < length (gMemBoundWorkers a)" and ok: "mem_worker_ok ?wk" using assms by (auto simp: app_ok_def)
  obtain wk where wk: "MemBWWorker_Work (gMemBwWorkIters g) ?wk = Some wk" "mem_worker_ok wk"
    using Work_exact [of "gMemBwWorkIters g" ?wk] ok by (auto simp: mem_worker_ok_def split: if_splits)
  have "\<forall>v\<in>set ((gMemBoundWorkers a)[idx := wk]). mem_worker_ok v"
    using assms(1) wk(2) set_update_subset_insert [of "gMemBoundWorkers a" idx wk] by (auto simp: app_ok_def)
  then show ?thesis using i wk(1) by (intro exI [of _ "(gMemBoundWorkers a)[idx := wk]"]) (simp add: mem_work_def list_get_def)
qed

lemma sem_pair_ok:
  assumes "eg_ok m" "wq_empty (waiters m)"
  shows "\<exists>got m1 w1. egTryWait m w = Some (got, m1, w1) \<and> eg_ok m1 \<and> waiters m1 = waiters m \<and>
    mcount m1 = (if got then mcount m + 1 else mcount m)"
    "\<exists>m2 w2. egPost m w = Some (None, m2, w2) \<and> eg_ok m2 \<and> waiters m2 = waiters m \<and> mcount m2 = mcount m - 1"
proof -
  from egUpdate_ok [OF assms(1), of w] obtain m1 w1 where
    u: "egUpdateCapacity m w = Some (m1, w1)" "eg_ok m1" "mcount m1 = mcount m" "waiters m1 = waiters m" by blast
  show "\<exists>got m1 w1. egTryWait m w = Some (got, m1, w1) \<and> eg_ok m1 \<and> waiters m1 = waiters m \<and>
    mcount m1 = (if got then mcount m + 1 else mcount m)"
    using u by (auto simp: egTryWait_def sem_TryWait_def eg.ok_count)
  show "\<exists>m2 w2. egPost m w = Some (None, m2, w2) \<and> eg_ok m2 \<and> waiters m2 = waiters m \<and> mcount m2 = mcount m - 1"
    using u assms(2) by (auto simp: egPost_def sem_Post_def eg.ok_count)
qed

lemma netbench_work_ok:
  assumes ok: "app_ok g a"
  shows "\<exists>worked a1 w1. netbench_work Sqrt g req a w = Some (worked, a1, w1) \<and> app_ok g a1 \<and>
    (\<not> worked \<longrightarrow> \<not> nqIsCpuBoundReq req \<and> gUseMsem g) \<and> mcount (gMemSem a1) = mcount (gMemSem a) \<and> nbWoken a1 = nbWoken a"
proof (cases "nqIsCpuBoundReq req")
  case True
  from worker_index_ok [of "gNumCpuWorkers g" "nqHash req"] ok obtain i where
    "worker_index (nqHash req) (gNumCpuWorkers g) = Some i" "i < length (gCpuBoundWorkers a)" by (auto simp: app_ok_def)
  then show ?thesis using ok True by (auto simp: netbench_work_def list_get_def app_ok_def)
next
  case False
  from worker_index_ok [of "gNumMemBwWorkers g" "nqHash req"] ok obtain i where
    i: "worker_index (nqHash req) (gNumMemBwWorkers g) = Some i" "i < nat (gNumMemBwWorkers g)" by (auto simp: app_ok_def)
  show ?thesis
  proof (cases "gUseMsem g")
    case nosem: False
    from mem_work_ok [OF ok i(2), of "gMemSem a"] obtain ws where
      "mem_work g i a = Some (a\<lparr>gMemBoundWorkers := ws\<rparr>)" "length ws = length (gMemBoundWorkers a)" "\<forall>wk\<in>set ws. mem_worker_ok wk" by auto
    then show ?thesis using False nosem i(1) ok by (auto simp: netbench_work_def app_ok_def)
  next
    case sem: True
    have m: "eg_ok (gMemSem a)" "wq_empty (waiters (gMemSem a))" using ok by (simp_all add: app_ok_def)
    from sem_pair_ok(1) [OF m, of w] obtain got m1 w1 where
      t: "egTryWait (gMemSem a) w = Some (got, m1, w1)" "eg_ok m1" "waiters m1 = waiters (gMemSem a)"
        "mcount m1 = (if got then mcount (gMemSem a) + 1 else mcount (gMemSem a))" by blast
    from mem_work_ok [OF ok i(2), of m1] obtain ws where
      ws: "mem_work g i (a\<lparr>gMemSem := m1\<rparr>) = Some (a\<lparr>gMemSem := m1, gMemBoundWorkers := ws\<rparr>)"
        "length ws = length (gMemBoundWorkers a)" "\<forall>wk\<in>set ws. mem_worker_ok wk" by blast
    have "wq_empty (waiters m1)" using t(3) m(2) by simp
    from sem_pair_ok(2) [OF t(2) this, of w1] obtain m2 w2 where
      p: "egPost m1 w1 = Some (None, m2, w2)" "eg_ok m2" "waiters m2 = waiters m1" "mcount m2 = mcount m1 - 1" by blast
    show ?thesis
      using False sem i(1) t ws p ok by (cases got) (auto simp: netbench_work_def app_ok_def)
  qed
qed

text \<open>
  C38.  The request handler of the benchmark with everything it uses - the pools of workers, the memory
  semaphore and the clock - implements the handler the servers are verified with: on every context it
  returns, without indexing a pool out of range, dividing by zero or slicing beyond a buffer, and the
  context it leaves is that of \<open>NetbenchReqHandler\<close> for some answer of the semaphore and some service
  time.  The application stays well-formed, the semaphore is released, and nobody was parked on it.
\<close>

theorem netbench_handler_refines:
  assumes "app_ok g a"
  shows "\<exists>tryWait workUs a' w'.
    NetbenchReqHandler_run Sqrt g ctx a w = Some (NetbenchReqHandler (gUseMsem g) tryWait workUs ctx, a', w') \<and>
    app_ok g a' \<and> mcount (gMemSem a') = mcount (gMemSem a) \<and> nbWoken a' = nbWoken a"
proof (cases "ReqLen ctx = of_nat NetbenchReq_size \<and> nqMagic (NetbenchReq_of_bytes (ReqBuf ctx)) = NetbenchReqMagic")
  case False
  then show ?thesis using assms by (auto simp: NetbenchReqHandler_run_def NetbenchReqHandler_def Let_def)
next
  case True
  let ?req = "NetbenchReq_of_bytes (ReqBuf ctx)"
  from netbench_work_ok [OF assms, of Sqrt ?req "step_world w"] obtain worked a1 w1 where
    k: "netbench_work Sqrt g ?req a (step_world w) = Some (worked, a1, w1)" "app_ok g a1"
      "\<not> worked \<longrightarrow> \<not> nqIsCpuBoundReq ?req \<and> gUseMsem g" "mcount (gMemSem a1) = mcount (gMemSem a)" "nbWoken a1 = nbWoken a" by blast
  then show ?thesis using True
    by (intro exI [of _ worked] exI [of _ "MicroTime w1 - MicroTime w"] exI [of _ a1])
      (cases worked; simp add: NetbenchReqHandler_run_def NetbenchReqHandler_def Let_def)
qed

definition demo_settings :: netbenchSettings where
  "demo_settings = \<lparr>gUseMsem = True, gNumCpuWorkers = 1, gCpuWorkIters = 0, gNumMemBwWorkers = 1, gMemBwWorkIters = 2, gMemBwBufSize = 64\<rparr>"

definition demo_app :: netbenchApp where
  "demo_app = \<lparr>gCpuBoundWorkers = [NewSqrtWorker], gMemBoundWorkers = [\<lparr>mwBuf = replicate 128 1, mwSize = 64\<rparr>],
     gMemSem = demo_sem, sinkFloat64 = FFin 0, nbWoken = []\<rparr>"

lemma demo_app_ok: "app_ok demo_settings demo_app"
  using demo_sem_ok(1) wq_empty_rel [OF demo_sem_ok(3)]
  by (simp add: app_ok_def demo_settings_def demo_app_def mem_worker_ok_def line_end_def)

theorem netbench_handler_refines_witness:
  "\<exists>tryWait workUs a' w'. NetbenchReqHandler_run (\<lambda>x. x) demo_settings
      \<lparr>Idx = 3, CtxId = 1, ReqLen = 32, RespLen = 0, ReqBuf = replicate SrpcBufSize 0,
       RespBuf = replicate SrpcBufSize 0, Drop = False, Track = False, DsCredit = 0, ShouldPut = False\<rparr> demo_app demo_readings =
      Some (NetbenchReqHandler True tryWait workUs
        \<lparr>Idx = 3, CtxId = 1, ReqLen = 32, RespLen = 0, ReqBuf = replicate SrpcBufSize 0,
         RespBuf = replicate SrpcBufSize 0, Drop = False, Track = False, DsCredit = 0, ShouldPut = False\<rparr>, a', w') \<and>
      mcount (gMemSem a') = 0"
  using netbench_handler_refines [OF demo_app_ok] demo_sem_ok(2) by (fastforce simp: demo_settings_def demo_app_def)

section \<open>The statistics service\<close>

definition NetbenchStatReqMagic :: u64 where "NetbenchStatReqMagic = 0xDEADBEEF"
definition StatPort :: nat where "StatPort = 8002"

record netbenchStatResp =
  srTotal :: u64
  srBusy :: u64
  srMemAccesses :: u64
  srEnergyConsumed :: float64
  srCUpdateRx :: u64
  srECreditTx :: u64
  srCreditTx :: u64
  srReqRx :: u64
  srReqDropped :: u64
  srRespTx :: u64

text \<open>\<open>strings.Fields\<close> on ASCII text.\<close>

definition is_space :: "char \<Rightarrow> bool" where
  "is_space c \<longleftrightarrow> c = CHR '' '' \<or> (9 \<le> (of_char c :: nat) \<and> (of_char c :: nat) \<le> 13)"

fun Fields_loop :: "string \<Rightarrow> string \<Rightarrow> string list" where
  "Fields_loop cur [] = (if cur = [] then [] else [cur])"
| "Fields_loop cur (c # cs) =
     (if is_space c then (if cur = [] then Fields_loop [] cs else cur # Fields_loop [] cs)
      else Fields_loop (cur @ [c]) cs)"

definition Fields :: "string \<Rightarrow> string list" where "Fields s = Fields_loop [] s"

text \<open>
  The value of \<open>strconv.ParseUint(s, 10, 64)\<close>, whose error the service ignores: 0 for a syntax error, the
  largest number for a number out of range.
\<close>

definition is_digit :: "char \<Rightarrow> bool" where
  "is_digit c \<longleftrightarrow> 48 \<le> (of_char c :: nat) \<and> (of_char c :: nat) \<le> 57"

fun ParseUint_loop :: "nat \<Rightarrow> string \<Rightarrow> u64" where
  "ParseUint_loop n [] = of_nat n"
| "ParseUint_loop n (c # cs) =
     (if \<not> is_digit c then 0
      else let n1 = n * 10 + (of_char c - 48) in
        if 2 ^ 64 \<le> n1 then - 1 else ParseUint_loop n1 cs)"

definition ParseUint :: "string \<Rightarrow> u64" where
  "ParseUint s = (if s = [] then 0 else ParseUint_loop 0 s)"

text \<open>The bit pattern of a \<open>float64\<close>; that of a NaN depends on how it arose and is an argument.\<close>

definition Float64bits :: "u64 \<Rightarrow> float64 \<Rightarrow> u64" where
  "Float64bits nan x = (case x of
     FNaN \<Rightarrow> nan
   | FInf s \<Rightarrow> (if s then 2 ^ 63 else 0) + 0x7FF0000000000000
   | FNegZero \<Rightarrow> 2 ^ 63
   | FFin r \<Rightarrow> (if r = 0 then 0
       else let e = ulp_exp \<bar>r\<bar>; m = nat \<lfloor>\<bar>r\<bar> / 2 powi e\<rfloor> in
         (if r < 0 then 2 ^ 63 else 0) +
         (if m < 2 ^ 52 then of_nat m else of_nat (m - 2 ^ 52) + 2 ^ 52 * word_of_int (e + 1075))))"

definition NetbenchStatResp_bytes :: "u64 \<Rightarrow> netbenchStatResp \<Rightarrow> byte list" where
  "NetbenchStatResp_bytes nan r = concat (map (\<lambda>x. le_bytes 8 (unat x))
     [srTotal r, srBusy r, srMemAccesses r, Float64bits nan (srEnergyConsumed r), srCUpdateRx r, srECreditTx r,
      srCreditTx r, srReqRx r, srReqDropped r, srRespTx r])"

definition stat_busy :: "string \<Rightarrow> u64 option" where
  "stat_busy data = (let fields = Fields data in
     if length fields < 15 then None else Some (ParseUint (fields ! 13) + ParseUint (fields ! 14)))"

definition stat_total :: "string \<Rightarrow> u64 option" where
  "stat_total data = (let fields = Fields data in
     if length fields < 8 then None else Some (foldl (\<lambda>tot i. tot + ParseUint (fields ! i)) 0 [0..<8]))"

datatype 'k statOutcome = StatReturn 'k | StatPanic | StatNext 'k

text \<open>
  One round of \<open>NetbenchStatWorker\<close>, given the two files (\<open>None\<close> when they cannot be read), the
  performance counters and the statistics of the server.
\<close>

definition NetbenchStatWorker ::
  "'k reader \<Rightarrow> 'k writer \<Rightarrow> u64 \<Rightarrow> string option \<Rightarrow> string option \<Rightarrow> perfState option \<Rightarrow> rpcServer \<Rightarrow> 'h rpcOps \<Rightarrow> 'k \<Rightarrow>
   'k statOutcome option" where
  "NetbenchStatWorker rd wr nan selfStat procStat perf s all k = do {
     (n, err, bs, k1) \<leftarrow> ReadFull rd (replicate 8 0) k;
     if err \<noteq> None then Some (if n = 0 then StatReturn k1 else StatPanic)
     else if of_nat (le_nat bs) \<noteq> NetbenchStatReqMagic then Some StatPanic
     else (case (selfStat \<bind> stat_busy, procStat \<bind> stat_total) of
        (Some busy, Some tot) \<Rightarrow> do {
          let resp = \<lparr>srTotal = tot, srBusy = busy, srMemAccesses = MemPmcGetMemAccesses perf,
            srEnergyConsumed = PowPmcGetEnergyConsumed perf, srCUpdateRx = StatCUpdateRx_of s all,
            srECreditTx = StatECreditTx_of s all, srCreditTx = StatCreditTx_of s all, srReqRx = StatReqRx_of s all,
            srReqDropped = StatReqDropped_of s all, srRespTx = StatRespTx_of s all\<rparr>;
          (n, err, k2) \<leftarrow> WriteFull wr (NetbenchStatResp_bytes nan resp) k1;
          Some (if err \<noteq> None then StatReturn k2 else StatNext k2)
        }
      | _ \<Rightarrow> Some StatPanic)
   }"

text \<open>The first field of \<open>/proc/stat\<close> is the label \<open>cpu\<close>, which counts as 0.\<close>

lemma stat_total_label: "ParseUint ''cpu'' = 0"
  by (simp add: ParseUint_def is_digit_def)

lemma stat_total_seven:
  assumes "Fields data = ''cpu'' # fs" "7 \<le> length fs"
  shows "stat_total data = Some (sum_list (map ParseUint (take 7 fs)))"
proof -
  obtain a b c d e f g rest where "fs = [a, b, c, d, e, f, g] @ rest"
    using assms(2) by (auto simp: numeral_eq_Suc Suc_le_length_iff)
  then show ?thesis using assms(1) by (simp add: stat_total_def upt_rec stat_total_label add.assoc)
qed

section \<open>Start-up\<close>

record netbenchArgs =
  agOvldCtlAlgo :: string
  agUseMsem :: bool
  agNumCpuWorkers :: int
  agCpuWorkIters :: int
  agNumMemBwWorkers :: int
  agMemBwWorkIters :: int
  agMemBwBufSize :: int

definition algo_of_name :: "string \<Rightarrow> rpcOpsType option" where
  "algo_of_name name =
     (if name = ''nocontrol'' then Some RpcNoControlOps
      else if name = ''seda'' then Some RpcSedaOps
      else if name = ''breakwater'' then Some RpcBreakwaterOps
      else if name = ''protego'' then Some RpcProtegoOps
      else if name = ''pcc'' then Some RpcPccOps
      else None)"

definition settings_of :: "netbenchArgs \<Rightarrow> netbenchSettings" where
  "settings_of x = \<lparr>gUseMsem = agUseMsem x, gNumCpuWorkers = agNumCpuWorkers x, gCpuWorkIters = i2u (agCpuWorkIters x),
     gNumMemBwWorkers = agNumMemBwWorkers x, gMemBwWorkIters = i2u (agMemBwWorkIters x), gMemBwBufSize = agMemBwBufSize x\<rparr>"

text \<open>The pools; \<open>make\<close> with a negative length panics.  \<open>bases\<close> are the addresses of the buffers.\<close>

fun new_mem_workers :: "(nat \<Rightarrow> nat) \<Rightarrow> int \<Rightarrow> nat list \<Rightarrow> memBWWorker list option" where
  "new_mem_workers bases sz [] = Some []"
| "new_mem_workers bases sz (i # is) = do {
     wk \<leftarrow> NewMemBWWorker (bases i) sz;
     wks \<leftarrow> new_mem_workers bases sz is;
     Some (wk # wks)
   }"

definition new_app :: "(nat \<Rightarrow> nat) \<Rightarrow> egSem \<Rightarrow> netbenchSettings \<Rightarrow> netbenchApp option" where
  "new_app bases m g =
     (if gNumCpuWorkers g < 0 \<or> gNumMemBwWorkers g < 0 then None
      else do {
        wks \<leftarrow> new_mem_workers bases (gMemBwBufSize g) [0..<nat (gNumMemBwWorkers g)];
        Some \<lparr>gCpuBoundWorkers = replicate (nat (gNumCpuWorkers g)) NewSqrtWorker, gMemBoundWorkers = wks,
              gMemSem = m, sinkFloat64 = FFin 0, nbWoken = []\<rparr>
      })"

text \<open>
  \<open>main\<close> of the server up to waiting forever.  The semaphore is the singleton; without \<open>usemsem\<close> it is
  never created, and the field is not read.
\<close>

definition netbench_main ::
  "nat \<Rightarrow> (nat \<Rightarrow> nat) \<Rightarrow> u64 \<Rightarrow> u64 \<Rightarrow> 'h \<Rightarrow> netbenchArgs \<Rightarrow> egSem option \<Rightarrow> perfState option \<Rightarrow> 'h rpcOps \<Rightarrow> world \<Rightarrow>
   (netbenchApp \<times> rpcServer \<times> 'h rpcOps \<times> perfState option \<times> world) option" where
  "netbench_main procs bases maxCh actCh handler x inst perf all w = do {
     ty \<leftarrow> algo_of_name (agOvldCtlAlgo x);
     let g = settings_of x;
     a \<leftarrow> new_app bases (fst (GetInstance procs inst w)) g;
     let w1 = (if gUseMsem g then snd (GetInstance procs inst w) else w);
     let (s, perf1) = NewRpcServer maxCh actCh ty perf;
     s1 \<leftarrow> s;
     let (r, all1, w2) = Enable procs handler s1 all w1;
     if r \<noteq> 0 then None else Some (a, s1, all1, perf1, w2)
   }"

lemma new_mem_workers_ok:
  assumes "0 \<le> sz" "sz < 2 ^ 62" "64 dvd sz"
  shows "\<exists>wks. new_mem_workers bases sz is = Some wks \<and> length wks = length is \<and> (\<forall>wk\<in>set wks. mem_worker_ok wk)"
proof (induction "is")
  case (Cons i "is")
  then show ?case using New_aligned_ok [OF assms, of "bases i"] by auto
qed simp

text \<open>A start-up with at least one worker of each kind and a buffer of whole cache lines is well-formed.\<close>

lemma new_app_ok:
  assumes "0 < gNumCpuWorkers g" "gNumCpuWorkers g < 2 ^ 63" "0 < gNumMemBwWorkers g" "gNumMemBwWorkers g < 2 ^ 63"
    and "0 \<le> gMemBwBufSize g" "gMemBwBufSize g < 2 ^ 62" "64 dvd gMemBwBufSize g" "eg_ok m" "wq_empty (waiters m)"
  shows "\<exists>a. new_app bases m g = Some a \<and> app_ok g a"
  using new_mem_workers_ok [OF assms(5-7), of bases "[0..<nat (gNumMemBwWorkers g)]"] assms
  by (auto simp: new_app_def app_ok_def)

end
