(* ===== verification/Netbench_Client.thy ===== *)
theory Netbench_Client
  imports Netbench_Server End_To_End Float_Sign
begin

text \<open>
  The load generator, \<open>src/apps/netbench/client/netbench_client.go\<close>: the barrier between the clients on
  different machines, the generation of the workload, the sender and the receiver of a connection, the
  drop handlers, and the statistics of an experiment.  The encodings of package \<open>gob\<close> and the memory
  layout of the statistics are arguments, as are random numbers and \<open>sort.Slice\<close>, which is not
  stable.  \<open>None\<close> is a panic.
\<close>

definition WarmUpTimeUs :: int where "WarmUpTimeUs = 3000000"
definition MaxCatchUpTimeUs :: int where "MaxCatchUpTimeUs = 5000"
definition NetBarrierPort :: nat where "NetBarrierPort = 5000"

record ncSettings =
  stIsMasterClient :: bool
  stServerIP :: string
  stMasterClientIP :: string
  stOvldCtlAlgo :: rpcOpsType
  stNumConns :: int
  stNumAgents :: int
  stSlo :: int
  stOfferedLoad :: float64
  stDurationS :: int
  stCpuBoundWorkPerc :: int

record workUnit =
  wuIsSuccess :: bool
  wuIsCpuBoundReq :: bool
  wuSchedStartUs :: float64
  wuStartUs :: float64
  wuDurationUs :: float64
  wuHash :: int
  wuReq :: netbenchReq
  wuWorkUs :: u64

section \<open>Workload\<close>

text \<open>\<open>rnd i\<close> is the i-th pair of \<open>rand.Int()\<close> and \<open>rand.ExpFloat64()\<close>.  The loop ends when the trace is long enough.\<close>

definition new_unit :: "int \<Rightarrow> float64 \<Rightarrow> int \<Rightarrow> nat \<Rightarrow> workUnit" where
  "new_unit perc cur hash i = (
     let cpu = (hash smod 100 < perc)
     in \<lparr>wuIsSuccess = False, wuIsCpuBoundReq = cpu, wuSchedStartUs = cur, wuStartUs = FFin 0, wuDurationUs = FFin 0,
         wuHash = hash, wuReq = \<lparr>nqMagic = NetbenchReqMagic, nqOpaque = of_nat i, nqIsCpuBoundReq = cpu, nqHash = i2u hash\<rparr>,
         wuWorkUs = 0\<rparr>)"

partial_function (option) GenerateWork_loop ::
  "(nat \<Rightarrow> int \<times> float64) \<Rightarrow> int \<Rightarrow> float64 \<Rightarrow> float64 \<Rightarrow> nat \<Rightarrow> float64 \<Rightarrow> workUnit list \<Rightarrow> workUnit list option" where
  "GenerateWork_loop rnd perc avg dur i cur units =
     (if f_less cur dur then
        (let curr1 = f_add cur (f_mul (snd (rnd i)) avg)
         in GenerateWork_loop rnd perc avg dur (Suc i) curr1 (units @ [new_unit perc curr1 (fst (rnd i)) i]))
      else Some units)"

definition GenerateWork :: "(nat \<Rightarrow> int \<times> float64) \<Rightarrow> ncSettings \<Rightarrow> workUnit list \<Rightarrow> workUnit list option" where
  "GenerateWork rnd g units =
     GenerateWork_loop rnd (stCpuBoundWorkPerc g) (f_div (FFin 1000000) (stOfferedLoad g))
       (f_mul (f_of_int (stDurationS g)) (FFin 1000000)) 0 (FFin 0) units"

section \<open>One connection\<close>

text \<open>The receiver: one response, or the end.\<close>

datatype ('a, 'k) recvStep = RecvExit "('a, 'k) rpcClient" world | RecvMore "workUnit list" "('a, 'k) rpcClient" world

definition update_unit :: "u64 \<Rightarrow> netbenchResp \<Rightarrow> workUnit list \<Rightarrow> workUnit list option" where
  "update_unit now resp units = do {
     wu \<leftarrow> list_get units (unat (npOpaque resp));
     Some (units[unat (npOpaque resp) := wu\<lparr>wuDurationUs := f_sub (f_of_u64 now) (wuStartUs wu), wuIsSuccess := True,
                                            wuWorkUs := npWorkUs resp\<rparr>])
   }"

definition ClientReceive ::
  "'k rpcEnv \<Rightarrow> byte list \<Rightarrow> 'a option \<Rightarrow> workUnit list \<Rightarrow> ('a, 'k) rpcClient \<Rightarrow> world \<Rightarrow> ('a, 'k) recvStep option" where
  "ClientReceive E resp_buf arg units conn w = do {
     (ret, buf, conn1, w1) \<leftarrow> Recv E resp_buf RpcMaxBufferSize 0 arg conn w;
     if ret \<noteq> int NetbenchResp_size then (if ret \<le> 0 then Some (RecvExit conn1 w1) else None)
     else do {
       let resp = NetbenchResp_of_bytes buf;
       if npMagic resp \<noteq> NetbenchRespMagic then None
       else do {
         units1 \<leftarrow> update_unit (MicroTime w1) resp units;
         Some (RecvMore units1 conn1 (step_world w1))
       }
     }
   }"

text \<open>
  The sender's step for work unit \<open>i\<close>: how long it sleeps, and then whether it sends.  The clock after
  the sleep is read from the world the sleep ends in, \<open>slept\<close>.
\<close>

definition sleep_us :: "(float64 \<Rightarrow> u64) \<Rightarrow> u64 \<Rightarrow> u64 \<Rightarrow> workUnit \<Rightarrow> u64" where
  "sleep_us oor expStart now wu = (
     let sched = f_to_u64 oor (wuSchedStartUs wu)
     in if now - expStart < sched then sched - (now - expStart) else 0)"

definition too_late :: "(float64 \<Rightarrow> u64) \<Rightarrow> u64 \<Rightarrow> u64 \<Rightarrow> workUnit \<Rightarrow> bool" where
  "too_late oor expStart now wu \<longleftrightarrow> now - expStart - f_to_u64 oor (wuSchedStartUs wu) > i2u MaxCatchUpTimeUs"

definition ClientSend ::
  "(float64 \<Rightarrow> u64) \<Rightarrow> 'k rpcEnv \<Rightarrow> byte list \<Rightarrow> u64 \<Rightarrow> (u64 \<Rightarrow> world \<Rightarrow> world) \<Rightarrow> 'a option \<Rightarrow> nat \<Rightarrow> workUnit list \<Rightarrow>
   ('a, 'k) rpcClient \<Rightarrow> world \<Rightarrow> (workUnit list \<times> ('a, 'k) rpcClient \<times> world) option" where
  "ClientSend oor E pad expStart slept arg i units conn w = do {
     wu \<leftarrow> list_get units i;
     let d = sleep_us oor expStart (MicroTime w) wu;
     let w1 = (if d \<noteq> 0 then slept d (step_world w) else step_world w);
     let now = MicroTime w1;
     if too_late oor expStart now wu then Some (units, conn, step_world w1)
     else do {
       let units1 = units[i := wu\<lparr>wuStartUs := f_of_u64 now\<rparr>];
       (ret, conn1, w2) \<leftarrow> Send E (NetbenchReq_bytes pad (wuReq wu)) (of_nat NetbenchReq_size) (wuHash wu) arg conn (step_world w1);
       if ret \<noteq> int NetbenchReq_size then None else Some (units1, conn1, w2)
     }
   }"

definition drop_unit :: "byte list \<Rightarrow> workUnit list \<Rightarrow> workUnit list option" where
  "drop_unit buf units = do {
     wu \<leftarrow> list_get units (unat (nqOpaque (NetbenchReq_of_bytes buf)));
     Some (units[unat (nqOpaque (NetbenchReq_of_bytes buf)) := wu\<lparr>wuDurationUs := FFin 0, wuIsSuccess := False\<rparr>])
   }"

definition LocalDropHandler :: "'a crpcCtx \<Rightarrow> workUnit list \<Rightarrow> workUnit list option" where
  "LocalDropHandler ctx units = drop_unit (rBuf ctx) units"

definition RemoteDropHandler :: "byte list \<Rightarrow> u64 \<Rightarrow> workUnit list \<Rightarrow> workUnit list option" where
  "RemoteDropHandler buf len units = (if buf = [] then None else drop_unit buf units)"

section \<open>The table of work units\<close>

text \<open>Every entry carries the request that names it.\<close>

definition unit_ok :: "nat \<Rightarrow> workUnit \<Rightarrow> bool" where
  "unit_ok i wu \<longleftrightarrow> nqMagic (wuReq wu) = NetbenchReqMagic \<and> nqOpaque (wuReq wu) = of_nat i \<and>
     nqIsCpuBoundReq (wuReq wu) = wuIsCpuBoundReq wu \<and> nqHash (wuReq wu) = i2u (wuHash wu)"

definition units_ok :: "workUnit list \<Rightarrow> bool" where
  "units_ok units \<longleftrightarrow> length units < 2 ^ 63 \<and> (\<forall>i<length units. unit_ok i (units ! i))"

definition same_requests :: "workUnit list \<Rightarrow> workUnit list \<Rightarrow> bool" where
  "same_requests us us' \<longleftrightarrow> map wuReq us' = map wuReq us \<and> map wuHash us' = map wuHash us \<and>
     map wuSchedStartUs us' = map wuSchedStartUs us \<and> map wuIsCpuBoundReq us' = map wuIsCpuBoundReq us"

lemma same_requests_refl [simp]: "same_requests us us"
  by (simp add: same_requests_def)

lemma same_requests_update:
  assumes "i < length us" "wuReq wu = wuReq (us ! i)" "wuHash wu = wuHash (us ! i)"
    "wuSchedStartUs wu = wuSchedStartUs (us ! i)" "wuIsCpuBoundReq wu = wuIsCpuBoundReq (us ! i)"
  shows "same_requests us (us[i := wu])"
  using assms by (simp add: same_requests_def map_update) (metis list_update_id nth_map)

lemma same_requests_ok: "same_requests us us' \<Longrightarrow> units_ok us \<Longrightarrow> units_ok us'"
  unfolding same_requests_def units_ok_def unit_ok_def
  by (metis (no_types, lifting) length_map nth_map)

text \<open>The arrival times, and what the generator returns once they reach the end of the experiment.\<close>

primrec arrival :: "(nat \<Rightarrow> int \<times> float64) \<Rightarrow> float64 \<Rightarrow> nat \<Rightarrow> float64" where
  "arrival rnd avg 0 = FFin 0"
| "arrival rnd avg (Suc i) = f_add (arrival rnd avg i) (f_mul (snd (rnd i)) avg)"

lemma generate_loop:
  assumes "\<not> f_less (arrival rnd avg k) dur" "\<forall>j<k. f_less (arrival rnd avg j) dur" "i \<le> k"
  shows "GenerateWork_loop rnd perc avg dur i (arrival rnd avg i) us =
    Some (us @ map (\<lambda>j. new_unit perc (arrival rnd avg (Suc j)) (fst (rnd j)) j) [i..<k])"
  using assms(3)
proof (induction "k - i" arbitrary: i us)
  case 0
  then show ?case using assms(1) by (subst GenerateWork_loop.simps) simp
next
  case (Suc n)
  then have lt: "i < k" by simp
  have "GenerateWork_loop rnd perc avg dur i (arrival rnd avg i) us =
      GenerateWork_loop rnd perc avg dur (Suc i) (arrival rnd avg (Suc i)) (us @ [new_unit perc (arrival rnd avg (Suc i)) (fst (rnd i)) i])"
    using assms(2) lt by (subst GenerateWork_loop.simps) (simp add: Let_def)
  also have "\<dots> = Some ((us @ [new_unit perc (arrival rnd avg (Suc i)) (fst (rnd i)) i]) @
      map (\<lambda>j. new_unit perc (arrival rnd avg (Suc j)) (fst (rnd j)) j) [Suc i..<k])"
    using Suc(2) lt by (intro Suc(1)) simp_all
  finally show ?case using lt by (simp add: upt_conv_Cons)
qed

lemma new_unit_ok: "unit_ok i (new_unit perc cur hash i)"
  by (simp add: unit_ok_def new_unit_def Let_def)

lemma units_ok_index:
  assumes "units_ok us" "i < length us"
  shows "unat (nqOpaque (wuReq (us ! i))) = i"
  using assms by (simp add: units_ok_def unit_ok_def unat_of_nat_64)

lemma update_unit_ok:
  "update_unit now resp us = Some us' \<Longrightarrow> same_requests us us'"
  by (auto simp: update_unit_def list_get_def intro!: same_requests_update split: if_splits)

lemma drop_unit_ok: "drop_unit buf us = Some us' \<Longrightarrow> same_requests us us'"
  by (auto simp: drop_unit_def list_get_def intro!: same_requests_update split: if_splits)

lemma ClientReceive_ok:
  "ClientReceive E buf arg us conn w = Some (RecvMore us' conn' w') \<Longrightarrow> same_requests us us'"
  by (auto simp: ClientReceive_def Let_def bind_eq_Some_conv split: if_splits prod.splits dest: update_unit_ok)

lemma ClientSend_ok:
  "ClientSend oor E pad expStart slept arg i us conn w = Some (us', conn', w') \<Longrightarrow> same_requests us us'"
  by (auto simp: ClientSend_def Let_def list_get_def bind_eq_Some_conv split: if_splits prod.splits intro!: same_requests_update)

lemma drop_own:
  assumes "units_ok us" "i < length us" "length pad = 7"
  shows "drop_unit (NetbenchReq_bytes pad (wuReq (us ! i)) @ rest) us =
    Some (us[i := (us ! i)\<lparr>wuDurationUs := FFin 0, wuIsSuccess := False\<rparr>])"
  using assms units_ok_index [OF assms(1,2)] by (simp add: drop_unit_def NetbenchReq_roundtrip list_get_def)

lemma update_own:
  assumes "units_ok us" "i < length us" "npOpaque resp = nqOpaque (wuReq (us ! i))"
  shows "update_unit now resp us = Some (us[i := (us ! i)\<lparr>wuDurationUs := f_sub (f_of_u64 now) (wuStartUs (us ! i)),
     wuIsSuccess := True, wuWorkUs := npWorkUs resp\<rparr>])"
  using assms units_ok_index [OF assms(1,2)] by (simp add: update_unit_def list_get_def)

text \<open>The steps of the goroutines that share the table.\<close>

inductive unit_step ::
  "(float64 \<Rightarrow> u64) \<Rightarrow> 'k rpcEnv \<Rightarrow> byte list \<Rightarrow> 'a option \<Rightarrow> workUnit list \<Rightarrow> workUnit list \<Rightarrow> bool"
  for oor :: "float64 \<Rightarrow> u64" and E :: "'k rpcEnv" and pad :: "byte list" and arg :: "'a option" where
  Receive: "ClientReceive E buf arg us conn w = Some (RecvMore us' conn' w') \<Longrightarrow> unit_step oor E pad arg us us'"
| Transmit: "ClientSend oor E pad expStart slept arg i us conn w = Some (us', conn', w') \<Longrightarrow> unit_step oor E pad arg us us'"
| LocalDrop: "LocalDropHandler (ctx :: 'a crpcCtx) us = Some us' \<Longrightarrow> unit_step oor E pad arg us us'"
| RemoteDrop: "RemoteDropHandler buf len us = Some us' \<Longrightarrow> unit_step oor E pad arg us us'"

lemma unit_step_same: "unit_step oor E pad arg us us' \<Longrightarrow> same_requests us us'"
  by (induction rule: unit_step.induct)
    (auto simp: LocalDropHandler_def RemoteDropHandler_def dest: ClientReceive_ok ClientSend_ok drop_unit_ok split: if_splits)

lemma unit_steps_same: "(unit_step oor E pad arg)\<^sup>*\<^sup>* us us' \<Longrightarrow> same_requests us us'"
  by (induction rule: rtranclp_induct) (auto dest!: unit_step_same simp: same_requests_def)

text \<open>
  C39.  The table of work units of a connection is well-formed from its generation on: entry \<open>i\<close> carries
  the request whose opaque value is \<open>i\<close>.  No interleaving of the sender, the receiver and the drop
  handlers changes the length of the table or a request in it, so a response or a drop notice for the
  request of entry \<open>i\<close> updates exactly that entry and never indexes out of range.
\<close>

theorem netbench_units_typed:
  assumes "\<not> f_less (arrival rnd (f_div (FFin 1000000) (stOfferedLoad g)) k) (f_mul (f_of_int (stDurationS g)) (FFin 1000000))"
    and "\<forall>j<k. f_less (arrival rnd (f_div (FFin 1000000) (stOfferedLoad g)) j) (f_mul (f_of_int (stDurationS g)) (FFin 1000000))"
    and "k < 2 ^ 63"
  shows "\<exists>us0. GenerateWork rnd g [] = Some us0 \<and> length us0 = k \<and>
    (\<forall>us. (unit_step oor E pad arg)\<^sup>*\<^sup>* us0 us \<longrightarrow> units_ok us \<and> same_requests us0 us \<and>
      (\<forall>i<k. (\<forall>ctx rest p. rBuf (ctx :: 'a crpcCtx) = NetbenchReq_bytes p (wuReq (us ! i)) @ rest \<longrightarrow> length p = 7 \<longrightarrow>
           LocalDropHandler ctx us = Some (us[i := (us ! i)\<lparr>wuDurationUs := FFin 0, wuIsSuccess := False\<rparr>]) \<and>
           RemoteDropHandler (rBuf ctx) (rLen ctx) us = LocalDropHandler ctx us) \<and>
         (\<forall>now resp. npOpaque resp = nqOpaque (wuReq (us ! i)) \<longrightarrow>
           update_unit now resp us = Some (us[i := (us ! i)\<lparr>wuDurationUs := f_sub (f_of_u64 now) (wuStartUs (us ! i)),
             wuIsSuccess := True, wuWorkUs := npWorkUs resp\<rparr>]))))"
proof -
  define us0 where "us0 = map (\<lambda>j. new_unit (stCpuBoundWorkPerc g) (arrival rnd (f_div (FFin 1000000) (stOfferedLoad g)) (Suc j)) (fst (rnd j)) j) [0..<k]"
  have g: "GenerateWork rnd g [] = Some us0"
    using generate_loop [OF assms(1,2), of 0 "stCpuBoundWorkPerc g" "[]"] by (simp add: GenerateWork_def us0_def)
  have ok: "units_ok us0" using assms(3) by (simp add: units_ok_def new_unit_ok us0_def)
  have s: "units_ok us" "same_requests us0 us" "length us = k" if "(unit_step oor E pad arg)\<^sup>*\<^sup>* us0 us" for us
  proof -
    show sm: "same_requests us0 us" using unit_steps_same [OF that] .
    then show "units_ok us" using ok by (rule same_requests_ok)
    have "length (map wuReq us) = length (map wuReq us0)" using sm unfolding same_requests_def by metis
    then show "length us = k" by (simp add: us0_def)
  qed
  have ne: "NetbenchReq_bytes p q \<noteq> []" if "length p = 7" for p q using NetbenchReq_length [OF that, of q] by force
  have "length us0 = k" by (simp add: us0_def)
  then show ?thesis using g s drop_own update_own ne
    by (intro exI [of _ us0]) (simp add: LocalDropHandler_def RemoteDropHandler_def)
qed

definition demo_load :: ncSettings where
  "demo_load = \<lparr>stIsMasterClient = True, stServerIP = [], stMasterClientIP = [], stOvldCtlAlgo = RpcSedaOps, stNumConns = 1,
     stNumAgents = 1, stSlo = 1000, stOfferedLoad = FFin 1, stDurationS = 3, stCpuBoundWorkPerc = 80\<rparr>"

lemma demo_arrivals:
  "arrival (\<lambda>i. (int i, FFin 2)) (f_div (FFin 1000000) (stOfferedLoad demo_load)) 0 = FFin 0"
  "arrival (\<lambda>i. (int i, FFin 2)) (f_div (FFin 1000000) (stOfferedLoad demo_load)) 1 = FFin 2000000"
  "arrival (\<lambda>i. (int i, FFin 2)) (f_div (FFin 1000000) (stOfferedLoad demo_load)) 2 = FFin 4000000"
  "f_mul (f_of_int (stDurationS demo_load)) (FFin 1000000) = FFin 3000000"
  using f64_round_int [of 1000000] f64_round_int [of 2000000] f64_round_int [of 3000000] f64_round_int [of 4000000] f64_round_int [of 3]
  by (simp_all add: demo_load_def numeral_2_eq_2 f_div_def f_mul_def f_add_def f_of_int_def f_zero_def f_inf_def f_sign_def f_val_def Let_def)

theorem netbench_units_typed_witness:
  "\<exists>us0. GenerateWork (\<lambda>i. (int i, FFin 2)) demo_load [] = Some us0 \<and> length us0 = 2 \<and> units_ok us0"
proof -
  let ?X = "\<lparr>xRd = mem_read, xWr = mem_write, xPad = replicate 3 0, xDelay = 10\<rparr>"
  let ?E = "\<lparr>rpcBw = ?X, rpcPg = ?X, rpcPcc = ?X, rpcSeda = sd_config, rpcPolicy = 0, rpcRd = mem_read, rpcWr = mem_write\<rparr>"
  have "\<forall>j<2. f_less (arrival (\<lambda>i. (int i, FFin 2)) (f_div (FFin 1000000) (stOfferedLoad demo_load)) j)
      (f_mul (f_of_int (stDurationS demo_load)) (FFin 1000000))"
    using demo_arrivals by (auto simp: less_2_cases_iff f_less_def f_val_def)
  from netbench_units_typed [OF _ this, of "\<lambda>_. 0" ?E "replicate 7 0" "None :: unit option"] show ?thesis
    using demo_arrivals by (auto simp: f_less_def f_val_def)
qed

end
