(* ===== verification/Netbench_Experiment.thy ===== *)
theory Netbench_Experiment
  imports Netbench_Client "HOL-Library.Multiset"
begin

text \<open>
  The experiment of the load generator (\<open>RunExperiment\<close> of
  \<open>src/apps/netbench/client/netbench_client.go\<close>): the barrier between the clients, the throughput
  figures of a client, their aggregation on the master, and the latency percentiles of all clients.
\<close>

section \<open>Statistics\<close>

record cStat =
  cOfferedRps :: float64
  cRps :: float64
  cCpuBoundWorkRps :: float64
  cMemBoundWorkRps :: float64
  cGoodput :: float64
  cECreditRxPps :: float64
  cCUpdateTxPps :: float64
  cCreditExpiredCps :: float64
  cRespRxPps :: float64
  cReqTxPps :: float64
  cReqDroppedRps :: float64
  cMinDurationUs :: float64
  cMeanDurationUs :: float64
  cP50DurationUs :: float64
  cP90DurationUs :: float64
  cP99DurationUs :: float64
  cMaxDurationUs :: float64
  cCpuDurationUs :: "float64 \<times> float64 \<times> float64"
  cMemDurationUs :: "float64 \<times> float64 \<times> float64"
  cCpuStUs :: "float64 \<times> float64 \<times> float64"
  cAvgCpuStUs :: float64
  cMemStUs :: "float64 \<times> float64 \<times> float64"
  cAvgMemStUs :: float64

text \<open>A fresh \<open>CStat\<close>; the triples are the 50th, 90th and 99th percentiles of a class.\<close>

definition zero_cstat :: cStat where
  "zero_cstat = (let z = FFin 0 in
     \<lparr>cOfferedRps = z, cRps = z, cCpuBoundWorkRps = z, cMemBoundWorkRps = z, cGoodput = z, cECreditRxPps = z,
      cCUpdateTxPps = z, cCreditExpiredCps = z, cRespRxPps = z, cReqTxPps = z, cReqDroppedRps = z,
      cMinDurationUs = z, cMeanDurationUs = z, cP50DurationUs = z, cP90DurationUs = z, cP99DurationUs = z, cMaxDurationUs = z,
      cCpuDurationUs = (z, z, z), cMemDurationUs = (z, z, z), cCpuStUs = (z, z, z), cAvgCpuStUs = z,
      cMemStUs = (z, z, z), cAvgMemStUs = z\<rparr>)"

record sStat =
  sCpuUsage :: float64
  sMembwUsage :: float64
  sPowerUsage :: float64
  sCUpdateRxPps :: float64
  sECreditTxPps :: float64
  sCreditTxCps :: float64
  sReqRxPps :: float64
  sRespTxPps :: float64
  sReqDropRate :: float64

section \<open>The barrier\<close>

record 'k netBarrier =
  nbIsMaster :: bool
  nbNumAgents :: int
  nbConns :: "'k list"

text \<open>Integers travel as eight bytes, little-endian.\<close>

definition int_bytes :: "int \<Rightarrow> byte list" where "int_bytes n = le_bytes 8 (unat (i2u n))"
definition int_of_bytes :: "byte list \<Rightarrow> int" where "int_of_bytes bs = u2i (of_nat (le_nat bs))"

text \<open>The master accepts its agents one after the other; write errors are ignored, as in the source.\<close>

fun accept_agents ::
  "'k writer \<Rightarrow> byte list \<Rightarrow> nat \<Rightarrow> ('k \<times> string) option list \<Rightarrow> ncSettings \<Rightarrow> 'k list \<Rightarrow> (ncSettings \<times> 'k list) option" where
  "accept_agents wr ser 0 acc g conns = Some (g, conns)"
| "accept_agents wr ser (Suc n) [] g conns = None"
| "accept_agents wr ser (Suc n) (None # acc) g conns = None"
| "accept_agents wr ser (Suc n) (Some (k, ip) # acc) g conns = do {
     (n1, e1, k1) \<leftarrow> WriteFull wr (int_bytes (int (length ser))) k;
     (n2, e2, k2) \<leftarrow> WriteFull wr ser k1;
     accept_agents wr ser n acc (g\<lparr>stMasterClientIP := ip\<rparr>) (conns @ [k2])
   }"

definition MasterNetBarrierInit ::
  "'k writer \<Rightarrow> (ncSettings \<Rightarrow> byte list) \<Rightarrow> ('k \<times> string) option list \<Rightarrow> ncSettings \<Rightarrow> (ncSettings \<times> 'k netBarrier) option" where
  "MasterNetBarrierInit wr gobEnc acc g = do {
     n \<leftarrow> idiv (stNumConns g) (stNumAgents g);
     let g1 = g\<lparr>stIsMasterClient := True, stNumConns := n,
                 stOfferedLoad := f_div (f_div (stOfferedLoad g) (f_of_int (stNumAgents g))) (f_of_int n)\<rparr>;
     let agents = isub (stNumAgents g) 1;
     (g2, conns) \<leftarrow> accept_agents wr (gobEnc g1) (nat agents) acc g1 [];
     Some (g2, \<lparr>nbIsMaster = True, nbNumAgents = agents, nbConns = conns\<rparr>)
   }"

definition NonMasterNetBarrierInit ::
  "'k reader \<Rightarrow> (byte list \<Rightarrow> ncSettings option) \<Rightarrow> 'k option \<Rightarrow> (ncSettings \<times> 'k netBarrier) option" where
  "NonMasterNetBarrierInit rd gobDec dial = do {
     k \<leftarrow> dial;
     (n1, e1, bs, k1) \<leftarrow> ReadFull rd (replicate 8 0) k;
     let len = int_of_bytes bs;
     if len < 0 then None
     else do {
       (n2, e2, ser, k2) \<leftarrow> ReadFull rd (replicate (nat len) 0) k1;
       g \<leftarrow> gobDec ser;
       Some (g\<lparr>stIsMasterClient := False\<rparr>, \<lparr>nbIsMaster = False, nbNumAgents = 0, nbConns = [k2]\<rparr>)
     }
   }"

text \<open>\<open>Wait\<close>: the master hears from everybody before it answers anybody.\<close>

fun read_all :: "'k reader \<Rightarrow> 'k list \<Rightarrow> 'k list option" where
  "read_all rd [] = Some []"
| "read_all rd (k # ks) = do { (n, e, b, k1) \<leftarrow> ReadFull rd [0] k; ks1 \<leftarrow> read_all rd ks; Some (k1 # ks1) }"

fun write_all :: "'k writer \<Rightarrow> 'k list \<Rightarrow> 'k list option" where
  "write_all wr [] = Some []"
| "write_all wr (k # ks) = do { (n, e, k1) \<leftarrow> WriteFull wr [0] k; ks1 \<leftarrow> write_all wr ks; Some (k1 # ks1) }"

definition NetBarrier_Wait :: "'k reader \<Rightarrow> 'k writer \<Rightarrow> 'k netBarrier \<Rightarrow> 'k netBarrier option" where
  "NetBarrier_Wait rd wr nb =
     (if nbIsMaster nb then do {
        ks \<leftarrow> read_all rd (nbConns nb);
        ks1 \<leftarrow> write_all wr ks;
        Some (nb\<lparr>nbConns := ks1\<rparr>)
      } else do {
        k \<leftarrow> list_get (nbConns nb) 0;
        ks \<leftarrow> write_all wr [k];
        ks1 \<leftarrow> read_all rd ks;
        Some (nb\<lparr>nbConns := ks1\<rparr>)
      })"

text \<open>The end of an experiment: the throughput figures add up, the work units are appended.\<close>

definition merge_cstat :: "cStat \<Rightarrow> cStat \<Rightarrow> cStat" where
  "merge_cstat c p = c\<lparr>cOfferedRps := f_add (cOfferedRps c) (cOfferedRps p), cRps := f_add (cRps c) (cRps p),
     cCpuBoundWorkRps := f_add (cCpuBoundWorkRps c) (cCpuBoundWorkRps p),
     cMemBoundWorkRps := f_add (cMemBoundWorkRps c) (cMemBoundWorkRps p),
     cGoodput := f_add (cGoodput c) (cGoodput p), cECreditRxPps := f_add (cECreditRxPps c) (cECreditRxPps p),
     cCUpdateTxPps := f_add (cCUpdateTxPps c) (cCUpdateTxPps p),
     cCreditExpiredCps := f_add (cCreditExpiredCps c) (cCreditExpiredCps p),
     cRespRxPps := f_add (cRespRxPps c) (cRespRxPps p), cReqTxPps := f_add (cReqTxPps c) (cReqTxPps p),
     cReqDroppedRps := f_add (cReqDroppedRps c) (cReqDroppedRps p)\<rparr>"

definition cStat_size :: nat where "cStat_size = 248"

fun collect_cstats :: "'k reader \<Rightarrow> (byte list \<Rightarrow> cStat) \<Rightarrow> 'k list \<Rightarrow> cStat \<Rightarrow> (cStat \<times> 'k list) option" where
  "collect_cstats rd decC [] c = Some (c, [])"
| "collect_cstats rd decC (k # ks) c = do {
     (n, e, bs, k1) \<leftarrow> ReadFull rd (replicate cStat_size 0) k;
     (c1, ks1) \<leftarrow> collect_cstats rd decC ks (merge_cstat c (decC bs));
     Some (c1, k1 # ks1)
   }"

fun collect_units ::
  "'k reader \<Rightarrow> (byte list \<Rightarrow> workUnit list option) \<Rightarrow> 'k list \<Rightarrow> workUnit list \<Rightarrow> (workUnit list \<times> 'k list) option" where
  "collect_units rd decU [] us = Some (us, [])"
| "collect_units rd decU (k # ks) us = do {
     (n, e, bs, k1) \<leftarrow> ReadFull rd (replicate 8 0) k;
     if int_of_bytes bs < 0 then None
     else do {
       (n2, e2, ser, k2) \<leftarrow> ReadFull rd (replicate (nat (int_of_bytes bs)) 0) k1;
       peer \<leftarrow> decU ser;
       (us1, ks1) \<leftarrow> collect_units rd decU ks (us @ peer);
       Some (us1, k2 # ks1)
     }
   }"

definition EndExperiment ::
  "'k reader \<Rightarrow> 'k writer \<Rightarrow> (byte list \<Rightarrow> cStat) \<Rightarrow> (cStat \<Rightarrow> byte list) \<Rightarrow> (byte list \<Rightarrow> workUnit list option) \<Rightarrow>
   (workUnit list \<Rightarrow> byte list) \<Rightarrow> cStat \<Rightarrow> workUnit list \<Rightarrow> 'k netBarrier \<Rightarrow> (cStat \<times> workUnit list \<times> 'k netBarrier) option" where
  "EndExperiment rd wr decC encC decU encU c us nb =
     (if nbIsMaster nb then do {
        (c1, ks) \<leftarrow> collect_cstats rd decC (nbConns nb) c;
        (us1, ks1) \<leftarrow> collect_units rd decU ks us;
        Some (c1, us1, nb\<lparr>nbConns := ks1\<rparr>)
      } else do {
        k \<leftarrow> list_get (nbConns nb) 0;
        (n1, e1, k1) \<leftarrow> WriteFull wr (encC c) k;
        (n2, e2, k2) \<leftarrow> WriteFull wr (int_bytes (int (length (encU us)))) k1;
        (n3, e3, k3) \<leftarrow> WriteFull wr (encU us) k2;
        Some (c, us, nb\<lparr>nbConns := (nbConns nb)[0 := k3]\<rparr>)
      })"

definition NetBarrier_Close :: "('k \<Rightarrow> 'k) \<Rightarrow> 'k netBarrier \<Rightarrow> 'k list" where
  "NetBarrier_Close cl nb = map cl (nbConns nb)"

section \<open>Throughput\<close>

record connCounts =
  nOffered :: u64
  nResps :: u64
  nGoodResps :: u64
  nCpuBoundWorkResps :: u64
  nMemBoundWorkResps :: u64
  nClientDropped :: u64

definition zero_counts :: connCounts where
  "zero_counts = \<lparr>nOffered = 0, nResps = 0, nGoodResps = 0, nCpuBoundWorkResps = 0, nMemBoundWorkResps = 0, nClientDropped = 0\<rparr>"

definition before_warmup :: "workUnit \<Rightarrow> bool" where
  "before_warmup p \<longleftrightarrow> f_less (f_add (wuSchedStartUs p) (wuDurationUs p)) (f_of_int WarmUpTimeUs)"

definition no_duration :: "workUnit \<Rightarrow> bool" where
  "no_duration p \<longleftrightarrow> f_zero (wuDurationUs p)"

definition conn_stats :: "int \<Rightarrow> workUnit list \<Rightarrow> connCounts \<Rightarrow> workUnit list \<times> connCounts" where
  "conn_stats slo us n = (
     let us1 = fst (RemoveIf us before_warmup);
         offered = nOffered n + of_nat (length us1);
         (us2, dropped) = RemoveIf us1 no_duration
     in (us2, n\<lparr>nOffered := offered, nClientDropped := nClientDropped n + dropped,
           nResps := nResps n + CountIf us2 wuIsSuccess,
           nGoodResps := nGoodResps n + CountIf us2 (\<lambda>p. wuIsSuccess p \<and> f_less (wuDurationUs p) (f_of_int slo)),
           nCpuBoundWorkResps := nCpuBoundWorkResps n + CountIf us2 (\<lambda>p. wuIsSuccess p \<and> wuIsCpuBoundReq p),
           nMemBoundWorkResps := nMemBoundWorkResps n + CountIf us2 (\<lambda>p. wuIsSuccess p \<and> \<not> wuIsCpuBoundReq p)\<rparr>))"

fun all_conn_stats :: "int \<Rightarrow> workUnit list list \<Rightarrow> connCounts \<Rightarrow> workUnit list list \<times> connCounts" where
  "all_conn_stats slo [] n = ([], n)"
| "all_conn_stats slo (us # uss) n = (
     let (us1, n1) = conn_stats slo us n; (uss1, n2) = all_conn_stats slo uss n1 in (us1 # uss1, n2))"

definition elapsed_s :: "u64 \<Rightarrow> u64 \<Rightarrow> float64" where
  "elapsed_s startUs finishUs = f_div (f_of_u64 (finishUs - startUs - i2u WarmUpTimeUs)) (FFin 1000000)"

definition throughput :: "float64 \<Rightarrow> connCounts \<Rightarrow> cStat \<Rightarrow> cStat" where
  "throughput elapsed n c = c\<lparr>cOfferedRps := f_div (f_of_u64 (nOffered n)) elapsed, cRps := f_div (f_of_u64 (nResps n)) elapsed,
     cGoodput := f_div (f_of_u64 (nGoodResps n)) elapsed,
     cCpuBoundWorkRps := f_div (f_of_u64 (nCpuBoundWorkResps n)) elapsed,
     cMemBoundWorkRps := f_div (f_of_u64 (nMemBoundWorkResps n)) elapsed,
     cReqDroppedRps := f_div (f_of_u64 (nClientDropped n)) elapsed\<rparr>"

text \<open>
  The RPC layer's figures; \<open>ReqTxPps\<close> is divided without ever having been set.  The source closes each
  connection (\<open>RpcClose_stop\<close>, \<open>RpcClose_free\<close>) right after reading its figures.
\<close>

definition rpc_throughput :: "float64 \<Rightarrow> ('a, 'k) rpcClient list \<Rightarrow> cStat \<Rightarrow> cStat" where
  "rpc_throughput elapsed conns c = (
     let eCreditRx = foldl (\<lambda>n x. n + RpcStatECreditRx x) 0 conns;
         cUpdateTx = foldl (\<lambda>n x. n + RpcStatCUpdateTx x) 0 conns;
         creditExpired = foldl (\<lambda>n x. n + RpcStatCreditExpired x) 0 conns;
         respRx = foldl (\<lambda>n x. n + RpcStatRespRx x) 0 conns;
         reqTx = foldl (\<lambda>n x. n + RpcStatReqTx x) 0 conns
     in c\<lparr>cECreditRxPps := f_div (f_of_u64 eCreditRx) elapsed, cCUpdateTxPps := f_div (f_of_u64 cUpdateTx) elapsed,
          cCreditExpiredCps := f_div (f_of_u64 creditExpired) elapsed, cRespRxPps := f_div (f_of_u64 respRx) elapsed,
          cReqTxPps := f_div (cReqTxPps c) elapsed\<rparr>)"

section \<open>Latency\<close>

definition list_at :: "'a list \<Rightarrow> u64 \<Rightarrow> 'a option" where "list_at xs i = list_get xs (unat i)"

text \<open>The three percentiles of a sorted class; a class without units keeps its zeros.\<close>

definition percentiles :: "(workUnit \<Rightarrow> float64) \<Rightarrow> workUnit list \<Rightarrow> u64 \<Rightarrow> float64 \<times> float64 \<times> float64 \<Rightarrow> (float64 \<times> float64 \<times> float64) option" where
  "percentiles key us len old =
     (if 0 < len then do {
        a \<leftarrow> list_at us (len * 50 div 100);
        b \<leftarrow> list_at us (len * 90 div 100);
        c \<leftarrow> list_at us (len * 99 div 100);
        Some (key a, key b, key c)
      } else Some old)"

definition class_of :: "(workUnit \<Rightarrow> bool) \<Rightarrow> workUnit list \<Rightarrow> workUnit list \<times> u64" where
  "class_of pred us = (fst (CopyIf [] us pred), CountIf us pred)"

definition mean_of :: "(workUnit \<Rightarrow> float64) \<Rightarrow> workUnit list \<Rightarrow> float64 \<Rightarrow> float64" where
  "mean_of key us n = f_div (Accumulate us (FFin 0) (\<lambda>acc p. f_add acc (key p))) n"

definition by_duration :: "workUnit \<Rightarrow> workUnit \<Rightarrow> bool" where
  "by_duration a b \<longleftrightarrow> f_less (wuDurationUs a) (wuDurationUs b)"

definition by_work :: "workUnit \<Rightarrow> workUnit \<Rightarrow> bool" where
  "by_work a b \<longleftrightarrow> wuWorkUs a < wuWorkUs b"

definition work_us :: "workUnit \<Rightarrow> float64" where "work_us p = f_of_u64 (wuWorkUs p)"

definition overall_latency :: "workUnit list \<Rightarrow> cStat \<Rightarrow> cStat option" where
  "overall_latency us c = (let n = length us in
     if 0 < n then do {
       mn \<leftarrow> list_get us 0;
       p50 \<leftarrow> list_get us (n * 50 div 100);
       p90 \<leftarrow> list_get us (n * 90 div 100);
       p99 \<leftarrow> list_get us (n * 99 div 100);
       mx \<leftarrow> list_get us (n - 1);
       Some (c\<lparr>cMinDurationUs := wuDurationUs mn, cMeanDurationUs := mean_of wuDurationUs us (f_of_int (int n)),
               cP50DurationUs := wuDurationUs p50, cP90DurationUs := wuDurationUs p90, cP99DurationUs := wuDurationUs p99,
               cMaxDurationUs := wuDurationUs mx\<rparr>)
     } else Some c)"

definition service_times :: "workUnit list \<Rightarrow> cStat \<Rightarrow> cStat option" where
  "service_times us c = do {
     let (cpu, ncpu) = class_of wuIsCpuBoundReq us;
     pc \<leftarrow> percentiles work_us cpu ncpu (cCpuStUs c);
     let (mem, nmem) = class_of (\<lambda>p. \<not> wuIsCpuBoundReq p) us;
     pm \<leftarrow> percentiles work_us mem nmem (cMemStUs c);
     Some (c\<lparr>cCpuStUs := pc, cAvgCpuStUs := (if 0 < ncpu then mean_of work_us cpu (f_of_u64 ncpu) else cAvgCpuStUs c),
             cMemStUs := pm, cAvgMemStUs := (if 0 < nmem then mean_of work_us mem (f_of_u64 nmem) else cAvgMemStUs c)\<rparr>)
   }"

text \<open>All latency figures, from the aggregated units to the service times; \<open>srt\<close> is \<open>sort.Slice\<close>.\<close>

definition latency_stats ::
  "((workUnit \<Rightarrow> workUnit \<Rightarrow> bool) \<Rightarrow> workUnit list \<Rightarrow> workUnit list) \<Rightarrow> workUnit list \<Rightarrow> cStat \<Rightarrow> cStat option" where
  "latency_stats srt units c = do {
     let us = srt by_duration (fst (RemoveIf units (\<lambda>p. \<not> wuIsSuccess p)));
     let (cpu, ncpu) = class_of wuIsCpuBoundReq us;
     pc \<leftarrow> percentiles wuDurationUs cpu ncpu (cCpuDurationUs c);
     let (mem, nmem) = class_of (\<lambda>p. \<not> wuIsCpuBoundReq p) us;
     pm \<leftarrow> percentiles wuDurationUs mem nmem (cMemDurationUs c);
     c1 \<leftarrow> overall_latency us (c\<lparr>cCpuDurationUs := pc, cMemDurationUs := pm\<rparr>);
     service_times (srt by_work us) c1
   }"

section \<open>Server statistics\<close>

definition ReadRpcServerStat ::
  "'k reader \<Rightarrow> 'k writer \<Rightarrow> (byte list \<Rightarrow> netbenchStatResp) \<Rightarrow> 'k option \<Rightarrow> (netbenchStatResp \<times> 'k) option" where
  "ReadRpcServerStat rd wr decS dial = do {
     k \<leftarrow> dial;
     (n1, e1, k1) \<leftarrow> WriteFull wr (le_bytes 8 (unat NetbenchStatReqMagic)) k;
     if e1 \<noteq> None then None
     else do {
       (n2, e2, bs, k2) \<leftarrow> ReadFull rd (replicate 80 0) k1;
       if e2 \<noteq> None then None else Some (decS bs, k2)
     }
   }"

definition server_stats :: "float64 \<Rightarrow> netbenchStatResp \<Rightarrow> netbenchStatResp \<Rightarrow> sStat" where
  "server_stats elapsed s0 s1 = \<lparr>
     sCpuUsage = f_div (f_of_u64 (srBusy s1 - srBusy s0)) (f_of_u64 (srTotal s1 - srTotal s0)),
     sMembwUsage = f_div (f_of_u64 (srMemAccesses s1 - srMemAccesses s0)) elapsed,
     sPowerUsage = f_div (f_sub (srEnergyConsumed s1) (srEnergyConsumed s0)) elapsed,
     sCUpdateRxPps = f_div (f_of_u64 (srCUpdateRx s1 - srCUpdateRx s0)) elapsed,
     sECreditTxPps = f_div (f_of_u64 (srECreditTx s1 - srECreditTx s0)) elapsed,
     sCreditTxCps = f_div (f_of_u64 (srCreditTx s1 - srCreditTx s0)) elapsed,
     sReqRxPps = f_div (f_of_u64 (srReqRx s1 - srReqRx s0)) elapsed,
     sRespTxPps = f_div (f_of_u64 (srRespTx s1 - srRespTx s0)) elapsed,
     sReqDropRate = f_div (f_of_u64 (srReqDropped s1 - srReqDropped s0)) (f_of_u64 (srReqRx s1 - srReqRx s0))\<rparr>"

text \<open>
  A client's part of the evaluation: counts, rates and the flattened units that go into the barrier,
  given the tables of all connections at the end.
\<close>

definition client_evaluation ::
  "ncSettings \<Rightarrow> u64 \<Rightarrow> u64 \<Rightarrow> workUnit list list \<Rightarrow> ('a, 'k) rpcClient list \<Rightarrow> cStat \<times> workUnit list" where
  "client_evaluation g startUs finishUs uss conns = (
     let elapsed = elapsed_s startUs finishUs;
         (uss1, n) = all_conn_stats (stSlo g) uss zero_counts
     in (rpc_throughput elapsed conns (throughput elapsed n zero_cstat), concat uss1))"

text \<open>
  The row \<open>PrintStats\<close> appends to the result file, given the formats \<open>%d\<close> and \<open>%.3f\<close>.
\<close>

definition csv_values :: "cStat \<Rightarrow> sStat \<Rightarrow> float64 list" where
  "csv_values c s = (case (cCpuDurationUs c, cMemDurationUs c, cCpuStUs c, cMemStUs c) of
     ((c50, c90, c99), (m50, m90, m99), (cs50, cs90, cs99), (ms50, ms90, ms99)) \<Rightarrow>
     [cOfferedRps c, cRps c, cCpuBoundWorkRps c, cMemBoundWorkRps c, cGoodput c,
      sCpuUsage s, sMembwUsage s, sPowerUsage s, cMinDurationUs c, cMeanDurationUs c,
      cP50DurationUs c, c50, m50, cP90DurationUs c, c90, m90, cP99DurationUs c, c99, m99, cMaxDurationUs c,
      cs50, cs90, cs99, cAvgCpuStUs c, ms50, ms90, ms99, cAvgMemStUs c,
      cECreditRxPps c, cCUpdateTxPps c, cCreditExpiredCps c, cRespRxPps c, cReqTxPps c, cReqDroppedRps c,
      sCUpdateRxPps s, sECreditTxPps s, sCreditTxCps s, sReqRxPps s, sRespTxPps s, sReqDropRate s])"

definition PrintStats :: "(int \<Rightarrow> string) \<Rightarrow> (float64 \<Rightarrow> string) \<Rightarrow> ncSettings \<Rightarrow> cStat \<Rightarrow> sStat \<Rightarrow> string" where
  "PrintStats fmtD fmtF g c s =
     fmtD (goint (stNumConns g * stNumAgents g)) @ concat (map (\<lambda>v. CHR '','' # fmtF v) (csv_values c s)) @ [CHR 0x0A]"

text \<open>
  The end of \<open>RunExperiment\<close>, from the moment all workers are done: the row a master prints, nothing for
  the other clients.  \<open>s0\<close> and \<open>s1\<close> are the two snapshots of the server.
\<close>

definition RunExperiment_finish ::
  "'k reader \<Rightarrow> 'k writer \<Rightarrow> (byte list \<Rightarrow> cStat) \<Rightarrow> (cStat \<Rightarrow> byte list) \<Rightarrow> (byte list \<Rightarrow> workUnit list option) \<Rightarrow>
   (workUnit list \<Rightarrow> byte list) \<Rightarrow> ((workUnit \<Rightarrow> workUnit \<Rightarrow> bool) \<Rightarrow> workUnit list \<Rightarrow> workUnit list) \<Rightarrow> (int \<Rightarrow> string) \<Rightarrow>
   (float64 \<Rightarrow> string) \<Rightarrow> ncSettings \<Rightarrow> u64 \<Rightarrow> u64 \<Rightarrow> workUnit list list \<Rightarrow> ('a, 'c) rpcClient list \<Rightarrow> netbenchStatResp \<Rightarrow>
   netbenchStatResp \<Rightarrow> 'k netBarrier \<Rightarrow> (string option \<times> 'k netBarrier) option" where
  "RunExperiment_finish rd wr decC encC decU encU srt fmtD fmtF g startUs finishUs uss conns s0 s1 nb = do {
     let (c, us) = client_evaluation g startUs finishUs uss conns;
     (c1, us1, nb1) \<leftarrow> EndExperiment rd wr decC encC decU encU c us nb;
     if \<not> stIsMasterClient g then Some (None, nb1)
     else do {
       c2 \<leftarrow> latency_stats srt us1 c1;
       Some (Some (PrintStats fmtD fmtF g c2 (server_stats (elapsed_s startUs finishUs) s0 s1)), nb1)
     }
   }"

text \<open>The client's command line.\<close>

record ncArgs =
  naClientType :: string
  naServerIP :: string
  naOvldCtlAlgo :: string
  naNumConns :: int
  naNumAgents :: int
  naSlo :: int
  naOfferedLoad :: float64
  naDurationS :: int
  naCpuPerc :: int
  naMasterClientIP :: string

definition client_settings :: "ncArgs \<Rightarrow> ncSettings \<Rightarrow> ncSettings option" where
  "client_settings x g =
     (if naClientType x = ''client'' then do {
        ty \<leftarrow> algo_of_name (naOvldCtlAlgo x);
        Some (g\<lparr>stIsMasterClient := True, stServerIP := naServerIP x, stOvldCtlAlgo := ty, stNumConns := naNumConns x,
                stNumAgents := naNumAgents x, stSlo := naSlo x, stOfferedLoad := naOfferedLoad x,
                stDurationS := naDurationS x, stCpuBoundWorkPerc := naCpuPerc x\<rparr>)
      }
      else if naClientType x = ''agent'' then Some (g\<lparr>stIsMasterClient := False, stMasterClientIP := naMasterClientIP x\<rparr>)
      else None)"

section \<open>Accounting\<close>

lemma slice_eqs:
  "fst (RemoveIf s pred) = filter (\<lambda>x. \<not> pred x) s" "snd (RemoveIf s pred) = of_nat (length (filter pred s))"
  "fst (CopyIf dst s pred) = dst @ filter pred s" "CountIf s pred = of_nat (length (filter pred s))"
  using SelectIf_loop_filter [of 0 0 s "\<lambda>x. \<not> pred x" 0]
    RemoveIf_loop_SelectIf [of 0 0 s pred 0 0] CopyIf_loop_filter [of pred dst s 0] CountIf_loop_filter [of pred s 0]
  by (simp_all add: RemoveIf_def CopyIf_def CountIf_def)

text \<open>The counts as natural numbers, over the units of all connections after the warm-up.\<close>

definition counted :: "workUnit list list \<Rightarrow> workUnit list" where
  "counted uss = filter (\<lambda>p. \<not> before_warmup p) (concat uss)"

lemma all_conn_stats_exact:
  "all_conn_stats slo uss n = (uss', n') \<Longrightarrow>
    concat uss' = filter (\<lambda>p. \<not> no_duration p) (counted uss) \<and>
    nOffered n' = nOffered n + of_nat (length (counted uss)) \<and>
    nClientDropped n' = nClientDropped n + of_nat (length (filter no_duration (counted uss))) \<and>
    nResps n' = nResps n + of_nat (length (filter wuIsSuccess (concat uss'))) \<and>
    nGoodResps n' = nGoodResps n +
      of_nat (length (filter (\<lambda>p. wuIsSuccess p \<and> f_less (wuDurationUs p) (f_of_int slo)) (concat uss'))) \<and>
    nCpuBoundWorkResps n' = nCpuBoundWorkResps n + of_nat (length (filter (\<lambda>p. wuIsSuccess p \<and> wuIsCpuBoundReq p) (concat uss'))) \<and>
    nMemBoundWorkResps n' = nMemBoundWorkResps n + of_nat (length (filter (\<lambda>p. wuIsSuccess p \<and> \<not> wuIsCpuBoundReq p) (concat uss')))"
proof (induction uss arbitrary: n uss' n')
  case Nil
  then show ?case by (simp add: counted_def)
next
  case (Cons us uss)
  from Cons(2) obtain us1 n1 uss1 where
    c: "conn_stats slo us n = (us1, n1)" "all_conn_stats slo uss n1 = (uss1, n')" "uss' = us1 # uss1"
    by (auto simp: Let_def split: prod.splits)
  have s: "us1 = filter (\<lambda>p. \<not> no_duration p) (filter (\<lambda>p. \<not> before_warmup p) us)"
    "n1 = snd (conn_stats slo us n)" using c(1) by (simp_all add: conn_stats_def Let_def slice_eqs case_prod_beta)
  show ?case using Cons(1) [OF c(2)]
    unfolding c(3) s by (simp add: conn_stats_def Let_def slice_eqs case_prod_beta counted_def del: filter_filter)
qed

lemma filter_split: "length (filter (\<lambda>p. P p \<and> Q p) xs) + length (filter (\<lambda>p. P p \<and> \<not> Q p) xs) = length (filter P xs)"
  by (induction xs) auto

text \<open>
  The figures of a client are consistent: every answered request is CPU-bound or memory-bound, answers
  in time are answers, and offered requests are the answered, the dropped and the lost ones.
\<close>

theorem netbench_accounting:
  assumes "all_conn_stats slo uss zero_counts = (uss', n)" "length (concat uss) < 2 ^ 64"
  shows "unat (nResps n) = unat (nCpuBoundWorkResps n) + unat (nMemBoundWorkResps n) \<and>
    unat (nGoodResps n) \<le> unat (nResps n) \<and>
    unat (nOffered n) = unat (nClientDropped n) + length (concat uss') \<and> unat (nResps n) \<le> length (concat uss')"
proof -
  note e = all_conn_stats_exact [OF assms(1)]
  have le: "length (counted uss) < 2 ^ 64"
    using assms(2) length_filter_le [of "\<lambda>p. \<not> before_warmup p" "concat uss"] unfolding counted_def by linarith
  have bound: "length (filter P (concat uss')) < 2 ^ 64" "length (filter P (counted uss)) < 2 ^ 64" for P
  proof -
    show c: "length (filter P (counted uss)) < 2 ^ 64" for P
      using le length_filter_le [of P "counted uss"] by linarith
    have "length (filter P (concat uss')) \<le> length (concat uss')" by (rule length_filter_le)
    also have "\<dots> < 2 ^ 64" using e c [of "\<lambda>p. \<not> no_duration p"] by simp
    finally show "length (filter P (concat uss')) < 2 ^ 64" .
  qed
  have good: "length (filter (\<lambda>p. P p \<and> Q p) xs) \<le> length (filter P xs)" for P Q and xs :: "workUnit list"
    by (induction xs) auto
  have "length (concat uss') = length (filter (\<lambda>p. \<not> no_duration p) (counted uss))" using e by simp
  then have "length (counted uss) = length (filter no_duration (counted uss)) + length (concat uss')"
    using sum_length_filter_compl [of no_duration "counted uss"] by simp
  moreover have "unat (nOffered n) = length (counted uss)" "unat (nClientDropped n) = length (filter no_duration (counted uss))"
    "unat (nResps n) = length (filter wuIsSuccess (concat uss'))"
    "unat (nGoodResps n) = length (filter (\<lambda>p. wuIsSuccess p \<and> f_less (wuDurationUs p) (f_of_int slo)) (concat uss'))"
    "unat (nCpuBoundWorkResps n) = length (filter (\<lambda>p. wuIsSuccess p \<and> wuIsCpuBoundReq p) (concat uss'))"
    "unat (nMemBoundWorkResps n) = length (filter (\<lambda>p. wuIsSuccess p \<and> \<not> wuIsCpuBoundReq p) (concat uss'))"
    using e bound le by (simp_all add: zero_counts_def unat_of_nat_64 del: filter_filter)
  ultimately show ?thesis
    using good [of wuIsSuccess _ "concat uss'"] filter_split [of wuIsSuccess wuIsCpuBoundReq "concat uss'"]
      length_filter_le [of wuIsSuccess "concat uss'"] by simp
qed

text \<open>
  The rate of requests sent is lost: whatever the connections counted, the figure is the quotient of
  zero, so it is zero (or NaN for an experiment of no time).
\<close>

theorem ReqTxPps_lost:
  "cReqTxPps (fst (client_evaluation g startUs finishUs uss conns)) = f_div (FFin 0) (elapsed_s startUs finishUs)"
  by (simp add: client_evaluation_def Let_def rpc_throughput_def throughput_def zero_cstat_def split: prod.split)

section \<open>Order statistics\<close>

text \<open>
  The contract of \<open>sort.Slice\<close>: a permutation, in ascending order when \<open>less\<close> compares keys.  Equal
  elements may come in any order.
\<close>

locale slice_sort =
  fixes srt :: "('a \<Rightarrow> 'a \<Rightarrow> bool) \<Rightarrow> 'a list \<Rightarrow> 'a list"
  assumes srt_perm: "mset (srt lt xs) = mset xs"
    and srt_ordered: "(\<And>a b. a \<in> set xs \<Longrightarrow> b \<in> set xs \<Longrightarrow> lt a b \<longleftrightarrow> key a < (key b :: rat)) \<Longrightarrow> sorted (map key (srt lt xs))"
begin

lemma srt_set: "set (srt lt xs) = set xs"
  using srt_perm [of lt xs] by (metis set_mset_mset)

lemma srt_class:
  assumes "\<And>a b. a \<in> set xs \<Longrightarrow> b \<in> set xs \<Longrightarrow> lt a b \<longleftrightarrow> key a < (key b :: rat)"
  shows "map key (filter P (srt lt xs)) = sort (map key (filter P xs))"
proof (rule properties_for_sort [symmetric])
  show "mset (map key (filter P (srt lt xs))) = mset (map key (filter P xs))" by (simp add: srt_perm)
  show "sorted (map key (filter P (srt lt xs)))" by (rule sorted_filter) (rule srt_ordered [OF assms])
qed

lemma srt_class_word:
  assumes "\<And>a b. lt a b \<longleftrightarrow> key a < (key b :: u64)" "mset xs = mset ys"
  shows "map key (filter P (srt lt xs)) = sort (map key (filter P ys))"
proof (rule properties_for_sort [symmetric])
  show "mset (map key (filter P (srt lt xs))) = mset (map key (filter P ys))" using assms(2) by (simp add: srt_perm)
  have "sorted (map (\<lambda>a. of_int (uint (key a)) :: rat) (srt lt xs))"
    by (rule srt_ordered) (simp only: assms(1) word_less_def of_int_less_iff)
  then have "sorted (map key (srt lt xs))" by (simp only: sorted_map word_le_def of_int_le_iff)
  then show "sorted (map key (filter P (srt lt xs)))" by (rule sorted_filter)
qed

end

fun insert_by :: "('a \<Rightarrow> 'a \<Rightarrow> bool) \<Rightarrow> 'a \<Rightarrow> 'a list \<Rightarrow> 'a list" where
  "insert_by lt x [] = [x]"
| "insert_by lt x (y # ys) = (if lt y x then y # insert_by lt x ys else x # y # ys)"

definition insertion_sort :: "('a \<Rightarrow> 'a \<Rightarrow> bool) \<Rightarrow> 'a list \<Rightarrow> 'a list" where
  "insertion_sort lt xs = foldr (insert_by lt) xs []"

lemma insert_by_mset [simp]: "mset (insert_by lt x ys) = add_mset x (mset ys)"
  by (induction ys) auto

lemma insertion_sort_mset [simp]: "mset (insertion_sort lt xs) = mset xs"
  by (induction xs) (auto simp: insertion_sort_def)

lemma insert_by_key:
  assumes "\<And>y. y \<in> set ys \<Longrightarrow> lt y x \<longleftrightarrow> key y < (key x :: rat)"
  shows "map key (insert_by lt x ys) = insort (key x) (map key ys)"
  using assms by (induction ys) (auto simp: not_le)

lemma insertion_sort_key:
  assumes "\<And>a b. a \<in> set xs \<Longrightarrow> b \<in> set xs \<Longrightarrow> lt a b \<longleftrightarrow> key a < (key b :: rat)"
  shows "sorted (map key (insertion_sort lt xs))"
  using assms
proof (induction xs)
  case (Cons x xs)
  have s: "set (insertion_sort lt xs) = set xs" by (metis insertion_sort_mset set_mset_mset)
  have "map key (insertion_sort lt (x # xs)) = insort (key x) (map key (insertion_sort lt xs))"
    using Cons(2) s by (simp add: insertion_sort_def) (rule insert_by_key, auto simp: insertion_sort_def)
  then show ?case using Cons by (simp add: sorted_insort)
qed (simp add: insertion_sort_def)

interpretation isrt: slice_sort insertion_sort
  by unfold_locales (simp_all add: insertion_sort_key)

text \<open>The element of a sorted list that counts as its q-th percentile.\<close>

definition pct :: "'a list \<Rightarrow> nat \<Rightarrow> 'a" where "pct xs q = xs ! (length xs * q div 100)"

definition three :: "('a \<Rightarrow> float64) \<Rightarrow> 'a list \<Rightarrow> float64 \<times> float64 \<times> float64" where
  "three f xs = (if xs = [] then (FFin 0, FFin 0, FFin 0) else (f (pct xs 50), f (pct xs 90), f (pct xs 99)))"

lemma pct_index: "n < 2 ^ 50 \<Longrightarrow> q \<le> 99 \<Longrightarrow> unat (of_nat n * of_nat q div 100 :: u64) = n * q div 100"
proof -
  assume n: "n < 2 ^ 50" "q \<le> 99"
  then have "n * q \<le> 2 ^ 50 * 99" by (intro mult_mono) simp_all
  then have "n * q < 2 ^ 64" by simp
  moreover have "(of_nat n * of_nat q :: u64) = of_nat (n * q)" by simp
  ultimately show ?thesis by (simp only: unat_div unat_of_nat_64) simp
qed

lemma pct_less: "0 < n \<Longrightarrow> q \<le> 99 \<Longrightarrow> n * q div 100 < (n :: nat)"
  by (simp add: div_less_iff_less_mult)

lemma percentiles_exact:
  assumes "\<And>p. p \<in> set us \<Longrightarrow> key p = f (k p)" "length us < 2 ^ 50"
  shows "percentiles key us (of_nat (length us)) (FFin 0, FFin 0, FFin 0) = Some (three f (map k us))"
proof (cases "us = []")
  case True
  then show ?thesis by (simp add: percentiles_def three_def)
next
  case False
  then have n0: "0 < length us" by simp
  have pos: "(0 :: u64) < of_nat (length us)" using n0 assms(2) by (simp add: word_less_nat_alt unat_of_nat_64)
  have at: "list_at us (of_nat (length us) * of_nat q div 100) = Some (us ! (length us * q div 100))" if "q \<le> 99" for q
    using pct_index [OF assms(2) that] pct_less [OF n0 that] by (simp add: list_at_def list_get_def)
  have key: "key (us ! (length us * q div 100)) = f (pct (map k us) q)" if "q \<le> 99" for q
    using pct_less [OF n0 that] assms(1) [of "us ! (length us * q div 100)"] by (simp add: pct_def)
  show ?thesis using False pos at [of 50] at [of 90] at [of 99] key [of 50] key [of 90] key [of 99]
    by (simp add: percentiles_def three_def)
qed

lemma overall_exact:
  assumes "\<And>p. p \<in> set us \<Longrightarrow> wuDurationUs p = FFin (d p)" "us \<noteq> []"
  shows "overall_latency us c = Some (c\<lparr>cMinDurationUs := FFin (d (us ! 0)),
    cMeanDurationUs := mean_of wuDurationUs us (f_of_int (int (length us))), cP50DurationUs := FFin (pct (map d us) 50),
    cP90DurationUs := FFin (pct (map d us) 90), cP99DurationUs := FFin (pct (map d us) 99),
    cMaxDurationUs := FFin (d (us ! (length us - 1)))\<rparr>)"
proof -
  have n: "0 < length us" using assms(2) by simp
  have at: "wuDurationUs (us ! i) = FFin (d (us ! i))" if "i < length us" for i using assms(1) that by simp
  show ?thesis using n pct_less [OF n, of 50] pct_less [OF n, of 90] pct_less [OF n, of 99]
    by (simp add: overall_latency_def Let_def list_get_def at pct_def)
qed

lemma overall_cases:
  assumes fin: "\<And>p. p \<in> set us \<Longrightarrow> wuDurationUs p = FFin (d p)" and ds: "map d us = ds"
    and z: "(cMinDurationUs c, cMaxDurationUs c) = (FFin 0, FFin 0)"
      "(cP50DurationUs c, cP90DurationUs c, cP99DurationUs c) = (FFin 0, FFin 0, FFin 0)"
  shows "\<exists>c1. overall_latency us c = Some c1 \<and> cCpuStUs c1 = cCpuStUs c \<and> cMemStUs c1 = cMemStUs c \<and>
    cCpuDurationUs c1 = cCpuDurationUs c \<and> cMemDurationUs c1 = cMemDurationUs c \<and>
    (cMinDurationUs c1, cMaxDurationUs c1) = (if us = [] then (FFin 0, FFin 0) else (FFin (ds ! 0), FFin (ds ! (length ds - 1)))) \<and>
    (cP50DurationUs c1, cP90DurationUs c1, cP99DurationUs c1) = three FFin ds"
proof (cases "us = []")
  case True
  then show ?thesis using z ds by (auto simp: overall_latency_def three_def)
next
  case False
  have "overall_latency us c = Some (c\<lparr>cMinDurationUs := FFin (d (us ! 0)),
    cMeanDurationUs := mean_of wuDurationUs us (f_of_int (int (length us))), cP50DurationUs := FFin (pct (map d us) 50),
    cP90DurationUs := FFin (pct (map d us) 90), cP99DurationUs := FFin (pct (map d us) 99),
    cMaxDurationUs := FFin (d (us ! (length us - 1)))\<rparr>)" (is "_ = Some ?c")
    by (rule overall_exact) (use fin False in auto)
  then show ?thesis unfolding ds [symmetric] using False by (intro exI [of _ ?c]) (simp add: three_def)
qed

lemma class_of_eq: "class_of pred us = (filter pred us, of_nat (length (filter pred us)))"
  by (simp add: class_of_def slice_eqs)

lemma service_exact:
  assumes "length us < 2 ^ 50" "cCpuStUs c = (FFin 0, FFin 0, FFin 0)" "cMemStUs c = (FFin 0, FFin 0, FFin 0)"
  shows "\<exists>c'. service_times us c = Some c' \<and> cCpuStUs c' = three f_of_u64 (map wuWorkUs (filter wuIsCpuBoundReq us)) \<and>
    cMemStUs c' = three f_of_u64 (map wuWorkUs (filter (\<lambda>p. \<not> wuIsCpuBoundReq p) us)) \<and>
    (cMinDurationUs c', cP50DurationUs c', cP90DurationUs c', cP99DurationUs c', cMaxDurationUs c', cCpuDurationUs c', cMemDurationUs c') =
    (cMinDurationUs c, cP50DurationUs c, cP90DurationUs c, cP99DurationUs c, cMaxDurationUs c, cCpuDurationUs c, cMemDurationUs c)"
proof -
  have "percentiles work_us (filter P us) (of_nat (length (filter P us))) (FFin 0, FFin 0, FFin 0) =
      Some (three f_of_u64 (map wuWorkUs (filter P us)))" for P
    using le_less_trans [OF length_filter_le assms(1)] by (intro percentiles_exact) (simp_all add: work_us_def)
  then show ?thesis using assms(2,3) by (simp add: service_times_def class_of_eq)
qed

text \<open>The latency fields are zero until the evaluation: nothing before it sets them.\<close>

definition fresh_latency :: "cStat \<Rightarrow> bool" where
  "fresh_latency c \<longleftrightarrow> (let z = (FFin 0, FFin 0, FFin 0) in
     (cMinDurationUs c, cMaxDurationUs c) = (FFin 0, FFin 0) \<and> (cP50DurationUs c, cP90DurationUs c, cP99DurationUs c) = z \<and>
     cCpuDurationUs c = z \<and> cMemDurationUs c = z \<and> cCpuStUs c = z \<and> cMemStUs c = z)"

lemma fresh_client: "fresh_latency (fst (client_evaluation g startUs finishUs uss conns))"
  by (simp add: fresh_latency_def client_evaluation_def rpc_throughput_def throughput_def zero_cstat_def Let_def split: prod.split)

lemma fresh_collect: "collect_cstats rd decC ks c = Some (c1, ks1) \<Longrightarrow> fresh_latency c \<Longrightarrow> fresh_latency c1"
proof (induction ks arbitrary: c c1 ks1)
  case (Cons k ks)
  from Cons(2) obtain n e bs k1 ks2 where "collect_cstats rd decC ks (merge_cstat c (decC bs)) = Some (c1, ks2)"
    by (auto simp: bind_eq_Some_conv)
  moreover have "fresh_latency (merge_cstat c (decC bs))" using Cons(3) by (simp add: fresh_latency_def merge_cstat_def Let_def)
  ultimately show ?case using Cons(1) by blast
qed simp

lemma fresh_end: "EndExperiment rd wr decC encC decU encU c us nb = Some (c1, us1, nb1) \<Longrightarrow> fresh_latency c \<Longrightarrow> fresh_latency c1"
  by (auto simp: EndExperiment_def bind_eq_Some_conv dest: fresh_collect split: if_splits)

text \<open>
  C40.  The latency figures of an experiment are the order statistics of the answered requests: for any
  \<open>sort.Slice\<close> (which is not stable), with all durations finite and fewer than 2^50 units, the
  evaluation returns, the overall minimum, percentiles and maximum are entries of the sorted durations
  at positions n*q/100, and likewise the percentiles of the durations and of the service times of the
  CPU-bound and of the memory-bound requests; a class without an answered request reports zeros.
\<close>

theorem netbench_latency:
  assumes "slice_sort srt" and fresh: "fresh_latency cs" and "\<forall>p\<in>set units. wuIsSuccess p \<longrightarrow> wuDurationUs p = FFin (d p)" "length units < 2 ^ 50"
  defines "ok \<equiv> filter wuIsSuccess units"
  defines "ds \<equiv> sort (map d ok)" and "cpu \<equiv> filter wuIsCpuBoundReq ok" and "mem \<equiv> filter (\<lambda>p. \<not> wuIsCpuBoundReq p) ok"
  shows "\<exists>c. latency_stats srt units cs = Some c \<and>
    (cMinDurationUs c, cMaxDurationUs c) = (if ok = [] then (FFin 0, FFin 0) else (FFin (ds ! 0), FFin (ds ! (length ds - 1)))) \<and>
    (cP50DurationUs c, cP90DurationUs c, cP99DurationUs c) = three FFin ds \<and>
    cCpuDurationUs c = three FFin (sort (map d cpu)) \<and> cMemDurationUs c = three FFin (sort (map d mem)) \<and>
    cCpuStUs c = three f_of_u64 (sort (map wuWorkUs cpu)) \<and> cMemStUs c = three f_of_u64 (sort (map wuWorkUs mem))"
proof -
  define us where "us = srt by_duration ok"
  define vs where "vs = srt by_work us"
  let ?z = "(FFin 0, FFin 0, FFin 0)"
  have st: "set us = set ok" "mset us = mset ok" "mset vs = mset us"
    unfolding us_def vs_def using slice_sort.srt_set [OF assms(1)] slice_sort.srt_perm [OF assms(1)] by auto
  have ln: "length us < 2 ^ 50" "length us = length ok" "length vs < 2 ^ 50"
    using st(2,3) [THEN mset_eq_length] le_less_trans [OF length_filter_le assms(4), of wuIsSuccess] by (auto simp: ok_def)
  have fin: "wuDurationUs p = FFin (d p)" if "p \<in> set us" for p using that st(1) assms(3) by (auto simp: ok_def)
  have lt: "by_duration a b \<longleftrightarrow> d a < d b" if "a \<in> set ok" "b \<in> set ok" for a b
    using that st(1) fin by (simp add: by_duration_def f_less_def f_val_def)
  have keys: "map d (filter P us) = sort (map d (filter P ok))" for P
    unfolding us_def by (rule slice_sort.srt_class [OF assms(1)]) (rule lt)
  have ds: "map d us = ds" using keys [of "\<lambda>_. True"] by (simp add: ds_def)
  have work: "map wuWorkUs (filter P vs) = sort (map wuWorkUs (filter P ok))" for P
    unfolding vs_def by (rule slice_sort.srt_class_word [OF assms(1) _ st(2)]) (simp add: by_work_def)
  have pc: "percentiles wuDurationUs (filter P us) (of_nat (length (filter P us))) ?z = Some (three FFin (sort (map d (filter P ok))))" for P
    unfolding keys [symmetric] using le_less_trans [OF length_filter_le ln(1)] fin by (intro percentiles_exact) auto
  define c0 where "c0 = cs\<lparr>cCpuDurationUs := three FFin (sort (map d cpu)), cMemDurationUs := three FFin (sort (map d mem))\<rparr>"
  have z: "(cMinDurationUs c0, cMaxDurationUs c0) = (FFin 0, FFin 0)" "(cP50DurationUs c0, cP90DurationUs c0, cP99DurationUs c0) = ?z"
    "cCpuStUs c0 = ?z" "cMemStUs c0 = ?z" "cCpuDurationUs c0 = three FFin (sort (map d cpu))" "cMemDurationUs c0 = three FFin (sort (map d mem))"
    using fresh by (simp_all add: c0_def fresh_latency_def Let_def)
  obtain c1 where c1: "overall_latency us c0 = Some c1" "cCpuStUs c1 = ?z" "cMemStUs c1 = ?z"
      "cCpuDurationUs c1 = three FFin (sort (map d cpu))" "cMemDurationUs c1 = three FFin (sort (map d mem))"
      "(cMinDurationUs c1, cMaxDurationUs c1) = (if us = [] then (FFin 0, FFin 0) else (FFin (ds ! 0), FFin (ds ! (length ds - 1))))"
      "(cP50DurationUs c1, cP90DurationUs c1, cP99DurationUs c1) = three FFin ds"
    using overall_cases [of us d ds c0, OF fin ds z(1,2)] unfolding z(3-6) by blast
  obtain c where "service_times vs c1 = Some c" "cCpuStUs c = three f_of_u64 (sort (map wuWorkUs cpu))"
      "cMemStUs c = three f_of_u64 (sort (map wuWorkUs mem))"
      "(cMinDurationUs c, cP50DurationUs c, cP90DurationUs c, cP99DurationUs c, cMaxDurationUs c, cCpuDurationUs c, cMemDurationUs c) =
       (cMinDurationUs c1, cP50DurationUs c1, cP90DurationUs c1, cP99DurationUs c1, cMaxDurationUs c1, cCpuDurationUs c1, cMemDurationUs c1)"
    using service_exact [OF ln(3) c1(2,3)] unfolding work cpu_def mem_def by blast
  moreover have "us = [] \<longleftrightarrow> ok = []" using ln(2) by (metis length_0_conv)
  moreover have "cCpuDurationUs cs = ?z" "cMemDurationUs cs = ?z" using fresh by (simp_all add: fresh_latency_def Let_def)
  then have "latency_stats srt units cs = overall_latency us c0 \<bind> service_times vs"
    by (simp add: latency_stats_def slice_eqs class_of_eq pc us_def [symmetric] vs_def [symmetric] ok_def [symmetric] c0_def
        cpu_def mem_def)
  ultimately show ?thesis using c1 by (intro exI [of _ c]) simp
qed

definition demo_unit :: "rat \<Rightarrow> u64 \<Rightarrow> bool \<Rightarrow> workUnit" where
  "demo_unit dur work cpu = \<lparr>wuIsSuccess = True, wuIsCpuBoundReq = cpu, wuSchedStartUs = FFin 0, wuStartUs = FFin 0,
     wuDurationUs = FFin dur, wuHash = 0, wuReq = \<lparr>nqMagic = 0, nqOpaque = 0, nqIsCpuBoundReq = cpu, nqHash = 0\<rparr>, wuWorkUs = work\<rparr>"

theorem netbench_latency_witness:
  "\<exists>c. latency_stats insertion_sort [demo_unit 9 4 True, demo_unit 3 6 True, demo_unit 5 2 False] zero_cstat = Some c \<and>
     cMinDurationUs c = FFin 3 \<and> cMaxDurationUs c = FFin 9 \<and> cP50DurationUs c = FFin 5"
proof -
  have "\<forall>p\<in>set [demo_unit 9 4 True, demo_unit 3 6 True, demo_unit 5 2 False].
      wuIsSuccess p \<longrightarrow> wuDurationUs p = FFin (f_val (wuDurationUs p))" by (simp add: demo_unit_def f_val_def)
  moreover have "fresh_latency zero_cstat" by (simp add: fresh_latency_def zero_cstat_def Let_def)
  ultimately show ?thesis using netbench_latency [OF isrt.slice_sort_axioms, of zero_cstat "[demo_unit 9 4 True, demo_unit 3 6 True, demo_unit 5 2 False]"
      "\<lambda>p. f_val (wuDurationUs p)"]
    by (auto simp: demo_unit_def f_val_def three_def pct_def)
qed

end
