(* ===== verification/Spec2Isabelle.thy ===== *)
theory Spec2Isabelle
  imports Prelude LinkedList Utils Float64 Env Bitmap Wire Credit_Session Credit_Drained Pcc_Control Pcc_Server Pcc_System Pcc_Invariant Netbench Pcc_Properties Client_Properties Breakwater Protego Utils_Properties Control_Properties Controllers Msem_Properties Plain_Properties Seda_Client_Properties Perf End_To_End Rpc Netbench_Server Netbench_Client Netbench_Experiment
begin

text \<open>
  \<^bold>\<open>Svalinn for Go.\<close>  This library models the overload-control RPC system of the repository and proves
  what makes it correct.  Paths are relative to \<open>src/\<close>.

  \<^bold>\<open>The program.\<close>  A server (\<open>ovldctlrpc/*/*_server.go\<close>) accepts TCP connections.  Each connection is a
  session with 64 request slots, served by a receiver, one worker per request and one sender, which share
  the session under a lock and a condition variable.  The credit-based algorithms (\<open>pcc\<close>, which is
  Svalinn, \<open>breakwater\<close> and \<open>protego\<close>) let a client send only what its credits allow: a controller
  adapts a global pool, every response carries the session's share, and sessions that have run dry wait
  in per-processor \<^emph>\<open>drained\<close> lists until credit is handed to them.  \<open>seda\<close> controls the rate at the client with
  a token bucket, and \<open>nocontrol\<close> only drops.  The clients (\<open>*_client.go\<close>) queue requests, keep credits
  or tokens, and age requests out with a timer.  \<open>rpc.go\<close> chooses among the five.  \<open>msemaphore\<close> is a
  semaphore whose capacity is learnt by a bandit; \<open>perf\<close> caches the counters that the controllers read;
  \<open>utils\<close> has intrusive lists, I/O loops, slices and a spin lock; \<open>apps/netbench\<close> is the benchmark:
  a server with synthetic work and a load generator.

  \<^bold>\<open>Conventions.\<close>  Unsigned integers are words and wrap; \<open>int\<close> is an integer whose arithmetic goes through
  \<open>iadd\<close>, \<open>isub\<close>, \<open>idiv\<close> (64-bit two's complement, division by zero panics); \<open>float64\<close> is IEEE binary64 with
  exact rational values and round-to-nearest-even (theory \<open>Float64\<close>).  A result \<open>None\<close> is a panic, or a
  loop that does not return; \<open>no_panic\<close> properties therefore also state termination.  Loops over a
  connection are \<open>partial_function (option)\<close>; no fuel is used.  Pointers to list nodes live in an explicit
  heap, since nodes move between lists.  Whatever is outside the repository or read from the machine is an
  argument: the connection (\<open>reader\<close>, \<open>writer\<close>), the bitmap package (\<open>bitmap_ops\<close>), clocks, counters and
  random numbers (\<open>world\<close>), files, \<open>gob\<close>.  Their documented behaviour is stated in locales
  (\<open>byte_stream\<close>, \<open>byte_sink\<close>, \<open>bitmap\<close>, \<open>slice_sort\<close>), each interpreted on an executable instance.

  \<^bold>\<open>Concurrency.\<close>  A critical section is one function.  Transition systems interleave them: \<open>spcc_step\<close>
  (receiver, workers, sender, controller, closing clients; theory \<open>Pcc_System\<close>), \<open>plain_step\<close> (SEDA and
  no-control servers), \<open>sem_step\<close> (semaphore), \<open>csd_step\<close> and \<open>client_step\<close> (clients), \<open>unit_step\<close> (load
  generator).  Their invariants are proved by rule induction, with no bound on the number of steps, except
  that at most \<open>max_sessions\<close>, 2^50, sessions are accepted, so that no 64-bit counter overflows.

  \<^bold>\<open>Theories.\<close>
  \<^item> \<open>Prelude\<close>, \<open>Env\<close>, \<open>Float64\<close>, \<open>Float_Sign\<close>: machine arithmetic, the world, floating point.
  \<^item> \<open>LinkedList\<close>, \<open>Utils\<close>, \<open>Utils_Properties\<close> (\<open>utils/*.go\<close>): intrusive lists refine HOL lists; slice loops are
    filters; \<open>ReadFull\<close> and \<open>WriteFull\<close> return and transfer everything; the spin lock excludes.
  \<^item> \<open>Wire\<close>, \<open>Bitmap\<close>: message layouts of \<open>pcc/pcc_proto.go\<close> and \<open>common/rpc_int.go\<close>, and the bitmap contract.
  \<^item> \<open>Credit_Session\<close>, \<open>Credit_Drained\<close>, \<open>Pcc_Control\<close>, \<open>Pcc_Server\<close> (\<open>pcc/pcc_server.go\<close>, \<open>pcc_config.go\<close>): slots
    and credits of a session, drained lists, the micro-experiment controller, receiver, worker, sender,
    opening and closing.  \<open>Pcc_System\<close>, \<open>Pcc_Invariant\<close>, \<open>Pcc_Properties\<close>, \<open>Control_Properties\<close>: the books of
    credits, slots, counters and drained lists are exact in every interleaving, nothing panics, no
    wake-up is lost, the credit rule is bounded, the controller follows its cycle; and where the code
    departs from its intention.
  \<^item> \<open>Pcc_Client\<close>, \<open>Client_Queue\<close>, \<open>Client_Safety\<close>, \<open>Client_Properties\<close> (\<open>pcc/pcc_client.go\<close>): the request ring
    refines a bounded queue, sending is charged exactly, the client never panics and writes only
    complete messages.
  \<^item> \<open>Breakwater\<close>, \<open>Protego\<close>, \<open>Controllers\<close> (\<open>breakwater/*.go\<close>, \<open>protego/*.go\<close>): protocol, client and sessions are
    those of \<open>pcc\<close> under other names and are defined as such; their own controllers are bounded and
    wake exactly the sessions they should.
  \<^item> \<open>Seda_Server\<close>, \<open>Nocontrol\<close>, \<open>Seda_System\<close>, \<open>Plain_Servers\<close>, \<open>Plain_Properties\<close> (\<open>seda/sd_server.go\<close>,
    \<open>nocontrol/*.go\<close>): one contract (\<open>plain_server\<close>) for both servers, with accounting, safety and wake-ups.
  \<^item> \<open>Seda_Client\<close>, \<open>Seda_Client_Safety\<close>, \<open>Seda_Client_Properties\<close> (\<open>seda/sd_client.go\<close>): the token bucket stays in
    its bounds in spite of rounding, bursts are bounded, which sample the controller uses; round robin
    of the client without control.
  \<^item> \<open>Msemaphore\<close>, \<open>Msem_System\<close>, \<open>Msem_Properties\<close> (\<open>msemaphore/*.go\<close>): both capacity controllers keep the contract
    \<open>sem_capacity\<close>; the semaphore is safe, FIFO, and strands nobody.
  \<^item> \<open>Perf\<close> (\<open>perf/perf.go\<close>, \<open>go/src/runtime/debug.go\<close>): the cached counters are the last readings.
  \<^item> \<open>Rpc\<close> (\<open>ovldctlrpc/rpc.go\<close>): dispatch to the algorithm chosen; registration happens once.
  \<^item> \<open>Netbench\<close>, \<open>Netbench_Server\<close> (\<open>apps/netbench/server/*.go\<close>, \<open>common/proto.go\<close>): the handler as the servers
    call it, and a refinement of it with worker pools, semaphore and clock; statistics service; start-up.
  \<^item> \<open>Netbench_Client\<close>, \<open>Netbench_Experiment\<close> (\<open>apps/netbench/client/netbench_client.go\<close>): the table of work units
    is well-formed under all goroutines, the figures of an experiment are consistent, the latencies are
    order statistics for any sorting algorithm.
  \<^item> \<open>End_To_End\<close> and the theorem below: one request from the client's bytes through receiver, worker, handler
    and sender back to the client.

  \<^bold>\<open>Not modelled.\<close>  Listening, accepting and dialling (a connection or its absence is an argument), printing,
  sleeping and the scheduling of goroutines within a critical section; the Go runtime and toolchain
  under \<open>go/\<close> except \<open>QueueDelay\<close>; the C and eBPF code of \<open>pmc_mod\<close> and \<open>netdelay\<close> behind cgo; the encodings of
  \<open>gob\<close>; test drivers and deployment scripts.  The handler of the benchmark runs atomically in
  \<open>Netbench_Server\<close>; interleavings on the semaphore are those of \<open>Msem_System\<close>.  Liveness is stated as the
  absence of lost wake-ups and of stuck states, not under a fairness assumption.
\<close>

text \<open>
  C37.  One request through the whole SEDA stack.  A client writes a well-formed benchmark request; the
  server's stream holds those bytes.  If the session has a free slot, the queueing delay is below the
  threshold and the network accepts writes, then one pass of the receiver starts a worker on a slot,
  the worker finishes and signals the sender, the sender's next collection contains the slot, and its
  transmission writes bytes from which the client's receive loop returns 24 and leaves in the caller's
  buffer exactly the response of the handler: its magic number, the opaque value of the request and the
  service time.
\<close>

theorem netbench_request_served:
  fixes s :: "('b, 'k) ssdSession" and kc :: "'c"
  assumes "plain_parts B bits wr sent rd pending (NetbenchReqHandler False tw us)" "csd_client cwr csent crd cpending"
    and "\<forall>bs k. fst (snd (wr bs k)) = None" "\<forall>bs k. fst (snd (cwr bs k)) = None"
    and "dslots_ok bits s" "card (doccupied s) < 64" "0 \<le> dNumPending s" "dNumPending s \<le> 64" "dpooled_ok pooled"
    and "length pad = 7" "nqMagic req = NetbenchReqMagic" "QueueDelayMax_of w div 1000 < thresh"
    and wire: "csd_write cwr (csd_call_hdr ident 32 now) (NetbenchReq_bytes pad req) kc = Some (True, n, kc')"
      "csent kc' = csent kc @ pending (dConn s)"
  shows "\<exists>i os1 s1 os2 s2 os3 s3 reply.
    ssdRecvPass B rd pooled os s = Some (SdSpawn i, os1, s1) \<and>
    ssdWorker B thresh (NetbenchReqHandler False tw us) i os1 s1 w = Some (os2, s2) \<and> dSignalled s2 \<and>
    i \<in> set (bmRange B (fst (ssdSenderCollect B s2))) \<and>
    ssdSendOne B wr i os2 (snd (ssdSenderCollect B s2)) = Some (os3, s3) \<and> oRespTx os3 = oRespTx os2 + 1 \<and>
    sent (dConn s3) = sent (dConn s2) @ reply \<and>
    (\<forall>cc rest buf w'. csd_conn_ok cc \<longrightarrow> scResIdx cc < 2 ^ 62 \<longrightarrow> cpending (scC cc) = reply @ rest \<longrightarrow> 24 \<le> length buf \<longrightarrow>
      (\<exists>buf' cc' w''. csdRecvPass g crd (length buf) buf cc w' = Some (ClientRet 24, buf', cc', w'') \<and>
        NetbenchResp_of_bytes buf' = \<lparr>npMagic = NetbenchRespMagic, npOpaque = nqOpaque req, npWorkUs = us\<rparr>))"
proof -
  let ?h = "csd_call_hdr ident 32 now" and ?r = "\<lparr>npMagic = NetbenchRespMagic, npOpaque = nqOpaque req, npWorkUs = us\<rparr>"
  let ?rh = "\<lparr>hMagic = SdRespMagic, hOp = SdOpCall, hLen = 24, hId = ident, hTs = now\<rparr> :: ssdHdr"
  note S = assms(1) and C = assms(2)
  have h: "hMagic ?h = SdReqMagic" "hOp ?h = SdOpCall" "hLen ?h = 32" "hId ?h = ident" "hTs ?h = now"
    by (simp_all add: csd_call_hdr_def)
  have ln: "length (NetbenchReq_bytes pad req) = 32" by (rule NetbenchReq_length [OF assms(10)])
  have "pending (dConn s) = CsdHdr_bytes ?h @ NetbenchReq_bytes pad req @ []"
    using csd_client.write_call [OF C assms(4), of ?h "NetbenchReq_bytes pad req" kc] wire h(3) ln by auto
  from plain_parts.Request_served [OF S assms(5-9) this h(1,2) _ _ assms(12,3), of 24 "NetbenchResp_bytes ?r" os]
    Handler_answer [OF _ assms(10,11), of _ tw us] h(3-5) ln
  obtain i os1 s1 os2 s2 os3 s3 where
    p: "ssdRecvPass B rd pooled os s = Some (SdSpawn i, os1, s1)"
      "ssdWorker B thresh (NetbenchReqHandler False tw us) i os1 s1 w = Some (os2, s2)" "dSignalled s2"
      "i \<in> set (bmRange B (fst (ssdSenderCollect B s2)))"
      "ssdSendOne B wr i os2 (snd (ssdSenderCollect B s2)) = Some (os3, s3)" "oRespTx os3 = oRespTx os2 + 1"
      "sent (dConn s3) = sent (dConn s2) @ CsdHdr_bytes ?rh @ NetbenchResp_bytes ?r"
    by (auto simp: SrpcBufSize_def)
  have "\<exists>buf' cc' w''. csdRecvPass g crd (length buf) buf cc w' = Some (ClientRet 24, buf', cc', w'') \<and> NetbenchResp_of_bytes buf' = ?r"
    if "csd_conn_ok cc" "scResIdx cc < 2 ^ 62" "cpending (scC cc) = (CsdHdr_bytes ?rh @ NetbenchResp_bytes ?r) @ rest" "24 \<le> length buf"
    for cc rest buf w'
    using csd_client.RecvPass_response [OF C that(1,2), of ?rh "NetbenchResp_bytes ?r" rest buf g w'] that(3,4)
    by (fastforce simp: SrpcBufSize_def u2i_def NetbenchResp_roundtrip)
  with p show ?thesis by blast
qed

definition demo_req :: netbenchReq where
  "demo_req = \<lparr>nqMagic = NetbenchReqMagic, nqOpaque = 77, nqIsCpuBoundReq = True, nqHash = 9\<rparr>"

definition demo_wire :: "byte list" where
  "demo_wire = CsdHdr_bytes (csd_call_hdr 4 32 100) @ NetbenchReq_bytes (replicate 7 0) demo_req"

definition demo_called :: "(bool list, mem_conn) ssdSession" where
  "demo_called = demo_zsession\<lparr>dConn := \<lparr>segments = [demo_wire], written = []\<rparr>\<rparr>"

definition demo_pooled :: ssdCtx where
  "demo_pooled = \<lparr>dCmn = \<lparr>Idx = 0, CtxId = 0, ReqLen = 0, RespLen = 0, ReqBuf = replicate SrpcBufSize 0,
     RespBuf = replicate SrpcBufSize 0, Drop = False, Track = False, DsCredit = 0, ShouldPut = False\<rparr>, dTs = 0\<rparr>"

lemma demo_called_ok: "dslots_ok bools demo_called" "doccupied demo_called = {}" "dNumPending demo_called = 0"
  by (auto simp: demo_called_def demo_zsession_def ssdNewSession_def Let_def dslots_ok_def doccupied_def
      bm.fold_remove bm.fold_set bm.bits_grow bm.bits_zero SsdMaxWindow_def)

lemma demo_pooled_ok: "dpooled_ok demo_pooled"
  by (simp add: dpooled_ok_def demo_pooled_def)

theorem netbench_request_served_witness:
  "\<exists>i os1 s1 os2 s2 reply buf' cc' w''.
     ssdRecvPass boolmap mem_read demo_pooled demo_zops demo_called = Some (SdSpawn i, os1, s1) \<and>
     ssdWorker boolmap SedaQdelayThresh demo_handler i os1 s1 demo_sworld = Some (os2, s2) \<and> dSignalled s2 \<and>
     csdRecvPass sd_config mem_read 24 (replicate 24 0) (demo_sconn\<lparr>scC := \<lparr>segments = [reply], written = []\<rparr>\<rparr>) demo_sworld =
       Some (ClientRet 24, buf', cc', w'') \<and>
     NetbenchResp_of_bytes buf' = \<lparr>npMagic = NetbenchRespMagic, npOpaque = 77, npWorkUs = 5\<rparr>"
proof -
  let ?cc = "\<lambda>reply. demo_sconn\<lparr>scC := \<lparr>segments = [reply], written = []\<rparr>\<rparr>"
  have acc: "\<forall>bs k. fst (snd (mem_write bs k)) = None" by (simp add: mem_write_def)
  have cc: "csd_conn_ok (?cc reply)" "scResIdx (?cc reply) < 2 ^ 62" for reply
    using demo_sconn_ok by (simp_all add: csd_conn_ok_def csd_queue_ok_def demo_sconn_def csd_new_conn_def)
  have h: "hLen (csd_call_hdr 4 32 100) = 32" by (simp add: csd_call_hdr_def)
  obtain n k where w: "csd_write mem_write (csd_call_hdr 4 32 100) (NetbenchReq_bytes (replicate 7 0) demo_req) demo_kconn = Some (True, n, k)"
      "written k = written demo_kconn @ concat (segments (dConn demo_called))"
    using mc.write_call [OF acc, of "csd_call_hdr 4 32 100" "NetbenchReq_bytes (replicate 7 0) demo_req" demo_kconn]
      NetbenchReq_length [of "replicate 7 0" demo_req] by (auto simp: h demo_called_def demo_wire_def)
  have early: "QueueDelayMax_of demo_sworld div 1000 < SedaQdelayThresh"
    by (simp add: QueueDelayMax_of_def demo_sworld_def SedaQdelayThresh_def)
  have free: "card (doccupied demo_called) < 64" "0 \<le> dNumPending demo_called" "dNumPending demo_called \<le> 64"
    "length (replicate 7 (0 :: byte)) = 7" "nqMagic demo_req = NetbenchReqMagic" "nqOpaque demo_req = 77"
    using demo_called_ok by (simp_all add: demo_req_def)
  from netbench_request_served [OF nbp.plain_parts_axioms [of False False 5] mc.csd_client_axioms acc acc demo_called_ok(1)
      free(1-3) demo_pooled_ok free(4,5) early w, of demo_zops sd_config]
  obtain i os1 s1 os2 s2 reply where
    p: "ssdRecvPass boolmap mem_read demo_pooled demo_zops demo_called = Some (SdSpawn i, os1, s1)"
      "ssdWorker boolmap SedaQdelayThresh demo_handler i os1 s1 demo_sworld = Some (os2, s2)" "dSignalled s2"
    and c: "\<And>(cc :: (unit, mem_conn) csdConn) rest buf w'. csd_conn_ok cc \<Longrightarrow> scResIdx cc < 2 ^ 62 \<Longrightarrow> concat (segments (scC cc)) = reply @ rest \<Longrightarrow>
      24 \<le> length buf \<Longrightarrow> \<exists>buf' cc' w''. csdRecvPass sd_config mem_read (length buf) buf cc w' = Some (ClientRet 24, buf', cc', w'') \<and>
        NetbenchResp_of_bytes buf' = \<lparr>npMagic = NetbenchRespMagic, npOpaque = 77, npWorkUs = 5\<rparr>"
    unfolding demo_handler_def [symmetric] free(6) by blast
  from c [OF cc(1) cc(2), of reply "[]" "replicate 24 0" demo_sworld] show ?thesis using p by simp blast
qed

end
